(* ===== verification/Rnp_Prelude.thy ===== *)
theory Rnp_Prelude
  imports Main "HOL-Library.Word"
begin

text \<open>
  Shared vocabulary of the development: bytes and byte buffers, the result codes of
  \<^verbatim>\<open>include/rnp/rnp_def.h\<close>, 64-bit wrap-around on sizes, \<^verbatim>\<open>memcpy\<close> into a buffer, and
  the generic facts on lists and words that the component theories rely on.

  Conventions used by every theory.  A C buffer with its length is a list of bytes.  A C
  \<^verbatim>\<open>size_t\<close>, \<^verbatim>\<open>unsigned\<close> or \<^verbatim>\<open>uint64_t\<close> is a \<^typ>\<open>nat\<close>; the places where the source's
  arithmetic can wrap use \<open>u64\<close> and \<open>sub64\<close>.  A function that returns a byte count or
  a negative value returns \<^typ>\<open>'a option\<close>, with \<^const>\<open>None\<close> for the negative value and the
  bytes themselves for the count.  Memory allocation is an oracle
  \<open>al :: nat \<Rightarrow> bool\<close>: \<open>al n\<close> says whether an allocation of \<open>n\<close> bytes succeeds.
\<close>

unbundle bit_operations_syntax

section \<open>Types\<close>

type_synonym byte = "8 word"

type_synonym bytes = "8 word list"

type_synonym alloc = "nat \<Rightarrow> bool"

text \<open>Result codes, \<^verbatim>\<open>include/rnp/rnp_def.h\<close>.\<close>

datatype rnp_result =
    RNP_SUCCESS
  | RNP_ERROR_GENERIC
  | RNP_ERROR_BAD_FORMAT
  | RNP_ERROR_BAD_PARAMETERS
  | RNP_ERROR_NOT_IMPLEMENTED
  | RNP_ERROR_NOT_SUPPORTED
  | RNP_ERROR_OUT_OF_MEMORY
  | RNP_ERROR_SHORT_BUFFER
  | RNP_ERROR_NULL_POINTER
  | RNP_ERROR_ACCESS
  | RNP_ERROR_READ
  | RNP_ERROR_WRITE
  | RNP_ERROR_BAD_STATE
  | RNP_ERROR_MAC_INVALID
  | RNP_ERROR_SIGNATURE_INVALID
  | RNP_ERROR_KEY_GENERATION
  | RNP_ERROR_BAD_PASSWORD
  | RNP_ERROR_KEY_NOT_FOUND
  | RNP_ERROR_NO_SUITABLE_KEY
  | RNP_ERROR_DECRYPT_FAILED
  | RNP_ERROR_RNG
  | RNP_ERROR_NO_SIGNATURES_FOUND
  | RNP_ERROR_NOT_ENOUGH_DATA
  | RNP_ERROR_UNKNOWN_TAG
  | RNP_ERROR_PACKET_NOT_CONSUMED
  | RNP_ERROR_NO_USERID
  | RNP_ERROR_EOF

section \<open>Machine arithmetic and buffers\<close>

definition u64 :: "nat \<Rightarrow> nat" where
  "u64 n = n mod 2 ^ 64"

definition sub64 :: "nat \<Rightarrow> nat \<Rightarrow> nat" where
  "sub64 a b = (if b \<le> a then a - b else 2 ^ 64 + a - b)"

text \<open>\<^verbatim>\<open>(uint8_t) n\<close>: the low eight bits of an unsigned value.\<close>

definition to_byte :: "nat \<Rightarrow> byte" where
  "to_byte n = word_of_nat n"

text \<open>\<^verbatim>\<open>memcpy(buf + off, bs, length bs)\<close> on the initialised part of a buffer.\<close>

definition mem_write :: "nat \<Rightarrow> bytes \<Rightarrow> bytes \<Rightarrow> bytes" where
  "mem_write off bs buf = take off buf @ bs @ drop (off + length bs) buf"

section \<open>Lemma collections\<close>

named_theorems src_defs \<open>definitions of the source operations\<close>

named_theorems src_spec \<open>what the source operations do to the abstract byte stream\<close>

named_theorems dst_spec \<open>what the destination operations do to the abstract output\<close>

named_theorems len_simps \<open>arithmetic of packet lengths\<close>

section \<open>Generic facts\<close>

lemma u64_small [simp]: "n < 2 ^ 64 \<Longrightarrow> u64 n = n"
  by (simp add: u64_def)

lemma u64_less [simp]: "u64 n < 2 ^ 64"
  by (simp add: u64_def)

lemma sub64_le [simp]: "b \<le> a \<Longrightarrow> sub64 a b = a - b"
  by (simp add: sub64_def)

text \<open>
  \<^const>\<open>sub64\<close> is subtraction modulo \<open>2 ^ 64\<close>, and adding back what was subtracted
  wraps around to the minuend.
\<close>

lemma u64_add_sub64:
  assumes "a < 2 ^ 64" and "b < 2 ^ 64"
  shows "u64 (b + sub64 a b) = a"
proof (cases "b \<le> a")
  case True
  with assms show ?thesis by simp
next
  case False
  then have "b + (2 ^ 64 + a - b) = a + 2 ^ 64" using assms by simp
  with False assms(1) show ?thesis by (simp add: sub64_def u64_def)
qed

lemma unat_to_byte [simp]: "unat (to_byte n) = n mod 256"
  by (simp add: to_byte_def unat_of_nat)

lemma to_byte_literals [simp]: "to_byte 0 = 0" "to_byte (Suc 0) = 1" "to_byte (numeral n) = numeral n"
  by (simp_all add: to_byte_def)

lemma to_byte_unat [simp]: "to_byte (unat b) = b"
  by (simp add: to_byte_def)

lemma unat_byte_less [simp]: "unat (b :: byte) < 256"
  using unsigned_less [of b, where 'a = nat] by simp

lemma unat_byte_le [simp]: "unat (b :: byte) \<le> 255"
  using unat_byte_less [of b] by linarith

lemma byte_eq_iff_unat: "(a :: byte) = b \<longleftrightarrow> unat a = unat b"
  by (simp add: word_unat_eq_iff)

lemma length_mem_write [simp]:
  "length (mem_write off bs buf) = max (min off (length buf) + length bs) (length buf - off + min off (length buf))"
  by (simp add: mem_write_def)

lemma mem_write_append [simp]: "off = length buf \<Longrightarrow> mem_write off bs buf = buf @ bs"
  by (simp add: mem_write_def)

lemma mem_write_0 [simp]: "mem_write 0 bs buf = bs @ drop (length bs) buf"
  by (simp add: mem_write_def)

lemma take_mem_write_0 [simp]: "n \<le> length bs \<Longrightarrow> take n (mem_write 0 bs buf) = take n bs"
  by simp

lemma list_of_length_1: "length xs = Suc 0 \<longleftrightarrow> (\<exists>a. xs = [a])"
  by (cases xs) auto

lemma list_of_length_2: "length xs = 2 \<longleftrightarrow> (\<exists>a b. xs = [a, b])"
  by (cases xs; cases "tl xs") auto

lemma take_eq_iff_prefix: "length bs \<le> length xs \<Longrightarrow> take (length bs) xs = bs \<longleftrightarrow> (\<exists>ys. xs = bs @ ys)"
  by (metis append_eq_conv_conj append_take_drop_id)

section \<open>Assembling integers from bytes\<close>

lemma or_push_bit_nat: "y < 2 ^ n \<Longrightarrow> push_bit n x OR y = x * 2 ^ n + (y :: nat)"
proof -
  assume y: "y < 2 ^ n"
  then have "\<not> bit y k" if "n \<le> k" for k
    using that by (metis bit_take_bit_iff not_less take_bit_nat_eq_self)
  then have "push_bit n x + y = push_bit n x OR y"
    by (intro disjunctive_add) (auto simp: bit_push_bit_iff_nat)
  then show ?thesis by (simp add: push_bit_eq_mult)
qed

lemma push_bit_byte_less: "push_bit n (unat (b :: byte)) < 2 ^ (n + 8)"
  using unat_byte_less [of b] by (simp add: push_bit_eq_mult power_add)

lemma unat_ucast_byte [simp]: "8 \<le> LENGTH('a) \<Longrightarrow> unat (ucast (b :: byte) :: 'a::len word) = unat b"
proof -
  assume "8 \<le> LENGTH('a)"
  then have "(2::nat) ^ 8 \<le> 2 ^ LENGTH('a)" by (rule power_increasing) simp
  then have "unat b < 2 ^ LENGTH('a)" by (intro order.strict_trans2 [OF unat_byte_less]) simp
  then show ?thesis by (simp add: unsigned_ucast_eq take_bit_nat_eq_self)
qed

lemma unat_push_byte:
  assumes "n + 8 \<le> LENGTH('a)"
  shows "unat (push_bit n (ucast (b :: byte)) :: 'a::len word) = push_bit n (unat b)"
proof -
  have "(2::nat) ^ (n + 8) \<le> 2 ^ LENGTH('a)" using assms by (rule power_increasing) simp
  with push_bit_byte_less [of n b] have "push_bit n (unat b) < 2 ^ LENGTH('a)" by linarith
  with assms show ?thesis by (simp add: unsigned_push_bit_eq take_bit_nat_eq_self)
qed

lemma or_push_bit_nat3:
  assumes "c < 2 ^ 8" "d < 2 ^ 8" "b < 2 ^ 8"
  shows "push_bit 24 a OR push_bit 16 b OR push_bit 8 c OR d = a * 2 ^ 24 + b * 2 ^ 16 + c * 2 ^ 8 + (d :: nat)"
proof -
  have "push_bit 8 c OR d = c * 2 ^ 8 + d" using assms(2) by (rule or_push_bit_nat)
  moreover from this have "push_bit 16 b OR (push_bit 8 c OR d) = b * 2 ^ 16 + (c * 2 ^ 8 + d)"
    using assms by (intro trans [OF _ or_push_bit_nat]) auto
  moreover from this have "push_bit 24 a OR (push_bit 16 b OR (push_bit 8 c OR d)) = a * 2 ^ 24 + (b * 2 ^ 16 + (c * 2 ^ 8 + d))"
    using assms by (intro trans [OF _ or_push_bit_nat]) auto
  ultimately show ?thesis by (simp add: or.assoc)
qed
lemma be32_decompose:
  assumes "n < 2 ^ 32"
  shows "n div 2 ^ 24 mod 256 * 2 ^ 24 + n div 2 ^ 16 mod 256 * 2 ^ 16 + n div 2 ^ 8 mod 256 * 2 ^ 8 + n mod 256
         = (n :: nat)"
proof -
  define a b c where "a = n div 256" and "b = a div 256" and "c = b div 256"
  have "n div 2 ^ 8 = a" "n div 2 ^ 16 = b" "n div 2 ^ 24 = c"
    by (simp_all add: a_def b_def c_def div_mult2_eq [symmetric])
  moreover have "n = 256 * a + n mod 256" "a = 256 * b + a mod 256" "b = 256 * c + b mod 256"
    by (simp_all add: a_def b_def c_def)
  moreover have "c < 256" using assms by (simp add: a_def b_def c_def div_mult2_eq [symmetric])
  ultimately show ?thesis by simp
qed

end
