(* ===== verification/Stream_Common.thy ===== *)
theory Stream_Common
  imports Rnp_Prelude
begin

text \<open>
  The stream layer, \<^verbatim>\<open>src/src/librepgp/stream-common.c\<close> and \<^verbatim>\<open>stream-common.h\<close>: sources
  with a read-ahead cache and destinations with a write cache.
\<close>

section \<open>Sources: state\<close>

definition PGP_INPUT_CACHE_SIZE :: nat where
  "PGP_INPUT_CACHE_SIZE = 32768"

definition PGP_OUTPUT_CACHE_SIZE :: nat where
  "PGP_OUTPUT_CACHE_SIZE = 32768"

datatype pgp_stream_type =
    PGP_STREAM_NULL
  | PGP_STREAM_FILE
  | PGP_STREAM_MEMORY
  | PGP_STREAM_STDIN
  | PGP_STREAM_STDOUT
  | PGP_STREAM_PACKET
  | PGP_STREAM_PARLEN_PACKET
  | PGP_STREAM_LITERAL
  | PGP_STREAM_COMPRESSED
  | PGP_STREAM_ENCRYPTED
  | PGP_STREAM_SIGNED
  | PGP_STREAM_ARMORED
  | PGP_STREAM_CLEARTEXT

text \<open>
  \<^verbatim>\<open>pgp_source_cache_t\<close>.  \<open>cbuf\<close> is the initialised part of the 32768-byte array;
  \<open>clen\<close> bytes of it are available and \<open>cpos\<close> of these have been consumed.
\<close>

record pgp_source_cache =
  cbuf :: bytes
  cpos :: nat
  clen :: nat
  readahead :: bool

text \<open>
  \<^verbatim>\<open>pgp_source_t\<close>.  The read callback works on the source's private data
  (\<open>src_param\<close>, of a type that each kind of source chooses) and returns the new private
  data and the bytes it stored, or \<^const>\<open>None\<close> for a negative result.  A pointer that may be
  \<^verbatim>\<open>NULL\<close> is an option.
\<close>

record 'q pgp_source =
  src_rdf :: "'q \<Rightarrow> nat \<Rightarrow> 'q \<times> bytes option"
  src_finishf :: "('q \<Rightarrow> 'q \<times> rnp_result) option"
  src_closef :: "('q \<Rightarrow> 'q) option"
  src_type :: pgp_stream_type
  src_size :: nat
  src_readb :: nat
  src_cache :: "pgp_source_cache option"
  src_param :: 'q
  src_eofb :: bool
  src_knownsize :: bool

text \<open>The unread bytes of the cache.\<close>

definition cached :: "pgp_source_cache \<Rightarrow> bytes" where
  "cached c = take (clen c - cpos c) (drop (cpos c) (cbuf c))"

section \<open>Sources: operations\<close>

text \<open>How the read loop of \<^verbatim>\<open>src_read\<close> is left: all bytes read, end of data, or an error.\<close>

datatype loop_end = Finished | AtEof | ReadError

function src_read_loop ::
    "('q \<Rightarrow> nat \<Rightarrow> 'q \<times> bytes option) \<Rightarrow> 'q \<Rightarrow> pgp_source_cache \<Rightarrow> bytes \<Rightarrow> nat \<Rightarrow> bool
     \<Rightarrow> 'q \<times> pgp_source_cache \<times> bytes \<times> loop_end" where
  "src_read_loop rd p c buf left ra =
     (if left = 0 then (p, c, buf, Finished)
      else if PGP_INPUT_CACHE_SIZE < left \<or> \<not> ra then
        (case rd p left of
           (p', None) \<Rightarrow> (p', c, buf, ReadError)
         | (p', Some bs) \<Rightarrow>
             if bs = [] then (p', c, buf, AtEof)
             else src_read_loop rd p' c (buf @ bs) (left - length bs) ra)
      else
        (case rd p PGP_INPUT_CACHE_SIZE of
           (p', None) \<Rightarrow> (p', c, buf, ReadError)
         | (p', Some bs) \<Rightarrow>
             if bs = [] then (p', c, buf, AtEof)
             else let c' = c\<lparr>cbuf := mem_write 0 bs (cbuf c)\<rparr> in
               if length bs < left
               then src_read_loop rd p' c' (buf @ bs) (left - length bs) ra
               else (p', c'\<lparr>cpos := left, clen := length bs\<rparr>, buf @ take left bs, Finished)))"
  by pat_completeness auto
termination
  by (relation "measure (\<lambda>(rd, p, c, buf, left, ra). left)") auto

declare src_read_loop.simps [simp del]

text \<open>The label \<^verbatim>\<open>finish\<close> of \<^verbatim>\<open>src_read\<close>.\<close>

definition src_read_finish :: "'q pgp_source \<Rightarrow> bytes \<Rightarrow> 'q pgp_source \<times> bytes option" where
  "src_read_finish src buf =
     (let src' = src\<lparr>src_readb := u64 (src_readb src + length buf)\<rparr>;
          src'' = (if src_knownsize src' \<and> src_readb src' = src_size src'
                   then src'\<lparr>src_eofb := True\<rparr> else src')
      in (src'', Some buf))"

text \<open>
  \<^verbatim>\<open>src_read\<close>.  The source dereferences the cache before it checks the pointer, so a
  source without a cache (a closed one) cannot be read: the model answers \<^const>\<open>None\<close>.
\<close>

definition src_read :: "'q pgp_source \<Rightarrow> nat \<Rightarrow> 'q pgp_source \<times> bytes option" where
  "src_read src len =
     (case src_cache src of
        None \<Rightarrow> (src, None)
      | Some cache \<Rightarrow>
          if src_eofb src \<or> len = 0 then (src, Some [])
          else
            let clamp = (src_knownsize src \<and> src_size src < u64 (src_readb src + len));
                len' = (if clamp then sub64 (src_size src) (src_readb src) else len);
                ra = (\<not> clamp \<and> readahead cache)
            in if cpos cache < clen cache \<and> len' \<le> clen cache - cpos cache
               then src_read_finish
                      (src\<lparr>src_cache := Some (cache\<lparr>cpos := cpos cache + len'\<rparr>)\<rparr>)
                      (take len' (cached cache))
               else
                 let buf = cached cache;
                     cache' = (if cpos cache < clen cache then cache\<lparr>cpos := clen cache\<rparr> else cache)
                 in (case src_read_loop (src_rdf src) (src_param src) cache' buf
                            (len' - length buf) ra of
                       (p, c, out, st) \<Rightarrow>
                         let src' = src\<lparr>src_param := p, src_cache := Some c\<rparr>
                         in (case st of
                               Finished \<Rightarrow> src_read_finish src' out
                             | AtEof \<Rightarrow> src_read_finish (src'\<lparr>src_eofb := True\<rparr>) out
                             | ReadError \<Rightarrow> (src', None))))"

function src_peek_loop ::
    "('q \<Rightarrow> nat \<Rightarrow> 'q \<times> bytes option) \<Rightarrow> 'q \<Rightarrow> pgp_source_cache \<Rightarrow> nat \<Rightarrow> bool
     \<Rightarrow> 'q \<times> pgp_source_cache \<times> bytes option" where
  "src_peek_loop rd p c len ra =
     (if len \<le> clen c then (p, c, None)
      else
        (case rd p (if ra then PGP_INPUT_CACHE_SIZE - clen c else len - clen c) of
           (p', None) \<Rightarrow> (p', c, None)
         | (p', Some bs) \<Rightarrow>
             if bs = [] then (p', c, Some (take (clen c) (cbuf c)))
             else let c' = c\<lparr>cbuf := mem_write (clen c) bs (cbuf c), clen := clen c + length bs\<rparr> in
               if len \<le> clen c' then (p', c', Some (take len (cbuf c')))
               else src_peek_loop rd p' c' len ra))"
  by pat_completeness auto
termination
  by (relation "measure (\<lambda>(rd, p, c, len, ra). len - clen c)") (auto simp: not_le neq_Nil_conv)

declare src_peek_loop.simps [simp del]

definition src_peek :: "'q pgp_source \<Rightarrow> nat \<Rightarrow> 'q pgp_source \<times> bytes option" where
  "src_peek src len =
     (case src_cache src of
        None \<Rightarrow> (src, None)
      | Some cache \<Rightarrow>
          if PGP_INPUT_CACHE_SIZE < len then (src, None)
          else if src_eofb src then (src, Some [])
          else
            let clamp = (src_knownsize src \<and> src_size src < u64 (src_readb src + len));
                len' = (if clamp then sub64 (src_size src) (src_readb src) else len);
                ra = (\<not> clamp \<and> readahead cache)
            in if len' \<le> clen cache - cpos cache
               then (src, Some (take len' (cached cache)))
               else
                 let cache' = (if 0 < cpos cache
                               then cache\<lparr>cbuf := mem_write 0 (cached cache) (cbuf cache),
                                          clen := clen cache - cpos cache, cpos := 0\<rparr>
                               else cache)
                 in (case src_peek_loop (src_rdf src) (src_param src) cache' len' ra of
                       (p, c, r) \<Rightarrow> (src\<lparr>src_param := p, src_cache := Some c\<rparr>, r)))"

text \<open>\<^verbatim>\<open>src_skip\<close>; the result is the number of bytes skipped.\<close>

definition src_skip :: "alloc \<Rightarrow> 'q pgp_source \<Rightarrow> nat \<Rightarrow> 'q pgp_source \<times> nat option" where
  "src_skip al src len =
     (case src_cache src of
        Some cache \<Rightarrow>
          if len \<le> clen cache - cpos cache
          then (src\<lparr>src_readb := u64 (src_readb src + len),
                    src_cache := Some (cache\<lparr>cpos := cpos cache + len\<rparr>)\<rparr>, Some len)
          else if 16 \<le> len \<and> \<not> al len then (src, None)
          else (case src_read src len of (src', r) \<Rightarrow> (src', map_option length r))
      | None \<Rightarrow>
          if 16 \<le> len \<and> \<not> al len then (src, None)
          else (case src_read src len of (src', r) \<Rightarrow> (src', map_option length r)))"

definition src_finish :: "'q pgp_source \<Rightarrow> 'q pgp_source \<times> rnp_result" where
  "src_finish src =
     (case src_finishf src of
        None \<Rightarrow> (src, RNP_SUCCESS)
      | Some f \<Rightarrow> (case f (src_param src) of (p, res) \<Rightarrow> (src\<lparr>src_param := p\<rparr>, res)))"

definition src_eof :: "'q pgp_source \<Rightarrow> 'q pgp_source \<times> bool" where
  "src_eof src =
     (if src_eofb src then (src, True)
      else case src_peek src 1 of (src', r) \<Rightarrow> (src', r = Some []))"

definition src_close :: "'q pgp_source \<Rightarrow> 'q pgp_source" where
  "src_close src =
     (let src' = (case src_closef src of None \<Rightarrow> src
                  | Some f \<Rightarrow> src\<lparr>src_param := f (src_param src)\<rparr>)
      in src'\<lparr>src_cache := None\<rparr>)"

definition CH_LF :: byte where "CH_LF = 10"

definition CH_CR :: byte where "CH_CR = 13"

definition src_skip_eol :: "alloc \<Rightarrow> 'q pgp_source \<Rightarrow> 'q pgp_source \<times> bool" where
  "src_skip_eol al src =
     (case src_peek src 2 of
        (src', None) \<Rightarrow> (src', False)
      | (src', Some eol) \<Rightarrow>
          if 1 \<le> length eol \<and> eol ! 0 = CH_LF then (fst (src_skip al src' 1), True)
          else if length eol = 2 \<and> eol ! 0 = CH_CR \<and> eol ! 1 = CH_LF
          then (fst (src_skip al src' 2), True)
          else (src', False))"

text \<open>
  The inner loop of \<^verbatim>\<open>src_peek_line\<close>: scan the bytes that were just stored at
  \<open>buf + clen\<close>.  \<open>Inl\<close> is the line that was found, \<open>Inr\<close> the position reached.
\<close>

fun peek_line_scan :: "bytes \<Rightarrow> nat \<Rightarrow> nat \<Rightarrow> bytes + nat" where
  "peek_line_scan buf pos 0 = Inr pos"
| "peek_line_scan buf pos (Suc k) =
     (if buf ! pos = CH_LF
      then Inl (take (if 0 < pos \<and> buf ! (pos - 1) = CH_CR then pos - 1 else pos) buf)
      else peek_line_scan buf (Suc pos) k)"

lemma peek_line_scan_Inr: "peek_line_scan buf pos k = Inr q \<Longrightarrow> q = pos + k"
  by (induction buf pos k rule: peek_line_scan.induct) (auto split: if_splits)

function src_peek_line_loop ::
    "'q pgp_source \<Rightarrow> bytes \<Rightarrow> nat \<Rightarrow> nat \<Rightarrow> 'q pgp_source \<times> bytes option" where
  "src_peek_line_loop src buf pos len =
     (case src_peek src (if len < pos + 64 then len - pos else 64) of
        (src', None) \<Rightarrow> (src', None)
      | (src', Some bs) \<Rightarrow>
          if bs = [] then (src', None)
          else let buf' = mem_write pos bs buf in
            (case peek_line_scan buf' pos (length bs) of
               Inl line \<Rightarrow> (src', Some line)
             | Inr pos' \<Rightarrow>
                 if pos' < len then src_peek_line_loop src' buf' pos' len else (src', None)))"
  by pat_completeness auto
termination
  by (relation "measure (\<lambda>(src, buf, pos, len). len - pos)")
    (auto simp: neq_Nil_conv dest!: peek_line_scan_Inr)

declare src_peek_line_loop.simps [simp del]

text \<open>The length is decreased first, at its width: a buffer of no bytes is taken for the longest one.\<close>

definition src_peek_line :: "'q pgp_source \<Rightarrow> nat \<Rightarrow> 'q pgp_source \<times> bytes option" where
  "src_peek_line src len = src_peek_line_loop src [] 0 (sub64 len 1)"

text \<open>
  \<^verbatim>\<open>init_src_common\<close>: the source is zeroed, a cache is allocated (32780 bytes on the
  platforms the library supports) and then \<open>paramsize\<close> bytes of private data.  A null
  read callback is one that fails; \<open>null\<close> and \<open>zero\<close> are the private data of the source
  without and with that allocation.
\<close>

definition init_src_common ::
    "alloc \<Rightarrow> nat \<Rightarrow> 'q \<Rightarrow> 'q \<Rightarrow> 'q pgp_source \<times> bool" where
  "init_src_common al paramsize null zero =
     (let src = \<lparr>src_rdf = (\<lambda>p n. (p, None)), src_finishf = None, src_closef = None,
                 src_type = PGP_STREAM_NULL, src_size = 0, src_readb = 0, src_cache = None,
                 src_param = null, src_eofb = False, src_knownsize = False\<rparr>
      in if \<not> al 32780 then (src, False)
         else if 0 < paramsize \<and> \<not> al paramsize then (src, False)
         else (src\<lparr>src_cache := Some \<lparr>cbuf = [], cpos = 0, clen = 0, readahead = True\<rparr>,
                   src_param := (if 0 < paramsize then zero else null)\<rparr>, True))"

section \<open>Memory sources\<close>

text \<open>\<^verbatim>\<open>pgp_source_mem_param_t\<close>; the length is the length of the list.\<close>

record mem_src_param =
  msp_memory :: bytes
  msp_pos :: nat

definition mem_src_read ::
    "mem_src_param option \<Rightarrow> nat \<Rightarrow> mem_src_param option \<times> bytes option" where
  "mem_src_read param len =
     (case param of
        None \<Rightarrow> (None, None)
      | Some m \<Rightarrow>
          let len' = (if length (msp_memory m) - msp_pos m < len
                      then length (msp_memory m) - msp_pos m else len)
          in (Some (m\<lparr>msp_pos := msp_pos m + len'\<rparr>),
              Some (take len' (drop (msp_pos m) (msp_memory m)))))"

definition mem_src_close :: "mem_src_param option \<Rightarrow> mem_src_param option" where
  "mem_src_close param = None"

definition init_mem_src ::
    "alloc \<Rightarrow> bytes \<Rightarrow> mem_src_param option pgp_source \<times> rnp_result" where
  "init_mem_src al mem =
     (case init_src_common al 24 None (Some \<lparr>msp_memory = [], msp_pos = 0\<rparr>) of
        (src, ok) \<Rightarrow>
          if \<not> ok then (src, RNP_ERROR_OUT_OF_MEMORY)
          else (src\<lparr>src_param := Some \<lparr>msp_memory = mem, msp_pos = 0\<rparr>,
                    src_rdf := mem_src_read, src_closef := Some mem_src_close,
                    src_finishf := None, src_size := length mem, src_knownsize := True\<rparr>,
                RNP_SUCCESS))"

section \<open>Destinations\<close>

text \<open>
  \<^verbatim>\<open>pgp_dest_t\<close>.  The write callback gets the private data and the number of bytes
  written so far (\<^verbatim>\<open>dst->writeb\<close>, which the memory destination uses as its offset).
  \<open>dst_cache\<close> holds the \<^verbatim>\<open>clen\<close> cached bytes.
\<close>

record 'q pgp_dest =
  dst_wrf :: "('q \<Rightarrow> nat \<Rightarrow> bytes \<Rightarrow> 'q \<times> rnp_result) option"
  dst_finishf :: "('q \<Rightarrow> 'q \<times> rnp_result) option"
  dst_closef :: "('q \<Rightarrow> bool \<Rightarrow> 'q) option"
  dst_type :: pgp_stream_type
  dst_werr :: rnp_result
  dst_writeb :: nat
  dst_param :: 'q
  dst_no_cache :: bool
  dst_cache :: bytes
  dst_finished :: bool

definition init_dst_common :: "alloc \<Rightarrow> nat \<Rightarrow> 'q \<Rightarrow> 'q \<Rightarrow> 'q pgp_dest \<times> bool" where
  "init_dst_common al paramsize null zero =
     (let dst = \<lparr>dst_wrf = None, dst_finishf = None, dst_closef = None,
                 dst_type = PGP_STREAM_NULL, dst_werr = RNP_SUCCESS, dst_writeb = 0,
                 dst_param = null, dst_no_cache = False, dst_cache = [], dst_finished = False\<rparr>
      in if 0 < paramsize
         then if al paramsize then (dst\<lparr>dst_param := zero\<rparr>, True) else (dst, False)
         else (dst, True))"

text \<open>A call of the write callback and the bookkeeping that follows each such call.\<close>

definition dst_call_write ::
    "('q \<Rightarrow> nat \<Rightarrow> bytes \<Rightarrow> 'q \<times> rnp_result) \<Rightarrow> 'q pgp_dest \<Rightarrow> bytes \<Rightarrow> 'q pgp_dest" where
  "dst_call_write w dst buf =
     (case w (dst_param dst) (dst_writeb dst) buf of
        (p, res) \<Rightarrow> dst\<lparr>dst_param := p, dst_werr := res, dst_writeb := dst_writeb dst + length buf\<rparr>)"

text \<open>The second half of \<^verbatim>\<open>dst_write\<close>: everything fits into the cache or the cache is empty.\<close>

definition dst_write_rest ::
    "('q \<Rightarrow> nat \<Rightarrow> bytes \<Rightarrow> 'q \<times> rnp_result) \<Rightarrow> 'q pgp_dest \<Rightarrow> bytes \<Rightarrow> 'q pgp_dest" where
  "dst_write_rest w dst buf =
     (if dst_no_cache dst \<or> PGP_OUTPUT_CACHE_SIZE < length buf then dst_call_write w dst buf
      else dst\<lparr>dst_cache := dst_cache dst @ buf\<rparr>)"

definition dst_write :: "'q pgp_dest \<Rightarrow> bytes \<Rightarrow> 'q pgp_dest" where
  "dst_write dst buf =
     (case dst_wrf dst of
        None \<Rightarrow> dst
      | Some w \<Rightarrow>
          if 0 < length buf \<and> dst_werr dst = RNP_SUCCESS then
            if 0 < length (dst_cache dst) \<and> PGP_OUTPUT_CACHE_SIZE < length (dst_cache dst) + length buf
            then
              let room = PGP_OUTPUT_CACHE_SIZE - length (dst_cache dst);
                  dst' = (dst_call_write w dst (dst_cache dst @ take room buf))\<lparr>dst_cache := []\<rparr>
              in if dst_werr dst' \<noteq> RNP_SUCCESS then dst'
                 else dst_write_rest w dst' (drop room buf)
            else dst_write_rest w dst buf
          else dst)"

definition dst_flush :: "'q pgp_dest \<Rightarrow> 'q pgp_dest" where
  "dst_flush dst =
     (case dst_wrf dst of
        None \<Rightarrow> dst
      | Some w \<Rightarrow>
          if 0 < length (dst_cache dst) \<and> dst_werr dst = RNP_SUCCESS
          then (dst_call_write w dst (dst_cache dst))\<lparr>dst_cache := []\<rparr>
          else dst)"

definition dst_finish :: "'q pgp_dest \<Rightarrow> 'q pgp_dest \<times> rnp_result" where
  "dst_finish dst =
     (let dst' = dst_flush dst in
      case dst_finishf dst' of
        None \<Rightarrow> (dst'\<lparr>dst_finished := True\<rparr>, RNP_SUCCESS)
      | Some f \<Rightarrow>
          (case f (dst_param dst') of
             (p, res) \<Rightarrow> (dst'\<lparr>dst_param := p, dst_finished := True\<rparr>, res)))"

definition dst_close :: "'q pgp_dest \<Rightarrow> bool \<Rightarrow> 'q pgp_dest" where
  "dst_close dst discard =
     (let dst' = (if \<not> discard \<and> \<not> dst_finished dst then fst (dst_finish dst) else dst) in
      case dst_closef dst' of
        None \<Rightarrow> dst'
      | Some f \<Rightarrow> dst'\<lparr>dst_param := f (dst_param dst') discard\<rparr>)"

section \<open>Memory and null destinations\<close>

text \<open>\<^verbatim>\<open>pgp_dest_mem_param_t\<close>; \<open>mdp_memory\<close> is the initialised part of the allocation.\<close>

record mem_dst_param =
  mdp_maxalloc :: nat
  mdp_allocated :: nat
  mdp_memory :: bytes

definition mem_dst_write ::
    "alloc \<Rightarrow> mem_dst_param option \<Rightarrow> nat \<Rightarrow> bytes \<Rightarrow> mem_dst_param option \<times> rnp_result" where
  "mem_dst_write al param writeb buf =
     (case param of
        None \<Rightarrow> (None, RNP_ERROR_BAD_PARAMETERS)
      | Some m \<Rightarrow>
          let need = writeb + length buf;
              alloc0 = (need * 2 + 4095) div 4096 * 4096;
              alloc1 = (if mdp_maxalloc m < alloc0 then mdp_maxalloc m else alloc0)
          in if mdp_allocated m < need then
               if mdp_maxalloc m < need then (param, RNP_ERROR_OUT_OF_MEMORY)
               else if \<not> al alloc1 then (param, RNP_ERROR_OUT_OF_MEMORY)
               else (Some (m\<lparr>mdp_allocated := alloc1,
                             mdp_memory := mem_write writeb buf (mdp_memory m)\<rparr>), RNP_SUCCESS)
             else (Some (m\<lparr>mdp_memory := mem_write writeb buf (mdp_memory m)\<rparr>), RNP_SUCCESS))"

definition mem_dst_close :: "mem_dst_param option \<Rightarrow> bool \<Rightarrow> mem_dst_param option" where
  "mem_dst_close param discard = None"

text \<open>The limit is an unsigned int of the code: the model is for limits below two to the power of 32.\<close>

definition init_mem_dest :: "alloc \<Rightarrow> nat \<Rightarrow> mem_dst_param option pgp_dest \<times> rnp_result" where
  "init_mem_dest al maxalloc =
     (case init_dst_common al 16 None
             (Some \<lparr>mdp_maxalloc = 0, mdp_allocated = 0, mdp_memory = []\<rparr>) of
        (dst, ok) \<Rightarrow>
          if \<not> ok then (dst, RNP_ERROR_OUT_OF_MEMORY)
          else (dst\<lparr>dst_param := Some \<lparr>mdp_maxalloc = maxalloc, mdp_allocated = 0, mdp_memory = []\<rparr>,
                    dst_wrf := Some (mem_dst_write al), dst_closef := Some mem_dst_close,
                    dst_type := PGP_STREAM_MEMORY, dst_werr := RNP_SUCCESS,
                    dst_no_cache := True\<rparr>, RNP_SUCCESS))"

text \<open>
  The bytes at the pointer that \<^verbatim>\<open>mem_dest_get_memory\<close> returns, as many as were written.
  While nothing was allocated the pointer is null, and there are no bytes at it.
\<close>

definition mem_dest_get_memory :: "mem_dst_param option pgp_dest \<Rightarrow> bytes option" where
  "mem_dest_get_memory dst = map_option mdp_memory (dst_param dst)"

definition null_dst_write :: "unit \<Rightarrow> nat \<Rightarrow> bytes \<Rightarrow> unit \<times> rnp_result" where
  "null_dst_write param writeb buf = (param, RNP_SUCCESS)"

definition null_dst_close :: "unit \<Rightarrow> bool \<Rightarrow> unit" where
  "null_dst_close param discard = param"

text \<open>
  \<^verbatim>\<open>init_null_dest\<close> sets the fields below of the structure it is given and leaves
  \<^verbatim>\<open>finish\<close>, \<^verbatim>\<open>finished\<close> and the cache bytes as they are.
\<close>

definition init_null_dest :: "unit pgp_dest \<Rightarrow> unit pgp_dest \<times> rnp_result" where
  "init_null_dest dst =
     (dst\<lparr>dst_param := (), dst_wrf := Some null_dst_write, dst_closef := Some null_dst_close,
          dst_type := PGP_STREAM_NULL, dst_writeb := 0, dst_cache := [],
          dst_werr := RNP_SUCCESS, dst_no_cache := True\<rparr>, RNP_SUCCESS)"

section \<open>What a source delivers\<close>

text \<open>
  The abstract view of a source is the list of bytes it has still to deliver: what is in
  the cache followed by what its read callback would return.
\<close>

definition cache_ok :: "pgp_source_cache \<Rightarrow> bool" where
  "cache_ok c \<longleftrightarrow> cpos c \<le> clen c \<and> clen c \<le> length (cbuf c) \<and> length (cbuf c) \<le> PGP_INPUT_CACHE_SIZE"

definition src_avail :: "('q \<Rightarrow> bytes) \<Rightarrow> 'q pgp_source \<Rightarrow> bytes" where
  "src_avail rest s =
     (case src_cache s of None \<Rightarrow> [] | Some c \<Rightarrow> cached c @ rest (src_param s))"

definition src_inv ::
    "('q \<Rightarrow> nat \<Rightarrow> 'q \<times> bytes option) \<Rightarrow> ('q \<Rightarrow> bytes) \<Rightarrow> ('q \<Rightarrow> bool) \<Rightarrow> 'q pgp_source \<Rightarrow> bool" where
  "src_inv rd rest ok s \<longleftrightarrow>
     src_rdf s = rd \<and> ok (src_param s) \<and>
     (\<exists>c. src_cache s = Some c \<and> cache_ok c) \<and>
     src_readb s + length (src_avail rest s) < 2 ^ 63 \<and>
     (src_knownsize s \<longrightarrow> src_size s < 2 ^ 63 \<and> src_readb s + length (src_avail rest s) \<le> src_size s) \<and>
     (src_eofb s \<longrightarrow> src_avail rest s = [])"

lemma length_cached: "cache_ok c \<Longrightarrow> length (cached c) = clen c - cpos c"
  by (auto simp: cached_def cache_ok_def)

lemma cached_empty: "cpos c = clen c \<Longrightarrow> cached c = []"
  by (simp add: cached_def)

lemma cached_advance: "cached (c\<lparr>cpos := cpos c + n\<rparr>) = drop n (cached c)"
  by (simp add: cached_def drop_take add.commute)

lemma src_read_loop_0 [simp]: "src_read_loop rd p c buf 0 ra = (p, c, buf, Finished)"
  by (simp add: src_read_loop.simps)

lemma src_avail_updates [simp]:
  "src_avail rest (s\<lparr>src_readb := n\<rparr>) = src_avail rest s"
  "src_avail rest (s\<lparr>src_eofb := b\<rparr>) = src_avail rest s"
  by (auto simp: src_avail_def split: option.splits)

lemma src_eofb_unset:
  "\<not> src_eofb s \<Longrightarrow> s\<lparr>src_param := p, src_cache := c, src_eofb := False\<rparr> = s\<lparr>src_param := p, src_cache := c\<rparr>"
  by (cases s) simp

lemma src_invE:
  assumes "src_inv rd rest ok s"
  obtains c where "src_cache s = Some c" "cache_ok c" "src_rdf s = rd" "ok (src_param s)"
    "src_avail rest s = cached c @ rest (src_param s)"
  using assms by (auto simp: src_inv_def src_avail_def)

text \<open>The branches of \<^const>\<open>src_read\<close> and \<^const>\<open>src_peek\<close> on a source with a cache.\<close>

definition req_clamp :: "'q pgp_source \<Rightarrow> nat \<Rightarrow> bool" where
  "req_clamp s n \<longleftrightarrow> src_knownsize s \<and> src_size s < u64 (src_readb s + n)"

definition req_len :: "'q pgp_source \<Rightarrow> nat \<Rightarrow> nat" where
  "req_len s n = (if req_clamp s n then sub64 (src_size s) (src_readb s) else n)"

text \<open>Clamping a request to the known size does not change what is delivered.\<close>

lemma src_clamp:
  assumes inv: "src_inv rd rest ok s"
  shows "take (req_len s n) (src_avail rest s) = take n (src_avail rest s)"
    and "drop (req_len s n) (src_avail rest s) = drop n (src_avail rest s)"
    and "req_len s n \<le> n"
proof -
  have "src_size s - src_readb s \<le> n" if "req_clamp s n"
  proof (cases "src_readb s + n < 2 ^ 64")
    case True
    then show ?thesis using that by (auto simp: req_clamp_def)
  next
    case False
    then show ?thesis using inv that by (auto simp: src_inv_def req_clamp_def)
  qed
  then show "req_len s n \<le> n" "take (req_len s n) (src_avail rest s) = take n (src_avail rest s)"
    "drop (req_len s n) (src_avail rest s) = drop n (src_avail rest s)"
    using inv by (auto simp: src_inv_def req_len_def req_clamp_def)
qed

lemma src_read_hit_eq:
  assumes "src_cache s = Some c" "\<not> src_eofb s" "n \<noteq> 0"
    and "cpos c < clen c \<and> req_len s n \<le> clen c - cpos c"
  shows "src_read s n =
     src_read_finish (s\<lparr>src_cache := Some (c\<lparr>cpos := cpos c + req_len s n\<rparr>)\<rparr>)
       (take (req_len s n) (cached c))"
  using assms by (simp add: src_read_def Let_def req_clamp_def [symmetric] req_len_def [symmetric])

lemma src_read_miss_eq:
  assumes "src_cache s = Some c" "\<not> src_eofb s" "n \<noteq> 0"
    and miss: "\<not> (cpos c < clen c \<and> req_len s n \<le> clen c - cpos c)"
    and c0: "c0 = (if cpos c < clen c then c\<lparr>cpos := clen c\<rparr> else c)"
    and loop: "src_read_loop (src_rdf s) (src_param s) c0 (cached c) (req_len s n - length (cached c))
            (\<not> req_clamp s n \<and> readahead c) = (p', c', out, st)"
  shows "src_read s n =
     (if st = ReadError then (s\<lparr>src_param := p', src_cache := Some c'\<rparr>, None)
      else src_read_finish (s\<lparr>src_param := p', src_cache := Some c', src_eofb := (st = AtEof)\<rparr>) out)"
  using assms(1-3) loop miss
  by (cases st; simp add: src_read_def Let_def req_clamp_def [symmetric] req_len_def [symmetric]
      c0 [symmetric] src_eofb_unset; blast)

lemma src_peek_hit_eq:
  assumes "src_cache s = Some c" "\<not> src_eofb s" "n \<le> PGP_INPUT_CACHE_SIZE"
    and "req_len s n \<le> clen c - cpos c"
  shows "src_peek s n = (s, Some (take (req_len s n) (cached c)))"
  using assms by (simp add: src_peek_def Let_def req_clamp_def [symmetric] req_len_def [symmetric])

lemma src_peek_miss_eq:
  assumes "src_cache s = Some c" "\<not> src_eofb s" "n \<le> PGP_INPUT_CACHE_SIZE"
    and "\<not> req_len s n \<le> clen c - cpos c"
    and c0: "c0 = (if 0 < cpos c then c\<lparr>cbuf := mem_write 0 (cached c) (cbuf c),
                     clen := clen c - cpos c, cpos := 0\<rparr> else c)"
    and "src_peek_loop (src_rdf s) (src_param s) c0 (req_len s n) (\<not> req_clamp s n \<and> readahead c) = (p', c', r)"
  shows "src_peek s n = (s\<lparr>src_param := p', src_cache := Some c'\<rparr>, r)"
  using assms
  by (simp add: src_peek_def Let_def req_clamp_def [symmetric] req_len_def [symmetric] c0 [symmetric])

text \<open>
  One step of the abstract machine: \<open>n\<close> bytes are requested, the first \<open>n\<close> bytes of
  the stream are delivered and the rest of the stream remains.
\<close>

definition src_delivers ::
    "('q \<Rightarrow> nat \<Rightarrow> 'q \<times> bytes option) \<Rightarrow> ('q \<Rightarrow> bytes) \<Rightarrow> ('q \<Rightarrow> bool)
     \<Rightarrow> 'q pgp_source \<Rightarrow> nat \<Rightarrow> bytes \<Rightarrow> 'q pgp_source \<Rightarrow> bool" where
  "src_delivers rd rest ok s n bs s' \<longleftrightarrow>
     bs = take n (src_avail rest s) \<and> src_avail rest s' = drop n (src_avail rest s) \<and>
     src_inv rd rest ok s' \<and> src_readb s' = src_readb s + length bs"

lemma src_read_finish_delivers:
  assumes inv: "src_inv rd rest ok s" and "src_rdf t = rd" "ok (src_param t)"
    and "src_cache t = Some c" "cache_ok c"
    and t: "src_readb t = src_readb s" "src_knownsize t = src_knownsize s" "src_size t = src_size s"
    and "src_avail rest t = drop n (src_avail rest s)" "bs = take n (src_avail rest s)"
    and "src_eofb t \<longrightarrow> src_avail rest t = []"
    and "src_read_finish t bs = (s', r)"
  shows "r = Some bs \<and> src_delivers rd rest ok s n bs s'"
proof -
  have len: "length bs + length (src_avail rest t) = length (src_avail rest s)"
    using assms(9,10) by simp
  have small: "src_readb s + length bs < 2 ^ 64"
    using inv len by (simp add: src_inv_def)
  let ?e = "src_eofb t \<or> (src_knownsize s \<and> src_readb s + length bs = src_size s)"
  have s': "s' = t\<lparr>src_readb := src_readb s + length bs, src_eofb := ?e\<rparr>" and r: "r = Some bs"
    using assms(12) small t by (auto simp: src_read_finish_def Let_def split: if_splits)
  have av: "src_avail rest s' = src_avail rest t" by (simp add: s')
  have "length (src_avail rest t) = 0" if "src_knownsize s" "src_readb s + length bs = src_size s"
  proof -
    from inv that(1) have "src_readb s + length (src_avail rest s) \<le> src_size s"
      by (simp add: src_inv_def)
    with len that(2) show ?thesis by linarith
  qed
  then have "src_inv rd rest ok s'"
    unfolding src_inv_def av
    using inv assms(2-5,11) len t by (auto simp: s' src_inv_def)
  with assms(9,10) r av show ?thesis by (auto simp: s' src_delivers_def)
qed

text \<open>A source that satisfies its invariant and has exactly the bytes \<open>a\<close> to deliver.\<close>

definition src_holds ::
    "('q \<Rightarrow> nat \<Rightarrow> 'q \<times> bytes option) \<Rightarrow> ('q \<Rightarrow> bytes) \<Rightarrow> ('q \<Rightarrow> bool) \<Rightarrow> 'q pgp_source \<Rightarrow> bytes \<Rightarrow> bool" where
  "src_holds rd rest ok s a \<longleftrightarrow> src_inv rd rest ok s \<and> src_avail rest s = a"

lemma src_holds_readb: "src_holds rd rest ok s a \<Longrightarrow> src_readb s + length a < 2 ^ 63"
  by (auto simp: src_holds_def src_inv_def)

section \<open>The contract of a read callback\<close>

text \<open>
  What \<^verbatim>\<open>src_read\<close> and \<^verbatim>\<open>src_peek\<close> rely on: the callback delivers a prefix of what it has
  left, no longer than asked for, and an empty answer to a request means that nothing is
  left.  It may fail; a source that never fails is a \<open>reliable_source\<close>.
\<close>

locale byte_source =
  fixes rd :: "'q \<Rightarrow> nat \<Rightarrow> 'q \<times> bytes option"
    and rest :: "'q \<Rightarrow> bytes"
    and ok :: "'q \<Rightarrow> bool"
  assumes rd_ok: "ok p \<Longrightarrow> rd p n = (p', r) \<Longrightarrow> ok p'"
    and rd_data: "ok p \<Longrightarrow> rd p n = (p', Some bs) \<Longrightarrow> rest p = bs @ rest p'"
    and rd_length: "ok p \<Longrightarrow> rd p n = (p', Some bs) \<Longrightarrow> length bs \<le> n"
    and rd_eof: "ok p \<Longrightarrow> rd p n = (p', Some []) \<Longrightarrow> 0 < n \<Longrightarrow> rest p = []"
begin

lemma read_loop_spec:
  assumes "src_read_loop rd p c buf left ra = (p', c', out, st)" "st \<noteq> ReadError"
    and "ok p" "cache_ok c" "cpos c = clen c"
  shows "ok p' \<and> cache_ok c' \<and> out = buf @ take left (rest p) \<and>
         cached c' @ rest p' = drop left (rest p) \<and> (st = AtEof \<longrightarrow> cached c' @ rest p' = [])"
  using assms
proof (induction left arbitrary: p c buf rule: less_induct)
  case (less left)
  note unf = src_read_loop.simps [of rd p c buf left]
  have empty: "cached c = []" using less.prems(5) by (rule cached_empty)
  show ?case
  proof (cases "left = 0")
    case True
    with less.prems empty show ?thesis by auto
  next
    case False
    define n where "n = (if PGP_INPUT_CACHE_SIZE < left \<or> \<not> ra then left else PGP_INPUT_CACHE_SIZE)"
    have npos: "0 < n" using False by (simp add: n_def PGP_INPUT_CACHE_SIZE_def)
    obtain p1 r where rd1: "rd p n = (p1, r)" by (cases "rd p n")
    with less.prems(3) have ok1: "ok p1" by (rule rd_ok)
    have "r \<noteq> None"
      using less.prems(1,2) rd1 False by (auto simp: unf n_def split: if_splits option.splits)
    then obtain bs where rd_bs: "rd p n = (p1, Some bs)" using rd1 by auto
    have data: "rest p = bs @ rest p1" using less.prems(3) rd_bs by (rule rd_data)
    have len: "length bs \<le> n" using less.prems(3) rd_bs by (rule rd_length)
    let ?c = "c\<lparr>cbuf := mem_write 0 bs (cbuf c)\<rparr>"
    consider (eof) "bs = []" | (direct) "bs \<noteq> []" "n = left" "PGP_INPUT_CACHE_SIZE < left \<or> \<not> ra"
      | (short) "bs \<noteq> []" "n = PGP_INPUT_CACHE_SIZE" "\<not> (PGP_INPUT_CACHE_SIZE < left \<or> \<not> ra)" "length bs < left"
      | (full) "bs \<noteq> []" "n = PGP_INPUT_CACHE_SIZE" "\<not> (PGP_INPUT_CACHE_SIZE < left \<or> \<not> ra)" "left \<le> length bs"
      by (cases "bs = []"; cases "PGP_INPUT_CACHE_SIZE < left \<or> \<not> ra"; cases "length bs < left")
        (auto simp: n_def)
    then show ?thesis
    proof cases
      case eof
      with less.prems(3) rd_bs npos have "rest p = []" by (auto intro: rd_eof)
      moreover have "(p', c', out, st) = (p1, c, buf, AtEof)"
        using less.prems(1) rd_bs False eof by (auto simp: unf n_def split: if_splits)
      ultimately show ?thesis using ok1 less.prems(4) empty data eof by auto
    next
      case direct
      then have "src_read_loop rd p1 c (buf @ bs) (left - length bs) ra = (p', c', out, st)"
        using less.prems(1) rd_bs False by (auto simp: unf)
      from less.IH [OF _ this less.prems(2) ok1 less.prems(4,5)] direct data len False show ?thesis by auto
    next
      case short
      then have "src_read_loop rd p1 ?c (buf @ bs) (left - length bs) ra = (p', c', out, st)"
        using less.prems(1) rd_bs False by (auto simp: unf Let_def)
      moreover have "cache_ok ?c" using less.prems(4) len short(2) by (auto simp: cache_ok_def)
      ultimately show ?thesis
        using less.IH [of "left - length bs" p1 ?c "buf @ bs"] ok1 less.prems(2,5) short data False by auto
    next
      case full
      then have "(p', c', out, st) = (p1, ?c\<lparr>cpos := left, clen := length bs\<rparr>, buf @ take left bs, Finished)"
        using less.prems(1) rd_bs False by (auto simp: unf Let_def)
      moreover have "cache_ok (?c\<lparr>cpos := left, clen := length bs\<rparr>)"
        using less.prems(4) len full by (auto simp: cache_ok_def)
      ultimately show ?thesis using ok1 data full by (auto simp: cached_def)
    qed
  qed
qed


lemma src_read_miss:
  assumes inv: "src_inv rd rest ok s" and c: "src_cache s = Some c"
    and loop: "src_read_loop rd (src_param s) c0 (cached c) (len - length (cached c)) ra = (p', c', out, st)"
    and c0: "cache_ok c0" "cpos c0 = clen c0" and st: "st \<noteq> ReadError" "\<not> src_eofb s"
    and long: "length (cached c) \<le> len"
    and clamp: "take len (src_avail rest s) = take n (src_avail rest s)"
      "drop len (src_avail rest s) = drop n (src_avail rest s)"
    and fin: "src_read_finish (s\<lparr>src_param := p', src_cache := Some c', src_eofb := (st = AtEof)\<rparr>) out
              = (s', Some bs)"
  shows "src_delivers rd rest ok s n bs s'"
proof -
  let ?t = "s\<lparr>src_param := p', src_cache := Some c', src_eofb := (st = AtEof)\<rparr>"
  have okp: "ok (src_param s)" and av: "src_avail rest s = cached c @ rest (src_param s)"
    and rdf: "src_rdf s = rd"
    using inv c by (auto simp: src_inv_def src_avail_def)
  have spec: "ok p'" "cache_ok c'" "out = cached c @ take (len - length (cached c)) (rest (src_param s))"
    "cached c' @ rest p' = drop (len - length (cached c)) (rest (src_param s))"
    "st = AtEof \<longrightarrow> cached c' @ rest p' = []"
    using read_loop_spec [OF loop st(1) okp c0] by auto
  have "src_avail rest ?t = drop n (src_avail rest s)"
    using spec(4) clamp(2) av long by (simp add: src_avail_def)
  moreover have "out = take n (src_avail rest s)" using spec(3) clamp(1) av long by simp
  ultimately show ?thesis
    using src_read_finish_delivers [OF inv _ _ _ spec(2) _ _ _ _ _ _ fin] spec(1,5) rdf
    by (auto simp: src_avail_def)
qed

lemma src_read_delivers:
  assumes inv: "src_inv rd rest ok s" and call: "src_read s n = (s', Some bs)"
  shows "src_delivers rd rest ok s n bs s'"
proof (cases "src_eofb s \<or> n = 0")
  case True
  with inv call show ?thesis by (auto simp: src_read_def src_inv_def src_delivers_def)
next
  case False
  from inv obtain c where c: "src_cache s = Some c" "cache_ok c" and rdf: "src_rdf s = rd"
    and okp: "ok (src_param s)" and av: "src_avail rest s = cached c @ rest (src_param s)"
    by (rule src_invE)
  note clamp = src_clamp [OF inv, of n]
  show ?thesis
  proof (cases "cpos c < clen c \<and> req_len s n \<le> clen c - cpos c")
    case True
    let ?s = "s\<lparr>src_cache := Some (c\<lparr>cpos := cpos c + req_len s n\<rparr>)\<rparr>"
    have fin: "src_read_finish ?s (take (req_len s n) (cached c)) = (s', Some bs)"
      using call src_read_hit_eq [OF c(1) _ _ True] False by simp
    have len: "req_len s n \<le> length (cached c)" using True c(2) by (simp add: length_cached)
    have "src_avail rest ?s = drop n (src_avail rest s)"
      unfolding clamp(2) [symmetric] using len c(1) by (simp add: src_avail_def cached_advance)
    moreover have "take (req_len s n) (cached c) = take n (src_avail rest s)"
      unfolding clamp(1) [symmetric] using len by (simp add: av)
    moreover have "cache_ok (c\<lparr>cpos := cpos c + req_len s n\<rparr>)"
      using c(2) True by (auto simp: cache_ok_def)
    ultimately show ?thesis
      using src_read_finish_delivers [OF inv _ _ _ _ _ _ _ _ _ _ fin] okp rdf False by auto
  next
    case nofit: False
    define c0 where "c0 = (if cpos c < clen c then c\<lparr>cpos := clen c\<rparr> else c)"
    obtain p' c' out st where loop:
      "src_read_loop rd (src_param s) c0 (cached c) (req_len s n - length (cached c))
         (\<not> req_clamp s n \<and> readahead c) = (p', c', out, st)"
      by (metis prod_cases4)
    note red = src_read_miss_eq [OF c(1) _ _ nofit c0_def, unfolded rdf, OF _ _ loop]
    with call False have "st \<noteq> ReadError" by auto
    with red call loop c nofit False show ?thesis
      by (intro src_read_miss [OF inv c(1) loop _ _ _ _ _ clamp(1,2)])
        (auto simp: c0_def cache_ok_def length_cached)
  qed
qed

lemma peek_loop_spec:
  assumes "src_peek_loop rd p c len ra = (p', c', Some bs)"
    and "ok p" "cache_ok c" "cpos c = 0" "clen c < len" "len \<le> PGP_INPUT_CACHE_SIZE"
  shows "ok p' \<and> cache_ok c' \<and> cpos c' = 0 \<and> bs = take len (cached c @ rest p) \<and>
         cached c' @ rest p' = cached c @ rest p"
  using assms
proof (induction "len - clen c" arbitrary: p c rule: less_induct)
  case less
  note unf = src_peek_loop.simps [of rd p c len]
  define n where "n = (if ra then PGP_INPUT_CACHE_SIZE - clen c else len - clen c)"
  have npos: "0 < n" using less.prems(5,6) by (auto simp: n_def)
  obtain p1 r where rd1: "rd p n = (p1, r)" by (cases "rd p n")
  with less.prems(2) have ok1: "ok p1" by (rule rd_ok)
  have "r \<noteq> None"
    using less.prems(1,5) rd1 by (auto simp: unf n_def split: if_splits option.splits)
  then obtain xs where rd_xs: "rd p n = (p1, Some xs)" using rd1 by auto
  have data: "rest p = xs @ rest p1" using less.prems(2) rd_xs by (rule rd_data)
  have "length xs \<le> n" using less.prems(2) rd_xs by (rule rd_length)
  then have lxs: "clen c + length xs \<le> PGP_INPUT_CACHE_SIZE"
    using less.prems(5,6) by (auto simp: n_def split: if_splits)
  have cc: "cached c = take (clen c) (cbuf c)" using less.prems(4) by (simp add: cached_def)
  show ?case
  proof (cases "xs = []")
    case True
    then have "(p', c', bs) = (p1, c, take (clen c) (cbuf c))"
      using less.prems(1,5) rd_xs by (auto simp: unf n_def)
    moreover have "rest p = []" using less.prems(2) rd_xs npos True by (auto intro: rd_eof)
    ultimately show ?thesis using ok1 less.prems(3-5) data True by (auto simp: cc)
  next
    case False
    let ?c = "c\<lparr>cbuf := mem_write (clen c) xs (cbuf c), clen := clen c + length xs\<rparr>"
    have ok': "cache_ok ?c" using less.prems(3,4) lxs by (auto simp: cache_ok_def)
    have cached': "cached ?c = cached c @ xs"
      using less.prems(3,4) by (simp add: cached_def cache_ok_def mem_write_def)
    have whole: "take len (cbuf ?c) = take len (cached c @ rest p)" if "len \<le> clen c + length xs"
      using less.prems(3,4) that data by (simp add: cc cache_ok_def mem_write_def)
    show ?thesis
    proof (cases "len \<le> clen c + length xs")
      case True
      then have "(p', c', bs) = (p1, ?c, take len (cbuf ?c))"
        using less.prems(1,5) rd_xs False by (auto simp: unf n_def Let_def)
      then show ?thesis using ok1 ok' cached' whole [OF True] data less.prems(4) by auto
    next
      case more: False
      then have "src_peek_loop rd p1 ?c len ra = (p', c', Some bs)"
        using less.prems(1,5) rd_xs False by (auto simp: unf n_def Let_def)
      moreover have "len - clen ?c < len - clen c" using False more by (auto simp: neq_Nil_conv)
      ultimately show ?thesis
        using less.hyps [of ?c p1] ok1 ok' less.prems(4,6) more cached' data by auto
    qed
  qed
qed

lemma src_peek_spec:
  assumes inv: "src_inv rd rest ok s" and n: "n \<le> PGP_INPUT_CACHE_SIZE" "src_readb s + n < 2 ^ 64"
    and call: "src_peek s n = (s', Some bs)"
  shows "bs = take n (src_avail rest s) \<and> src_avail rest s' = src_avail rest s \<and>
         src_inv rd rest ok s' \<and> src_readb s' = src_readb s \<and> src_eofb s' = src_eofb s"
proof (cases "src_eofb s")
  case True
  with inv call n(1) show ?thesis by (auto simp: src_peek_def src_inv_def)
next
  case False
  from inv obtain c where c: "src_cache s = Some c" "cache_ok c" and rdf: "src_rdf s = rd"
    and okp: "ok (src_param s)" and av: "src_avail rest s = cached c @ rest (src_param s)"
    by (rule src_invE)
  note clamp = src_clamp [OF inv, of n]
  show ?thesis
  proof (cases "req_len s n \<le> clen c - cpos c")
    case True
    have "s' = s" "bs = take (req_len s n) (cached c)"
      using call src_peek_hit_eq [OF c(1) False n(1) True] by auto
    with True inv c(2) show ?thesis
      unfolding clamp(1) [symmetric] by (simp add: av length_cached)
  next
    case nofit: False
    define c0 where "c0 = (if 0 < cpos c then c\<lparr>cbuf := mem_write 0 (cached c) (cbuf c),
                             clen := clen c - cpos c, cpos := 0\<rparr> else c)"
    have c0: "cache_ok c0" "cpos c0 = 0" "cached c0 = cached c" "clen c0 = clen c - cpos c"
      using c(2) by (auto simp: c0_def cache_ok_def length_cached cached_def)
    obtain p' c' r where loop: "src_peek_loop rd (src_param s) c0 (req_len s n)
        (\<not> req_clamp s n \<and> readahead c) = (p', c', r)"
      by (metis prod_cases3)
    note red = src_peek_miss_eq [OF c(1) False n(1) nofit c0_def, unfolded rdf, OF loop]
    with call have r: "r = Some bs" and s': "s' = s\<lparr>src_param := p', src_cache := Some c'\<rparr>" by auto
    have spec: "ok p'" "cache_ok c'" "bs = take (req_len s n) (cached c @ rest (src_param s))"
      "cached c' @ rest p' = cached c @ rest (src_param s)"
      using peek_loop_spec [OF loop [unfolded r] okp c0(1,2)] c0(3,4) nofit clamp(3) n(1) by auto
    then have "src_avail rest s' = src_avail rest s" by (simp add: s' av) (simp add: src_avail_def)
    with spec inv rdf clamp(1) av show ?thesis by (auto simp: s' src_inv_def)
  qed
qed

lemma src_skip_spec:
  assumes inv: "src_inv rd rest ok s" and n: "src_readb s + n < 2 ^ 64"
    and call: "src_skip al s n = (s', Some k)"
  shows "k = min n (length (src_avail rest s)) \<and> src_avail rest s' = drop n (src_avail rest s) \<and>
         src_inv rd rest ok s' \<and> src_readb s' = src_readb s + k"
proof -
  from inv obtain c where c: "src_cache s = Some c" "cache_ok c" and rdf: "src_rdf s = rd"
    and okp: "ok (src_param s)" and av: "src_avail rest s = cached c @ rest (src_param s)"
    by (rule src_invE)
  show ?thesis
  proof (cases "n \<le> clen c - cpos c")
    case True
    let ?s = "s\<lparr>src_readb := src_readb s + n, src_cache := Some (c\<lparr>cpos := cpos c + n\<rparr>)\<rparr>"
    have s': "s' = ?s" and k: "k = n" using call c True n by (auto simp: src_skip_def)
    have len: "n \<le> length (cached c)" using True c(2) by (simp add: length_cached)
    have av': "src_avail rest s' = drop n (src_avail rest s)"
      using len c(1) by (simp add: s' src_avail_def cached_advance)
    have "src_inv rd rest ok s'"
      unfolding src_inv_def av'
      using inv c okp rdf True len by (auto simp: s' src_inv_def cache_ok_def av)
    then show ?thesis using av' k len by (simp add: s' av)
  next
    case False
    then obtain bs where "src_read s n = (s', Some bs)" "k = length bs"
      using call c by (auto simp: src_skip_def split: if_splits prod.splits)
    with src_read_delivers [OF inv, of n s'] show ?thesis by (auto simp: src_delivers_def)
  qed
qed

end

locale reliable_source = byte_source +
  assumes rd_total: "ok p \<Longrightarrow> snd (rd p n) \<noteq> None"
begin

lemma read_loop_total:
  assumes "ok p"
  shows "snd (snd (snd (src_read_loop rd p c buf left ra))) \<noteq> ReadError"
  using assms
proof (induction left arbitrary: p c buf rule: less_induct)
  case (less left)
  note unf = src_read_loop.simps [of rd p c buf left]
  have step: "\<exists>p1 bs. rd p n = (p1, Some bs) \<and> ok p1" for n
    using rd_total [OF less.prems, of n] rd_ok [OF less.prems, of n] by (cases "rd p n") auto
  obtain p1 bs where 1: "rd p left = (p1, Some bs)" "ok p1" using step by blast
  obtain p2 cs where 2: "rd p PGP_INPUT_CACHE_SIZE = (p2, Some cs)" "ok p2" using step by blast
  show ?case
    using less.IH [of "left - length bs" p1] less.IH [of "left - length cs" p2] 1 2
    by (auto simp: unf Let_def)
qed

lemma read_loop_no_error:
  "ok p \<Longrightarrow> src_read_loop rd p c buf left ra \<noteq> (p', c', out, ReadError)"
  using read_loop_total [of p c buf left ra] by auto

lemma peek_loop_total:
  assumes "ok p" "clen c < len"
  shows "snd (snd (src_peek_loop rd p c len ra)) \<noteq> None"
  using assms
proof (induction "len - clen c" arbitrary: p c rule: less_induct)
  case less
  note unf = src_peek_loop.simps [of rd p c len]
  let ?n = "if ra then PGP_INPUT_CACHE_SIZE - clen c else len - clen c"
  obtain p1 bs where 1: "rd p ?n = (p1, Some bs)" "ok p1"
    using rd_total [OF less.prems(1), of ?n] rd_ok [OF less.prems(1), of ?n] by (cases "rd p ?n") auto
  let ?c = "c\<lparr>cbuf := mem_write (clen c) bs (cbuf c), clen := clen c + length bs\<rparr>"
  show ?case
  proof (cases "bs \<noteq> [] \<and> \<not> len \<le> clen c + length bs")
    case True
    then have "len - clen ?c < len - clen c" by (auto simp: neq_Nil_conv)
    with less.hyps [of ?c p1] 1 True less.prems(2) show ?thesis by (simp add: unf Let_def)
  next
    case False
    with 1 less.prems(2) show ?thesis by (auto simp: unf Let_def)
  qed
qed

lemma peek_loop_no_error:
  "ok p \<Longrightarrow> clen c < len \<Longrightarrow> src_peek_loop rd p c len ra \<noteq> (p', c', None)"
  using peek_loop_total [of p c len ra] by auto

lemma src_read_total:
  assumes "src_inv rd rest ok s"
  shows "snd (src_read s n) \<noteq> None"
proof (cases "src_eofb s \<or> n = 0")
  case True
  with assms show ?thesis by (auto simp: src_read_def src_inv_def)
next
  case False
  from assms obtain c where c: "src_cache s = Some c" "src_rdf s = rd" "ok (src_param s)"
    by (rule src_invE)
  show ?thesis
  proof (cases "cpos c < clen c \<and> req_len s n \<le> clen c - cpos c")
    case True
    with src_read_hit_eq [OF c(1) _ _ True] False show ?thesis by (simp add: src_read_finish_def Let_def)
  next
    case nofit: False
    define c0 where "c0 = (if cpos c < clen c then c\<lparr>cpos := clen c\<rparr> else c)"
    obtain p' c' out st where loop:
      "src_read_loop (src_rdf s) (src_param s) c0 (cached c) (req_len s n - length (cached c))
         (\<not> req_clamp s n \<and> readahead c) = (p', c', out, st)"
      by (metis prod_cases4)
    with read_loop_no_error [OF c(3)] c(2) have "st \<noteq> ReadError" by metis
    with src_read_miss_eq [OF c(1) _ _ nofit c0_def loop] False show ?thesis
      by (simp add: src_read_finish_def Let_def)
  qed
qed

lemma src_peek_total:
  assumes "src_inv rd rest ok s" "n \<le> PGP_INPUT_CACHE_SIZE"
  shows "snd (src_peek s n) \<noteq> None"
proof (cases "src_eofb s")
  case True
  with assms show ?thesis by (auto simp: src_peek_def src_inv_def)
next
  case False
  from assms(1) obtain c where c: "src_cache s = Some c" "src_rdf s = rd" "ok (src_param s)"
    by (rule src_invE)
  show ?thesis
  proof (cases "req_len s n \<le> clen c - cpos c")
    case True
    with src_peek_hit_eq [OF c(1) False assms(2) True] show ?thesis by simp
  next
    case nofit: False
    define c0 where "c0 = (if 0 < cpos c then c\<lparr>cbuf := mem_write 0 (cached c) (cbuf c),
                             clen := clen c - cpos c, cpos := 0\<rparr> else c)"
    have c0: "clen c0 < req_len s n" using nofit by (auto simp: c0_def split: if_splits)
    obtain p' c' r where loop: "src_peek_loop (src_rdf s) (src_param s) c0 (req_len s n)
        (\<not> req_clamp s n \<and> readahead c) = (p', c', r)"
      by (metis prod_cases3)
    with peek_loop_no_error [OF c(3) c0] c(2) have "r \<noteq> None" by metis
    with src_peek_miss_eq [OF c(1) False assms(2) nofit c0_def loop] show ?thesis by simp
  qed
qed

lemma src_read_any:
  assumes inv: "src_inv rd rest ok s"
  obtains s' where "src_read s n = (s', Some (take n (src_avail rest s)))"
    "src_avail rest s' = drop n (src_avail rest s)" "src_inv rd rest ok s'"
    "src_readb s' = src_readb s + min n (length (src_avail rest s))"
proof -
  obtain s' bs where call: "src_read s n = (s', Some bs)"
    using src_read_total [OF inv, of n] by (cases "src_read s n") auto
  from src_read_delivers [OF inv this] that [of s'] call show ?thesis
    by (auto simp: src_delivers_def)
qed

lemma src_read_eq:
  assumes inv: "src_inv rd rest ok s" and n: "src_readb s + n < 2 ^ 64"
  obtains s' where "src_read s n = (s', Some (take n (src_avail rest s)))"
    "src_avail rest s' = drop n (src_avail rest s)" "src_inv rd rest ok s'"
    "src_readb s' = src_readb s + min n (length (src_avail rest s))"
  by (rule src_read_any [OF inv])

lemma src_peek_eq:
  assumes inv: "src_inv rd rest ok s" and n: "n \<le> PGP_INPUT_CACHE_SIZE" "src_readb s + n < 2 ^ 64"
  obtains s' where "src_peek s n = (s', Some (take n (src_avail rest s)))"
    "src_avail rest s' = src_avail rest s" "src_inv rd rest ok s'" "src_readb s' = src_readb s"
    "src_eofb s' = src_eofb s"
proof -
  have "snd (src_peek s n) \<noteq> None" using inv n(1) by (rule src_peek_total)
  then obtain s' bs where call: "src_peek s n = (s', Some bs)" by (cases "src_peek s n") auto
  from src_peek_spec [OF inv n this] that [of s'] call show ?thesis by auto
qed

lemma src_skip_eq:
  assumes inv: "src_inv rd rest ok s" and n: "src_readb s + n < 2 ^ 64" and al: "al n"
  obtains s' where "src_skip al s n = (s', Some (min n (length (src_avail rest s))))"
    "src_avail rest s' = drop n (src_avail rest s)" "src_inv rd rest ok s'"
    "src_readb s' = src_readb s + min n (length (src_avail rest s))"
proof -
  have "snd (src_skip al s n) \<noteq> None"
    using src_read_total [OF inv, of n] al
    by (auto simp: src_skip_def split: option.splits prod.splits)
  then obtain s' k where call: "src_skip al s n = (s', Some k)" by (cases "src_skip al s n") auto
  from src_skip_spec [OF inv n this] that [of s'] call show ?thesis by auto
qed

end

section \<open>Memory sources honour the contract\<close>

definition mem_rest :: "mem_src_param option \<Rightarrow> bytes" where
  "mem_rest param = (case param of None \<Rightarrow> [] | Some m \<Rightarrow> drop (msp_pos m) (msp_memory m))"

definition mem_ok :: "mem_src_param option \<Rightarrow> bool" where
  "mem_ok param = (\<exists>m. param = Some m \<and> msp_pos m \<le> length (msp_memory m))"

interpretation mem_source: reliable_source mem_src_read mem_rest mem_ok
proof unfold_locales
  fix p p' :: "mem_src_param option" and n r bs
  assume ok: "mem_ok p"
  then obtain m where p: "p = Some m" "msp_pos m \<le> length (msp_memory m)" by (auto simp: mem_ok_def)
  show "mem_src_read p n = (p', r) \<Longrightarrow> mem_ok p'"
    using p by (auto simp: mem_src_read_def mem_ok_def Let_def split: if_splits)
  show "mem_src_read p n = (p', Some bs) \<Longrightarrow> mem_rest p = bs @ mem_rest p'"
    using p by (auto simp: mem_src_read_def mem_rest_def Let_def add.commute split: if_splits)
      (metis add.commute append_take_drop_id drop_drop)
  show "mem_src_read p n = (p', Some bs) \<Longrightarrow> length bs \<le> n"
    using p by (auto simp: mem_src_read_def Let_def split: if_splits)
  show "mem_src_read p n = (p', Some []) \<Longrightarrow> 0 < n \<Longrightarrow> mem_rest p = []"
    using p by (auto simp: mem_src_read_def mem_rest_def Let_def split: if_splits)
  show "snd (mem_src_read p n) \<noteq> None"
    using p by (simp add: mem_src_read_def Let_def)
qed

lemma init_mem_src_inv:
  assumes "\<And>n. al n" "length mem < 2 ^ 63"
  obtains s where "init_mem_src al mem = (s, RNP_SUCCESS)"
    "src_inv mem_src_read mem_rest mem_ok s" "src_avail mem_rest s = mem" "src_readb s = 0"
  using assms by (simp add: init_mem_src_def init_src_common_def src_inv_def src_avail_def
      cache_ok_def cached_def mem_rest_def mem_ok_def PGP_INPUT_CACHE_SIZE_def)

section \<open>Lines\<close>

text \<open>
  What \<^verbatim>\<open>src_peek_line\<close> promises to return: the bytes up to the first line feed, without a
  carriage return before it.
\<close>

definition strip_cr :: "bytes \<Rightarrow> bytes" where
  "strip_cr bs = (if bs \<noteq> [] \<and> last bs = CH_CR then butlast bs else bs)"

lemma peek_line_scan_spec:
  assumes "pos + k \<le> length buf" "CH_LF \<notin> set (take pos buf)"
  shows "peek_line_scan buf pos k =
     (if CH_LF \<in> set (take (pos + k) buf) then Inl (strip_cr (takeWhile (\<lambda>b. b \<noteq> CH_LF) buf))
      else Inr (pos + k))"
  using assms
proof (induction buf pos k rule: peek_line_scan.induct)
  case (1 buf pos)
  then show ?case by simp
next
  case (2 buf pos k)
  have pos: "pos < length buf" using "2.prems"(1) by simp
  show ?case
  proof (cases "buf ! pos = CH_LF")
    case True
    have "takeWhile (\<lambda>b. b \<noteq> CH_LF) buf = take pos buf"
      using "2.prems"(2) True pos
      by (intro takeWhile_eq_take_P_nth) (auto simp: in_set_conv_nth)
    moreover have "CH_LF \<in> set (take (pos + Suc k) buf)"
      using True pos by (metis add_Suc_right in_set_conv_nth length_take less_add_Suc1 min_less_iff_conj nth_take)
    ultimately show ?thesis
      using True pos
      by (cases pos) (auto simp: strip_cr_def take_Suc_conv_app_nth butlast_take last_conv_nth)
  next
    case False
    then have "CH_LF \<notin> set (take (Suc pos) buf)"
      using "2.prems"(2) pos by (auto simp: take_Suc_conv_app_nth)
    with "2.IH" [OF False] "2.prems"(1) False show ?thesis by simp
  qed
qed

context reliable_source
begin

lemma src_eof_eq:
  assumes inv: "src_inv rd rest ok s" and "src_readb s + 1 < 2 ^ 64"
  obtains s' where "src_eof s = (s', src_avail rest s = [])"
    "src_avail rest s' = src_avail rest s" "src_inv rd rest ok s'"
proof (cases "src_eofb s")
  case True
  with inv that [of s] show ?thesis by (auto simp: src_eof_def src_inv_def)
next
  case False
  obtain s' where "src_peek s 1 = (s', Some (take 1 (src_avail rest s)))"
    "src_avail rest s' = src_avail rest s" "src_inv rd rest ok s'"
    using src_peek_eq [OF inv _ assms(2)] by (auto simp: PGP_INPUT_CACHE_SIZE_def)
  with False that [of s'] show ?thesis by (auto simp: src_eof_def)
qed

lemma src_skip_eol_eq:
  assumes inv: "src_inv rd rest ok s" and n: "src_readb s + 2 < 2 ^ 64" and al: "al 1" "al 2"
  obtains s' where "src_inv rd rest ok s'"
    "src_skip_eol al s = (s', take 1 (src_avail rest s) = [CH_LF] \<or> take 2 (src_avail rest s) = [CH_CR, CH_LF])"
    "src_avail rest s' =
       (if take 1 (src_avail rest s) = [CH_LF] then drop 1 (src_avail rest s)
        else if take 2 (src_avail rest s) = [CH_CR, CH_LF] then drop 2 (src_avail rest s)
        else src_avail rest s)"
proof -
  obtain s1 where peek: "src_peek s 2 = (s1, Some (take 2 (src_avail rest s)))"
    and s1: "src_avail rest s1 = src_avail rest s" "src_inv rd rest ok s1" "src_readb s1 = src_readb s"
    using src_peek_eq [OF inv _ n] by (auto simp: PGP_INPUT_CACHE_SIZE_def)
  have n1: "src_readb s1 + 1 < 2 ^ 64" "src_readb s1 + 2 < 2 ^ 64" using n s1(3) by auto
  obtain s2 k where skip1: "src_skip al s1 1 = (s2, Some k)" "src_avail rest s2 = drop 1 (src_avail rest s)"
    "src_inv rd rest ok s2"
    using src_skip_eq [OF s1(2) n1(1), of al] al(1) s1(1) by metis
  obtain s3 k' where skip2: "src_skip al s1 2 = (s3, Some k')" "src_avail rest s3 = drop 2 (src_avail rest s)"
    "src_inv rd rest ok s3"
    using src_skip_eq [OF s1(2) n1(2), of al] al(2) s1(1) by metis
  define a where "a = src_avail rest s"
  have eol: "1 \<le> length (take 2 a) \<and> take 2 a ! 0 = CH_LF \<longleftrightarrow> take 1 a = [CH_LF]"
    "length (take 2 a) = 2 \<and> take 2 a ! 0 = CH_CR \<and> take 2 a ! 1 = CH_LF \<longleftrightarrow> take 2 a = [CH_CR, CH_LF]"
    by (cases a; cases "tl a"; auto simp: numeral_2_eq_2)+
  have "src_skip_eol al s = (if take 1 a = [CH_LF] then (s2, True)
      else if take 2 a = [CH_CR, CH_LF] then (s3, True) else (s1, False))"
    unfolding src_skip_eol_def peek a_def [symmetric] prod.case option.case eol skip1(1) skip2(1) fst_conv
    by (rule refl)
  with that [of s1] that [of s2] that [of s3] s1 skip1 skip2 show ?thesis
    by (cases "take 1 a = [CH_LF]"; cases "take 2 a = [CH_CR, CH_LF]") (simp_all add: a_def)
qed

lemma peek_line_loop_none:
  assumes "src_inv rd rest ok s" "src_readb s + 64 < 2 ^ 64"
    and "CH_LF \<notin> set (take (min 64 len) (src_avail rest s))" "CH_LF \<notin> set buf"
  shows "\<exists>s'. src_peek_line_loop s buf (length buf) len = (s', None) \<and> src_inv rd rest ok s' \<and>
           src_avail rest s' = src_avail rest s"
  using assms
proof (induction "len - length buf" arbitrary: s buf rule: less_induct)
  case less
  define n where "n = (if len < length buf + 64 then len - length buf else 64)"
  define bs where "bs = take n (src_avail rest s)"
  have n: "n \<le> PGP_INPUT_CACHE_SIZE" "src_readb s + n < 2 ^ 64" "n \<le> min 64 len"
    using less.prems(2) by (auto simp: n_def PGP_INPUT_CACHE_SIZE_def)
  obtain s1 where peek: "src_peek s n = (s1, Some bs)"
    and s1: "src_avail rest s1 = src_avail rest s" "src_inv rd rest ok s1" "src_readb s1 = src_readb s"
    using src_peek_eq [OF less.prems(1) n(1,2)] by (metis bs_def)
  have nolf: "CH_LF \<notin> set (buf @ bs)"
    using less.prems(3,4) set_take_subset_set_take [OF n(3), of "src_avail rest s"] by (auto simp: bs_def)
  have scan: "peek_line_scan (buf @ bs) (length buf) (length bs) = Inr (length (buf @ bs))"
    using peek_line_scan_spec [of "length buf" "length bs" "buf @ bs"] nolf by simp
  note unf = src_peek_line_loop.simps [of s buf "length buf" len, folded n_def, unfolded peek]
  show ?case
  proof (cases "bs = [] \<or> \<not> length (buf @ bs) < len")
    case True
    with scan s1 show ?thesis by (auto simp: unf Let_def)
  next
    case False
    then have "len - length (buf @ bs) < len - length buf" by (auto simp: neq_Nil_conv)
    with less.hyps [of "buf @ bs" s1] False s1 less.prems(2,3) nolf
    obtain s' where "src_peek_line_loop s1 (buf @ bs) (length (buf @ bs)) len = (s', None)"
      "src_inv rd rest ok s'" "src_avail rest s' = src_avail rest s" by auto
    with False scan show ?thesis by (simp add: unf Let_def)
  qed
qed

lemma src_peek_line_eq:
  assumes inv: "src_inv rd rest ok s" and n: "src_readb s + 64 < 2 ^ 64" and len: "0 < len"
  obtains s' where "src_inv rd rest ok s'" "src_avail rest s' = src_avail rest s"
    "src_peek_line s len =
       (s', if CH_LF \<in> set (take (min 64 (len - 1)) (src_avail rest s))
            then Some (strip_cr (takeWhile (\<lambda>b. b \<noteq> CH_LF) (src_avail rest s))) else None)"
proof (cases "CH_LF \<in> set (take (min 64 (len - 1)) (src_avail rest s))")
  case False
  with peek_line_loop_none [OF inv n, of "len - 1" "[]"] that len show ?thesis
    by (auto simp: src_peek_line_def Suc_le_eq)
next
  case True
  define m where "m = (if len - 1 < 0 + 64 then len - 1 - 0 else 64)"
  have m: "m \<le> PGP_INPUT_CACHE_SIZE" "src_readb s + m < 2 ^ 64" "m = min 64 (len - 1)"
    using n by (auto simp: m_def PGP_INPUT_CACHE_SIZE_def)
  define bs where "bs = take m (src_avail rest s)"
  have lf: "CH_LF \<in> set bs" using True by (simp add: bs_def m(3))
  obtain s1 where peek: "src_peek s m = (s1, Some bs)"
    and s1: "src_avail rest s1 = src_avail rest s" "src_inv rd rest ok s1"
    using src_peek_eq [OF inv m(1,2)] by (metis bs_def)
  have tw: "takeWhile (\<lambda>b. b \<noteq> CH_LF) (src_avail rest s) = takeWhile (\<lambda>b. b \<noteq> CH_LF) bs"
    using lf by (metis (mono_tags, lifting) append_take_drop_id bs_def takeWhile_append1)
  have "src_peek_line s len = (s1, Some (strip_cr (takeWhile (\<lambda>b. b \<noteq> CH_LF) bs)))"
    using peek lf len peek_line_scan_spec [of 0 "length bs" bs]
      src_peek_line_loop.simps [of s "[]" 0 "len - 1", folded m_def]
    by (auto simp: src_peek_line_def Let_def Suc_le_eq)
  with that [of s1] s1 True tw show ?thesis by simp
qed

end

section \<open>The end of the data\<close>

lemma read_loop_finished:
  "src_read_loop rd p c buf left ra = (p', c', out, Finished) \<Longrightarrow> length buf + left \<le> length out"
proof (induction rd p c buf left ra rule: src_read_loop.induct)
  case (1 rd p c buf left ra)
  show ?case
  proof (cases "left = 0")
    case False
    note unf = 1(3) [unfolded src_read_loop.simps [of rd p c buf left]]
    show ?thesis
    proof (cases "PGP_INPUT_CACHE_SIZE < left \<or> \<not> ra")
      case True
      obtain p1 bs where rd: "rd p left = (p1, Some bs)" "bs \<noteq> []"
        using unf False True by (auto split: prod.splits option.splits if_splits)
      then show ?thesis using "1.IH"(1) [OF False True rd(1) [symmetric] refl rd(2)] unf False True by simp
    next
      case ra: False
      obtain p1 bs where rd: "rd p PGP_INPUT_CACHE_SIZE = (p1, Some bs)" "bs \<noteq> []"
        using unf False ra by (auto split: prod.splits option.splits if_splits)
      show ?thesis
      proof (cases "length bs < left")
        case True
        then show ?thesis using "1.IH"(2) [OF False ra rd(1) [symmetric] refl rd(2) refl True] rd unf False ra
          by (simp add: Let_def)
      next
        case full: False
        then have "out = buf @ take left bs" using unf False ra rd by (simp add: Let_def)
        with full show ?thesis by simp
      qed
    qed
  qed (use 1(3) in simp)
qed

text \<open>An empty answer to a request means that the end of the data is noted.\<close>

lemma src_read_empty:
  assumes inv: "src_inv rd rest ok s" and n: "0 < n" "src_readb s + n < 2 ^ 64" and r: "src_read s n = (s', Some [])"
  shows "src_eofb s'"
proof (cases "src_eofb s")
  case True
  with r inv show ?thesis by (auto simp: src_read_def src_inv_def)
next
  case False
  obtain c where c: "src_cache s = Some c" "cache_ok c" using inv by (rule src_invE)
  have zero: "req_len s n = 0 \<Longrightarrow> src_knownsize s \<and> src_readb s = src_size s \<and> src_size s < 2 ^ 63"
    using inv n by (auto simp: req_len_def req_clamp_def src_inv_def sub64_def split: if_splits)
  show ?thesis
  proof (cases "cpos c < clen c \<and> req_len s n \<le> clen c - cpos c")
    case True
    with src_read_hit_eq [OF c(1) False _ True] n r length_cached [OF c(2)] zero show ?thesis
      by (auto simp: src_read_finish_def Let_def split: if_splits)
  next
    case miss: False
    obtain p' c' out st where loop: "src_read_loop (src_rdf s) (src_param s)
        (if cpos c < clen c then c\<lparr>cpos := clen c\<rparr> else c) (cached c) (req_len s n - length (cached c))
        (\<not> req_clamp s n \<and> readahead c) = (p', c', out, st)" by (metis prod_cases4)
    have "st = Finished \<Longrightarrow> length (cached c) + (req_len s n - length (cached c)) \<le> length out"
      using loop by (auto intro: read_loop_finished)
    with src_read_miss_eq [OF c(1) False _ miss refl loop] n r zero show ?thesis
      by (cases st) (auto simp: src_read_finish_def Let_def split: if_splits)
  qed
qed

section \<open>The contract of a write callback\<close>

text \<open>
  The abstract view of a destination is the list of bytes written to it so far: what the
  callback has accepted followed by what is in the cache.
\<close>

definition dst_out :: "('q \<Rightarrow> bytes) \<Rightarrow> 'q pgp_dest \<Rightarrow> bytes" where
  "dst_out out d = out (dst_param d) @ dst_cache d"

definition dst_inv ::
    "('q \<Rightarrow> nat \<Rightarrow> bytes \<Rightarrow> 'q \<times> rnp_result) \<Rightarrow> ('q \<Rightarrow> nat \<Rightarrow> bool) \<Rightarrow> 'q pgp_dest \<Rightarrow> bool" where
  "dst_inv wr ok d \<longleftrightarrow>
     dst_wrf d = Some wr \<and> dst_werr d = RNP_SUCCESS \<and> ok (dst_param d) (dst_writeb d) \<and>
     length (dst_cache d) \<le> PGP_OUTPUT_CACHE_SIZE \<and> (dst_no_cache d \<longrightarrow> dst_cache d = [])"

lemma dst_write_after_error: "dst_werr d \<noteq> RNP_SUCCESS \<Longrightarrow> dst_write d bs = d"
  by (simp add: dst_write_def split: option.split)

lemma dst_write_empty [simp]: "dst_write d [] = d"
  by (simp add: dst_write_def split: option.split)

locale byte_sink =
  fixes wr :: "'q \<Rightarrow> nat \<Rightarrow> bytes \<Rightarrow> 'q \<times> rnp_result"
    and out :: "'q \<Rightarrow> bytes"
    and ok :: "'q \<Rightarrow> nat \<Rightarrow> bool"
  assumes wr_out: "ok p n \<Longrightarrow> wr p n bs = (p', RNP_SUCCESS) \<Longrightarrow> out p' = out p @ bs"
    and wr_ok: "ok p n \<Longrightarrow> wr p n bs = (p', RNP_SUCCESS) \<Longrightarrow> ok p' (n + length bs)"
begin

lemma call_write_spec:
  assumes "dst_inv wr ok d" "dst_werr (dst_call_write wr d bs) = RNP_SUCCESS"
  shows "out (dst_param (dst_call_write wr d bs)) = out (dst_param d) @ bs"
    and "dst_inv wr ok ((dst_call_write wr d bs)\<lparr>dst_cache := []\<rparr>)"
    and "dst_inv wr ok (dst_call_write wr d bs)"
  using assms by (auto simp: dst_call_write_def dst_inv_def PGP_OUTPUT_CACHE_SIZE_def
      split: prod.splits dest: wr_out wr_ok)

lemma write_rest_spec:
  assumes inv: "dst_inv wr ok d" and "dst_werr (dst_write_rest wr d bs) = RNP_SUCCESS"
    and fit: "dst_cache d = [] \<or> length (dst_cache d) + length bs \<le> PGP_OUTPUT_CACHE_SIZE"
  shows "dst_inv wr ok (dst_write_rest wr d bs) \<and> dst_out out (dst_write_rest wr d bs) = dst_out out d @ bs"
proof (cases "dst_no_cache d \<or> PGP_OUTPUT_CACHE_SIZE < length bs")
  case True
  then have "dst_cache d = []" using fit inv by (auto simp: dst_inv_def)
  moreover have "dst_cache (dst_call_write wr d bs) = dst_cache d"
    by (simp add: dst_call_write_def split: prod.split)
  ultimately show ?thesis
    using call_write_spec [OF inv, of bs] assms(2) True by (auto simp: dst_write_rest_def dst_out_def)
next
  case False
  with inv fit show ?thesis by (auto simp: dst_write_rest_def dst_out_def dst_inv_def)
qed

lemma dst_write_spec:
  assumes inv: "dst_inv wr ok d" and success: "dst_werr (dst_write d bs) = RNP_SUCCESS"
  shows "dst_inv wr ok (dst_write d bs) \<and> dst_out out (dst_write d bs) = dst_out out d @ bs"
proof (cases "bs = [] \<or> \<not> (0 < length (dst_cache d) \<and> PGP_OUTPUT_CACHE_SIZE < length (dst_cache d) + length bs)")
  case True
  have w: "dst_wrf d = Some wr" "dst_werr d = RNP_SUCCESS" using inv by (auto simp: dst_inv_def)
  show ?thesis
  proof (cases "bs = []")
    case True
    with inv show ?thesis by simp
  next
    case False
    with True w have "dst_write d bs = dst_write_rest wr d bs" by (auto simp: dst_write_def)
    with write_rest_spec [OF inv] success True False show ?thesis by auto
  qed
next
  case False
  define room where "room = PGP_OUTPUT_CACHE_SIZE - length (dst_cache d)"
  define d' where "d' = (dst_call_write wr d (dst_cache d @ take room bs))\<lparr>dst_cache := []\<rparr>"
  have w: "dst_wrf d = Some wr" "dst_werr d = RNP_SUCCESS" using inv by (auto simp: dst_inv_def)
  have red: "dst_write d bs = (if dst_werr d' \<noteq> RNP_SUCCESS then d' else dst_write_rest wr d' (drop room bs))"
    using False w by (simp add: dst_write_def Let_def room_def d'_def)
  with success have ok': "dst_werr d' = RNP_SUCCESS" by (auto split: if_splits)
  then have call: "dst_werr (dst_call_write wr d (dst_cache d @ take room bs)) = RNP_SUCCESS"
    by (simp add: d'_def)
  have d': "dst_inv wr ok d'" "dst_out out d' = dst_out out d @ take room bs" "dst_cache d' = []"
    using call_write_spec [OF inv call] by (auto simp: d'_def dst_out_def)
  show ?thesis
    using write_rest_spec [OF d'(1), of "drop room bs"] d' red ok' success by auto
qed

end

text \<open>A sink that fails only when its output would exceed a capacity.\<close>

locale bounded_sink = byte_sink +
  fixes cap :: "'q \<Rightarrow> nat"
  assumes ok_length: "ok p n \<Longrightarrow> length (out p) = n"
    and wr_total: "ok p n \<Longrightarrow> n + length bs \<le> cap p \<Longrightarrow> snd (wr p n bs) = RNP_SUCCESS"
    and wr_cap: "ok p n \<Longrightarrow> wr p n bs = (p', RNP_SUCCESS) \<Longrightarrow> cap p' = cap p"
begin

lemma call_write_total:
  assumes "dst_inv wr ok d" "length (out (dst_param d)) + length bs \<le> cap (dst_param d)"
  shows "dst_werr (dst_call_write wr d bs) = RNP_SUCCESS \<and>
         cap (dst_param (dst_call_write wr d bs)) = cap (dst_param d)"
proof -
  have ok: "ok (dst_param d) (dst_writeb d)" using assms(1) by (simp add: dst_inv_def)
  then have "snd (wr (dst_param d) (dst_writeb d) bs) = RNP_SUCCESS"
    using assms(2) ok_length [OF ok] by (intro wr_total) auto
  then obtain p' where "wr (dst_param d) (dst_writeb d) bs = (p', RNP_SUCCESS)"
    by (cases "wr (dst_param d) (dst_writeb d) bs") auto
  with wr_cap [OF ok this] show ?thesis by (simp add: dst_call_write_def)
qed

lemma write_rest_total:
  assumes "dst_inv wr ok d" "length (out (dst_param d)) + length bs \<le> cap (dst_param d)"
  shows "dst_werr (dst_write_rest wr d bs) = RNP_SUCCESS \<and>
         cap (dst_param (dst_write_rest wr d bs)) = cap (dst_param d)"
  using call_write_total [OF assms] assms(1) by (auto simp: dst_write_rest_def dst_inv_def)

lemma dst_write_total:
  assumes inv: "dst_inv wr ok d" and room: "length (dst_out out d) + length bs \<le> cap (dst_param d)"
  shows "dst_werr (dst_write d bs) = RNP_SUCCESS \<and> cap (dst_param (dst_write d bs)) = cap (dst_param d)"
proof -
  have w: "dst_wrf d = Some wr" "dst_werr d = RNP_SUCCESS" using inv by (auto simp: dst_inv_def)
  define room where "room = PGP_OUTPUT_CACHE_SIZE - length (dst_cache d)"
  define d' where "d' = (dst_call_write wr d (dst_cache d @ take room bs))\<lparr>dst_cache := []\<rparr>"
  have call: "dst_werr (dst_call_write wr d (dst_cache d @ take room bs)) = RNP_SUCCESS"
    "cap (dst_param (dst_call_write wr d (dst_cache d @ take room bs))) = cap (dst_param d)"
    using call_write_total [OF inv, of "dst_cache d @ take room bs"] room by (auto simp: dst_out_def)
  have d': "dst_inv wr ok d'" "out (dst_param d') = dst_out out d @ take room bs"
    "cap (dst_param d') = cap (dst_param d)" "dst_werr d' = RNP_SUCCESS"
    using call_write_spec [OF inv call(1)] call by (auto simp: d'_def dst_out_def)
  have "dst_werr (dst_write_rest wr d bs) = RNP_SUCCESS \<and>
      cap (dst_param (dst_write_rest wr d bs)) = cap (dst_param d)"
    using write_rest_total [OF inv, of bs] room by (auto simp: dst_out_def)
  moreover have "dst_werr (dst_write_rest wr d' (drop room bs)) = RNP_SUCCESS \<and>
      cap (dst_param (dst_write_rest wr d' (drop room bs))) = cap (dst_param d)"
    using write_rest_total [OF d'(1), of "drop room bs"] d'(2,3) room by auto
  moreover have "dst_write d bs = d \<or> dst_write d bs = dst_write_rest wr d bs \<or>
      dst_write d bs = dst_write_rest wr d' (drop room bs)"
    using w d'(4) by (auto simp: dst_write_def Let_def room_def [symmetric] d'_def [symmetric])
      (simp_all add: d'_def)
  ultimately show ?thesis using w by auto
qed

lemma dst_write_eq:
  assumes "dst_inv wr ok d" "length (dst_out out d) + length bs \<le> cap (dst_param d)"
  shows "dst_inv wr ok (dst_write d bs)" "dst_out out (dst_write d bs) = dst_out out d @ bs"
    and "cap (dst_param (dst_write d bs)) = cap (dst_param d)"
  using dst_write_total [OF assms] dst_write_spec [OF assms(1), of bs] by auto

lemma dst_flush_eq:
  assumes inv: "dst_inv wr ok d" and room: "length (dst_out out d) \<le> cap (dst_param d)"
  shows "dst_inv wr ok (dst_flush d)" "out (dst_param (dst_flush d)) = dst_out out d"
    and "dst_cache (dst_flush d) = []"
proof -
  have w: "dst_wrf d = Some wr" "dst_werr d = RNP_SUCCESS" using inv by (auto simp: dst_inv_def)
  have call: "dst_werr (dst_call_write wr d (dst_cache d)) = RNP_SUCCESS"
    using call_write_total [OF inv, of "dst_cache d"] room by (simp add: dst_out_def)
  show "dst_inv wr ok (dst_flush d)" "out (dst_param (dst_flush d)) = dst_out out d"
    "dst_cache (dst_flush d) = []"
    using w call_write_spec [OF inv call] inv by (auto simp: dst_flush_def dst_out_def)
qed

end

section \<open>Memory destinations honour the contract\<close>

definition mem_out :: "mem_dst_param option \<Rightarrow> bytes" where
  "mem_out param = (case param of None \<Rightarrow> [] | Some m \<Rightarrow> mdp_memory m)"

definition mem_dst_ok :: "mem_dst_param option \<Rightarrow> nat \<Rightarrow> bool" where
  "mem_dst_ok param writeb \<longleftrightarrow> (\<exists>m. param = Some m \<and> length (mdp_memory m) = writeb)"

definition mem_cap :: "mem_dst_param option \<Rightarrow> nat" where
  "mem_cap param = (case param of None \<Rightarrow> 0 | Some m \<Rightarrow> mdp_maxalloc m)"

interpretation mem_sink: byte_sink "mem_dst_write al" mem_out mem_dst_ok for al
  by unfold_locales
    (auto simp: mem_dst_write_def mem_out_def mem_dst_ok_def Let_def split: option.splits if_splits)

interpretation mem_bounded: bounded_sink "mem_dst_write (\<lambda>_. True)" mem_out mem_dst_ok mem_cap
  by unfold_locales
    (auto simp: mem_dst_write_def mem_out_def mem_dst_ok_def mem_cap_def Let_def split: option.splits if_splits)

lemma init_mem_dest_inv:
  assumes "al 16"
  obtains d where "init_mem_dest al maxalloc = (d, RNP_SUCCESS)"
    "dst_inv (mem_dst_write al) mem_dst_ok d" "dst_out mem_out d = []" "mem_cap (dst_param d) = maxalloc"
    "dst_no_cache d"
  using assms by (simp add: init_mem_dest_def init_dst_common_def dst_inv_def dst_out_def mem_dst_ok_def
      mem_out_def mem_cap_def PGP_OUTPUT_CACHE_SIZE_def)

lemma dst_write_no_cache [simp]: "dst_no_cache (dst_write d bs) = dst_no_cache d"
  by (simp add: dst_write_def dst_write_rest_def dst_call_write_def Let_def split: option.split prod.split)

lemma mem_dest_get_memory_eq:
  assumes "dst_inv (mem_dst_write al) mem_dst_ok d" "dst_no_cache d"
  shows "mem_dest_get_memory d = Some (dst_out mem_out d)"
  using assms by (auto simp: mem_dest_get_memory_def dst_inv_def dst_out_def mem_dst_ok_def mem_out_def
      split: option.splits)

end
