(* ===== verification/Stream_Cursor.thy ===== *)
theory Stream_Cursor
  imports Stream_Common
begin

text \<open>
  The abstract view of a source and of a destination.  A source is a cursor on a byte
  list: every sequence of reads, peeks, skips, end-of-file tests, line peeks and
  end-of-line skips gives the answers that the list gives, whatever the cache holds, but
  for the lines that \<^verbatim>\<open>src_peek_line\<close> does not find.  A
  destination is a byte list that only grows: caching and flushing are not visible.
\<close>

section \<open>Sources as cursors\<close>

datatype src_op =
    Op_read nat
  | Op_peek nat
  | Op_skip nat
  | Op_eof
  | Op_skip_eol
  | Op_peek_line nat

datatype src_answer =
    Ans_bytes "bytes option"
  | Ans_count "nat option"
  | Ans_flag bool

definition run_src_op :: "alloc \<Rightarrow> 'q pgp_source \<Rightarrow> src_op \<Rightarrow> 'q pgp_source \<times> src_answer" where
  "run_src_op al s x =
     (case x of
        Op_read n \<Rightarrow> (case src_read s n of (s', r) \<Rightarrow> (s', Ans_bytes r))
      | Op_peek n \<Rightarrow> (case src_peek s n of (s', r) \<Rightarrow> (s', Ans_bytes r))
      | Op_skip n \<Rightarrow> (case src_skip al s n of (s', r) \<Rightarrow> (s', Ans_count r))
      | Op_eof \<Rightarrow> (case src_eof s of (s', r) \<Rightarrow> (s', Ans_flag r))
      | Op_skip_eol \<Rightarrow> (case src_skip_eol al s of (s', r) \<Rightarrow> (s', Ans_flag r))
      | Op_peek_line n \<Rightarrow> (case src_peek_line s n of (s', r) \<Rightarrow> (s', Ans_bytes r)))"

fun run_src_ops :: "alloc \<Rightarrow> 'q pgp_source \<Rightarrow> src_op list \<Rightarrow> 'q pgp_source \<times> src_answer list" where
  "run_src_ops al s [] = (s, [])"
| "run_src_ops al s (x # xs) =
     (case run_src_op al s x of
        (s', r) \<Rightarrow> (case run_src_ops al s' xs of (s'', rs) \<Rightarrow> (s'', r # rs)))"

text \<open>The same operations on the list of the bytes that are left.\<close>

definition eol_len :: "bytes \<Rightarrow> nat" where
  "eol_len a = (if take 1 a = [CH_LF] then 1 else if take 2 a = [CH_CR, CH_LF] then 2 else 0)"

text \<open>
  What \<^verbatim>\<open>stream-common.h\<close> promises of a line peek: the line, when it is found within the
  buffer, which needs a byte for the final zero.
\<close>

definition list_line :: "nat \<Rightarrow> bytes \<Rightarrow> bytes option" where
  "list_line n a =
     (if CH_LF \<in> set (take (n - 1) a)
      then Some (strip_cr (takeWhile (\<lambda>b. b \<noteq> CH_LF) a)) else None)"

definition run_list_op :: "bytes \<Rightarrow> src_op \<Rightarrow> bytes \<times> src_answer" where
  "run_list_op a x =
     (case x of
        Op_read n \<Rightarrow> (drop n a, Ans_bytes (Some (take n a)))
      | Op_peek n \<Rightarrow> (a, Ans_bytes (Some (take n a)))
      | Op_skip n \<Rightarrow> (drop n a, Ans_count (Some (min n (length a))))
      | Op_eof \<Rightarrow> (a, Ans_flag (a = []))
      | Op_skip_eol \<Rightarrow> (drop (eol_len a) a, Ans_flag (0 < eol_len a))
      | Op_peek_line n \<Rightarrow> (a, Ans_bytes (list_line n a)))"

fun run_list_ops :: "bytes \<Rightarrow> src_op list \<Rightarrow> bytes \<times> src_answer list" where
  "run_list_ops a [] = (a, [])"
| "run_list_ops a (x # xs) =
     (case run_list_op a x of
        (a', r) \<Rightarrow> (case run_list_ops a' xs of (a'', rs) \<Rightarrow> (a'', r # rs)))"

text \<open>
  The requests that the code answers as documented, on a source with the bytes \<open>a\<close> left: a
  peek fits into the cache, and a line peek has a buffer, and when there is a line feed
  within that buffer there is one among the first 64 bytes.
\<close>

fun src_op_ok :: "bytes \<Rightarrow> src_op \<Rightarrow> bool" where
  "src_op_ok a (Op_read n) = (n < 2 ^ 63)"
| "src_op_ok a (Op_peek n) = (n \<le> PGP_INPUT_CACHE_SIZE)"
| "src_op_ok a (Op_skip n) = (n < 2 ^ 63)"
| "src_op_ok a (Op_peek_line n) =
     (0 < n \<and> n < 2 ^ 64 \<and> (CH_LF \<in> set (take (n - 1) a) \<longrightarrow> CH_LF \<in> set (take 64 a)))"
| "src_op_ok a _ = True"

fun src_ops_ok :: "bytes \<Rightarrow> src_op list \<Rightarrow> bool" where
  "src_ops_ok a [] = True"
| "src_ops_ok a (x # xs) = (src_op_ok a x \<and> src_ops_ok (fst (run_list_op a x)) xs)"

text \<open>There the limit of 64 bytes is not visible.\<close>

lemma list_line_near:
  assumes "CH_LF \<in> set (take (n - 1) a) \<longrightarrow> CH_LF \<in> set (take 64 a)"
  shows "CH_LF \<in> set (take (min 64 (n - 1)) a) \<longleftrightarrow> CH_LF \<in> set (take (n - 1) a)"
  using assms set_take_subset_set_take [of "min 64 (n - 1)" "n - 1" a] by (auto simp: min_def)

context reliable_source
begin

lemma run_src_op_refines:
  assumes h: "src_holds rd rest ok s a" and x: "src_op_ok a x" and al: "\<And>n. al n"
  shows "\<exists>s'. run_src_op al s x = (s', snd (run_list_op a x)) \<and>
              src_holds rd rest ok s' (fst (run_list_op a x))"
proof -
  have inv: "src_inv rd rest ok s" and a: "src_avail rest s = a" using h by (auto simp: src_holds_def)
  have rb: "src_readb s < 2 ^ 63" using src_holds_readb [OF h] by simp
  note defs = run_src_op_def run_list_op_def src_holds_def
  show ?thesis
  proof (cases x)
    case (Op_read n)
    with x rb have "src_readb s + n < 2 ^ 64" by simp
    with inv show ?thesis by (rule src_read_eq) (auto simp: defs Op_read a)
  next
    case (Op_peek n)
    with x rb have "n \<le> PGP_INPUT_CACHE_SIZE" "src_readb s + n < 2 ^ 64" by (auto simp: PGP_INPUT_CACHE_SIZE_def)
    with inv show ?thesis by (rule src_peek_eq) (auto simp: defs Op_peek a)
  next
    case (Op_skip n)
    with x rb have "src_readb s + n < 2 ^ 64" by simp
    from inv this al [of n] show ?thesis by (rule src_skip_eq) (auto simp: defs Op_skip a)
  next
    case Op_eof
    from rb have "src_readb s + 1 < 2 ^ 64" by simp
    with inv show ?thesis by (rule src_eof_eq) (auto simp: defs Op_eof a)
  next
    case Op_skip_eol
    from rb have "src_readb s + 2 < 2 ^ 64" by simp
    from inv this al [of 1] al [of 2] show ?thesis by (rule src_skip_eol_eq) (auto simp: defs Op_skip_eol a eol_len_def)
  next
    case (Op_peek_line n)
    with x rb have "src_readb s + 64 < 2 ^ 64" "0 < n"
      and "CH_LF \<in> set (take (n - 1) a) \<longrightarrow> CH_LF \<in> set (take 64 a)" by auto
    note near = list_line_near [OF this(3)]
    show ?thesis
      by (rule src_peek_line_eq [OF inv \<open>src_readb s + 64 < 2 ^ 64\<close> \<open>0 < n\<close>])
        (simp add: defs Op_peek_line a list_line_def near [simplified])
  qed
qed

lemma run_src_ops_refines:
  assumes "src_holds rd rest ok s a" "src_ops_ok a xs" "\<And>n. al n"
  shows "\<exists>s'. run_src_ops al s xs = (s', snd (run_list_ops a xs)) \<and>
              src_holds rd rest ok s' (fst (run_list_ops a xs))"
  using assms(1,2)
proof (induction xs arbitrary: s a)
  case (Cons x xs)
  obtain a1 r where l: "run_list_op a x = (a1, r)" by fastforce
  with run_src_op_refines [OF Cons.prems(1) _ assms(3), of x] Cons.prems(2)
  obtain s1 where s1: "run_src_op al s x = (s1, r)" "src_holds rd rest ok s1 a1" by fastforce
  obtain a2 rs where l2: "run_list_ops a1 xs = (a2, rs)" by fastforce
  with Cons.IH [OF s1(2)] Cons.prems(2) l
  obtain s2 where "run_src_ops al s1 xs = (s2, rs)" "src_holds rd rest ok s2 a2" by auto
  with s1 l l2 show ?case by simp
qed auto

end

section \<open>Reading in pieces\<close>

text \<open>Reads of the given sizes, one after the other, and what each of them answers.\<close>

fun src_reads :: "'q pgp_source \<Rightarrow> nat list \<Rightarrow> 'q pgp_source \<times> bytes option list" where
  "src_reads s [] = (s, [])"
| "src_reads s (n # ns) =
     (case src_read s n of
        (s', r) \<Rightarrow> (case src_reads s' ns of (s'', rs) \<Rightarrow> (s'', r # rs)))"

context reliable_source
begin

lemma src_reads_any:
  assumes "src_inv rd rest ok s"
  obtains s' bss where "src_reads s ns = (s', map Some bss)"
    "concat bss = take (sum_list ns) (src_avail rest s)"
    "src_avail rest s' = drop (sum_list ns) (src_avail rest s)" "src_inv rd rest ok s'"
  using assms
proof (induction ns arbitrary: s thesis)
  case Nil
  show ?case by (rule Nil(1) [of s "[]"]) (use Nil(2) in auto)
next
  case (Cons n ns)
  obtain s1 where s1: "src_read s n = (s1, Some (take n (src_avail rest s)))"
    "src_avail rest s1 = drop n (src_avail rest s)" "src_inv rd rest ok s1"
    by (rule src_read_any [OF Cons.prems(2)])
  obtain s2 bss where s2: "src_reads s1 ns = (s2, map Some bss)"
    "concat bss = take (sum_list ns) (src_avail rest s1)"
    "src_avail rest s2 = drop (sum_list ns) (src_avail rest s1)" "src_inv rd rest ok s2"
    by (rule Cons.IH [OF _ s1(3)])
  show ?case
    by (rule Cons.prems(1) [of s2 "take n (src_avail rest s) # bss"])
      (use s1 s2 in \<open>simp_all add: take_add add.commute\<close>)
qed

end

section \<open>Destinations as growing lists\<close>

context bounded_sink
begin

lemma dst_writes_eq:
  assumes "dst_inv wr ok d" "length (dst_out out d) + length (concat bss) \<le> cap (dst_param d)"
  shows "dst_inv wr ok (fold (\<lambda>bs d. dst_write d bs) bss d) \<and>
         dst_out out (fold (\<lambda>bs d. dst_write d bs) bss d) = dst_out out d @ concat bss \<and>
         cap (dst_param (fold (\<lambda>bs d. dst_write d bs) bss d)) = cap (dst_param d)"
  using assms
proof (induction bss arbitrary: d)
  case (Cons bs bss)
  then have w: "dst_inv wr ok (dst_write d bs)" "dst_out out (dst_write d bs) = dst_out out d @ bs"
    "cap (dst_param (dst_write d bs)) = cap (dst_param d)" by (auto intro!: dst_write_eq)
  with Cons show ?case by simp
qed simp

lemma dst_writes_flush_eq:
  assumes "dst_inv wr ok d" "length (dst_out out d) + length (concat bss) \<le> cap (dst_param d)"
  shows "out (dst_param (dst_flush (fold (\<lambda>bs d. dst_write d bs) bss d))) = dst_out out d @ concat bss"
  using dst_writes_eq [OF assms] assms(2) by (auto simp: dst_flush_eq)

end

end
