(* ===== verification/Stream_Packet.thy ===== *)
theory Stream_Packet
  imports Stream_Common "HOL-Library.Monad_Syntax"
begin

text \<open>
  OpenPGP packets on streams, \<^verbatim>\<open>src/src/librepgp/stream-packet.c\<close>: packet headers and
  lengths, multi-precision integers, packet bodies, and the writers and parsers of the
  session key and one-pass signature packets.
\<close>

section \<open>Constants and structures\<close>

abbreviation (input) PGP_PTAG_ALWAYS_SET :: byte where "PGP_PTAG_ALWAYS_SET \<equiv> 0x80"
abbreviation (input) PGP_PTAG_NEW_FORMAT :: byte where "PGP_PTAG_NEW_FORMAT \<equiv> 0x40"
abbreviation (input) PGP_PTAG_OF_CONTENT_TAG_MASK :: byte where "PGP_PTAG_OF_CONTENT_TAG_MASK \<equiv> 0x3c"
abbreviation (input) PGP_PTAG_OF_LENGTH_TYPE_MASK :: byte where "PGP_PTAG_OF_LENGTH_TYPE_MASK \<equiv> 0x03"
abbreviation (input) PGP_PTAG_NF_CONTENT_TAG_MASK :: byte where "PGP_PTAG_NF_CONTENT_TAG_MASK \<equiv> 0x3f"

definition PGP_MPINT_BITS :: nat where "PGP_MPINT_BITS = 16384"
definition PGP_MPINT_SIZE :: nat where "PGP_MPINT_SIZE = 2048"
definition PGP_MAX_PKT_SIZE :: nat where "PGP_MAX_PKT_SIZE = 0x100000"
definition PGP_MAX_KEY_SIZE :: nat where "PGP_MAX_KEY_SIZE = 32"
definition PGP_SALT_SIZE :: nat where "PGP_SALT_SIZE = 8"
definition PGP_KEY_ID_SIZE :: nat where "PGP_KEY_ID_SIZE = 8"
definition PGP_FINGERPRINT_SIZE :: nat where "PGP_FINGERPRINT_SIZE = 20"
definition ECDH_WRAPPED_KEY_SIZE :: nat where "ECDH_WRAPPED_KEY_SIZE = 48"

abbreviation (input) PGP_PTAG_CT_PK_SESSION_KEY :: int where "PGP_PTAG_CT_PK_SESSION_KEY \<equiv> 1"
abbreviation (input) PGP_PTAG_CT_SIGNATURE :: int where "PGP_PTAG_CT_SIGNATURE \<equiv> 2"
abbreviation (input) PGP_PTAG_CT_SK_SESSION_KEY :: int where "PGP_PTAG_CT_SK_SESSION_KEY \<equiv> 3"
abbreviation (input) PGP_PTAG_CT_1_PASS_SIG :: int where "PGP_PTAG_CT_1_PASS_SIG \<equiv> 4"
abbreviation (input) PGP_PTAG_CT_SECRET_KEY :: int where "PGP_PTAG_CT_SECRET_KEY \<equiv> 5"
abbreviation (input) PGP_PTAG_CT_PUBLIC_KEY :: int where "PGP_PTAG_CT_PUBLIC_KEY \<equiv> 6"
abbreviation (input) PGP_PTAG_CT_COMPRESSED :: int where "PGP_PTAG_CT_COMPRESSED \<equiv> 8"
abbreviation (input) PGP_PTAG_CT_SE_DATA :: int where "PGP_PTAG_CT_SE_DATA \<equiv> 9"
abbreviation (input) PGP_PTAG_CT_LITDATA :: int where "PGP_PTAG_CT_LITDATA \<equiv> 11"
abbreviation (input) PGP_PTAG_CT_SE_IP_DATA :: int where "PGP_PTAG_CT_SE_IP_DATA \<equiv> 18"

abbreviation (input) PGP_PKA_RSA :: nat where "PGP_PKA_RSA \<equiv> 1"
abbreviation (input) PGP_PKA_RSA_ENCRYPT_ONLY :: nat where "PGP_PKA_RSA_ENCRYPT_ONLY \<equiv> 2"
abbreviation (input) PGP_PKA_ELGAMAL :: nat where "PGP_PKA_ELGAMAL \<equiv> 16"
abbreviation (input) PGP_PKA_DSA :: nat where "PGP_PKA_DSA \<equiv> 17"
abbreviation (input) PGP_PKA_ECDH :: nat where "PGP_PKA_ECDH \<equiv> 18"
abbreviation (input) PGP_PKA_ECDSA :: nat where "PGP_PKA_ECDSA \<equiv> 19"
abbreviation (input) PGP_PKA_ELGAMAL_ENCRYPT_OR_SIGN :: nat where "PGP_PKA_ELGAMAL_ENCRYPT_OR_SIGN \<equiv> 20"
abbreviation (input) PGP_PKA_EDDSA :: nat where "PGP_PKA_EDDSA \<equiv> 22"
abbreviation (input) PGP_PKA_SM2 :: nat where "PGP_PKA_SM2 \<equiv> 99"

abbreviation (input) PGP_S2KS_SIMPLE :: nat where "PGP_S2KS_SIMPLE \<equiv> 0"
abbreviation (input) PGP_S2KS_SALTED :: nat where "PGP_S2KS_SALTED \<equiv> 1"
abbreviation (input) PGP_S2KS_ITERATED_AND_SALTED :: nat where "PGP_S2KS_ITERATED_AND_SALTED \<equiv> 3"

text \<open>
  \<^verbatim>\<open>pgp_packet_body_t\<close>.  \<open>pb_data\<close> is the initialised part of the buffer, so its length is
  the field \<^verbatim>\<open>len\<close>.
\<close>

record pgp_packet_body =
  pb_tag :: int
  pb_data :: bytes
  pb_allocated :: nat

text \<open>\<^verbatim>\<open>pgp_s2k_t\<close>.\<close>

record pgp_s2k =
  s2k_usage :: nat
  s2k_specifier :: nat
  s2k_hash_alg :: nat
  s2k_salt :: bytes
  s2k_iterations :: nat

text \<open>\<^verbatim>\<open>pgp_sk_sesskey_t\<close>; \<open>sk_enckey\<close> is the first \<^verbatim>\<open>enckeylen\<close> bytes of the array.\<close>

record pgp_sk_sesskey =
  sk_version :: nat
  sk_alg :: nat
  sk_s2k :: pgp_s2k
  sk_enckey :: bytes

text \<open>
  \<^verbatim>\<open>pgp_pk_sesskey_pkt_t\<close>.  The union of the parameters is a record with a field for each
  member: the code reads only the member that belongs to the algorithm.
\<close>

record pgp_pk_sesskey_pkt =
  pk_version :: nat
  pk_key_id :: bytes
  pk_alg :: nat
  pk_rsa_m :: bytes
  pk_eg_g :: bytes
  pk_eg_m :: bytes
  pk_sm2_m :: bytes
  pk_ecdh_p :: bytes
  pk_ecdh_m :: bytes

text \<open>\<^verbatim>\<open>pgp_one_pass_sig_t\<close>.\<close>

record pgp_one_pass_sig =
  op_version :: nat
  op_type :: nat
  op_halg :: nat
  op_palg :: nat
  op_keyid :: bytes
  op_nested :: nat

section \<open>Numbers and packet headers\<close>

definition read_uint32 :: "bytes \<Rightarrow> 32 word" where
  "read_uint32 buf =
     push_bit 24 (ucast (buf ! 0)) OR push_bit 16 (ucast (buf ! 1)) OR
     push_bit 8 (ucast (buf ! 2)) OR ucast (buf ! 3)"

definition read_uint16 :: "bytes \<Rightarrow> 16 word" where
  "read_uint16 buf = push_bit 8 (ucast (buf ! 0)) OR ucast (buf ! 1)"

definition STORE32BE :: "nat \<Rightarrow> bytes" where
  "STORE32BE y = [to_byte (drop_bit 24 y), to_byte (drop_bit 16 y), to_byte (drop_bit 8 y), to_byte y]"

definition write_packet_len :: "nat \<Rightarrow> bytes" where
  "write_packet_len len =
     (if len < 192 then [to_byte len]
      else if len < 8192 + 192
      then [to_byte (drop_bit 8 (len - 192) + 192), to_byte (len - 192)]
      else 0xff # STORE32BE len)"

definition get_packet_type :: "byte \<Rightarrow> int" where
  "get_packet_type ptag =
     (if ptag AND PGP_PTAG_ALWAYS_SET = 0 then - 1
      else if ptag AND PGP_PTAG_NEW_FORMAT \<noteq> 0 then uint (ptag AND PGP_PTAG_NF_CONTENT_TAG_MASK)
      else uint (drop_bit 2 (ptag AND PGP_PTAG_OF_CONTENT_TAG_MASK)))"

text \<open>
  The test \<^verbatim>\<open>src_read(src, buf, n) < n\<close> (or \<^verbatim>\<open>!= n\<close>) that follows most reads: the bytes
  when all of them were read, \<^const>\<open>None\<close> otherwise.
\<close>

definition src_get :: "'q pgp_source \<Rightarrow> nat \<Rightarrow> 'q pgp_source \<times> bytes option" where
  "src_get src n =
     (case src_read src n of
        (src', None) \<Rightarrow> (src', None)
      | (src', Some bs) \<Rightarrow> (src', if length bs = n then Some bs else None))"

definition stream_pkt_hdr_len :: "'q pgp_source \<Rightarrow> 'q pgp_source \<times> nat option" where
  "stream_pkt_hdr_len src =
     (case src_peek src 2 of
        (src', None) \<Rightarrow> (src', None)
      | (src', Some buf) \<Rightarrow>
          (src',
           if length buf < 2 \<or> buf ! 0 AND PGP_PTAG_ALWAYS_SET = 0 then None
           else if buf ! 0 AND PGP_PTAG_NEW_FORMAT \<noteq> 0 then
             if unat (buf ! 1) < 192 then Some 2
             else if unat (buf ! 1) < 224 then Some 3
             else if unat (buf ! 1) < 255 then Some 2
             else Some 6
           else
             (let t = buf ! 0 AND PGP_PTAG_OF_LENGTH_TYPE_MASK in
              if t = 0 then Some 2 else if t = 1 then Some 3 else if t = 2 then Some 5
              else if t = 3 then Some 1 else None)))"

definition stream_read_pkt_len :: "'q pgp_source \<Rightarrow> 'q pgp_source \<times> nat option" where
  "stream_read_pkt_len src =
     (case src_get src 2 of
        (src1, None) \<Rightarrow> (src1, None)
      | (src1, Some buf) \<Rightarrow>
          if buf ! 0 AND PGP_PTAG_ALWAYS_SET = 0 then (src1, None)
          else if buf ! 0 AND PGP_PTAG_NEW_FORMAT \<noteq> 0 then
            if unat (buf ! 1) < 192 then (src1, Some (unat (buf ! 1)))
            else if unat (buf ! 1) < 224 then
              (case src_get src1 1 of
                 (src2, None) \<Rightarrow> (src2, None)
               | (src2, Some b) \<Rightarrow>
                   (src2, Some (push_bit 8 (unat (buf ! 1) - 192) + unat (b ! 0) + 192)))
            else if unat (buf ! 1) < 255 then (src1, None)
            else
              (case src_get src1 4 of
                 (src2, None) \<Rightarrow> (src2, None)
               | (src2, Some b) \<Rightarrow> (src2, Some (unat (read_uint32 b))))
          else
            (let t = buf ! 0 AND PGP_PTAG_OF_LENGTH_TYPE_MASK in
             if t = 0 then (src1, Some (unat (buf ! 1)))
             else if t = 1 then
               (case src_get src1 1 of
                  (src2, None) \<Rightarrow> (src2, None)
                | (src2, Some b) \<Rightarrow> (src2, Some (unat (read_uint16 (buf ! 1 # b)))))
             else if t = 2 then
               (case src_get src1 3 of
                  (src2, None) \<Rightarrow> (src2, None)
                | (src2, Some b) \<Rightarrow> (src2, Some (unat (read_uint32 (buf ! 1 # b)))))
             else (src1, None)))"

section \<open>Multi-precision integers\<close>

text \<open>
  The check of the first byte at the end of \<^verbatim>\<open>stream_read_mpi\<close>: the top bit that the bit
  count announces is set and no higher one is.
\<close>

definition mpi_bit_count_ok :: "nat \<Rightarrow> byte \<Rightarrow> bool" where
  "mpi_bit_count_ok bits b =
     (let hbits = (if bits mod 8 \<noteq> 0 then bits mod 8 else 8)
      in drop_bit hbits (unat b) = 0 \<and> bit b (hbits - 1))"

text \<open>\<open>maxlen\<close> is zero when the caller does not limit the length of the integer.\<close>

definition stream_read_mpi :: "'q pgp_source \<Rightarrow> nat \<Rightarrow> 'q pgp_source \<times> bytes option" where
  "stream_read_mpi src maxlen =
     (if 0 < maxlen \<and> maxlen < 2 then (src, None)
      else
        (case src_get src 2 of
           (src1, None) \<Rightarrow> (src1, None)
         | (src1, Some hdr) \<Rightarrow>
             let bits = unat (read_uint16 hdr);
                 nbytes = drop_bit 3 (bits + 7)
             in if bits = 0 \<or> PGP_MPINT_BITS < bits then (src1, None)
                else if 0 < maxlen \<and> maxlen - 2 < nbytes then (src1, None)
                else
                  (case src_get src1 nbytes of
                     (src2, None) \<Rightarrow> (src2, None)
                   | (src2, Some mpi) \<Rightarrow>
                       (src2, if mpi_bit_count_ok bits (mpi ! 0) then Some mpi else None))))"

section \<open>Packet bodies\<close>

definition init_packet_body :: "alloc \<Rightarrow> int \<Rightarrow> pgp_packet_body option" where
  "init_packet_body al tag =
     (if al 16 then Some \<lparr>pb_tag = tag, pb_data = [], pb_allocated = 16\<rparr> else None)"

definition add_packet_body :: "alloc \<Rightarrow> pgp_packet_body \<Rightarrow> bytes \<Rightarrow> pgp_packet_body option" where
  "add_packet_body al body data =
     (let need = length (pb_data body) + length data in
      if pb_allocated body < need then
        if al (need * 2)
        then Some (body\<lparr>pb_allocated := need * 2, pb_data := pb_data body @ data\<rparr>)
        else None
      else Some (body\<lparr>pb_data := pb_data body @ data\<rparr>))"

definition add_packet_body_byte :: "alloc \<Rightarrow> pgp_packet_body \<Rightarrow> byte \<Rightarrow> pgp_packet_body option" where
  "add_packet_body_byte al body b =
     (if length (pb_data body) < pb_allocated body
      then Some (body\<lparr>pb_data := pb_data body @ [b]\<rparr>)
      else add_packet_body al body [b])"

text \<open>The first loop of \<^verbatim>\<open>add_packet_body_mpi\<close>: skip leading zero bytes, but not the last byte.\<close>

fun skip_zeros :: "bytes \<Rightarrow> bytes" where
  "skip_zeros [] = []"
| "skip_zeros [b] = [b]"
| "skip_zeros (b # b' # bs) = (if b = 0 then skip_zeros (b' # bs) else b # b' # bs)"

text \<open>The second loop: the number of significant bits of the first byte.\<close>

fun significant_bits :: "nat \<Rightarrow> nat" where
  "significant_bits h = (if 0 < h then Suc (significant_bits (h div 2)) else 0)"

declare significant_bits.simps [simp del]

text \<open>
  \<^verbatim>\<open>add_packet_body_mpi\<close> for a non-empty integer; with \<^verbatim>\<open>len == 0\<close> the C code reads past
  the buffer, and the model answers \<^const>\<open>None\<close>.
\<close>

definition add_packet_body_mpi :: "alloc \<Rightarrow> pgp_packet_body \<Rightarrow> bytes \<Rightarrow> pgp_packet_body option" where
  "add_packet_body_mpi al body mpi =
     (if mpi = [] then None
      else
        let m = skip_zeros mpi;
            bits = push_bit 3 (length m - 1) + significant_bits (unat (m ! 0))
        in do {
             body \<leftarrow> add_packet_body al body [to_byte (drop_bit 8 bits), to_byte bits];
             add_packet_body al body m
           })"

definition stream_flush_packet_body :: "pgp_packet_body \<Rightarrow> 'q pgp_dest \<Rightarrow> 'q pgp_dest" where
  "stream_flush_packet_body body dst =
     (let hdr = (word_of_int (pb_tag body) OR PGP_PTAG_ALWAYS_SET OR PGP_PTAG_NEW_FORMAT)
                # write_packet_len (length (pb_data body))
      in dst_write (dst_write dst hdr) (pb_data body))"

text \<open>
  \<^verbatim>\<open>stream_read_packet_body\<close>.  The body is read with the length that the peek of the tag
  byte returned, which is what the C code does.
\<close>

definition stream_read_packet_body ::
    "alloc \<Rightarrow> 'q pgp_source \<Rightarrow> 'q pgp_source \<times> (rnp_result + pgp_packet_body)" where
  "stream_read_packet_body al src =
     (case src_peek src 1 of
        (src1, None) \<Rightarrow> (src1, Inl RNP_ERROR_READ)
      | (src1, Some buf) \<Rightarrow>
          if length buf < 1 then (src1, Inl RNP_ERROR_READ)
          else if get_packet_type (buf ! 0) < 0 then (src1, Inl RNP_ERROR_BAD_FORMAT)
          else
            (case stream_read_pkt_len src1 of
               (src2, None) \<Rightarrow> (src2, Inl RNP_ERROR_READ)
             | (src2, Some len) \<Rightarrow>
                 if len = 0 then (src2, Inl RNP_ERROR_READ)
                 else if PGP_MAX_PKT_SIZE < len then (src2, Inl RNP_ERROR_BAD_FORMAT)
                 else if \<not> al len then (src2, Inl RNP_ERROR_OUT_OF_MEMORY)
                 else
                   (case src_read src2 (length buf) of
                      (src3, None) \<Rightarrow> (src3, Inl RNP_ERROR_READ)
                    | (src3, Some data) \<Rightarrow>
                        if length data < len then (src3, Inl RNP_ERROR_READ)
                        else (src3, Inr \<lparr>pb_tag = get_packet_type (buf ! 0), pb_data = data,
                                         pb_allocated = len\<rparr>))))"

section \<open>Writers\<close>

text \<open>Each writer ends by flushing the body, or by dropping it when an addition failed.\<close>

definition flush_or_free :: "pgp_packet_body option \<Rightarrow> 'q pgp_dest \<Rightarrow> 'q pgp_dest \<times> bool" where
  "flush_or_free body dst =
     (case body of Some b \<Rightarrow> (stream_flush_packet_body b dst, True) | None \<Rightarrow> (dst, False))"

definition stream_write_sk_sesskey ::
    "alloc \<Rightarrow> pgp_sk_sesskey \<Rightarrow> 'q pgp_dest \<Rightarrow> 'q pgp_dest \<times> bool" where
  "stream_write_sk_sesskey al skey dst =
     flush_or_free
       (do {
          b \<leftarrow> init_packet_body al PGP_PTAG_CT_SK_SESSION_KEY;
          b \<leftarrow> add_packet_body_byte al b (to_byte (sk_version skey));
          b \<leftarrow> add_packet_body_byte al b (to_byte (sk_alg skey));
          b \<leftarrow> add_packet_body_byte al b (to_byte (s2k_specifier (sk_s2k skey)));
          b \<leftarrow> add_packet_body_byte al b (to_byte (s2k_hash_alg (sk_s2k skey)));
          b \<leftarrow> (if s2k_specifier (sk_s2k skey) = PGP_S2KS_SALTED
               then add_packet_body al b (s2k_salt (sk_s2k skey))
               else if s2k_specifier (sk_s2k skey) = PGP_S2KS_ITERATED_AND_SALTED
               then do {
                 b \<leftarrow> add_packet_body al b (s2k_salt (sk_s2k skey));
                 add_packet_body_byte al b (to_byte (s2k_iterations (sk_s2k skey)))
               }
               else Some b);
          if sk_enckey skey \<noteq> [] then add_packet_body al b (sk_enckey skey) else Some b
        }) dst"

definition stream_write_pk_sesskey ::
    "alloc \<Rightarrow> pgp_pk_sesskey_pkt \<Rightarrow> 'q pgp_dest \<Rightarrow> 'q pgp_dest \<times> bool" where
  "stream_write_pk_sesskey al pkey dst =
     flush_or_free
       (do {
          b \<leftarrow> init_packet_body al PGP_PTAG_CT_PK_SESSION_KEY;
          b \<leftarrow> add_packet_body_byte al b (to_byte (pk_version pkey));
          b \<leftarrow> add_packet_body al b (pk_key_id pkey);
          b \<leftarrow> add_packet_body_byte al b (to_byte (pk_alg pkey));
          if pk_alg pkey = PGP_PKA_RSA \<or> pk_alg pkey = PGP_PKA_RSA_ENCRYPT_ONLY
          then add_packet_body_mpi al b (pk_rsa_m pkey)
          else if pk_alg pkey = PGP_PKA_SM2
          then add_packet_body_mpi al b (pk_sm2_m pkey)
          else if pk_alg pkey = PGP_PKA_ECDH
          then do {
            b \<leftarrow> add_packet_body_mpi al b (pk_ecdh_p pkey);
            b \<leftarrow> add_packet_body_byte al b (to_byte (length (pk_ecdh_m pkey)));
            add_packet_body al b (pk_ecdh_m pkey)
          }
          else if pk_alg pkey = PGP_PKA_ELGAMAL \<or> pk_alg pkey = PGP_PKA_ELGAMAL_ENCRYPT_OR_SIGN
          then do {
            b \<leftarrow> add_packet_body_mpi al b (pk_eg_g pkey);
            add_packet_body_mpi al b (pk_eg_m pkey)
          }
          else None
        }) dst"

definition stream_write_one_pass ::
    "alloc \<Rightarrow> pgp_one_pass_sig \<Rightarrow> 'q pgp_dest \<Rightarrow> 'q pgp_dest \<times> bool" where
  "stream_write_one_pass al onepass dst =
     flush_or_free
       (do {
          b \<leftarrow> init_packet_body al PGP_PTAG_CT_1_PASS_SIG;
          b \<leftarrow> add_packet_body_byte al b (to_byte (op_version onepass));
          b \<leftarrow> add_packet_body_byte al b (to_byte (op_type onepass));
          b \<leftarrow> add_packet_body_byte al b (to_byte (op_halg onepass));
          b \<leftarrow> add_packet_body_byte al b (to_byte (op_palg onepass));
          b \<leftarrow> add_packet_body al b (op_keyid onepass);
          add_packet_body_byte al b (to_byte (op_nested onepass))
        }) dst"

section \<open>Parsers\<close>

text \<open>
  A parser fills the structure it is given, so the model takes the structure's old value
  and returns the new one, or the error code.
\<close>

definition sk_parse_enckey ::
    "'q pgp_source \<Rightarrow> nat \<Rightarrow> pgp_sk_sesskey \<Rightarrow> 'q pgp_source \<times> (rnp_result + pgp_sk_sesskey)" where
  "sk_parse_enckey src len skey =
     (if 0 < len then
        if PGP_MAX_KEY_SIZE + 1 < len then (src, Inl RNP_ERROR_BAD_FORMAT)
        else
          (case src_get src len of
             (src', None) \<Rightarrow> (src', Inl RNP_ERROR_READ)
           | (src', Some bs) \<Rightarrow> (src', Inr (skey\<lparr>sk_enckey := bs\<rparr>)))
      else (src, Inr (skey\<lparr>sk_enckey := []\<rparr>)))"

definition sk_parse_salt ::
    "'q pgp_source \<Rightarrow> nat \<Rightarrow> pgp_sk_sesskey \<Rightarrow> 'q pgp_source \<times> (rnp_result + nat \<times> pgp_sk_sesskey)" where
  "sk_parse_salt src len skey =
     (if len < PGP_SALT_SIZE then (src, Inl RNP_ERROR_BAD_FORMAT)
      else
        (case src_get src PGP_SALT_SIZE of
           (src1, None) \<Rightarrow> (src1, Inl RNP_ERROR_READ)
         | (src1, Some salt) \<Rightarrow>
             let skey1 = skey\<lparr>sk_s2k := (sk_s2k skey)\<lparr>s2k_salt := salt\<rparr>\<rparr>;
                 len1 = len - PGP_SALT_SIZE
             in if s2k_specifier (sk_s2k skey) = PGP_S2KS_ITERATED_AND_SALTED then
                  if len1 < 1 then (src1, Inl RNP_ERROR_BAD_FORMAT)
                  else
                    (case src_get src1 1 of
                       (src2, None) \<Rightarrow> (src2, Inl RNP_ERROR_READ)
                     | (src2, Some b) \<Rightarrow>
                         (src2, Inr (len1 - 1,
                            skey1\<lparr>sk_s2k := (sk_s2k skey1)\<lparr>s2k_iterations := unat (b ! 0)\<rparr>\<rparr>)))
                else (src1, Inr (len1, skey1))))"

definition stream_parse_sk_sesskey ::
    "'q pgp_source \<Rightarrow> pgp_sk_sesskey \<Rightarrow> 'q pgp_source \<times> (rnp_result + pgp_sk_sesskey)" where
  "stream_parse_sk_sesskey src skey =
     (case stream_read_pkt_len src of
        (src1, None) \<Rightarrow> (src1, Inl RNP_ERROR_READ)
      | (src1, Some len) \<Rightarrow>
          if len < 4 then (src1, Inl RNP_ERROR_BAD_FORMAT)
          else
            (case src_get src1 4 of
               (src2, None) \<Rightarrow> (src2, Inl RNP_ERROR_READ)
             | (src2, Some buf) \<Rightarrow>
                 if buf ! 0 \<noteq> 4 then (src2, Inl RNP_ERROR_BAD_FORMAT)
                 else
                   let spec = unat (buf ! 2);
                       skey1 = skey\<lparr>sk_version := unat (buf ! 0), sk_alg := unat (buf ! 1),
                                 sk_s2k := (sk_s2k skey)\<lparr>s2k_specifier := spec,
                                                        s2k_hash_alg := unat (buf ! 3)\<rparr>\<rparr>
                   in if spec = PGP_S2KS_SIMPLE then sk_parse_enckey src2 (len - 4) skey1
                      else if spec = PGP_S2KS_SALTED \<or> spec = PGP_S2KS_ITERATED_AND_SALTED then
                        (case sk_parse_salt src2 (len - 4) skey1 of
                           (src3, Inl e) \<Rightarrow> (src3, Inl e)
                         | (src3, Inr (len', skey2)) \<Rightarrow> sk_parse_enckey src3 len' skey2)
                      else (src2, Inl RNP_ERROR_BAD_FORMAT)))"

text \<open>\<^verbatim>\<open>(size_t) len\<close> of a signed length.\<close>

definition to_size :: "int \<Rightarrow> nat" where
  "to_size i = nat (i mod 2 ^ 64)"

text \<open>The end of \<^verbatim>\<open>stream_parse_pk_sesskey\<close>: no bytes may be left.\<close>

definition pk_parse_end ::
    "'q pgp_source \<Rightarrow> int \<Rightarrow> pgp_pk_sesskey_pkt \<Rightarrow> 'q pgp_source \<times> (rnp_result + pgp_pk_sesskey_pkt)" where
  "pk_parse_end src len pkey =
     (if 0 < len then (src, Inl RNP_ERROR_BAD_FORMAT) else (src, Inr pkey))"

definition pk_parse_ecdh ::
    "'q pgp_source \<Rightarrow> int \<Rightarrow> pgp_pk_sesskey_pkt \<Rightarrow> 'q pgp_source \<times> (rnp_result + pgp_pk_sesskey_pkt)" where
  "pk_parse_ecdh src len pkey =
     (if len < 1 then (src, Inl RNP_ERROR_READ)
      else
        (case src_get src 1 of
           (src1, None) \<Rightarrow> (src1, Inl RNP_ERROR_READ)
         | (src1, Some b) \<Rightarrow>
             let k = unat (b ! 0) in
             if ECDH_WRAPPED_KEY_SIZE < k \<or> len - 1 < int k then (src1, Inl RNP_ERROR_BAD_FORMAT)
             else
               (case src_get src1 k of
                  (src2, None) \<Rightarrow> (src2, Inl RNP_ERROR_READ)
                | (src2, Some m) \<Rightarrow>
                    pk_parse_end src2 (len - 1 - int k) (pkey\<lparr>pk_ecdh_m := m\<rparr>))))"

definition stream_parse_pk_sesskey ::
    "'q pgp_source \<Rightarrow> pgp_pk_sesskey_pkt \<Rightarrow> 'q pgp_source \<times> (rnp_result + pgp_pk_sesskey_pkt)" where
  "stream_parse_pk_sesskey src pkey =
     (case stream_read_pkt_len src of
        (src1, None) \<Rightarrow> (src1, Inl RNP_ERROR_READ)
      | (src1, Some plen) \<Rightarrow>
          if plen < 10 then (src1, Inl RNP_ERROR_BAD_FORMAT)
          else
            (case src_get src1 10 of
               (src2, None) \<Rightarrow> (src2, Inl RNP_ERROR_READ)
             | (src2, Some buf) \<Rightarrow>
                 if buf ! 0 \<noteq> 3 then (src2, Inl RNP_ERROR_BAD_FORMAT)
                 else
                   let alg = unat (buf ! 9);
                       len0 = int plen - 10;
                       pkey1 = pkey\<lparr>pk_version := unat (buf ! 0), pk_key_id := take 8 (drop 1 buf),
                                 pk_alg := alg\<rparr>
                   in (case stream_read_mpi src2 (to_size len0) of
                         (src3, None) \<Rightarrow> (src3, Inl RNP_ERROR_BAD_FORMAT)
                       | (src3, Some mpi) \<Rightarrow>
                           let len1 = len0 - (int (length mpi) + 2) in
                           if alg = PGP_PKA_RSA then pk_parse_end src3 len1 (pkey1\<lparr>pk_rsa_m := mpi\<rparr>)
                           else if alg = PGP_PKA_ELGAMAL then
                             (case stream_read_mpi src3 (to_size len1) of
                                (src4, None) \<Rightarrow> (src4, Inl RNP_ERROR_BAD_FORMAT)
                              | (src4, Some m) \<Rightarrow>
                                  pk_parse_end src4 (len1 - (int (length m) + 2))
                                    (pkey1\<lparr>pk_eg_g := mpi, pk_eg_m := m\<rparr>))
                           else if alg = PGP_PKA_SM2 then pk_parse_end src3 len1 (pkey1\<lparr>pk_sm2_m := mpi\<rparr>)
                           else if alg = PGP_PKA_ECDH
                           then pk_parse_ecdh src3 len1 (pkey1\<lparr>pk_ecdh_p := mpi\<rparr>)
                           else (src3, Inl RNP_ERROR_BAD_FORMAT))))"

definition stream_parse_one_pass ::
    "alloc \<Rightarrow> 'q pgp_source \<Rightarrow> pgp_one_pass_sig \<Rightarrow> 'q pgp_source \<times> (rnp_result + pgp_one_pass_sig)" where
  "stream_parse_one_pass al src onepass =
     (case stream_read_pkt_len src of
        (src1, None) \<Rightarrow> (src1, Inl RNP_ERROR_READ)
      | (src1, Some len) \<Rightarrow>
          if len \<noteq> 13 then
            (case src_skip al src1 len of
               (src2, r) \<Rightarrow>
                 (src2, Inl (if r = Some len then RNP_ERROR_BAD_FORMAT else RNP_ERROR_READ)))
          else
            (case src_get src1 13 of
               (src2, None) \<Rightarrow> (src2, Inl RNP_ERROR_READ)
             | (src2, Some buf) \<Rightarrow>
                 if buf ! 0 \<noteq> 3 then (src2, Inl RNP_ERROR_BAD_FORMAT)
                 else
                   (src2, Inr (onepass\<lparr>op_version := unat (buf ! 0), op_type := unat (buf ! 1),
                       op_halg := unat (buf ! 2), op_palg := unat (buf ! 3),
                       op_keyid := take PGP_KEY_ID_SIZE (drop 4 buf),
                       op_nested := (if buf ! 12 \<noteq> 0 then 1 else 0)\<rparr>))))"

section \<open>Headers and lengths\<close>

lemma unat_read_uint16: "unat (read_uint16 [a, b]) = unat a * 256 + unat b"
  using or_push_bit_nat [of "unat b" 8 "unat a"]
  by (simp add: read_uint16_def unsigned_or_eq unat_push_byte)

lemma unat_read_uint32:
  "unat (read_uint32 [a, b, c, d]) = unat a * 2 ^ 24 + unat b * 2 ^ 16 + unat c * 2 ^ 8 + unat d"
  using or_push_bit_nat3 [of "unat c" "unat d" "unat b" "unat a"]
  by (simp add: read_uint32_def unsigned_or_eq unat_push_byte)

lemma read_uint_more [simp]:
  "read_uint32 (a # b # c # d # e # r) = read_uint32 [a, b, c, d]"
  "read_uint16 (a # b # c # r) = read_uint16 [a, b]"
  by (simp_all add: read_uint32_def read_uint16_def)

lemma length_STORE32BE [simp]: "length (STORE32BE n) = 4"
  by (simp add: STORE32BE_def)

lemma read_uint32_STORE32BE:
  assumes "n < 2 ^ 32"
  shows "unat (read_uint32 (STORE32BE n @ r)) = n"
proof -
  have "n div 2 ^ 24 < 256" using assms by (simp add: div_less_iff_less_mult)
  moreover have "read_uint32 (STORE32BE n @ r) = read_uint32 (STORE32BE n)"
    by (simp add: STORE32BE_def read_uint32_def)
  ultimately show ?thesis
    using be32_decompose [OF assms] by (simp add: STORE32BE_def unat_read_uint32 drop_bit_eq_div)
qed

text \<open>The packet header of RFC 4880, 4.2: the length of the body and what follows the header.\<close>

fun hdr_len :: "bytes \<Rightarrow> (nat \<times> bytes) option" where
  "hdr_len (t # b # r) =
     (if t AND PGP_PTAG_ALWAYS_SET = 0 then None
      else if t AND PGP_PTAG_NEW_FORMAT \<noteq> 0 then
        if unat b < 192 then Some (unat b, r)
        else if unat b < 224 then
          (case r of c # r' \<Rightarrow> Some ((unat b - 192) * 256 + unat c + 192, r') | [] \<Rightarrow> None)
        else if unat b < 255 then None
        else
          (case r of
             c # d # e # f # r' \<Rightarrow>
               Some (unat c * 2 ^ 24 + unat d * 2 ^ 16 + unat e * 2 ^ 8 + unat f, r')
           | _ \<Rightarrow> None)
      else if t AND PGP_PTAG_OF_LENGTH_TYPE_MASK = 0 then Some (unat b, r)
      else if t AND PGP_PTAG_OF_LENGTH_TYPE_MASK = 1 then
        (case r of c # r' \<Rightarrow> Some (unat b * 256 + unat c, r') | [] \<Rightarrow> None)
      else if t AND PGP_PTAG_OF_LENGTH_TYPE_MASK = 2 then
        (case r of
           c # d # e # r' \<Rightarrow>
             Some (unat b * 2 ^ 24 + unat c * 2 ^ 16 + unat d * 2 ^ 8 + unat e, r')
         | _ \<Rightarrow> None)
      else None)"
| "hdr_len _ = None"

context reliable_source
begin

abbreviation "holds \<equiv> src_holds rd rest ok"

lemma get_holds:
  assumes "holds s a" "n < 2 ^ 63"
  obtains s' where "src_get s n = (s', if n \<le> length a then Some (take n a) else None)"
    "holds s' (drop n a)" "src_readb s' = src_readb s + min n (length a)"
proof -
  have inv: "src_inv rd rest ok s" and a: "src_avail rest s = a" using assms(1) by (auto simp: src_holds_def)
  have "src_readb s + n < 2 ^ 64" using src_holds_readb [OF assms(1)] assms(2) by simp
  then obtain s' where "src_read s n = (s', Some (take n a))" "src_avail rest s' = drop n a"
    "src_inv rd rest ok s'" "src_readb s' = src_readb s + min n (length a)"
    using src_read_eq [OF inv] a by metis
  with that [of s'] show ?thesis by (auto simp: src_get_def src_holds_def)
qed

lemma read_pkt_len_holds:
  assumes "holds s a"
  shows "\<exists>s'. stream_read_pkt_len s = (s', map_option fst (hdr_len a)) \<and>
           (\<forall>l r. hdr_len a = Some (l, r) \<longrightarrow>
              holds s' r \<and> src_readb s' + length r = src_readb s + length a)"
proof -
  obtain s1 where g2: "src_get s 2 = (s1, if 2 \<le> length a then Some (take 2 a) else None)"
    "holds s1 (drop 2 a)" "src_readb s1 = src_readb s + min 2 (length a)"
    using get_holds [OF assms, of 2] by auto
  show ?thesis
  proof (cases "length a < 2")
    case True
    then have "hdr_len a = None" by (cases a; cases "tl a") auto
    with True g2 show ?thesis by (simp add: stream_read_pkt_len_def)
  next
    case False
    then obtain t b r where a: "a = t # b # r" by (cases a; cases "tl a") auto
    have h1: "holds s1 r" and r1: "src_readb s1 = src_readb s + 2" using g2(2,3) by (auto simp: a)
    note unf = stream_read_pkt_len_def g2(1) a Let_def
    have get: "\<exists>s'. src_get s1 n = (s', if n \<le> length r then Some (take n r) else None) \<and>
        holds s' (drop n r) \<and> src_readb s' = src_readb s1 + min n (length r)" if "n < 2 ^ 63" for n
      using get_holds [OF h1 that] by metis
    obtain s2 where s2: "src_get s1 1 = (s2, if 1 \<le> length r then Some (take 1 r) else None)"
      "holds s2 (drop 1 r)" "src_readb s2 = src_readb s1 + min 1 (length r)" using get [of 1] by auto
    obtain s3 where s3: "src_get s1 3 = (s3, if 3 \<le> length r then Some (take 3 r) else None)"
      "holds s3 (drop 3 r)" "src_readb s3 = src_readb s1 + min 3 (length r)" using get [of 3] by auto
    obtain s4 where s4: "src_get s1 4 = (s4, if 4 \<le> length r then Some (take 4 r) else None)"
      "holds s4 (drop 4 r)" "src_readb s4 = src_readb s1 + min 4 (length r)" using get [of 4] by auto
    consider (bad) "t AND PGP_PTAG_ALWAYS_SET = 0"
      | (new) "t AND PGP_PTAG_ALWAYS_SET \<noteq> 0" "t AND PGP_PTAG_NEW_FORMAT \<noteq> 0"
      | (old) "t AND PGP_PTAG_ALWAYS_SET \<noteq> 0" "t AND PGP_PTAG_NEW_FORMAT = 0" by blast
    then show ?thesis
    proof cases
      case bad
      then show ?thesis by (simp add: unf)
    next
      case new
      consider "unat b < 192" | "\<not> unat b < 192" "unat b < 224" | "\<not> unat b < 224" "unat b < 255"
        | "\<not> unat b < 255" by linarith
      then show ?thesis
      proof cases
        case 2
        with new s2 r1 show ?thesis by (cases r) (auto simp: unf push_bit_eq_mult)
      next
        case 4
        show ?thesis
        proof (cases "4 \<le> length r")
          case True
          then obtain c d e f r' where r: "r = c # d # e # f # r'"
            by (auto simp: numeral_eq_Suc Suc_le_length_iff)
          from new 4 s4 r1 show ?thesis by (simp add: unf r unat_read_uint32)
        next
          case False
          then have "hdr_len a = None" using new 4 by (auto simp: a split: list.split)
          with new 4 False s4 show ?thesis by (simp add: unf)
        qed
      qed (use new h1 r1 in \<open>auto simp: unf\<close>)
    next
      case old
      define k where "k = t AND PGP_PTAG_OF_LENGTH_TYPE_MASK"
      consider "k = 0" | "k = 1" | "k = 2" | "k \<noteq> 0" "k \<noteq> 1" "k \<noteq> 2" by blast
      then show ?thesis
      proof cases
        case 2
        with old s2 r1 show ?thesis
          by (cases r) (auto simp: unf unat_read_uint16 k_def)
      next
        case 3
        show ?thesis
        proof (cases "3 \<le> length r")
          case True
          then obtain c d e r' where r: "r = c # d # e # r'"
            by (auto simp: numeral_eq_Suc Suc_le_length_iff)
          from old 3 s3 r1 show ?thesis by (simp add: unf r unat_read_uint32 k_def)
        next
          case False
          then have "hdr_len a = None" using old 3 by (auto simp: a k_def split: list.split)
          with old 3 False s3 show ?thesis by (simp add: unf k_def)
        qed
      qed (use old h1 r1 in \<open>auto simp: unf k_def\<close>)
    qed
  qed
qed

end

text \<open>Lengths survive being written and read back.\<close>

lemma hdr_len_write_packet_len:
  assumes "len < 2 ^ 32" "t AND PGP_PTAG_ALWAYS_SET \<noteq> 0" "t AND PGP_PTAG_NEW_FORMAT \<noteq> 0"
  shows "hdr_len (t # write_packet_len len @ r) = Some (len, r)"
proof -
  consider "len < 192" | "192 \<le> len" "len < 8384" | "8384 \<le> len" by linarith
  then show ?thesis
  proof cases
    case 2
    then have "(len - 192) div 256 < 32" by (simp add: div_less_iff_less_mult)
    with 2 assms show ?thesis by (simp add: write_packet_len_def drop_bit_eq_div)
  next
    case 3
    with assms be32_decompose [OF assms(1)] show ?thesis
      by (simp add: write_packet_len_def STORE32BE_def drop_bit_eq_div)
  qed (use assms in \<open>simp add: write_packet_len_def\<close>)
qed

end
