(* ===== verification/S2k.thy ===== *)
theory S2k
  imports Stream_Packet
begin

text \<open>
  String-to-key specifiers, \<^verbatim>\<open>src/src/lib/crypto/s2k.c\<close>, with the table of hash
  algorithms of \<^verbatim>\<open>src/src/lib/hash.c\<close> that names the algorithm to use.  The key derivation
  function itself is Botan's: it is the parameter \<open>pbkdf\<close>, which gets the name of the
  scheme, the output length, the password, the salt and the iteration count, and returns
  the key or \<^const>\<open>None\<close> for a non-zero status.
\<close>

section \<open>Hash algorithm names\<close>

abbreviation (input) PGP_HASH_UNKNOWN :: nat where "PGP_HASH_UNKNOWN \<equiv> 0"
abbreviation (input) PGP_HASH_MD5 :: nat where "PGP_HASH_MD5 \<equiv> 1"
abbreviation (input) PGP_HASH_SHA1 :: nat where "PGP_HASH_SHA1 \<equiv> 2"
abbreviation (input) PGP_HASH_RIPEMD :: nat where "PGP_HASH_RIPEMD \<equiv> 3"
abbreviation (input) PGP_HASH_SHA256 :: nat where "PGP_HASH_SHA256 \<equiv> 8"
abbreviation (input) PGP_HASH_SHA384 :: nat where "PGP_HASH_SHA384 \<equiv> 9"
abbreviation (input) PGP_HASH_SHA512 :: nat where "PGP_HASH_SHA512 \<equiv> 10"
abbreviation (input) PGP_HASH_SHA224 :: nat where "PGP_HASH_SHA224 \<equiv> 11"
abbreviation (input) PGP_HASH_SM3 :: nat where "PGP_HASH_SM3 \<equiv> 105"
abbreviation (input) PGP_HASH_CRC24 :: nat where "PGP_HASH_CRC24 \<equiv> 106"

definition hash_alg_map :: "(nat \<times> string \<times> string) list" where
  "hash_alg_map =
     [(PGP_HASH_MD5, ''MD5'', ''MD5''),
      (PGP_HASH_SHA1, ''SHA1'', ''SHA-1''),
      (PGP_HASH_RIPEMD, ''RIPEMD160'', ''RIPEMD-160''),
      (PGP_HASH_SHA256, ''SHA256'', ''SHA-256''),
      (PGP_HASH_SHA384, ''SHA384'', ''SHA-384''),
      (PGP_HASH_SHA512, ''SHA512'', ''SHA-512''),
      (PGP_HASH_SHA224, ''SHA224'', ''SHA-224''),
      (PGP_HASH_SM3, ''SM3'', ''SM3''),
      (PGP_HASH_CRC24, ''CRC24'', ''CRC24'')]"

definition pgp_show_hash_alg :: "nat \<Rightarrow> string option" where
  "pgp_show_hash_alg h = map_option fst (map_of hash_alg_map h)"

definition pgp_hash_name_botan :: "nat \<Rightarrow> string option" where
  "pgp_hash_name_botan h = map_option snd (map_of hash_alg_map h)"

definition pgp_is_hash_alg_supported :: "nat \<Rightarrow> bool" where
  "pgp_is_hash_alg_supported h \<longleftrightarrow> pgp_hash_name_botan h \<noteq> None"

section \<open>Iteration counts\<close>

text \<open>The largest value is \<open>31 << 21\<close>, which fits the \<^verbatim>\<open>int\<close> that the C expression has.\<close>

definition pgp_s2k_decode_iterations :: "nat \<Rightarrow> nat" where
  "pgp_s2k_decode_iterations c = push_bit (drop_bit 4 c + 6) (16 + (c AND 0x0F))"

function encode_iterations_from :: "nat \<Rightarrow> nat \<Rightarrow> nat" where
  "encode_iterations_from c iterations =
     (if c < 256 then
        if iterations \<le> pgp_s2k_decode_iterations c then c
        else encode_iterations_from (Suc c) iterations
      else 255)"
  by pat_completeness auto
termination
  by (relation "measure (\<lambda>(c, iterations). 256 - c)") auto

declare encode_iterations_from.simps [simp del]

definition pgp_s2k_encode_iterations :: "nat \<Rightarrow> nat" where
  "pgp_s2k_encode_iterations iterations = encode_iterations_from 0 iterations"

definition pgp_s2k_round_iterations :: "nat \<Rightarrow> nat" where
  "pgp_s2k_round_iterations iterations = pgp_s2k_decode_iterations (pgp_s2k_encode_iterations iterations)"

section \<open>Key derivation\<close>

type_synonym pbkdf = "string option \<Rightarrow> nat \<Rightarrow> string \<Rightarrow> bytes \<Rightarrow> nat \<Rightarrow> bytes option"

definition pgp_s2k_iterated ::
    "pbkdf \<Rightarrow> nat \<Rightarrow> nat \<Rightarrow> string \<Rightarrow> bytes option \<Rightarrow> nat \<Rightarrow> bytes option" where
  "pgp_s2k_iterated pbkdf alg output_len password salt iterations =
     pbkdf (map_option (\<lambda>n. ''OpenPGP-S2K('' @ n @ '')'') (pgp_hash_name_botan alg)) output_len password
       (case salt of None \<Rightarrow> [] | Some s \<Rightarrow> take PGP_SALT_SIZE s) iterations"

definition pgp_s2k_salted :: "pbkdf \<Rightarrow> nat \<Rightarrow> nat \<Rightarrow> string \<Rightarrow> bytes option \<Rightarrow> bytes option" where
  "pgp_s2k_salted pbkdf alg output_len password salt = pgp_s2k_iterated pbkdf alg output_len password salt 1"

definition pgp_s2k_simple :: "pbkdf \<Rightarrow> nat \<Rightarrow> nat \<Rightarrow> string \<Rightarrow> bytes option" where
  "pgp_s2k_simple pbkdf alg output_len password = pgp_s2k_salted pbkdf alg output_len password None"

definition pgp_s2k_derive_key :: "pbkdf \<Rightarrow> pgp_s2k \<Rightarrow> string \<Rightarrow> nat \<Rightarrow> bytes option" where
  "pgp_s2k_derive_key pbkdf s2k password keysize =
     (if s2k_specifier s2k = PGP_S2KS_SIMPLE then
        pgp_s2k_iterated pbkdf (s2k_hash_alg s2k) keysize password None 1
      else if s2k_specifier s2k = PGP_S2KS_SALTED then
        pgp_s2k_iterated pbkdf (s2k_hash_alg s2k) keysize password (Some (s2k_salt s2k)) 1
      else if s2k_specifier s2k = PGP_S2KS_ITERATED_AND_SALTED then
        pgp_s2k_iterated pbkdf (s2k_hash_alg s2k) keysize password (Some (s2k_salt s2k))
          (if s2k_iterations s2k < 256 then pgp_s2k_decode_iterations (s2k_iterations s2k)
           else s2k_iterations s2k)
      else None)"

section \<open>Properties of iteration counts\<close>

lemma decode_iterations_eq: "pgp_s2k_decode_iterations c = (16 + c mod 16) * 2 ^ (c div 16 + 6)"
proof -
  have "c AND 15 = c mod 16" using take_bit_eq_mask [of 4 c] by (simp add: take_bit_eq_mod mask_eq_exp_minus_1)
  then show ?thesis by (simp add: pgp_s2k_decode_iterations_def push_bit_eq_mult drop_bit_eq_div)
qed

lemma decode_iterations_Suc: "pgp_s2k_decode_iterations c < pgp_s2k_decode_iterations (Suc c)"
proof (cases "c mod 16 = 15")
  case True
  then have "Suc c mod 16 = 0" "Suc c div 16 = Suc (c div 16)" by (simp_all add: mod_Suc div_Suc)
  with True show ?thesis by (simp add: decode_iterations_eq power_add)
next
  case False
  then have "Suc c mod 16 = Suc (c mod 16)" "Suc c div 16 = c div 16" by (simp_all add: mod_Suc div_Suc)
  then show ?thesis by (simp add: decode_iterations_eq)
qed

lemma decode_iterations_mono: "c < d \<Longrightarrow> pgp_s2k_decode_iterations c < pgp_s2k_decode_iterations d"
  by (rule lift_Suc_mono_less [of pgp_s2k_decode_iterations]) (auto intro: decode_iterations_Suc)

lemma decode_iterations_less_iff [simp]:
  "pgp_s2k_decode_iterations c < pgp_s2k_decode_iterations d \<longleftrightarrow> c < d"
  by (metis decode_iterations_mono linorder_neqE_nat order_less_asym)

lemma decode_iterations_max: "pgp_s2k_decode_iterations 255 = 65011712"
  by (simp add: decode_iterations_eq)

lemma encode_from_spec:
  assumes "c \<le> 255" "\<And>d. d < c \<Longrightarrow> pgp_s2k_decode_iterations d < n"
  defines "e \<equiv> encode_iterations_from c n"
  shows "e \<le> 255 \<and> (\<forall>d < e. pgp_s2k_decode_iterations d < n) \<and> (n \<le> 65011712 \<longrightarrow> n \<le> pgp_s2k_decode_iterations e)"
  using assms(1,2) unfolding e_def
proof (induction "255 - c" arbitrary: c)
  case 0
  then have "c = 255" by simp
  with 0 show ?case
    by (auto simp: encode_iterations_from.simps [of 255] encode_iterations_from.simps [of 256] decode_iterations_max)
next
  case (Suc k)
  show ?case
  proof (cases "n \<le> pgp_s2k_decode_iterations c")
    case True
    with Suc show ?thesis by (auto simp: encode_iterations_from.simps [of c])
  next
    case False
    with Suc.prems have "\<And>d. d < Suc c \<Longrightarrow> pgp_s2k_decode_iterations d < n" by (auto simp: less_Suc_eq)
    with Suc.hyps(1) [of "Suc c"] Suc.hyps(2) False show ?thesis
      by (auto simp: encode_iterations_from.simps [of c])
  qed
qed

lemma encode_iterations_spec:
  "pgp_s2k_encode_iterations n \<le> 255"
  "d < pgp_s2k_encode_iterations n \<Longrightarrow> pgp_s2k_decode_iterations d < n"
  "n \<le> 65011712 \<Longrightarrow> n \<le> pgp_s2k_decode_iterations (pgp_s2k_encode_iterations n)"
  using encode_from_spec [of 0 n] by (auto simp: pgp_s2k_encode_iterations_def)

lemma encode_decode_iterations:
  assumes "c \<le> 255"
  shows "pgp_s2k_encode_iterations (pgp_s2k_decode_iterations c) = c"
proof (rule antisym)
  show "pgp_s2k_encode_iterations (pgp_s2k_decode_iterations c) \<le> c"
    using encode_iterations_spec(2) [of c "pgp_s2k_decode_iterations c"] by fastforce
  have "pgp_s2k_decode_iterations c \<le> 65011712"
    using assms decode_iterations_less_iff [of 255 c] by (simp only: decode_iterations_max) linarith
  then show "c \<le> pgp_s2k_encode_iterations (pgp_s2k_decode_iterations c)"
    using encode_iterations_spec(3) by (meson decode_iterations_less_iff not_le)
qed

lemma encode_from_large: "pgp_s2k_decode_iterations 255 < n \<Longrightarrow> c \<le> 256 \<Longrightarrow> encode_iterations_from c n = 255"
proof (induction "256 - c" arbitrary: c)
  case 0
  then show ?case by (simp add: encode_iterations_from.simps [of 256])
next
  case (Suc k)
  then have "pgp_s2k_decode_iterations c \<le> pgp_s2k_decode_iterations 255"
    using decode_iterations_less_iff [of 255 c] by linarith
  with Suc show ?case by (simp add: encode_iterations_from.simps [of c])
qed

lemma encode_large: "65011712 < n \<Longrightarrow> pgp_s2k_encode_iterations n = 255"
  by (simp add: pgp_s2k_encode_iterations_def encode_from_large decode_iterations_max)

end
