(* ===== verification/Packet_Roundtrip.thy ===== *)
theory Packet_Roundtrip
  imports Stream_Packet
begin

text \<open>
  What the writers and parsers of \<^verbatim>\<open>src/src/librepgp/stream-packet.c\<close> mean on byte lists:
  the encoding of multi-precision integers and of packet bodies, the bytes that each writer
  puts into a destination, and the structures that each parser gets back from a source.
  The lemmas on parsers hold for every \<open>reliable_source\<close>, those on writers for every
  \<open>bounded_sink\<close>; the round trips instantiate both with memory streams.
\<close>

section \<open>Multi-precision integers on byte lists\<close>

lemma significant_bits_bounds:
  "0 < h \<Longrightarrow> 0 < significant_bits h \<and> 2 ^ (significant_bits h - 1) \<le> h \<and> h < 2 ^ significant_bits h"
proof (induction h rule: significant_bits.induct)
  case (1 h)
  show ?case
  proof (cases "h = 1")
    case True
    then show ?thesis by (simp add: significant_bits.simps [of "Suc 0"] significant_bits.simps [of 0])
  next
    case False
    then have "0 < h div 2" using "1.prems" by simp
    with "1.IH" "1.prems" obtain k where k: "significant_bits (h div 2) = Suc k"
      "2 ^ k \<le> h div 2" "h div 2 < 2 ^ Suc k" by (metis diff_Suc_1 gr0_implies_Suc)
    have "2 * 2 ^ k \<le> h" "h < 2 * 2 ^ Suc k" using k(2,3) by linarith+
    then show ?thesis using "1.prems" k(1) by (simp add: significant_bits.simps [of h])
  qed
qed

lemma significant_bits_byte: "b \<noteq> 0 \<Longrightarrow> significant_bits (unat (b :: byte)) \<le> 8"
proof (rule ccontr)
  assume "b \<noteq> 0" "\<not> significant_bits (unat b) \<le> 8"
  then have "2 ^ 8 \<le> (2::nat) ^ (significant_bits (unat b) - 1)" by (intro power_increasing) auto
  then have "256 \<le> (2::nat) ^ (significant_bits (unat b) - 1)" by simp
  moreover have "2 ^ (significant_bits (unat b) - 1) \<le> unat b"
    using significant_bits_bounds [of "unat b"] \<open>b \<noteq> 0\<close> by (simp add: unat_gt_0)
  ultimately show False using unat_byte_less [of b] by linarith
qed

definition mpi_bits :: "bytes \<Rightarrow> nat" where
  "mpi_bits m = 8 * (length m - 1) + significant_bits (unat (m ! 0))"

definition mpi_enc :: "bytes \<Rightarrow> bytes" where
  "mpi_enc m = [to_byte (mpi_bits m div 256), to_byte (mpi_bits m)] @ m"

text \<open>A normalised integer: it starts with a non-zero byte and has at most 16384 bits.\<close>

definition mpi_wf :: "bytes \<Rightarrow> bool" where
  "mpi_wf m \<longleftrightarrow> m \<noteq> [] \<and> m ! 0 \<noteq> 0 \<and> length m \<le> PGP_MPINT_SIZE"

lemma mpi_bits_facts:
  assumes "mpi_wf m"
  shows "0 < mpi_bits m" "mpi_bits m \<le> PGP_MPINT_BITS" "(mpi_bits m + 7) div 8 = length m"
    and "(if mpi_bits m mod 8 \<noteq> 0 then mpi_bits m mod 8 else 8) = significant_bits (unat (m ! 0))"
proof -
  define k where "k = significant_bits (unat (m ! 0))"
  have k: "0 < k" "k \<le> 8"
    using assms significant_bits_bounds [of "unat (m ! 0)"] significant_bits_byte [of "m ! 0"]
    by (auto simp: mpi_wf_def k_def unat_gt_0)
  obtain n where n: "length m = Suc n" using assms by (cases m) (auto simp: mpi_wf_def)
  have bits: "mpi_bits m = 8 * n + k" by (simp add: mpi_bits_def n k_def)
  show "0 < mpi_bits m" "mpi_bits m \<le> PGP_MPINT_BITS" "(mpi_bits m + 7) div 8 = length m"
    using assms k n by (auto simp: bits mpi_wf_def PGP_MPINT_BITS_def PGP_MPINT_SIZE_def)
  show "(if mpi_bits m mod 8 \<noteq> 0 then mpi_bits m mod 8 else 8) = significant_bits (unat (m ! 0))"
    unfolding k_def [symmetric] bits using k by (cases "k = 8") auto
qed

lemma mpi_top_bit:
  assumes "b \<noteq> (0 :: byte)"
  shows "drop_bit (significant_bits (unat b)) (unat b) = 0" "bit b (significant_bits (unat b) - 1)"
proof -
  define k where "k = significant_bits (unat b)"
  have k: "0 < k" "2 ^ (k - 1) \<le> unat b" "unat b < 2 ^ k"
    using significant_bits_bounds [of "unat b"] assms by (auto simp: k_def unat_gt_0)
  show "drop_bit (significant_bits (unat b)) (unat b) = 0"
    using k(3) by (simp add: k_def drop_bit_eq_div)
  have "unat b div 2 ^ (k - 1) = 1"
    using k by (intro div_nat_eqI) (auto simp: power_eq_if)
  then have "bit (unat b) (k - 1)" by (simp add: bit_iff_odd)
  then show "bit b (significant_bits (unat b) - 1)" by (simp add: k_def bit_unsigned_iff)
qed

lemma mpi_bit_count_ok_wf: "mpi_wf m \<Longrightarrow> mpi_bit_count_ok (mpi_bits m) (m ! 0)"
  using mpi_top_bit [of "m ! 0"]
  unfolding mpi_bit_count_ok_def Let_def mpi_bits_facts(4) by (simp add: mpi_wf_def)

context reliable_source
begin

lemma get_exact:
  assumes "holds s (xs @ r)" "length xs = n" "n < 2 ^ 63"
  obtains s' where "src_get s n = (s', Some xs)" "holds s' r" "src_readb s' = src_readb s + n"
  using get_holds [OF assms(1,3)] assms(2) by auto

lemma read_mpi_holds:
  assumes "holds s (mpi_enc m @ r)" "mpi_wf m" "maxlen = 0 \<or> length m + 2 \<le> maxlen"
  obtains s' where "stream_read_mpi s maxlen = (s', Some m)" "holds s' r"
    "src_readb s' = src_readb s + length m + 2"
proof -
  obtain s1 where s1: "src_get s 2 = (s1, Some [to_byte (mpi_bits m div 256), to_byte (mpi_bits m)])"
    "holds s1 (m @ r)" "src_readb s1 = src_readb s + 2"
    using get_exact [OF assms(1) [unfolded mpi_enc_def append_assoc], of 2] by auto
  have len: "length m < 2 ^ 63" using assms(2) by (simp add: mpi_wf_def PGP_MPINT_SIZE_def)
  obtain s2 where s2: "src_get s1 (length m) = (s2, Some m)" "holds s2 r"
    "src_readb s2 = src_readb s1 + length m"
    using get_exact [OF s1(2) refl len] by auto
  note bits = mpi_bits_facts [OF assms(2)]
  have "mpi_bits m div 256 < 256" using bits(2) by (simp add: PGP_MPINT_BITS_def)
  then have "unat (read_uint16 [to_byte (mpi_bits m div 256), to_byte (mpi_bits m)]) = mpi_bits m"
    by (simp add: unat_read_uint16)
  then have "stream_read_mpi s maxlen = (s2, Some m)"
    using assms(3) bits(1-3) s1(1) s2(1) mpi_bit_count_ok_wf [OF assms(2)]
    by (auto simp: stream_read_mpi_def Let_def drop_bit_eq_div)
  with that [OF this s2(2)] s1(3) s2(3) show ?thesis by simp
qed

end


section \<open>What the writers put into a packet body\<close>

definition grow :: "pgp_packet_body \<Rightarrow> bytes \<Rightarrow> pgp_packet_body" where
  "grow b data =
     b\<lparr>pb_data := pb_data b @ data,
       pb_allocated := (let need = length (pb_data b) + length data in
                        if pb_allocated b < need then need * 2 else pb_allocated b)\<rparr>"

lemma grow_simps [simp]: "pb_tag (grow b data) = pb_tag b" "pb_data (grow b data) = pb_data b @ data"
  by (simp_all add: grow_def)

lemma add_packet_body_grow: "(\<And>n. al n) \<Longrightarrow> add_packet_body al b data = Some (grow b data)"
  by (cases b) (simp add: add_packet_body_def grow_def Let_def)

lemma add_packet_body_byte_grow: "(\<And>n. al n) \<Longrightarrow> add_packet_body_byte al b x = Some (grow b [x])"
  by (cases b) (simp add: add_packet_body_byte_def add_packet_body_def grow_def Let_def)

lemma skip_zeros_wf: "m \<noteq> [] \<Longrightarrow> m ! 0 \<noteq> 0 \<Longrightarrow> skip_zeros m = m"
  by (induction m rule: skip_zeros.induct) auto

lemma skip_zeros_value:
  "\<exists>k. m = replicate k 0 @ skip_zeros m \<and>
       (m \<noteq> [] \<longrightarrow> skip_zeros m \<noteq> [] \<and> (skip_zeros m ! 0 \<noteq> 0 \<or> length (skip_zeros m) = 1))"
proof (induction m rule: skip_zeros.induct)
  case (3 b b' bs)
  show ?case
  proof (cases "b = 0")
    case True
    with "3.IH" obtain k where "b' # bs = replicate k 0 @ skip_zeros (b' # bs)"
      "skip_zeros (b' # bs) \<noteq> []" "skip_zeros (b' # bs) ! 0 \<noteq> 0 \<or> length (skip_zeros (b' # bs)) = 1"
      by auto
    with True show ?thesis by (intro exI [of _ "Suc k"]) auto
  next
    case False
    then show ?thesis by (intro exI [of _ 0]) auto
  qed
qed (auto intro: exI [of _ 0])

lemma init_packet_body_ok:
  "(\<And>n. al n) \<Longrightarrow> init_packet_body al tag = Some \<lparr>pb_tag = tag, pb_data = [], pb_allocated = 16\<rparr>"
  by (simp add: init_packet_body_def)

lemmas body_simps = add_packet_body_grow add_packet_body_byte_grow init_packet_body_ok

text \<open>The bytes of a packet with a new-format header.\<close>

definition packet_bytes :: "byte \<Rightarrow> bytes \<Rightarrow> bytes" where
  "packet_bytes tag body = (tag OR PGP_PTAG_ALWAYS_SET OR PGP_PTAG_NEW_FORMAT) # write_packet_len (length body) @ body"

lemma hdr_len_packet_bytes:
  assumes "length body < 2 ^ 32"
  shows "hdr_len (packet_bytes tag body @ r) = Some (length body, body @ r)"
proof -
  have "(tag OR PGP_PTAG_ALWAYS_SET OR PGP_PTAG_NEW_FORMAT) AND PGP_PTAG_ALWAYS_SET \<noteq> 0"
    "(tag OR PGP_PTAG_ALWAYS_SET OR PGP_PTAG_NEW_FORMAT) AND PGP_PTAG_NEW_FORMAT \<noteq> 0"
    by (simp_all add: bit.conj_disj_distrib2)
  with hdr_len_write_packet_len [OF assms] show ?thesis by (simp add: packet_bytes_def)
qed

section \<open>Bodies of the session key and one-pass signature packets\<close>

definition sk_head :: "pgp_sk_sesskey \<Rightarrow> bytes" where
  "sk_head k =
     [to_byte (sk_version k), to_byte (sk_alg k), to_byte (s2k_specifier (sk_s2k k)),
      to_byte (s2k_hash_alg (sk_s2k k))]"

definition sk_tail :: "pgp_sk_sesskey \<Rightarrow> bytes" where
  "sk_tail k =
     (if s2k_specifier (sk_s2k k) = PGP_S2KS_SALTED then s2k_salt (sk_s2k k)
      else if s2k_specifier (sk_s2k k) = PGP_S2KS_ITERATED_AND_SALTED
      then s2k_salt (sk_s2k k) @ [to_byte (s2k_iterations (sk_s2k k))] else []) @
     sk_enckey k"

definition sk_body :: "pgp_sk_sesskey \<Rightarrow> bytes" where
  "sk_body k = sk_head k @ sk_tail k"

definition op_body :: "pgp_one_pass_sig \<Rightarrow> bytes" where
  "op_body k =
     [to_byte (op_version k), to_byte (op_type k), to_byte (op_halg k), to_byte (op_palg k)] @
     op_keyid k @ [to_byte (op_nested k)]"

text \<open>The algorithm specific part of a public-key encrypted session key.\<close>

definition pk_material :: "pgp_pk_sesskey_pkt \<Rightarrow> bytes" where
  "pk_material k =
     (if pk_alg k = PGP_PKA_RSA \<or> pk_alg k = PGP_PKA_RSA_ENCRYPT_ONLY
      then mpi_enc (skip_zeros (pk_rsa_m k))
      else if pk_alg k = PGP_PKA_SM2 then mpi_enc (skip_zeros (pk_sm2_m k))
      else if pk_alg k = PGP_PKA_ECDH
      then mpi_enc (skip_zeros (pk_ecdh_p k)) @ [to_byte (length (pk_ecdh_m k))] @ pk_ecdh_m k
      else mpi_enc (skip_zeros (pk_eg_g k)) @ mpi_enc (skip_zeros (pk_eg_m k)))"

definition pk_body :: "pgp_pk_sesskey_pkt \<Rightarrow> bytes" where
  "pk_body k = [to_byte (pk_version k)] @ pk_key_id k @ [to_byte (pk_alg k)] @ pk_material k"

text \<open>The writer of session keys handles these algorithms, given non-empty integers.\<close>

definition pk_writable :: "pgp_pk_sesskey_pkt \<Rightarrow> bool" where
  "pk_writable k =
     (if pk_alg k \<in> {PGP_PKA_RSA, PGP_PKA_RSA_ENCRYPT_ONLY} then pk_rsa_m k \<noteq> []
      else if pk_alg k = PGP_PKA_SM2 then pk_sm2_m k \<noteq> []
      else if pk_alg k = PGP_PKA_ECDH then pk_ecdh_p k \<noteq> []
      else pk_alg k \<in> {PGP_PKA_ELGAMAL, PGP_PKA_ELGAMAL_ENCRYPT_OR_SIGN} \<and>
           pk_eg_g k \<noteq> [] \<and> pk_eg_m k \<noteq> [])"

text \<open>Flushing a body depends only on its tag and its bytes.\<close>

definition put_packet :: "int \<Rightarrow> bytes \<Rightarrow> 'q pgp_dest \<Rightarrow> 'q pgp_dest" where
  "put_packet tag body dst =
     dst_write (dst_write dst ((word_of_int tag OR PGP_PTAG_ALWAYS_SET OR PGP_PTAG_NEW_FORMAT)
                               # write_packet_len (length body))) body"

lemma flush_put_packet: "stream_flush_packet_body b dst = put_packet (pb_tag b) (pb_data b) dst"
  by (simp add: stream_flush_packet_body_def put_packet_def)

lemma write_sk_sesskey_eq:
  assumes "\<And>n. al n"
  shows "stream_write_sk_sesskey al k dst = (put_packet PGP_PTAG_CT_SK_SESSION_KEY (sk_body k) dst, True)"
  by (cases "s2k_specifier (sk_s2k k) = PGP_S2KS_SALTED"; cases "sk_enckey k = []";
      cases "s2k_specifier (sk_s2k k) = PGP_S2KS_ITERATED_AND_SALTED")
    (simp_all add: stream_write_sk_sesskey_def flush_or_free_def body_simps [OF assms] flush_put_packet
      sk_body_def sk_head_def sk_tail_def)

lemma write_one_pass_eq:
  assumes "\<And>n. al n"
  shows "stream_write_one_pass al k dst = (put_packet PGP_PTAG_CT_1_PASS_SIG (op_body k) dst, True)"
  by (simp add: stream_write_one_pass_def flush_or_free_def body_simps [OF assms] flush_put_packet op_body_def)

definition mpi_grow :: "pgp_packet_body \<Rightarrow> bytes \<Rightarrow> pgp_packet_body" where
  "mpi_grow b m =
     grow (grow b [to_byte (mpi_bits (skip_zeros m) div 256), to_byte (mpi_bits (skip_zeros m))]) (skip_zeros m)"

lemma mpi_grow_simps [simp]:
  "pb_tag (mpi_grow b m) = pb_tag b" "pb_data (mpi_grow b m) = pb_data b @ mpi_enc (skip_zeros m)"
  by (simp_all add: mpi_grow_def mpi_enc_def)

lemma add_packet_body_mpi_ok:
  "(\<And>n. al n) \<Longrightarrow> m \<noteq> [] \<Longrightarrow> add_packet_body_mpi al b m = Some (mpi_grow b m)"
  by (simp add: add_packet_body_mpi_def add_packet_body_grow Let_def mpi_grow_def mpi_bits_def
      push_bit_eq_mult drop_bit_eq_div mult.commute)

lemma write_pk_sesskey_eq:
  assumes "\<And>n. al n" "pk_writable k"
  shows "stream_write_pk_sesskey al k dst = (put_packet PGP_PTAG_CT_PK_SESSION_KEY (pk_body k) dst, True)"
  using assms(2) unfolding pk_writable_def
  by (auto simp: stream_write_pk_sesskey_def flush_or_free_def body_simps [OF assms(1)]
      add_packet_body_mpi_ok [OF assms(1)] flush_put_packet pk_body_def pk_material_def split: if_splits)

lemma put_packet_no_cache: "dst_no_cache (put_packet tag body d) = dst_no_cache d"
  by (simp add: put_packet_def)

context bounded_sink
begin

lemma put_packet_eq:
  assumes "dst_inv wr ok d"
    and "length (dst_out out d) + length (packet_bytes (word_of_int tag) body) \<le> cap (dst_param d)"
  shows "dst_inv wr ok (put_packet tag body d)"
    and "dst_out out (put_packet tag body d) = dst_out out d @ packet_bytes (word_of_int tag) body"
    and "cap (dst_param (put_packet tag body d)) = cap (dst_param d)"
proof -
  define hdr where "hdr = (word_of_int tag OR PGP_PTAG_ALWAYS_SET OR PGP_PTAG_NEW_FORMAT)
                # write_packet_len (length body)"
  have pk: "packet_bytes (word_of_int tag) body = hdr @ body"
    by (simp add: hdr_def packet_bytes_def)
  note h = dst_write_eq [OF assms(1), of hdr] and b = dst_write_eq [of "dst_write d hdr" body]
  have put: "put_packet tag body d = dst_write (dst_write d hdr) body"
    by (simp add: put_packet_def hdr_def)
  show "dst_inv wr ok (put_packet tag body d)"
    "dst_out out (put_packet tag body d) = dst_out out d @ packet_bytes (word_of_int tag) body"
    "cap (dst_param (put_packet tag body d)) = cap (dst_param d)"
    using h b assms(2) by (auto simp: put pk)
qed

end

text \<open>A packet written into a fresh memory destination is the destination's content.\<close>

lemma put_packet_mem:
  assumes "length (packet_bytes (word_of_int tag) body) \<le> maxalloc"
  shows "mem_dest_get_memory (put_packet tag body (fst (init_mem_dest (\<lambda>_. True) maxalloc))) =
         Some (packet_bytes (word_of_int tag) body)"
proof -
  obtain d where d: "init_mem_dest (\<lambda>_. True) maxalloc = (d, RNP_SUCCESS)"
    "dst_inv (mem_dst_write (\<lambda>_. True)) mem_dst_ok d" "dst_out mem_out d = []"
    "mem_cap (dst_param d) = maxalloc" "dst_no_cache d"
    using init_mem_dest_inv [of "\<lambda>_. True"] by auto
  show ?thesis
    using mem_bounded.put_packet_eq [OF d(2), of tag body] d assms
    by (simp add: mem_dest_get_memory_eq [of "\<lambda>_. True"] put_packet_no_cache)
qed

section \<open>Parsing what was written\<close>

definition s2k_wf :: "pgp_s2k \<Rightarrow> bool" where
  "s2k_wf s \<longleftrightarrow>
     s2k_hash_alg s < 256 \<and>
     (s2k_specifier s = PGP_S2KS_SIMPLE \<or>
      s2k_specifier s = PGP_S2KS_SALTED \<and> length (s2k_salt s) = PGP_SALT_SIZE \<or>
      s2k_specifier s = PGP_S2KS_ITERATED_AND_SALTED \<and> length (s2k_salt s) = PGP_SALT_SIZE \<and>
      s2k_iterations s < 256)"

definition sk_wf :: "pgp_sk_sesskey \<Rightarrow> bool" where
  "sk_wf k \<longleftrightarrow>
     sk_version k = 4 \<and> sk_alg k < 256 \<and> s2k_wf (sk_s2k k) \<and>
     length (sk_enckey k) \<le> PGP_MAX_KEY_SIZE + 1"

text \<open>The fields of \<open>k\<close> that go over the wire, the others from the structure \<open>k0\<close> that is filled.\<close>

definition sk_filled :: "pgp_sk_sesskey \<Rightarrow> pgp_sk_sesskey \<Rightarrow> pgp_sk_sesskey" where
  "sk_filled k0 k =
     k0\<lparr>sk_version := sk_version k, sk_alg := sk_alg k,
        sk_s2k := (sk_s2k k0)
          \<lparr>s2k_specifier := s2k_specifier (sk_s2k k), s2k_hash_alg := s2k_hash_alg (sk_s2k k),
           s2k_salt := (if s2k_specifier (sk_s2k k) = PGP_S2KS_SIMPLE then s2k_salt (sk_s2k k0)
                        else s2k_salt (sk_s2k k)),
           s2k_iterations := (if s2k_specifier (sk_s2k k) = PGP_S2KS_ITERATED_AND_SALTED
                              then s2k_iterations (sk_s2k k) else s2k_iterations (sk_s2k k0))\<rparr>,
        sk_enckey := sk_enckey k\<rparr>"

definition op_wf :: "pgp_one_pass_sig \<Rightarrow> bool" where
  "op_wf k \<longleftrightarrow>
     op_version k = 3 \<and> op_type k < 256 \<and> op_halg k < 256 \<and> op_palg k < 256 \<and>
     length (op_keyid k) = PGP_KEY_ID_SIZE \<and> op_nested k \<le> 1"

definition pk_wf :: "pgp_pk_sesskey_pkt \<Rightarrow> bool" where
  "pk_wf k \<longleftrightarrow>
     pk_version k = 3 \<and> length (pk_key_id k) = PGP_KEY_ID_SIZE \<and>
     (pk_alg k = PGP_PKA_RSA \<and> mpi_wf (pk_rsa_m k) \<or>
      pk_alg k = PGP_PKA_SM2 \<and> mpi_wf (pk_sm2_m k) \<or>
      pk_alg k = PGP_PKA_ELGAMAL \<and> mpi_wf (pk_eg_g k) \<and> mpi_wf (pk_eg_m k) \<or>
      pk_alg k = PGP_PKA_ECDH \<and> mpi_wf (pk_ecdh_p k) \<and> length (pk_ecdh_m k) \<le> ECDH_WRAPPED_KEY_SIZE)"

definition pk_filled :: "pgp_pk_sesskey_pkt \<Rightarrow> pgp_pk_sesskey_pkt \<Rightarrow> pgp_pk_sesskey_pkt" where
  "pk_filled k0 k =
     (let k1 = k0\<lparr>pk_version := pk_version k, pk_key_id := pk_key_id k, pk_alg := pk_alg k\<rparr> in
      if pk_alg k = PGP_PKA_RSA then k1\<lparr>pk_rsa_m := pk_rsa_m k\<rparr>
      else if pk_alg k = PGP_PKA_SM2 then k1\<lparr>pk_sm2_m := pk_sm2_m k\<rparr>
      else if pk_alg k = PGP_PKA_ELGAMAL then k1\<lparr>pk_eg_g := pk_eg_g k, pk_eg_m := pk_eg_m k\<rparr>
      else k1\<lparr>pk_ecdh_p := pk_ecdh_p k, pk_ecdh_m := pk_ecdh_m k\<rparr>)"

lemma length_mpi_enc [simp]: "length (mpi_enc m) = length m + 2"
  by (simp add: mpi_enc_def)

lemma mpi_wf_skip_zeros: "mpi_wf m \<Longrightarrow> skip_zeros m = m"
  by (simp add: mpi_wf_def skip_zeros_wf)

context reliable_source
begin

lemma packet_len_holds:
  assumes "holds s (packet_bytes tag body @ r)" "length body < 2 ^ 32"
  obtains s' where "stream_read_pkt_len s = (s', Some (length body))" "holds s' (body @ r)"
  using read_pkt_len_holds [OF assms(1)] hdr_len_packet_bytes [OF assms(2), of tag r] by auto

lemma parse_one_pass_holds:
  assumes "holds s (packet_bytes tag (op_body k) @ r)" "op_wf k"
  obtains s' where "stream_parse_one_pass al s k0 = (s', Inr k)" "holds s' r"
proof -
  have len: "length (op_body k) = 13" using assms(2) by (simp add: op_body_def op_wf_def PGP_KEY_ID_SIZE_def)
  obtain s1 where s1: "stream_read_pkt_len s = (s1, Some 13)" "holds s1 (op_body k @ r)"
    using packet_len_holds [OF assms(1)] len by auto
  obtain s2 where s2: "src_get s1 13 = (s2, Some (op_body k))" "holds s2 r"
    using get_exact [OF s1(2) len] by auto
  have "k = k0\<lparr>op_version := 3, op_type := op_type k, op_halg := op_halg k, op_palg := op_palg k,
      op_keyid := op_keyid k, op_nested := op_nested k\<rparr>"
    using assms(2) by (cases k) (simp add: op_wf_def)
  moreover have "op_nested k = 0 \<or> op_nested k = 1" using assms(2) by (auto simp: op_wf_def)
  ultimately have "stream_parse_one_pass al s k0 = (s2, Inr k)"
    using assms(2) s1(1) s2(1)
    by (auto simp: stream_parse_one_pass_def op_body_def op_wf_def nth_append PGP_KEY_ID_SIZE_def)
  with that s2(2) show thesis by blast
qed

lemma sk_parse_enckey_holds:
  assumes "holds s (ek @ r)" "length ek \<le> PGP_MAX_KEY_SIZE + 1"
  obtains s' where "\<And>k. sk_parse_enckey s (length ek) k = (s', Inr (k\<lparr>sk_enckey := ek\<rparr>))" "holds s' r"
proof (cases "ek = []")
  case True
  with that [of s] assms show thesis by (simp add: sk_parse_enckey_def)
next
  case False
  obtain s' where "src_get s (length ek) = (s', Some ek)" "holds s' r"
    using get_exact [OF assms(1) refl] assms(2) by (auto simp: PGP_MAX_KEY_SIZE_def)
  with that [of s'] False assms show thesis by (simp add: sk_parse_enckey_def)
qed

lemma sk_parse_salt_holds:
  assumes "holds s (salt @ r)" "length salt = PGP_SALT_SIZE"
    and "s2k_specifier (sk_s2k k) \<noteq> PGP_S2KS_ITERATED_AND_SALTED"
  obtains s' where "sk_parse_salt s (PGP_SALT_SIZE + n) k =
      (s', Inr (n, k\<lparr>sk_s2k := (sk_s2k k)\<lparr>s2k_salt := salt\<rparr>\<rparr>))" "holds s' r"
proof -
  obtain s' where "src_get s PGP_SALT_SIZE = (s', Some salt)" "holds s' r"
    using get_exact [OF assms(1,2)] by (auto simp: PGP_SALT_SIZE_def)
  with that [of s'] assms(3) show thesis by (simp add: sk_parse_salt_def)
qed

lemma sk_parse_iterated_holds:
  assumes "holds s (salt @ it # r)" "length salt = PGP_SALT_SIZE"
    and "s2k_specifier (sk_s2k k) = PGP_S2KS_ITERATED_AND_SALTED"
  obtains s' where "sk_parse_salt s (PGP_SALT_SIZE + Suc n) k =
      (s', Inr (n, k\<lparr>sk_s2k := (sk_s2k k)\<lparr>s2k_salt := salt, s2k_iterations := unat it\<rparr>\<rparr>))"
    "holds s' r"
proof -
  obtain s1 where s1: "src_get s PGP_SALT_SIZE = (s1, Some salt)" "holds s1 ([it] @ r)"
    using get_exact [OF assms(1,2)] by (auto simp: PGP_SALT_SIZE_def)
  obtain s2 where "src_get s1 1 = (s2, Some [it])" "holds s2 r"
    using get_exact [OF s1(2), of 1] by auto
  with that [of s2] s1(1) assms(3) show thesis by (simp add: sk_parse_salt_def Let_def)
qed

text \<open>The part of the body after its four fixed bytes.\<close>

lemma sk_parse_tail_holds:
  assumes "holds s (sk_tail k @ r)" "sk_wf k" "s2k_specifier (sk_s2k k1) = s2k_specifier (sk_s2k k)"
  defines "k2 \<equiv> k1\<lparr>sk_s2k := (sk_s2k k1)
       \<lparr>s2k_salt := (if s2k_specifier (sk_s2k k) = PGP_S2KS_SIMPLE then s2k_salt (sk_s2k k1)
                     else s2k_salt (sk_s2k k)),
        s2k_iterations := (if s2k_specifier (sk_s2k k) = PGP_S2KS_ITERATED_AND_SALTED
                           then s2k_iterations (sk_s2k k) else s2k_iterations (sk_s2k k1))\<rparr>\<rparr>"
  obtains (simple) "s2k_specifier (sk_s2k k) = PGP_S2KS_SIMPLE" "sk_tail k = sk_enckey k" "k2 = k1"
  | (salted) s' where "s2k_specifier (sk_s2k k) \<in> {PGP_S2KS_SALTED, PGP_S2KS_ITERATED_AND_SALTED}"
      "sk_parse_salt s (length (sk_tail k)) k1 = (s', Inr (length (sk_enckey k), k2))"
      "holds s' (sk_enckey k @ r)"
proof -
  note wf = assms(2) [unfolded sk_wf_def s2k_wf_def]
  consider "s2k_specifier (sk_s2k k) = PGP_S2KS_SIMPLE"
    | "s2k_specifier (sk_s2k k) = PGP_S2KS_SALTED" "length (s2k_salt (sk_s2k k)) = PGP_SALT_SIZE"
    | "s2k_specifier (sk_s2k k) = PGP_S2KS_ITERATED_AND_SALTED"
      "length (s2k_salt (sk_s2k k)) = PGP_SALT_SIZE" "s2k_iterations (sk_s2k k) < 256"
    using wf by auto
  then show thesis
  proof cases
    case 1
    with simple assms(3) show thesis by (simp add: sk_tail_def k2_def)
  next
    case 2
    then obtain s' where "sk_parse_salt s (PGP_SALT_SIZE + length (sk_enckey k)) k1 =
        (s', Inr (length (sk_enckey k), k1\<lparr>sk_s2k := (sk_s2k k1)\<lparr>s2k_salt := s2k_salt (sk_s2k k)\<rparr>\<rparr>))"
      "holds s' (sk_enckey k @ r)"
      using sk_parse_salt_holds [of s "s2k_salt (sk_s2k k)" "sk_enckey k @ r" k1] assms(1,3)
      by (auto simp: sk_tail_def)
    with salted 2 show thesis by (simp add: sk_tail_def k2_def)
  next
    case 3
    then obtain s' where "sk_parse_salt s (PGP_SALT_SIZE + Suc (length (sk_enckey k))) k1 =
        (s', Inr (length (sk_enckey k), k1\<lparr>sk_s2k := (sk_s2k k1)\<lparr>s2k_salt := s2k_salt (sk_s2k k),
           s2k_iterations := unat (to_byte (s2k_iterations (sk_s2k k)))\<rparr>\<rparr>))"
      "holds s' (sk_enckey k @ r)"
      using sk_parse_iterated_holds [of s "s2k_salt (sk_s2k k)" "to_byte (s2k_iterations (sk_s2k k))"
          "sk_enckey k @ r" k1] assms(1,3) by (auto simp: sk_tail_def)
    with salted 3 show thesis by (simp add: sk_tail_def k2_def)
  qed
qed

lemma parse_sk_sesskey_holds:
  assumes "holds s (packet_bytes tag (sk_body k) @ r)" "sk_wf k"
  obtains s' where "stream_parse_sk_sesskey s k0 = (s', Inr (sk_filled k0 k))" "holds s' r"
proof -
  note wf = assms(2) [unfolded sk_wf_def s2k_wf_def]
  have body: "sk_body k = sk_head k @ sk_tail k" by (simp add: sk_body_def)
  have len: "length (sk_head k) = 4" "length (sk_body k) < 2 ^ 32"
    using wf by (auto simp: sk_body_def sk_head_def sk_tail_def PGP_SALT_SIZE_def PGP_MAX_KEY_SIZE_def)
  obtain s1 where s1: "stream_read_pkt_len s = (s1, Some (length (sk_body k)))" "holds s1 (sk_body k @ r)"
    using packet_len_holds [OF assms(1) len(2)] by blast
  obtain s2 where s2: "src_get s1 4 = (s2, Some (sk_head k))" "holds s2 (sk_tail k @ r)"
    using get_exact [OF s1(2) [unfolded body append_assoc] len(1)] by auto
  define k1 where "k1 = k0\<lparr>sk_version := 4, sk_alg := sk_alg k,
      sk_s2k := (sk_s2k k0)\<lparr>s2k_specifier := s2k_specifier (sk_s2k k),
                            s2k_hash_alg := s2k_hash_alg (sk_s2k k)\<rparr>\<rparr>"
  have parse: "stream_parse_sk_sesskey s k0 =
      (if s2k_specifier (sk_s2k k) = PGP_S2KS_SIMPLE then sk_parse_enckey s2 (length (sk_tail k)) k1
       else (case sk_parse_salt s2 (length (sk_tail k)) k1 of
               (s3, Inl e) \<Rightarrow> (s3, Inl e)
             | (s3, Inr (n, k2)) \<Rightarrow> sk_parse_enckey s3 n k2))"
    using wf s1(1) s2(1) len(1) by (auto simp: stream_parse_sk_sesskey_def sk_head_def k1_def body)
  have ek: "length (sk_enckey k) \<le> PGP_MAX_KEY_SIZE + 1" and v: "sk_version k = 4" using wf by blast+
  have spec: "s2k_specifier (sk_s2k k1) = s2k_specifier (sk_s2k k)" by (simp add: k1_def)
  from s2(2) assms(2) spec show thesis
  proof (cases rule: sk_parse_tail_holds)
    case simple
    obtain s3 where "sk_parse_enckey s2 (length (sk_enckey k)) k1 = (s3, Inr (k1\<lparr>sk_enckey := sk_enckey k\<rparr>))"
      "holds s3 r"
      using sk_parse_enckey_holds [OF _ ek] s2(2) simple(2) by metis
    with that [of s3] simple v show thesis by (simp add: parse k1_def sk_filled_def)
  next
    case (salted s3)
    obtain s4 where "\<forall>k2. sk_parse_enckey s3 (length (sk_enckey k)) k2 = (s4, Inr (k2\<lparr>sk_enckey := sk_enckey k\<rparr>))"
      "holds s4 r"
      using sk_parse_enckey_holds [OF salted(3) ek] by blast
    with that [of s4] salted v show thesis by (auto simp: parse k1_def sk_filled_def)
  qed
qed

end

lemma to_size_of_nat: "n < 2 ^ 64 \<Longrightarrow> to_size (int n) = n"
  by (simp add: to_size_def nat_mod_distrib)

lemma mpi_wf_length: "mpi_wf m \<Longrightarrow> length m \<le> 2048"
  by (simp add: mpi_wf_def PGP_MPINT_SIZE_def)

context reliable_source
begin

lemma read_mpi_sized:
  assumes "holds s (mpi_enc m @ r)" "mpi_wf m" "n < 2 ^ 63"
  obtains s' where "stream_read_mpi s (to_size (int (length m + 2 + n))) = (s', Some m)" "holds s' r"
  using read_mpi_holds [OF assms(1,2), of "length m + 2 + n"] assms(3) mpi_wf_length [OF assms(2)]
    to_size_of_nat [of "length m + 2 + n"] by auto

lemma parse_ecdh_holds:
  assumes "holds s (to_byte (length m) # m @ r)" "length m \<le> ECDH_WRAPPED_KEY_SIZE"
  obtains s' where "pk_parse_ecdh s (1 + int (length m)) k = (s', Inr (k\<lparr>pk_ecdh_m := m\<rparr>))" "holds s' r"
proof -
  obtain s1 where s1: "src_get s 1 = (s1, Some [to_byte (length m)])" "holds s1 (m @ r)"
    using get_exact [of s "[to_byte (length m)]" "m @ r" 1] assms(1) by auto
  obtain s2 where "src_get s1 (length m) = (s2, Some m)" "holds s2 r"
    using get_exact [OF s1(2) refl] assms(2) by (auto simp: ECDH_WRAPPED_KEY_SIZE_def)
  with that [of s2] s1(1) assms(2) show thesis
    by (simp add: pk_parse_ecdh_def pk_parse_end_def ECDH_WRAPPED_KEY_SIZE_def Let_def)
qed

lemma pk_wf_cases:
  assumes "pk_wf k"
  obtains "pk_alg k = PGP_PKA_RSA" "mpi_wf (pk_rsa_m k)"
  | "pk_alg k = PGP_PKA_SM2" "mpi_wf (pk_sm2_m k)"
  | "pk_alg k = PGP_PKA_ELGAMAL" "mpi_wf (pk_eg_g k)" "mpi_wf (pk_eg_m k)"
  | "pk_alg k = PGP_PKA_ECDH" "mpi_wf (pk_ecdh_p k)" "length (pk_ecdh_m k) \<le> ECDH_WRAPPED_KEY_SIZE"
  using assms by (auto simp: pk_wf_def)

lemma parse_pk_head_holds:
  assumes "holds s (packet_bytes tag (pk_body k) @ r)" "pk_wf k"
  obtains s1 s2 where "stream_read_pkt_len s = (s1, Some (10 + length (pk_material k)))"
    "src_get s1 10 = (s2, Some (3 # pk_key_id k @ [to_byte (pk_alg k)]))"
    "holds s2 (pk_material k @ r)"
proof -
  have id: "length (pk_key_id k) = 8" "pk_version k = 3" using assms(2) by (simp_all add: pk_wf_def PGP_KEY_ID_SIZE_def)
  from assms(2) have "length (pk_material k) < 2 ^ 31"
    by (cases rule: pk_wf_cases)
      (auto simp: pk_material_def mpi_wf_skip_zeros ECDH_WRAPPED_KEY_SIZE_def dest!: mpi_wf_length)
  then have len: "length (pk_body k) < 2 ^ 32" "length (pk_body k) = 10 + length (pk_material k)"
    using id by (simp_all add: pk_body_def)
  obtain s1 where s1: "stream_read_pkt_len s = (s1, Some (10 + length (pk_material k)))"
    "holds s1 ((3 # pk_key_id k @ [to_byte (pk_alg k)]) @ pk_material k @ r)"
    using packet_len_holds [OF assms(1) len(1)] len(2) id by (auto simp: pk_body_def)
  obtain s2 where "src_get s1 10 = (s2, Some (3 # pk_key_id k @ [to_byte (pk_alg k)]))"
    "holds s2 (pk_material k @ r)"
    using get_exact [OF s1(2), of 10] id by auto
  with that s1(1) show thesis by blast
qed

lemma parse_pk_sesskey_holds:
  assumes "holds s (packet_bytes tag (pk_body k) @ r)" "pk_wf k"
  obtains s' where "stream_parse_pk_sesskey s k0 = (s', Inr (pk_filled k0 k))" "holds s' r"
proof -
  have id: "length (pk_key_id k) = 8" "pk_version k = 3" using assms(2) by (simp_all add: pk_wf_def PGP_KEY_ID_SIZE_def)
  obtain s1 s2 where s2: "stream_read_pkt_len s = (s1, Some (10 + length (pk_material k)))"
    "src_get s1 10 = (s2, Some (3 # pk_key_id k @ [to_byte (pk_alg k)]))"
    "holds s2 (pk_material k @ r)"
    by (rule parse_pk_head_holds [OF assms])
  note parse = stream_parse_pk_sesskey_def s2(1,2) pk_filled_def id Let_def nth_append pk_parse_end_def
  note mat = pk_material_def mpi_wf_skip_zeros
  from assms(2) show thesis
  proof (cases rule: pk_wf_cases)
    case 1
    then obtain s3 where "stream_read_mpi s2 (to_size (int (length (pk_material k)))) = (s3, Some (pk_rsa_m k))"
      "holds s3 r" using s2(3) read_mpi_sized [of s2 "pk_rsa_m k" r 0] by (auto simp: mat)
    with that [of s3] 1 show thesis by (simp add: parse mat)
  next
    case 2
    then obtain s3 where "stream_read_mpi s2 (to_size (int (length (pk_material k)))) = (s3, Some (pk_sm2_m k))"
      "holds s3 r" using s2(3) read_mpi_sized [of s2 "pk_sm2_m k" r 0] by (auto simp: mat)
    with that [of s3] 2 show thesis by (simp add: parse mat)
  next
    case 3
    then have "holds s2 (mpi_enc (pk_eg_g k) @ mpi_enc (pk_eg_m k) @ r)" using s2(3) by (simp add: mat)
    then obtain s3 where s3: "stream_read_mpi s2 (to_size (int (length (pk_material k)))) = (s3, Some (pk_eg_g k))"
      "holds s3 (mpi_enc (pk_eg_m k) @ r)"
      using 3 read_mpi_sized [of s2 "pk_eg_g k" _ "length (pk_eg_m k) + 2"] mpi_wf_length [of "pk_eg_m k"]
      by (auto simp: mat)
    obtain s4 where "stream_read_mpi s3 (to_size (int (length (pk_eg_m k) + 2))) = (s4, Some (pk_eg_m k))"
      "holds s4 r" using 3 s3(2) read_mpi_sized [of s3 "pk_eg_m k" r 0] by auto
    with that [of s4] 3 s3(1) show thesis by (simp add: parse mat)
  next
    case 4
    then have "holds s2 (mpi_enc (pk_ecdh_p k) @ to_byte (length (pk_ecdh_m k)) # pk_ecdh_m k @ r)"
      using s2(3) by (simp add: mat)
    then obtain s3 where s3: "stream_read_mpi s2 (to_size (int (length (pk_material k)))) = (s3, Some (pk_ecdh_p k))"
      "holds s3 (to_byte (length (pk_ecdh_m k)) # pk_ecdh_m k @ r)"
      using 4 read_mpi_sized [of s2 "pk_ecdh_p k" _ "1 + length (pk_ecdh_m k)"]
      by (auto simp: mat ECDH_WRAPPED_KEY_SIZE_def)
    show thesis
      by (rule parse_ecdh_holds [OF s3(2) 4(3), where k = "k0\<lparr>pk_version := 3, pk_key_id := pk_key_id k,
            pk_alg := 18, pk_ecdh_p := pk_ecdh_p k\<rparr>"], rule that)
        (use 4 s3(1) in \<open>simp_all add: parse mat\<close>)
  qed
qed

end

section \<open>Parsers accept only encodings\<close>

lemma mpi_bit_count_okD:
  assumes "mpi_bit_count_ok bits b" "0 < bits"
  shows "b \<noteq> 0" "significant_bits (unat b) = (if bits mod 8 \<noteq> 0 then bits mod 8 else 8)"
proof -
  define h where "h = (if bits mod 8 \<noteq> 0 then bits mod 8 else 8)"
  have h: "drop_bit h (unat b) = 0" "bit b (h - 1)" "0 < h"
    using assms by (auto simp: mpi_bit_count_ok_def Let_def h_def)
  show b: "b \<noteq> 0" using h(2) by auto
  have up: "unat b < 2 ^ h" using h(1) by (simp add: drop_bit_eq_div div_eq_0_iff)
  have low: "2 ^ (h - 1) \<le> unat b"
  proof (rule ccontr)
    assume "\<not> 2 ^ (h - 1) \<le> unat b"
    then have "\<not> bit (unat b) (h - 1)" by (simp add: bit_iff_odd)
    with h(2) show False by (simp add: bit_unsigned_iff)
  qed
  have sb: "2 ^ (significant_bits (unat b) - 1) \<le> unat b" "unat b < 2 ^ significant_bits (unat b)"
    "0 < significant_bits (unat b)" using significant_bits_bounds [of "unat b"] b by (auto simp: unat_gt_0)
  have "2 ^ (h - 1) < (2::nat) ^ significant_bits (unat b)" "2 ^ (significant_bits (unat b) - 1) < (2::nat) ^ h"
    using le_less_trans [OF low sb(2)] le_less_trans [OF sb(1) up] .
  then have "h - 1 < significant_bits (unat b)" "significant_bits (unat b) - 1 < h"
    by (simp_all add: power_strict_increasing_iff)
  with h(3) sb(3) have "significant_bits (unat b) = h" by linarith
  then show "significant_bits (unat b) = (if bits mod 8 \<noteq> 0 then bits mod 8 else 8)" by (simp add: h_def)
qed

lemma mpi_bits_unique:
  assumes "mpi_bit_count_ok bits (m ! 0)" "0 < bits" "bits \<le> PGP_MPINT_BITS" "length m = (bits + 7) div 8"
  shows "mpi_wf m" "mpi_bits m = bits"
proof -
  note c = mpi_bit_count_okD [OF assms(1,2)]
  show "mpi_wf m" using c(1) assms(2-4) by (auto simp: mpi_wf_def PGP_MPINT_BITS_def PGP_MPINT_SIZE_def)
  obtain q k where qk: "bits = 8 * q + k" "k < 8" using mult_div_mod_eq [of 8 bits] by (metis mod_less_divisor zero_less_numeral)
  have "(bits + 7) div 8 = (if k = 0 then q else Suc q)" "bits mod 8 = k"
    using qk by (auto intro!: div_nat_eqI)
  with qk assms(2) show "mpi_bits m = bits"
    unfolding mpi_bits_def c(2) assms(4) by (cases "k = 0"; cases q) simp_all
qed

context reliable_source
begin

lemma get_inv:
  assumes "holds s a" "n < 2 ^ 63" "src_get s n = (s', Some xs)"
  obtains r where "a = xs @ r" "length xs = n" "holds s' r" "src_readb s' = src_readb s + n"
proof -
  obtain s1 where s1: "src_get s n = (s1, if n \<le> length a then Some (take n a) else None)"
    "holds s1 (drop n a)" "src_readb s1 = src_readb s + min n (length a)"
    by (rule get_holds [OF assms(1,2)])
  with assms(3) have "n \<le> length a" "xs = take n a" "s1 = s'" by (auto split: if_splits)
  with s1 that [of "drop n a"] show thesis by simp
qed

lemma read_mpi_inv:
  assumes "holds s a" "stream_read_mpi s maxlen = (s', Some m)"
  obtains r where "a = mpi_enc m @ r" "mpi_wf m" "holds s' r" "maxlen = 0 \<or> length m + 2 \<le> maxlen"
proof -
  obtain s1 hdr where s1: "src_get s 2 = (s1, Some hdr)" and lim: "\<not> (0 < maxlen \<and> maxlen < 2)"
    using assms(2) by (auto simp: stream_read_mpi_def split: if_splits prod.splits option.splits)
  obtain r1 where r1: "a = hdr @ r1" "length hdr = 2" "holds s1 r1"
    using get_inv [OF assms(1) _ s1] by auto
  then obtain x y where hdr: "hdr = [x, y]" by (auto simp: numeral_2_eq_2 length_Suc_conv)
  define bits where "bits = unat (read_uint16 hdr)"
  have bits: "bits = unat x * 256 + unat y" by (simp add: bits_def hdr unat_read_uint16)
  have s2: "src_get s1 ((bits + 7) div 8) = (s', Some m)" "mpi_bit_count_ok bits (m ! 0)"
    "0 < bits" "bits \<le> PGP_MPINT_BITS" "maxlen = 0 \<or> (bits + 7) div 8 + 2 \<le> maxlen"
    using assms(2) s1 lim
    by (auto simp: stream_read_mpi_def bits_def [symmetric] Let_def drop_bit_eq_div
        split: if_splits prod.splits option.splits)
  obtain r where r: "r1 = m @ r" "length m = (bits + 7) div 8" "holds s' r"
    by (rule get_inv [OF r1(3) _ s2(1)]) (use s2(4) in \<open>auto simp: PGP_MPINT_BITS_def\<close>)
  note u = mpi_bits_unique [OF s2(2-4) r(2)]
  have "unat y < 256" by (rule unat_byte_less)
  then have "hdr @ m = mpi_enc m"
    using u(2) bits by (auto simp: mpi_enc_def hdr word_unat_eq_iff)
  with that [of r] r u(1) r1(1) s2(5) show thesis by auto
qed

end

context reliable_source
begin

lemma pkt_len_inv:
  assumes "holds s a" "stream_read_pkt_len s = (s', Some len)"
  obtains r where "hdr_len a = Some (len, r)" "holds s' r"
  using read_pkt_len_holds [OF assms(1)] assms(2) by (cases "hdr_len a") auto

lemma parse_one_pass_inv:
  assumes "holds s a" "stream_parse_one_pass al s k0 = (s', Inr k)"
  obtains b r where "hdr_len a = Some (13, b @ r)" "b = butlast (op_body k) @ [last b]" "holds s' r"
    "op_wf k" "op_nested k = (if last b = 0 then 0 else 1)"
proof -
  obtain s1 len where s1: "stream_read_pkt_len s = (s1, Some len)"
    using assms(2) by (auto simp: stream_parse_one_pass_def split: option.splits prod.splits)
  obtain r1 where r1: "hdr_len a = Some (len, r1)" "holds s1 r1" by (rule pkt_len_inv [OF assms(1) s1])
  have len: "len = 13"
    using assms(2) by (auto simp: stream_parse_one_pass_def s1 split: if_splits option.splits prod.splits)
  obtain b where b: "src_get s1 13 = (s', Some b)" "b ! 0 = 3"
    and k: "k = k0\<lparr>op_version := unat (b ! 0), op_type := unat (b ! 1),
                       op_halg := unat (b ! 2), op_palg := unat (b ! 3),
                       op_keyid := take PGP_KEY_ID_SIZE (drop 4 b),
                       op_nested := (if b ! 12 \<noteq> 0 then 1 else 0)\<rparr>"
    using assms(2) by (auto simp: stream_parse_one_pass_def s1 len Let_def split: if_splits option.splits prod.splits)
  obtain r where r: "r1 = b @ r" "length b = 13" "holds s' r"
    by (rule get_inv [OF r1(2) _ b(1)]) auto
  from r(2) obtain b0 b1 b2 b3 t where t: "b = b0 # b1 # b2 # b3 # t" "length t = 9"
    by (auto simp: numeral_eq_Suc length_Suc_conv)
  then obtain id b12 where "t = id @ [b12]" "length id = 8" by (cases t rule: rev_cases) auto
  with t have bs: "b = b0 # b1 # b2 # b3 # id @ [b12]" "length id = 8" by simp_all
  show thesis
    using that [of b r] r1(1) r b(2) unfolding len k
    by (auto simp: bs op_body_def op_wf_def PGP_KEY_ID_SIZE_def nth_append butlast_append)
qed

lemma sk_parse_enckey_inv:
  assumes "holds s a" "sk_parse_enckey s len k = (s', Inr k')"
  obtains ek r where "a = ek @ r" "length ek = len" "k' = k\<lparr>sk_enckey := ek\<rparr>" "len \<le> PGP_MAX_KEY_SIZE + 1"
    "holds s' r"
proof (cases "0 < len")
  case True
  with assms(2) obtain ek where ek: "src_get s len = (s', Some ek)" "k' = k\<lparr>sk_enckey := ek\<rparr>"
    "len \<le> PGP_MAX_KEY_SIZE + 1"
    by (auto simp: sk_parse_enckey_def split: if_splits option.splits prod.splits)
  show thesis
    by (rule get_inv [OF assms(1) _ ek(1)]) (use that ek in \<open>auto simp: PGP_MAX_KEY_SIZE_def\<close>)
next
  case False
  with that [of "[]" a] assms show thesis by (simp add: sk_parse_enckey_def)
qed

lemma sk_parse_salt_inv:
  assumes "holds s a" "sk_parse_salt s len k = (s', Inr (len', k'))"
  obtains salt it r where "length salt = PGP_SALT_SIZE" "holds s' r"
    "s2k_specifier (sk_s2k k) \<noteq> PGP_S2KS_ITERATED_AND_SALTED \<Longrightarrow>
       a = salt @ r \<and> len = 8 + len' \<and> k' = k\<lparr>sk_s2k := (sk_s2k k)\<lparr>s2k_salt := salt\<rparr>\<rparr>"
    "s2k_specifier (sk_s2k k) = PGP_S2KS_ITERATED_AND_SALTED \<Longrightarrow>
       a = salt @ it # r \<and> len = 9 + len' \<and>
       k' = k\<lparr>sk_s2k := (sk_s2k k)\<lparr>s2k_salt := salt, s2k_iterations := unat it\<rparr>\<rparr>"
proof -
  obtain s1 salt where s1: "src_get s PGP_SALT_SIZE = (s1, Some salt)" and len: "8 \<le> len"
    using assms(2) by (auto simp: sk_parse_salt_def PGP_SALT_SIZE_def split: if_splits option.splits prod.splits)
  obtain r1 where r1: "a = salt @ r1" "length salt = PGP_SALT_SIZE" "holds s1 r1"
    by (rule get_inv [OF assms(1) _ s1]) (auto simp: PGP_SALT_SIZE_def)
  show thesis
  proof (cases "s2k_specifier (sk_s2k k) = PGP_S2KS_ITERATED_AND_SALTED")
    case True
    with assms(2) s1 len obtain b where b: "src_get s1 1 = (s', Some b)" "len = 9 + len'"
      "k' = k\<lparr>sk_s2k := (sk_s2k k)\<lparr>s2k_salt := salt, s2k_iterations := unat (b ! 0)\<rparr>\<rparr>"
      by (auto simp: sk_parse_salt_def PGP_SALT_SIZE_def Let_def split: if_splits option.splits prod.splits)
    obtain r where r: "r1 = b @ r" "length b = 1" "holds s' r"
      by (rule get_inv [OF r1(3) _ b(1)]) auto
    then obtain it where "b = [it]" by (auto simp: length_Suc_conv)
    with that [of salt r it] r r1 b True show thesis by simp
  next
    case False
    with assms(2) s1 len that [of salt r1] r1 show thesis
      by (auto simp: sk_parse_salt_def PGP_SALT_SIZE_def Let_def split: if_splits)
  qed
qed

lemma parse_sk_head_inv:
  assumes "holds s a" "stream_parse_sk_sesskey s k0 = (s', Inr k)"
  obtains s2 r2 alg spec halg len k1 where "hdr_len a = Some (4 + len, [4, alg, spec, halg] @ r2)"
    "holds s2 r2"
    "k1 = k0\<lparr>sk_version := 4, sk_alg := unat alg, sk_s2k := (sk_s2k k0)
       \<lparr>s2k_specifier := unat spec, s2k_hash_alg := unat halg\<rparr>\<rparr>"
    "unat spec = PGP_S2KS_SIMPLE \<and> sk_parse_enckey s2 len k1 = (s', Inr k) \<or>
     (unat spec = PGP_S2KS_SALTED \<or> unat spec = PGP_S2KS_ITERATED_AND_SALTED) \<and>
     (\<exists>s3 n k2. sk_parse_salt s2 len k1 = (s3, Inr (n, k2)) \<and> sk_parse_enckey s3 n k2 = (s', Inr k))"
proof -
  obtain s1 len where s1: "stream_read_pkt_len s = (s1, Some len)"
    using assms(2) by (auto simp: stream_parse_sk_sesskey_def split: option.splits prod.splits)
  obtain r1 where r1: "hdr_len a = Some (len, r1)" "holds s1 r1" by (rule pkt_len_inv [OF assms(1) s1])
  obtain s2 b where s2: "src_get s1 4 = (s2, Some b)" "b ! 0 = 4" and len: "4 \<le> len"
    using assms(2) by (auto simp: stream_parse_sk_sesskey_def s1 split: if_splits option.splits prod.splits)
  obtain r2 where r2: "r1 = b @ r2" "length b = 4" "holds s2 r2"
    by (rule get_inv [OF r1(2) _ s2(1)]) auto
  then obtain alg spec halg where b: "b = [4, alg, spec, halg]"
    using s2(2) by (auto simp: numeral_eq_Suc length_Suc_conv)
  show thesis
    by (rule that [of "len - 4" alg spec halg r2 s2, OF _ r2(3) refl])
      (use assms(2) r1 r2(1) s2 len in \<open>auto simp: stream_parse_sk_sesskey_def s1 b Let_def
         split: if_splits prod.splits sum.splits\<close>)
qed

text \<open>What the symmetric session key parser accepts is a packet whose body is the encoding of
  the structure it returns.\<close>

lemma parse_sk_sesskey_inv:
  assumes "holds s a" "stream_parse_sk_sesskey s k0 = (s', Inr k)"
  obtains r where "hdr_len a = Some (length (sk_body k), sk_body k @ r)" "holds s' r" "sk_wf k"
proof -
  obtain s2 r2 alg spec halg len k1 where h: "hdr_len a = Some (4 + len, [4, alg, spec, halg] @ r2)"
    "holds s2 r2"
    "k1 = k0\<lparr>sk_version := 4, sk_alg := unat alg, sk_s2k := (sk_s2k k0)
       \<lparr>s2k_specifier := unat spec, s2k_hash_alg := unat halg\<rparr>\<rparr>"
    and c: "unat spec = PGP_S2KS_SIMPLE \<and> sk_parse_enckey s2 len k1 = (s', Inr k) \<or>
     (unat spec = PGP_S2KS_SALTED \<or> unat spec = PGP_S2KS_ITERATED_AND_SALTED) \<and>
     (\<exists>s3 n k2. sk_parse_salt s2 len k1 = (s3, Inr (n, k2)) \<and> sk_parse_enckey s3 n k2 = (s', Inr k))"
    by (rule parse_sk_head_inv [OF assms])
  note fin = sk_body_def sk_head_def sk_tail_def sk_wf_def s2k_wf_def h(3) unat_byte_less [simplified]
    PGP_SALT_SIZE_def
  from c show thesis
  proof (elim disjE conjE exE)
    assume "unat spec = PGP_S2KS_SIMPLE" and p: "sk_parse_enckey s2 len k1 = (s', Inr k)"
    then have spec: "spec = 0" by (simp add: word_unat_eq_iff)
    obtain ek r where "r2 = ek @ r" "length ek = len" "k = k1\<lparr>sk_enckey := ek\<rparr>"
      "len \<le> PGP_MAX_KEY_SIZE + 1" "holds s' r"
      by (rule sk_parse_enckey_inv [OF h(2) p])
    with that [of r] h(1) spec show thesis by (simp add: fin)
  next
    fix s3 n k2
    assume "unat spec = PGP_S2KS_SALTED" and p: "sk_parse_salt s2 len k1 = (s3, Inr (n, k2))"
      and q: "sk_parse_enckey s3 n k2 = (s', Inr k)"
    then have spec: "spec = 1" by (simp add: word_unat_eq_iff)
    obtain salt r3 where r3: "length salt = PGP_SALT_SIZE" "holds s3 r3" "r2 = salt @ r3" "len = 8 + n"
      "k2 = k1\<lparr>sk_s2k := (sk_s2k k1)\<lparr>s2k_salt := salt\<rparr>\<rparr>"
      by (rule sk_parse_salt_inv [OF h(2) p]) (simp add: h(3) spec)
    obtain ek r where "r3 = ek @ r" "length ek = n" "k = k2\<lparr>sk_enckey := ek\<rparr>"
      "n \<le> PGP_MAX_KEY_SIZE + 1" "holds s' r"
      by (rule sk_parse_enckey_inv [OF r3(2) q])
    with that [of r] h(1) spec r3 show thesis by (simp add: fin)
  next
    fix s3 n k2
    assume "unat spec = PGP_S2KS_ITERATED_AND_SALTED" and p: "sk_parse_salt s2 len k1 = (s3, Inr (n, k2))"
      and q: "sk_parse_enckey s3 n k2 = (s', Inr k)"
    then have spec: "spec = 3" by (simp add: word_unat_eq_iff)
    obtain salt it r3 where r3: "length salt = PGP_SALT_SIZE" "holds s3 r3" "r2 = salt @ it # r3" "len = 9 + n"
      "k2 = k1\<lparr>sk_s2k := (sk_s2k k1)\<lparr>s2k_salt := salt, s2k_iterations := unat it\<rparr>\<rparr>"
      by (rule sk_parse_salt_inv [OF h(2) p]) (simp add: h(3) spec)
    obtain ek r where "r3 = ek @ r" "length ek = n" "k = k2\<lparr>sk_enckey := ek\<rparr>"
      "n \<le> PGP_MAX_KEY_SIZE + 1" "holds s' r"
      by (rule sk_parse_enckey_inv [OF r3(2) q])
    with that [of r] h(1) spec r3 show thesis by (simp add: fin)
  qed
qed

text \<open>
  A session key packet whose announced length ends before the encrypted key: the limit that
  \<^verbatim>\<open>stream_parse_pk_sesskey\<close> passes to \<^verbatim>\<open>stream_read_mpi\<close> is zero, which means no limit.
\<close>

lemma parse_pk_short_holds:
  assumes "holds s (packet_bytes tag (3 # kid @ [1]) @ mpi_enc m @ r)" "length kid = 8" "mpi_wf m"
  obtains s' where "holds s' r" "stream_parse_pk_sesskey s k0 =
    (s', Inr (k0\<lparr>pk_version := 3, pk_key_id := kid, pk_alg := PGP_PKA_RSA, pk_rsa_m := m\<rparr>))"
proof -
  obtain s1 where s1: "stream_read_pkt_len s = (s1, Some 10)" "holds s1 ((3 # kid @ [1]) @ mpi_enc m @ r)"
    using packet_len_holds [OF assms(1)] assms(2) by auto
  obtain s2 where s2: "src_get s1 10 = (s2, Some (3 # kid @ [1]))" "holds s2 (mpi_enc m @ r)"
    using get_exact [OF s1(2), of 10] assms(2) by auto
  obtain s3 where "stream_read_mpi s2 0 = (s3, Some m)" "holds s3 r"
    using read_mpi_holds [OF s2(2) assms(3), of 0] by auto
  with that [of s3] s1(1) s2(1) assms(2) show thesis
    by (simp add: stream_parse_pk_sesskey_def to_size_def pk_parse_end_def nth_append Let_def)
qed

end

section \<open>Packets through memory streams\<close>

lemma length_packet_bytes: "length (packet_bytes tag body) \<le> 6 + length body"
  by (simp add: packet_bytes_def write_packet_len_def STORE32BE_def)

text \<open>A packet goes through a memory destination into a memory source.\<close>

lemma packet_through_memory:
  assumes "length body \<le> 8000" "length rest < 2 ^ 62"
  obtains s where
    "mem_dest_get_memory (put_packet tag body (fst (init_mem_dest (\<lambda>_. True) 8192))) =
       Some (packet_bytes (word_of_int tag) body)"
    "fst (init_mem_src (\<lambda>_. True) (packet_bytes (word_of_int tag) body @ rest)) = s"
    "src_holds mem_src_read mem_rest mem_ok s (packet_bytes (word_of_int tag) body @ rest)"
proof -
  have len: "length (packet_bytes (word_of_int tag) body) \<le> 8006"
    using length_packet_bytes [of "word_of_int tag" body] assms(1) by simp
  with assms(2) have "length (packet_bytes (word_of_int tag) body @ rest) < 2 ^ 63" by simp
  then obtain s where "init_mem_src (\<lambda>_. True) (packet_bytes (word_of_int tag) body @ rest) = (s, RNP_SUCCESS)"
    "src_holds mem_src_read mem_rest mem_ok s (packet_bytes (word_of_int tag) body @ rest)"
    using init_mem_src_inv [of "\<lambda>_. True"] by (metis src_holds_def)
  with that [of s] len show thesis by (simp add: put_packet_mem)
qed


lemma init_mem_src_holds:
  assumes "length mem < 2 ^ 63"
  obtains s where "init_mem_src (\<lambda>_. True) mem = (s, RNP_SUCCESS)" "src_holds mem_src_read mem_rest mem_ok s mem"
    "src_readb s = 0"
  using init_mem_src_inv [of "\<lambda>_. True"] assms by (metis src_holds_def)

end
