(* ===== verification/Stream_Receiver.thy ===== *)
theory Stream_Receiver
  imports Stream_Common
begin

text \<open>
  What the streams that are stacked on a destination rely on: that it receives what is
  written to it.  The contract is a locale; the memory destination satisfies it, and so does
  every destination whose callback accepts all data.
\<close>

section \<open>Receivers\<close>

text \<open>
  A property of a destination and the bytes written to it that each write extends.  Both the
  contract of a callback that may fail and that of a callback of bounded capacity give such a
  property, and so does, below, a partial length destination on top of another one.
\<close>

locale receiver =
  fixes recv :: "'q pgp_dest \<Rightarrow> bytes \<Rightarrow> bool"
  assumes recv_write: "recv d a \<Longrightarrow> recv (dst_write d bs) (a @ bs)"

definition recv_unless_error ::
    "('q \<Rightarrow> nat \<Rightarrow> bytes \<Rightarrow> 'q \<times> rnp_result) \<Rightarrow> ('q \<Rightarrow> bytes) \<Rightarrow> ('q \<Rightarrow> nat \<Rightarrow> bool) \<Rightarrow> 'q pgp_dest \<Rightarrow> bytes \<Rightarrow> bool" where
  "recv_unless_error wr out ok d a \<longleftrightarrow>
     (dst_werr d = RNP_SUCCESS \<longrightarrow> dst_inv wr ok d \<and> dst_out out d = a)"

definition recv_within ::
    "('q \<Rightarrow> nat \<Rightarrow> bytes \<Rightarrow> 'q \<times> rnp_result) \<Rightarrow> ('q \<Rightarrow> bytes) \<Rightarrow> ('q \<Rightarrow> nat \<Rightarrow> bool) \<Rightarrow> ('q \<Rightarrow> nat) \<Rightarrow> nat \<Rightarrow>
     'q pgp_dest \<Rightarrow> bytes \<Rightarrow> bool" where
  "recv_within wr out ok cap c d a \<longleftrightarrow>
     (length a \<le> c \<longrightarrow> dst_inv wr ok d \<and> dst_out out d = a \<and> cap (dst_param d) = c)"

sublocale byte_sink \<subseteq> unless_error: receiver "recv_unless_error wr out ok"
proof
  fix d a bs
  assume "recv_unless_error wr out ok d a"
  then show "recv_unless_error wr out ok (dst_write d bs) (a @ bs)"
    unfolding recv_unless_error_def using dst_write_spec [of d bs] dst_write_after_error [of d bs] by metis
qed

sublocale bounded_sink \<subseteq> within: receiver "recv_within wr out ok cap c" for c
proof
  fix d a bs
  assume "recv_within wr out ok cap c d a"
  then show "recv_within wr out ok cap c (dst_write d bs) (a @ bs)"
    unfolding recv_within_def using dst_write_eq [of d bs] by auto
qed

context receiver
begin

lemma recv_writes: "recv d a \<Longrightarrow> recv (fold (\<lambda>bs d. dst_write d bs) bss d) (a @ concat bss)"
proof (induction bss arbitrary: d a)
  case (Cons bs bss)
  from Cons.IH [OF recv_write [OF Cons.prems, of bs]] show ?case by simp
qed simp

end

section \<open>Callbacks that accept everything\<close>

text \<open>
  A write callback that never fails and keeps what it was given, in whatever form, gives a
  receiver: the destination around it, with its cache.  \<open>acc p a\<close> says that the callback with
  private data \<open>p\<close> has accepted the bytes \<open>a\<close>.
\<close>

definition recv_accepted ::
    "('q \<Rightarrow> nat \<Rightarrow> bytes \<Rightarrow> 'q \<times> rnp_result) \<Rightarrow> ('q \<Rightarrow> 'q \<times> rnp_result) option \<Rightarrow> ('q \<Rightarrow> bytes \<Rightarrow> bool) \<Rightarrow>
     'q pgp_dest \<Rightarrow> bytes \<Rightarrow> bool" where
  "recv_accepted wr fin acc d data \<longleftrightarrow>
     dst_wrf d = Some wr \<and> dst_werr d = RNP_SUCCESS \<and> dst_finishf d = fin \<and> \<not> dst_no_cache d \<and>
     (\<exists>a. acc (dst_param d) a \<and> data = a @ dst_cache d)"

locale acceptor =
  fixes wr :: "'q \<Rightarrow> nat \<Rightarrow> bytes \<Rightarrow> 'q \<times> rnp_result"
    and acc :: "'q \<Rightarrow> bytes \<Rightarrow> bool"
  assumes wr_accepts: "acc p a \<Longrightarrow> \<exists>p'. wr p n bs = (p', RNP_SUCCESS) \<and> acc p' (a @ bs)"
begin

lemma call_write_accepted:
  fixes bs :: bytes
  assumes "acc (dst_param d) a"
  defines "d' \<equiv> dst_call_write wr d bs"
  shows "acc (dst_param d') (a @ bs) \<and> dst_werr d' = RNP_SUCCESS \<and> dst_wrf d' = dst_wrf d \<and>
    dst_finishf d' = dst_finishf d \<and> dst_cache d' = dst_cache d \<and> dst_no_cache d' = dst_no_cache d"
  using wr_accepts [OF assms(1), of "dst_writeb d" bs] by (auto simp: d'_def dst_call_write_def)

lemma write_rest_accepted:
  assumes "recv_accepted wr fin acc d data" "PGP_OUTPUT_CACHE_SIZE < length bs \<Longrightarrow> dst_cache d = []"
  shows "recv_accepted wr fin acc (dst_write_rest wr d bs) (data @ bs)"
proof -
  obtain a where a: "acc (dst_param d) a" "data = a @ dst_cache d" using assms(1) by (auto simp: recv_accepted_def)
  show ?thesis using call_write_accepted [OF a(1), of bs] assms a
    by (cases "PGP_OUTPUT_CACHE_SIZE < length bs") (auto simp: dst_write_rest_def recv_accepted_def)
qed

lemma dst_write_accepted:
  assumes "recv_accepted wr fin acc d data"
  shows "recv_accepted wr fin acc (dst_write d bs) (data @ bs)"
proof -
  obtain a where a: "acc (dst_param d) a" "data = a @ dst_cache d" "dst_wrf d = Some wr" "dst_werr d = RNP_SUCCESS"
    using assms by (auto simp: recv_accepted_def)
  consider "bs = []"
    | "bs \<noteq> []" "dst_cache d \<noteq> []" "PGP_OUTPUT_CACHE_SIZE < length (dst_cache d) + length bs"
    | "bs \<noteq> []" "dst_cache d = [] \<or> length (dst_cache d) + length bs \<le> PGP_OUTPUT_CACHE_SIZE"
    by linarith
  then show ?thesis
  proof cases
    case 1
    with assms show ?thesis by simp
  next
    case 2
    define room where "room = PGP_OUTPUT_CACHE_SIZE - length (dst_cache d)"
    define d' where "d' = (dst_call_write wr d (dst_cache d @ take room bs))\<lparr>dst_cache := []\<rparr>"
    have d': "recv_accepted wr fin acc d' (data @ take room bs)" "dst_werr d' = RNP_SUCCESS" "dst_cache d' = []"
      using call_write_accepted [OF a(1), of "dst_cache d @ take room bs"] a(2) assms
      by (auto simp: d'_def recv_accepted_def)
    have "dst_write d bs = dst_write_rest wr d' (drop room bs)"
      using 2 a(3,4) d'(2) by (simp add: dst_write_def Let_def room_def d'_def)
    with write_rest_accepted [OF d'(1), of "drop room bs"] d'(3) show ?thesis by simp
  next
    case 3
    then have "dst_write d bs = dst_write_rest wr d bs" using a(3,4) by (auto simp: dst_write_def)
    with write_rest_accepted [OF assms, of bs] 3(2) show ?thesis by auto
  qed
qed

lemma accepted_receiver: "receiver (recv_accepted wr fin acc)"
  by unfold_locales (rule dst_write_accepted)

text \<open>Flushing hands everything to the callback.\<close>

lemma accepted_flush:
  assumes "recv_accepted wr fin acc d data"
  shows "recv_accepted wr fin acc (dst_flush d) data" "dst_cache (dst_flush d) = []"
proof -
  obtain a where a: "acc (dst_param d) a" "data = a @ dst_cache d" using assms by (auto simp: recv_accepted_def)
  from call_write_accepted [OF a(1), of "dst_cache d"] a assms
  show "recv_accepted wr fin acc (dst_flush d) data" "dst_cache (dst_flush d) = []"
    by (auto simp: dst_flush_def recv_accepted_def)
qed

end

section \<open>The memory destination\<close>

definition mem_recv :: "nat \<Rightarrow> mem_dst_param option pgp_dest \<Rightarrow> bytes \<Rightarrow> bool" where
  "mem_recv c d a \<longleftrightarrow>
     recv_within (mem_dst_write (\<lambda>_. True)) mem_out mem_dst_ok mem_cap c d a \<and> dst_no_cache d"

interpretation mem_receiver: receiver "mem_recv c" for c
  by unfold_locales (auto simp: mem_recv_def intro: mem_bounded.within.recv_write)

lemma mem_recv_memory:
  "mem_recv c d a \<Longrightarrow> length a \<le> c \<Longrightarrow> dst_werr d = RNP_SUCCESS \<and> mem_dest_get_memory d = Some a"
  using mem_dest_get_memory_eq [of "\<lambda>_. True" d] by (auto simp: mem_recv_def recv_within_def dst_inv_def)

lemma init_mem_dest_recv: "mem_recv c (fst (init_mem_dest (\<lambda>_. True) c)) []"
  by (rule init_mem_dest_inv [of "\<lambda>_. True" c]) (auto simp: mem_recv_def recv_within_def)

end
