(* ===== verification/Partial_Packets.thy ===== *)
theory Partial_Packets
  imports Packet_Roundtrip Stream_Receiver
begin

text \<open>
  Packets of partial length.  The reading side is the partial length source of
  \<^verbatim>\<open>src/src/librepgp/stream-parse.c\<close>, together with the predicates that look at the first
  bytes of a source; the writing side is the partial length destination and the streamed
  packets of \<^verbatim>\<open>src/src/librepgp/stream-write.c\<close>.
\<close>

section \<open>Looking at a source\<close>

abbreviation (input) PGP_PTAG_OLD_LEN_INDETERMINATE :: byte where "PGP_PTAG_OLD_LEN_INDETERMINATE \<equiv> 0x03"

definition get_part_len :: "byte \<Rightarrow> nat" where
  "get_part_len blen = push_bit (unat (blen AND 0x1f)) 1"

definition stream_intedeterminate_pkt_len :: "'q pgp_source \<Rightarrow> 'q pgp_source \<times> bool" where
  "stream_intedeterminate_pkt_len src =
     (case src_peek src 1 of
        (src', Some [ptag]) \<Rightarrow>
          (src', ptag AND PGP_PTAG_NEW_FORMAT = 0 \<and>
                 ptag AND PGP_PTAG_OF_LENGTH_TYPE_MASK = PGP_PTAG_OLD_LEN_INDETERMINATE)
      | (src', _) \<Rightarrow> (src', False))"

definition stream_partial_pkt_len :: "'q pgp_source \<Rightarrow> 'q pgp_source \<times> bool" where
  "stream_partial_pkt_len src =
     (case src_peek src 2 of
        (src', None) \<Rightarrow> (src', False)
      | (src', Some hdr) \<Rightarrow>
          (src', if length hdr < 2 then False
                 else hdr ! 0 AND PGP_PTAG_NEW_FORMAT \<noteq> 0 \<and> 224 \<le> unat (hdr ! 1) \<and> unat (hdr ! 1) < 255))"

definition is_pgp_source :: "'q pgp_source \<Rightarrow> 'q pgp_source \<times> bool" where
  "is_pgp_source src =
     (case src_peek src 1 of
        (src', None) \<Rightarrow> (src', False)
      | (src', Some buf) \<Rightarrow>
          (src', if length buf < 1 then False
                 else get_packet_type (buf ! 0) \<in>
                   {PGP_PTAG_CT_PK_SESSION_KEY, PGP_PTAG_CT_SK_SESSION_KEY, PGP_PTAG_CT_1_PASS_SIG,
                    PGP_PTAG_CT_SIGNATURE, PGP_PTAG_CT_SE_DATA, PGP_PTAG_CT_SE_IP_DATA,
                    PGP_PTAG_CT_COMPRESSED, PGP_PTAG_CT_LITDATA}))"

section \<open>The partial length source\<close>

text \<open>\<^verbatim>\<open>pgp_source_partial_param_t\<close>; it owns the source that it reads from.\<close>

record 'q partial_src_param =
  pp_readsrc :: "'q pgp_source"
  pp_type :: int
  pp_psize :: nat
  pp_pleft :: nat
  pp_last :: bool

text \<open>Reading the header of the next part; the flag is false when the header is not complete.\<close>

definition partial_next_part :: "'q partial_src_param \<Rightarrow> 'q partial_src_param \<times> bool" where
  "partial_next_part param =
     (case src_get (pp_readsrc param) 1 of
        (s1, None) \<Rightarrow> (param\<lparr>pp_readsrc := s1\<rparr>, False)
      | (s1, Some hdr) \<Rightarrow>
          let b = unat (hdr ! 0);
              part = (\<lambda>s n l. (param\<lparr>pp_readsrc := s, pp_psize := n, pp_pleft := n, pp_last := l\<rparr>, True))
          in if 224 \<le> b \<and> b < 255 then part s1 (get_part_len (hdr ! 0)) (pp_last param)
             else if b < 192 then part s1 b True
             else if b < 224 then
               (case src_get s1 1 of
                  (s2, None) \<Rightarrow> (param\<lparr>pp_readsrc := s2\<rparr>, False)
                | (s2, Some h) \<Rightarrow> part s2 (push_bit 8 (b - 192) + unat (h ! 0) + 192) True)
             else
               (case src_get s1 4 of
                  (s2, None) \<Rightarrow> (param\<lparr>pp_readsrc := s2\<rparr>, False)
                | (s2, Some h) \<Rightarrow>
                    part s2 (push_bit 24 (unat (h ! 0)) OR push_bit 16 (unat (h ! 1)) OR
                             push_bit 8 (unat (h ! 2)) OR unat (h ! 3)) True))"

function partial_read_loop ::
    "'q partial_src_param \<Rightarrow> nat \<Rightarrow> bytes \<Rightarrow> 'q partial_src_param \<times> bytes option" where
  "partial_read_loop param len buf =
     (if len = 0 then (param, Some buf)
      else if pp_pleft param = 0 \<and> pp_last param then (param, Some buf)
      else
        (case (if pp_pleft param = 0 then partial_next_part param else (param, True)) of
           (p1, False) \<Rightarrow> (p1, None)
         | (p1, True) \<Rightarrow>
             if pp_pleft p1 = 0 then (p1, Some buf)
             else
               (case src_read (pp_readsrc p1) (if len < pp_pleft p1 then len else pp_pleft p1) of
                  (s, None) \<Rightarrow> (p1\<lparr>pp_readsrc := s\<rparr>, None)
                | (s, Some bs) \<Rightarrow>
                    if bs = [] then (p1\<lparr>pp_readsrc := s\<rparr>, Some buf)
                    else partial_read_loop (p1\<lparr>pp_readsrc := s, pp_pleft := pp_pleft p1 - length bs\<rparr>)
                           (len - length bs) (buf @ bs))))"
  by pat_completeness auto
termination
  by (relation "measure (\<lambda>(param, len, buf). len)") auto

declare partial_read_loop.simps [simp del]

text \<open>
  \<^verbatim>\<open>partial_pkt_src_read\<close>.  Its test of \<^verbatim>\<open>src->eof\<close> never fires: \<^const>\<open>src_read\<close> and
  \<^const>\<open>src_peek\<close> do not call the callback of a source at its end.
\<close>

definition partial_pkt_src_read ::
    "'q partial_src_param option \<Rightarrow> nat \<Rightarrow> 'q partial_src_param option \<times> bytes option" where
  "partial_pkt_src_read param len =
     (case param of
        None \<Rightarrow> (None, None)
      | Some p \<Rightarrow> (case partial_read_loop p len [] of (p', r) \<Rightarrow> (Some p', r)))"

definition partial_pkt_src_close :: "'q partial_src_param option \<Rightarrow> 'q partial_src_param option" where
  "partial_pkt_src_close param = None"

text \<open>
  \<^verbatim>\<open>init_partial_pkt_src\<close>: on failure the source to read from, perhaps with more bytes in its
  cache, and the error.
\<close>

definition init_partial_pkt_src ::
    "alloc \<Rightarrow> 'q pgp_source \<Rightarrow> ('q pgp_source \<times> rnp_result) + 'q partial_src_param option pgp_source" where
  "init_partial_pkt_src al readsrc =
     (case stream_partial_pkt_len readsrc of
        (r1, False) \<Rightarrow> Inl (r1, RNP_ERROR_BAD_FORMAT)
      | (r1, True) \<Rightarrow>
          (case init_src_common al 40 None
                 (Some \<lparr>pp_readsrc = r1, pp_type = 0, pp_psize = 0, pp_pleft = 0, pp_last = False\<rparr>) of
             (src, False) \<Rightarrow> Inl (r1, RNP_ERROR_OUT_OF_MEMORY)
           | (src, True) \<Rightarrow>
               (case src_read r1 2 of
                  (r2, r) \<Rightarrow>
                    let buf = (case r of Some b \<Rightarrow> b | None \<Rightarrow> []) in
                    Inr (src\<lparr>src_param := Some \<lparr>pp_readsrc = r2, pp_type = get_packet_type (buf ! 0),
                                              pp_psize = get_part_len (buf ! 1),
                                              pp_pleft = get_part_len (buf ! 1), pp_last = False\<rparr>,
                             src_rdf := partial_pkt_src_read,
                             src_closef := Some partial_pkt_src_close,
                             src_type := PGP_STREAM_PARLEN_PACKET\<rparr>))))"

section \<open>The partial length destination\<close>

definition PARTIAL_PKT_SIZE_BITS :: nat where "PARTIAL_PKT_SIZE_BITS = 13"

definition PARTIAL_PKT_BLOCK_SIZE :: nat where "PARTIAL_PKT_BLOCK_SIZE = push_bit PARTIAL_PKT_SIZE_BITS 1"

text \<open>
  \<^verbatim>\<open>pgp_dest_partial_param_t\<close>; \<open>pd_part\<close> is the first \<^verbatim>\<open>len\<close> bytes of the block.
\<close>

record 'q partial_dst_param =
  pd_writedst :: "'q pgp_dest"
  pd_part :: bytes
  pd_parthdr :: byte
  pd_partlen :: nat

text \<open>Writing the full parts that are in the buffer; what is left is shorter than a part.\<close>

function partial_write_parts :: "byte \<Rightarrow> nat \<Rightarrow> 'q pgp_dest \<Rightarrow> bytes \<Rightarrow> 'q pgp_dest \<times> bytes" where
  "partial_write_parts hdr partlen dst buf =
     (if 0 < partlen \<and> partlen \<le> length buf
      then partial_write_parts hdr partlen (dst_write (dst_write dst [hdr]) (take partlen buf)) (drop partlen buf)
      else (dst, buf))"
  by pat_completeness auto
termination
  by (relation "measure (\<lambda>(hdr, partlen, dst, buf). length buf)") auto

declare partial_write_parts.simps [simp del]

definition partial_dst_write ::
    "'q partial_dst_param option \<Rightarrow> nat \<Rightarrow> bytes \<Rightarrow> 'q partial_dst_param option \<times> rnp_result" where
  "partial_dst_write param writeb buf =
     (case param of
        None \<Rightarrow> (None, RNP_ERROR_BAD_PARAMETERS)
      | Some p \<Rightarrow>
          if pd_partlen p - length (pd_part p) < length buf then
            let wrlen = pd_partlen p - length (pd_part p);
                d = dst_write (dst_write (dst_write (pd_writedst p) [pd_parthdr p]) (pd_part p)) (take wrlen buf)
            in (case partial_write_parts (pd_parthdr p) (pd_partlen p) d (drop wrlen buf) of
                  (d', rest) \<Rightarrow> (Some (p\<lparr>pd_writedst := d', pd_part := rest\<rparr>), RNP_SUCCESS))
          else (Some (p\<lparr>pd_part := pd_part p @ buf\<rparr>), RNP_SUCCESS))"

definition partial_dst_finish ::
    "'q partial_dst_param option \<Rightarrow> 'q partial_dst_param option \<times> rnp_result" where
  "partial_dst_finish param =
     (case param of
        None \<Rightarrow> (None, RNP_ERROR_BAD_PARAMETERS)
      | Some p \<Rightarrow>
          let d = dst_write (dst_write (pd_writedst p) (write_packet_len (length (pd_part p)))) (pd_part p)
          in (Some (p\<lparr>pd_writedst := d\<rparr>), dst_werr d))"

definition partial_dst_close :: "'q partial_dst_param option \<Rightarrow> bool \<Rightarrow> 'q partial_dst_param option" where
  "partial_dst_close param discard = None"

definition init_partial_pkt_dst ::
    "alloc \<Rightarrow> 'q pgp_dest \<Rightarrow> 'q partial_dst_param option pgp_dest \<times> rnp_result" where
  "init_partial_pkt_dst al writedst =
     (case init_dst_common al 8224 None None of
        (dst, ok) \<Rightarrow>
          if \<not> ok then (dst, RNP_ERROR_OUT_OF_MEMORY)
          else (dst\<lparr>dst_param := Some \<lparr>pd_writedst = writedst, pd_part = [],
                                     pd_parthdr = 0xE0 OR to_byte PARTIAL_PKT_SIZE_BITS,
                                     pd_partlen = PARTIAL_PKT_BLOCK_SIZE\<rparr>,
                    dst_wrf := Some partial_dst_write, dst_finishf := Some partial_dst_finish,
                    dst_closef := Some partial_dst_close, dst_type := PGP_STREAM_PARLEN_PACKET\<rparr>,
                RNP_SUCCESS))"

section \<open>Streamed packets\<close>

text \<open>
  Where a streamed packet is written to: a partial length destination on top of the original
  one, or, for a packet of indeterminate length, the original destination itself.
\<close>

datatype 'q streamed_dst =
    Partial_dst "'q partial_dst_param option pgp_dest"
  | Direct_dst "'q pgp_dest"

record pgp_dest_packet_param =
  pkt_partial :: bool
  pkt_indeterminate :: bool
  pkt_tag :: nat

definition init_streamed_packet ::
    "alloc \<Rightarrow> pgp_dest_packet_param \<Rightarrow> 'q pgp_dest \<Rightarrow> 'q pgp_dest + 'q streamed_dst" where
  "init_streamed_packet al param dst =
     (if pkt_partial param then
        let dst' = dst_write dst [to_byte (pkt_tag param) OR PGP_PTAG_ALWAYS_SET OR PGP_PTAG_NEW_FORMAT] in
        if \<not> al 32832 then Inl dst'
        else
          (case init_partial_pkt_dst al dst' of
             (pd, ret) \<Rightarrow> if ret \<noteq> RNP_SUCCESS then Inl dst' else Inr (Partial_dst pd))
      else if pkt_indeterminate param then
        let bt = to_byte (push_bit 2 (pkt_tag param AND 0xf)) OR PGP_PTAG_OLD_LEN_INDETERMINATE in
        Inr (Direct_dst (dst_write dst [bt]))
      else Inl dst)"

definition finish_streamed_packet :: "'q streamed_dst \<Rightarrow> 'q streamed_dst \<times> rnp_result" where
  "finish_streamed_packet sd =
     (case sd of
        Partial_dst pd \<Rightarrow> (case dst_finish pd of (pd', res) \<Rightarrow> (Partial_dst pd', res))
      | Direct_dst d \<Rightarrow> (Direct_dst d, RNP_SUCCESS))"

section \<open>What a partial length source delivers\<close>

text \<open>The header of a part on byte lists: its length, whether it is the last one, and what follows.\<close>

fun part_hdr :: "bytes \<Rightarrow> (nat \<times> bool \<times> bytes) option" where
  "part_hdr [] = None"
| "part_hdr (h # r) =
     (if 224 \<le> unat h \<and> unat h < 255 then Some (get_part_len h, False, r)
      else if unat h < 192 then Some (unat h, True, r)
      else if unat h < 224 then
        (case r of c # r' \<Rightarrow> Some ((unat h - 192) * 256 + unat c + 192, True, r') | [] \<Rightarrow> None)
      else
        (case r of
           c # d # e # f # r' \<Rightarrow>
             Some (unat c * 2 ^ 24 + unat d * 2 ^ 16 + unat e * 2 ^ 8 + unat f, True, r')
         | _ \<Rightarrow> None))"

lemma part_hdr_shorter: "part_hdr a = Some (n, l, r) \<Longrightarrow> length r < length a"
  by (cases a) (auto split: if_splits list.splits)

text \<open>
  The data that is left, when \<open>pleft\<close> bytes of the current part have not been read and the
  underlying source still has the bytes \<open>a\<close>.
\<close>

function partial_data :: "nat \<Rightarrow> bool \<Rightarrow> bytes \<Rightarrow> bytes" where
  "partial_data pleft fin a =
     take pleft a @
     (if fin then []
      else case part_hdr (drop pleft a) of None \<Rightarrow> [] | Some (n, l, r) \<Rightarrow> partial_data n l r)"
  by pat_completeness auto
termination
  by (relation "measure (\<lambda>(pleft, fin, a). length a)") (auto dest!: part_hdr_shorter)

declare partial_data.simps [simp del]

text \<open>
  Reading does not fail: after each part that is there in full, a header follows unless it was
  the last part.  A part that is cut short ends the data.
\<close>

function partial_readable :: "nat \<Rightarrow> bool \<Rightarrow> bytes \<Rightarrow> bool" where
  "partial_readable pleft fin a \<longleftrightarrow>
     length a < pleft \<or> fin \<or>
     (case part_hdr (drop pleft a) of None \<Rightarrow> False | Some (n, l, r) \<Rightarrow> partial_readable n l r)"
  by pat_completeness auto
termination
  by (relation "measure (\<lambda>(pleft, fin, a). length a)") (auto dest!: part_hdr_shorter)

declare partial_readable.simps [simp del]

lemma partial_data_take:
  assumes "k \<le> pleft" "k \<le> length a"
  shows "partial_data pleft fin a = take k a @ partial_data (pleft - k) fin (drop k a)"
proof -
  have "take pleft a = take k a @ take (pleft - k) (drop k a)" using assms(1) by (metis le_add_diff_inverse take_add)
  moreover have "drop (pleft - k) (drop k a) = drop pleft a" using assms(1) by simp
  ultimately show ?thesis by (simp only: partial_data.simps [of pleft] partial_data.simps [of "pleft - k"] append_assoc)
qed

lemma partial_readable_take:
  "k \<le> pleft \<Longrightarrow> k \<le> length a \<Longrightarrow>
   partial_readable pleft fin a \<longleftrightarrow> partial_readable (pleft - k) fin (drop k a)"
  by (auto simp: partial_readable.simps [of pleft] partial_readable.simps [of "pleft - k"] drop_drop)

lemma partial_data_next:
  "part_hdr a = Some (n, l, r) \<Longrightarrow> partial_data 0 False a = partial_data n l r"
  by (simp add: partial_data.simps [of 0])

lemma partial_readable_next:
  "partial_readable 0 False a \<Longrightarrow> \<exists>n l r. part_hdr a = Some (n, l, r) \<and> partial_readable n l r"
  by (auto simp: partial_readable.simps [of 0] split: option.splits)

lemma part_hdr_bound: "part_hdr a = Some (n, l, r) \<Longrightarrow> n < 2 ^ 32"
proof (cases a)
  case (Cons h t)
  have h: "unat (h AND 0x1f) \<le> 31" using word_and_le1 [of h "0x1f"] by (simp add: word_le_nat_alt)
  then have "(2::nat) ^ unat (h AND 0x1f) \<le> 2 ^ 31" by (rule power_increasing) simp
  then have g: "get_part_len h < 2 ^ 32" by (simp add: get_part_len_def push_bit_eq_mult)
  have b: "unat x * 16777216 + unat y * 65536 + unat z * 256 + unat w < 4294967296" for x y z w :: byte
    using unat_byte_less [of x] unat_byte_less [of y] unat_byte_less [of z] unat_byte_less [of w] by linarith
  have c: "unat h < 224 \<Longrightarrow> (unat h - 192) * 256 + unat x + 192 < 4294967296" for x :: byte
    using unat_byte_less [of x] by linarith
  assume "part_hdr a = Some (n, l, r)"
  with g b c unat_byte_less [of h] show ?thesis
    by (auto simp: Cons split: if_splits list.splits)
qed simp

definition partial_rest :: "('q \<Rightarrow> bytes) \<Rightarrow> 'q partial_src_param option \<Rightarrow> bytes" where
  "partial_rest rest param =
     (case param of None \<Rightarrow> []
      | Some p \<Rightarrow> partial_data (pp_pleft p) (pp_last p) (src_avail rest (pp_readsrc p)))"

definition partial_ok ::
    "('q \<Rightarrow> nat \<Rightarrow> 'q \<times> bytes option) \<Rightarrow> ('q \<Rightarrow> bytes) \<Rightarrow> ('q \<Rightarrow> bool) \<Rightarrow>
     'q partial_src_param option \<Rightarrow> bool" where
  "partial_ok rd rest ok param \<longleftrightarrow>
     (\<exists>p. param = Some p \<and> src_inv rd rest ok (pp_readsrc p) \<and> pp_pleft p < 2 ^ 32)"

definition partial_whole :: "('q \<Rightarrow> bytes) \<Rightarrow> 'q partial_src_param option \<Rightarrow> bool" where
  "partial_whole rest param \<longleftrightarrow>
     (\<exists>p. param = Some p \<and> partial_readable (pp_pleft p) (pp_last p) (src_avail rest (pp_readsrc p)))"

text \<open>A call of the loop: what was delivered is a prefix of what is left, and a failure means that
  the stream of parts is not complete.\<close>

definition loop_step_ok ::
    "('q \<Rightarrow> nat \<Rightarrow> 'q \<times> bytes option) \<Rightarrow> ('q \<Rightarrow> bytes) \<Rightarrow> ('q \<Rightarrow> bool) \<Rightarrow>
     'q partial_src_param \<Rightarrow> nat \<Rightarrow> bytes \<Rightarrow> 'q partial_src_param \<times> bytes option \<Rightarrow> bool" where
  "loop_step_ok rd rest ok p len buf res \<longleftrightarrow>
     partial_ok rd rest ok (Some (fst res)) \<and>
     (case snd res of
        None \<Rightarrow> \<not> partial_whole rest (Some p)
      | Some out \<Rightarrow>
          (\<exists>bs. out = buf @ bs \<and> partial_rest rest (Some p) = bs @ partial_rest rest (Some (fst res)) \<and>
                length bs \<le> len \<and> (bs = [] \<longrightarrow> 0 < len \<longrightarrow> partial_rest rest (Some p) = []) \<and>
                (partial_whole rest (Some p) \<longrightarrow> partial_whole rest (Some (fst res)))))"

lemma loop_step_header:
  assumes "loop_step_ok rd rest ok p1 len buf res" "partial_rest rest (Some p) = partial_rest rest (Some p1)"
    and "partial_whole rest (Some p) \<Longrightarrow> partial_whole rest (Some p1)"
  shows "loop_step_ok rd rest ok p len buf res"
  using assms by (auto simp: loop_step_ok_def split: option.splits)

lemma loop_step_read:
  assumes "loop_step_ok rd rest ok p2 (len - length bs) (buf @ bs) res" "bs \<noteq> []" "length bs \<le> len"
    and "partial_rest rest (Some p) = bs @ partial_rest rest (Some p2)"
    and "partial_whole rest (Some p) \<Longrightarrow> partial_whole rest (Some p2)"
  shows "loop_step_ok rd rest ok p len buf res"
proof (cases "snd res")
  case None
  with assms(1,5) show ?thesis by (auto simp: loop_step_ok_def)
next
  case (Some out)
  with assms(1) obtain bs' where bs': "out = buf @ bs @ bs'"
    "partial_rest rest (Some p2) = bs' @ partial_rest rest (Some (fst res))" "length bs' \<le> len - length bs"
    "partial_whole rest (Some p2) \<longrightarrow> partial_whole rest (Some (fst res))"
    "partial_ok rd rest ok (Some (fst res))"
    by (auto simp: loop_step_ok_def)
  with Some assms(2-5) show ?thesis
    unfolding loop_step_ok_def by (auto simp del: append_assoc simp: append_assoc [symmetric]
        intro!: exI [of _ "bs @ bs'"])
qed

context reliable_source
begin

lemma next_part_holds:
  assumes "holds (pp_readsrc p) a" "\<not> pp_last p"
  shows "\<exists>s. partial_next_part p =
      (case part_hdr a of
         None \<Rightarrow> (p\<lparr>pp_readsrc := s\<rparr>, False)
       | Some (n, l, r) \<Rightarrow> (p\<lparr>pp_readsrc := s, pp_psize := n, pp_pleft := n, pp_last := l\<rparr>, True)) \<and>
      (\<forall>n l r. part_hdr a = Some (n, l, r) \<longrightarrow> holds s r) \<and> src_inv rd rest ok s"
proof -
  obtain s1 where s1: "src_get (pp_readsrc p) 1 = (s1, if 1 \<le> length a then Some (take 1 a) else None)"
    "holds s1 (drop 1 a)" using get_holds [OF assms(1), of 1] by auto
  show ?thesis
  proof (cases a)
    case Nil
    with s1 show ?thesis by (auto simp: partial_next_part_def src_holds_def)
  next
    case (Cons h r)
    have g1: "src_get (pp_readsrc p) 1 = (s1, Some [h])" and h1: "holds s1 r" using s1 Cons by auto
    obtain s2 where s2: "src_get s1 1 = (s2, if 1 \<le> length r then Some (take 1 r) else None)"
      "holds s2 (drop 1 r)" using get_holds [OF h1, of 1] by auto
    obtain s4 where s4: "src_get s1 4 = (s4, if 4 \<le> length r then Some (take 4 r) else None)"
      "holds s4 (drop 4 r)" using get_holds [OF h1, of 4] by auto
    consider "224 \<le> unat h" "unat h < 255" | "unat h < 192" | "192 \<le> unat h" "unat h < 224" | "255 \<le> unat h"
      by linarith
    then show ?thesis
    proof cases
      case 1
      with g1 h1 assms(2) show ?thesis by (auto simp: partial_next_part_def Cons src_holds_def Let_def)
    next
      case 2
      with g1 h1 assms(2) show ?thesis by (auto simp: partial_next_part_def Cons src_holds_def Let_def)
    next
      case 3
      with g1 s2 assms(2) show ?thesis
        by (cases r) (auto simp: partial_next_part_def Cons src_holds_def Let_def push_bit_eq_mult)
    next
      case 4
      show ?thesis
      proof (cases "4 \<le> length r")
        case True
        then obtain c d e f r' where r: "r = c # d # e # f # r'"
          by (auto simp: numeral_eq_Suc Suc_le_length_iff)
        have "push_bit 24 (unat c) OR push_bit 16 (unat d) OR push_bit 8 (unat e) OR unat f =
            unat c * 2 ^ 24 + unat d * 2 ^ 16 + unat e * 2 ^ 8 + unat f"
          using or_push_bit_nat3 [of "unat e" "unat f" "unat d" "unat c"] by (simp add: push_bit_eq_mult)
        with g1 s4 assms(2) 4 True show ?thesis
          by (auto simp: partial_next_part_def Cons r src_holds_def Let_def)
      next
        case False
        then have "part_hdr a = None" using 4 by (auto simp: Cons split: list.split)
        with g1 s4 assms(2) 4 False show ?thesis
          by (auto simp: partial_next_part_def Cons src_holds_def Let_def)
      qed
    qed
  qed
qed

lemma partial_read_holds:
  assumes "holds (pp_readsrc p) a" "0 < pp_pleft p" "pp_pleft p < 2 ^ 32" "0 < len"
  obtains s where "src_read (pp_readsrc p) (if len < pp_pleft p then len else pp_pleft p) =
      (s, Some (take (min len (pp_pleft p)) a))" "holds s (drop (min len (pp_pleft p)) a)"
proof -
  define n where "n = (if len < pp_pleft p then len else pp_pleft p)"
  have inv: "src_inv rd rest ok (pp_readsrc p)" "src_avail rest (pp_readsrc p) = a"
    using assms(1) by (auto simp: src_holds_def)
  have "src_readb (pp_readsrc p) + n < 2 ^ 64"
    using src_holds_readb [OF assms(1)] assms(3) by (simp add: n_def)
  with inv that [unfolded n_def [symmetric]] show thesis
    by (elim src_read_eq [of _ n, rotated 1]) (auto simp: src_holds_def n_def min_def)
qed

lemma partial_loop_part:
  assumes ih: "\<And>n p' b'. n < len \<Longrightarrow> partial_ok rd rest ok (Some p') \<Longrightarrow>
      loop_step_ok rd rest ok p' n b' (partial_read_loop p' n b')"
    and p: "holds (pp_readsrc p) a" "0 < pp_pleft p" "pp_pleft p < 2 ^ 32" "0 < len"
  shows "loop_step_ok rd rest ok p len buf (partial_read_loop p len buf)"
proof -
  define k where "k = min len (pp_pleft p)"
  obtain s where s: "src_read (pp_readsrc p) (if len < pp_pleft p then len else pp_pleft p) = (s, Some (take k a))"
    "holds s (drop k a)" using partial_read_holds [OF p] by (auto simp: k_def)
  have av: "src_avail rest (pp_readsrc p) = a" "src_avail rest s = drop k a" "src_inv rd rest ok s"
    using p(1) s(2) by (auto simp: src_holds_def)
  have k: "0 < k" "k \<le> len" "k \<le> pp_pleft p" using p by (auto simp: k_def)
  show ?thesis
  proof (cases "a = []")
    case True
    then have "partial_read_loop p len buf = (p\<lparr>pp_readsrc := s\<rparr>, Some buf)"
      using p(2,4) s(1) by (simp add: partial_read_loop.simps [of p])
    with True av p(2,3) show ?thesis
      by (simp add: loop_step_ok_def partial_ok_def partial_rest_def partial_whole_def partial_data.simps
          partial_readable.simps [of "pp_pleft p"])
  next
    case False
    define m where "m = min k (length a)"
    have m: "0 < m" "m \<le> len" "m \<le> pp_pleft p" "m \<le> length a" using False k by (auto simp: m_def)
    have bs: "take k a = take m a" "drop k a = drop m a" by (auto simp: m_def min_def)
    then have ne: "take m a \<noteq> []" "length (take m a) = m" using m by auto
    define p2 where "p2 = p\<lparr>pp_readsrc := s, pp_pleft := pp_pleft p - m\<rparr>"
    have step: "partial_read_loop p len buf = partial_read_loop p2 (len - length (take m a)) (buf @ take m a)"
      using p(2,4) s(1) ne by (simp add: partial_read_loop.simps [of p] p2_def bs)
    have ok2: "partial_ok rd rest ok (Some p2)" using av(3) p(3) by (simp add: partial_ok_def p2_def)
    have "partial_rest rest (Some p) = take m a @ partial_rest rest (Some p2)"
      using partial_data_take [OF m(3,4), of "pp_last p"] by (simp add: partial_rest_def p2_def av bs)
    moreover have "partial_whole rest (Some p) \<Longrightarrow> partial_whole rest (Some p2)"
      using partial_readable_take [OF m(3,4), of "pp_last p"] by (simp add: partial_whole_def p2_def av bs)
    moreover have "len - length (take m a) < len" using ne m by simp
    moreover have "length (take m a) \<le> len" using ne(2) m(2) by simp
    ultimately show ?thesis
      unfolding step by (intro loop_step_read [OF ih [OF _ ok2] ne(1)])
  qed
qed

lemma partial_loop_spec:
  "partial_ok rd rest ok (Some p) \<Longrightarrow> loop_step_ok rd rest ok p len buf (partial_read_loop p len buf)"
proof (induction len arbitrary: p buf rule: less_induct)
  case (less len)
  obtain a where a: "holds (pp_readsrc p) a" "pp_pleft p < 2 ^ 32"
    using less.prems by (auto simp: partial_ok_def src_holds_def)
  have av: "src_avail rest (pp_readsrc p) = a" using a(1) by (simp add: src_holds_def)
  consider "len = 0 \<or> pp_pleft p = 0 \<and> pp_last p" | "0 < len" "0 < pp_pleft p"
    | "0 < len" "pp_pleft p = 0" "\<not> pp_last p" by auto
  then show ?case
  proof cases
    case 1
    with less.prems show ?thesis
      by (auto simp: partial_read_loop.simps [of p] loop_step_ok_def partial_rest_def partial_data.simps [of 0])
  next
    case 2
    show ?thesis by (rule partial_loop_part [OF less.IH a(1) 2(2) a(2) 2(1)])
  next
    case 3
    obtain s where s: "partial_next_part p =
      (case part_hdr a of
         None \<Rightarrow> (p\<lparr>pp_readsrc := s\<rparr>, False)
       | Some (n, l, r) \<Rightarrow> (p\<lparr>pp_readsrc := s, pp_psize := n, pp_pleft := n, pp_last := l\<rparr>, True))"
      "\<forall>n l r. part_hdr a = Some (n, l, r) \<longrightarrow> holds s r" "src_inv rd rest ok s"
      using next_part_holds [OF a(1) 3(3)] by blast
    show ?thesis
    proof (cases "part_hdr a")
      case None
      with 3 s(1,3) have "partial_read_loop p len buf = (p\<lparr>pp_readsrc := s\<rparr>, None)"
        by (simp add: partial_read_loop.simps [of p])
      with None 3 s(3) show ?thesis
        by (simp add: loop_step_ok_def partial_ok_def partial_whole_def av partial_readable.simps [of 0])
    next
      case (Some x)
      then obtain n l r where hdr: "part_hdr a = Some (n, l, r)" by (cases x) auto
      define p1 where "p1 = p\<lparr>pp_readsrc := s, pp_psize := n, pp_pleft := n, pp_last := l\<rparr>"
      have h1: "holds (pp_readsrc p1) r" "pp_pleft p1 < 2 ^ 32"
        using s(2) hdr part_hdr_bound [OF hdr] by (auto simp: p1_def)
      have rel: "partial_rest rest (Some p) = partial_rest rest (Some p1)"
        "partial_whole rest (Some p) \<Longrightarrow> partial_whole rest (Some p1)"
        using h1(1) 3 partial_data_next [OF hdr] partial_readable_next [of a] hdr
        by (auto simp: partial_rest_def partial_whole_def av p1_def src_holds_def)
      have ok1: "partial_ok rd rest ok (Some p1)" using h1 by (simp add: partial_ok_def src_holds_def)
      show ?thesis
      proof (cases "n = 0")
        case True
        then have "l" using hdr by (cases a) (auto simp: get_part_len_def split: if_splits list.splits)
        have "partial_read_loop p len buf = (p1, Some buf)"
          using 3 s(1) hdr True by (simp add: partial_read_loop.simps [of p] p1_def)
        with ok1 rel True \<open>l\<close> show ?thesis
          by (auto simp: loop_step_ok_def partial_rest_def p1_def partial_data.simps [of 0])
      next
        case False
        then have nx: "partial_next_part p = (p1, True)" and l1: "0 < pp_pleft p1"
          using s(1) hdr by (simp_all add: p1_def)
        have "partial_read_loop p len buf = partial_read_loop p1 len buf"
          using 3 nx l1 by (simp add: partial_read_loop.simps [of p] partial_read_loop.simps [of p1])
        moreover have "loop_step_ok rd rest ok p1 len buf (partial_read_loop p1 len buf)"
          by (rule partial_loop_part [OF less.IH h1(1) l1 h1(2) 3(1)])
        ultimately show ?thesis using rel by (auto intro: loop_step_header)
      qed
    qed
  qed
qed

end

lemma length_partial_data: "length (partial_data n fin a) \<le> length a"
proof (induction n fin a rule: partial_data.induct)
  case (1 pleft fin a)
  then show ?case
    by (simp add: partial_data.simps [of pleft] split: option.split)
      (fastforce dest: part_hdr_shorter)
qed

context reliable_source
begin

lemma partial_call:
  assumes "partial_ok rd rest ok p" "partial_pkt_src_read p n = (p', r)"
  shows "partial_ok rd rest ok p'"
    and "r = Some bs \<Longrightarrow> partial_rest rest p = bs @ partial_rest rest p' \<and> length bs \<le> n"
    and "r = Some [] \<Longrightarrow> 0 < n \<Longrightarrow> partial_rest rest p = []"
    and "partial_whole rest p \<Longrightarrow> r \<noteq> None \<and> partial_whole rest p'"
proof -
  obtain q where q: "p = Some q" using assms(1) by (auto simp: partial_ok_def)
  obtain q' where q': "partial_read_loop q n [] = (q', r)" "p' = Some q'"
    using assms(2) by (auto simp: q partial_pkt_src_read_def split: prod.splits)
  have step: "loop_step_ok rd rest ok q n [] (q', r)"
    using partial_loop_spec [of q n "[]"] assms(1) q q'(1) by simp
  show "partial_ok rd rest ok p'" "r = Some bs \<Longrightarrow> partial_rest rest p = bs @ partial_rest rest p' \<and> length bs \<le> n"
    "r = Some [] \<Longrightarrow> 0 < n \<Longrightarrow> partial_rest rest p = []"
    "partial_whole rest p \<Longrightarrow> r \<noteq> None \<and> partial_whole rest p'"
    using step by (auto simp: loop_step_ok_def q q'(2) split: option.splits)
qed

lemma partial_byte_source: "byte_source partial_pkt_src_read (partial_rest rest) (partial_ok rd rest ok)"
  by unfold_locales (auto dest: partial_call)

lemma partial_reliable_source:
  "reliable_source partial_pkt_src_read (partial_rest rest)
     (\<lambda>p. partial_ok rd rest ok p \<and> partial_whole rest p)"
proof unfold_locales
  fix p n p' r bs
  assume p: "partial_ok rd rest ok p \<and> partial_whole rest p"
  then have ok: "partial_ok rd rest ok p" and wh: "partial_whole rest p" by auto
  show "partial_pkt_src_read p n = (p', r) \<Longrightarrow> partial_ok rd rest ok p' \<and> partial_whole rest p'"
    using partial_call(1,4) [OF ok] wh by blast
  show "partial_pkt_src_read p n = (p', Some bs) \<Longrightarrow> partial_rest rest p = bs @ partial_rest rest p'"
    "partial_pkt_src_read p n = (p', Some bs) \<Longrightarrow> length bs \<le> n"
    using partial_call(2) [OF ok] by auto
  show "partial_pkt_src_read p n = (p', Some []) \<Longrightarrow> 0 < n \<Longrightarrow> partial_rest rest p = []"
    using partial_call(3) [OF ok] by auto
  show "snd (partial_pkt_src_read p n) \<noteq> None"
    using partial_call(4) [OF ok _ wh] by (cases "partial_pkt_src_read p n") auto
qed

lemma partial_pkt_len_holds:
  assumes "holds s a"
  obtains s' where "holds s' a" "src_readb s' = src_readb s" "stream_partial_pkt_len s =
    (s', case a of t # h # r \<Rightarrow> t AND PGP_PTAG_NEW_FORMAT \<noteq> 0 \<and> 224 \<le> unat h \<and> unat h < 255 | _ \<Rightarrow> False)"
proof -
  have inv: "src_inv rd rest ok s" "src_avail rest s = a" using assms by (auto simp: src_holds_def)
  have "src_readb s + 2 < 2 ^ 64" using src_holds_readb [OF assms] by simp
  then obtain s' where peek: "src_peek s 2 = (s', Some (take 2 a))" and s': "holds s' a" "src_readb s' = src_readb s"
    using src_peek_eq [OF inv(1), of 2] inv(2) by (auto simp: src_holds_def PGP_INPUT_CACHE_SIZE_def)
  have "stream_partial_pkt_len s =
    (s', case a of t # h # r \<Rightarrow> t AND PGP_PTAG_NEW_FORMAT \<noteq> 0 \<and> 224 \<le> unat h \<and> unat h < 255 | _ \<Rightarrow> False)"
    by (cases a; cases "tl a") (auto simp: stream_partial_pkt_len_def peek)
  with that s' show thesis by blast
qed

lemma init_partial_src_holds:
  assumes "holds s (t # h # a)" "t AND PGP_PTAG_NEW_FORMAT \<noteq> 0" "224 \<le> unat h" "unat h < 255"
  obtains src where "init_partial_pkt_src (\<lambda>_. True) s = Inr src"
    "src_holds partial_pkt_src_read (partial_rest rest) (partial_ok rd rest ok) src
       (partial_data (get_part_len h) False a)"
    "partial_readable (get_part_len h) False a \<Longrightarrow>
     src_holds partial_pkt_src_read (partial_rest rest) (\<lambda>p. partial_ok rd rest ok p \<and> partial_whole rest p) src
       (partial_data (get_part_len h) False a)"
proof -
  obtain s1 where s1: "stream_partial_pkt_len s = (s1, True)" "holds s1 (t # h # a)"
    by (rule partial_pkt_len_holds [OF assms(1)]) (use assms(2-4) in simp)
  obtain s2 where s2: "src_read s1 2 = (s2, Some [t, h])" "holds s2 a"
    by (rule get_exact [of s1 "[t, h]" a 2])
      (use s1(2) in \<open>auto simp: src_get_def split: prod.splits option.splits if_splits\<close>)
  define p where "p = \<lparr>pp_readsrc = s2, pp_type = get_packet_type t, pp_psize = get_part_len h,
    pp_pleft = get_part_len h, pp_last = False\<rparr>"
  define src where "src = \<lparr>src_rdf = partial_pkt_src_read, src_finishf = None, src_closef = Some partial_pkt_src_close,
     src_type = PGP_STREAM_PARLEN_PACKET, src_size = 0, src_readb = 0,
     src_cache = Some \<lparr>cbuf = [], cpos = 0, clen = 0, readahead = True\<rparr>,
     src_param = Some p, src_eofb = False, src_knownsize = False\<rparr>"
  have init: "init_partial_pkt_src (\<lambda>_. True) s = Inr src"
    by (simp add: init_partial_pkt_src_def s1(1) s2(1) init_src_common_def src_def p_def)
  have len: "get_part_len h < 2 ^ 32"
    using part_hdr_bound [of "[h]" "get_part_len h" False "[]"] assms(3,4) by simp
  have av: "src_inv rd rest ok s2" "src_avail rest s2 = a" using s2(2) by (auto simp: src_holds_def)
  have "length (partial_data (get_part_len h) False a) < 2 ^ 63"
    using length_partial_data [of "get_part_len h" False a] src_holds_readb [OF s2(2)] by simp
  then have h: "src_holds partial_pkt_src_read (partial_rest rest) k src (partial_data (get_part_len h) False a)"
    if "k (Some p)" for k
    using that av by (simp add: src_holds_def src_inv_def src_avail_def src_def cached_def cache_ok_def
        partial_rest_def p_def)
  have ok: "partial_ok rd rest ok (Some p)" using av len by (simp add: partial_ok_def p_def)
  show thesis
    by (rule that [OF init h h]) (use ok av in \<open>auto simp: partial_whole_def p_def\<close>)
qed

end

interpretation mem_partial: byte_source partial_pkt_src_read "partial_rest mem_rest" "partial_ok mem_src_read mem_rest mem_ok"
  by (rule mem_source.partial_byte_source)

interpretation mem_partial_whole: reliable_source partial_pkt_src_read "partial_rest mem_rest"
  "\<lambda>p. partial_ok mem_src_read mem_rest mem_ok p \<and> partial_whole mem_rest p"
  by (rule mem_source.partial_reliable_source)

section \<open>What a partial length destination writes\<close>

text \<open>
  The bytes of full parts, and the length and data of the last one.
\<close>

definition parts_enc :: "byte \<Rightarrow> bytes list \<Rightarrow> bytes" where
  "parts_enc hdr parts = concat (map (\<lambda>x. hdr # x) parts)"

text \<open>
  \<open>data\<close> has been accepted by a partial length callback whose destination had received the bytes
  \<open>base\<close>: it has received \<open>base\<close> and full parts since, and the parts together with the
  cached part are the data.
\<close>

definition partial_accepted ::
    "('q pgp_dest \<Rightarrow> bytes \<Rightarrow> bool) \<Rightarrow> bytes \<Rightarrow> 'q partial_dst_param option \<Rightarrow> bytes \<Rightarrow> bool" where
  "partial_accepted recv base param data \<longleftrightarrow>
     (\<exists>p parts. param = Some p \<and>
        pd_partlen p = PARTIAL_PKT_BLOCK_SIZE \<and> pd_parthdr p = 0xED \<and>
        length (pd_part p) \<le> PARTIAL_PKT_BLOCK_SIZE \<and>
        (\<forall>x \<in> set parts. length x = PARTIAL_PKT_BLOCK_SIZE) \<and> concat parts @ pd_part p = data \<and>
        recv (pd_writedst p) (base @ parts_enc 0xED parts))"

text \<open>The same for the destination around the callback, with its own cache.\<close>

definition partial_recv ::
    "('q pgp_dest \<Rightarrow> bytes \<Rightarrow> bool) \<Rightarrow> bytes \<Rightarrow> 'q partial_dst_param option pgp_dest \<Rightarrow> bytes \<Rightarrow> bool" where
  "partial_recv recv base = recv_accepted partial_dst_write (Some partial_dst_finish) (partial_accepted recv base)"

lemma block_size: "PARTIAL_PKT_BLOCK_SIZE = 8192"
  by (simp add: PARTIAL_PKT_BLOCK_SIZE_def PARTIAL_PKT_SIZE_BITS_def push_bit_eq_mult)

context receiver
begin

lemma write_parts_received:
  assumes "recv d a" "0 < n"
  shows "\<exists>parts d' r. partial_write_parts hdr n d buf = (d', r) \<and> length r < n \<and>
      (\<forall>x \<in> set parts. length x = n) \<and> concat parts @ r = buf \<and> recv d' (a @ parts_enc hdr parts)"
  using assms
proof (induction hdr n d buf arbitrary: a rule: partial_write_parts.induct)
  case (1 hdr n d buf)
  show ?case
  proof (cases "n \<le> length buf")
    case True
    define d1 where "d1 = dst_write (dst_write d [hdr]) (take n buf)"
    have d1: "recv d1 (a @ hdr # take n buf)"
      using recv_write [OF recv_write [OF "1.prems"(1), of "[hdr]"], of "take n buf"] by (simp add: d1_def)
    with "1.IH" [of "a @ hdr # take n buf"] True "1.prems"(2)
    obtain parts d' r where ih: "partial_write_parts hdr n d1 (drop n buf) = (d', r)" "length r < n"
      "\<forall>x \<in> set parts. length x = n" "concat parts @ r = drop n buf"
      "recv d' ((a @ hdr # take n buf) @ parts_enc hdr parts)" unfolding d1_def by blast
    have "partial_write_parts hdr n d buf = (d', r)"
      using ih(1) True "1.prems"(2) by (simp add: partial_write_parts.simps [of hdr n d] d1_def)
    moreover have "concat (take n buf # parts) @ r = buf" using ih(4) by simp
    moreover have "\<forall>x \<in> set (take n buf # parts). length x = n" using ih(3) True by auto
    moreover have "recv d' (a @ parts_enc hdr (take n buf # parts))" using ih(5) by (simp add: parts_enc_def)
    ultimately show ?thesis using ih(2) by blast
  next
    case False
    then have "partial_write_parts hdr n d buf = (d, buf)" by (simp add: partial_write_parts.simps [of hdr n d])
    with False "1.prems" show ?thesis by (auto simp: parts_enc_def intro!: exI [of _ "[]"])
  qed
qed

lemma partial_dst_write_accepted:
  assumes "partial_accepted recv base param data"
  shows "\<exists>param'. partial_dst_write param n bs = (param', RNP_SUCCESS) \<and>
                  partial_accepted recv base param' (data @ bs)"
proof -
  obtain p parts where p: "param = Some p" "pd_partlen p = PARTIAL_PKT_BLOCK_SIZE" "pd_parthdr p = 0xED"
    "length (pd_part p) \<le> PARTIAL_PKT_BLOCK_SIZE" "\<forall>x \<in> set parts. length x = PARTIAL_PKT_BLOCK_SIZE"
    "concat parts @ pd_part p = data" "recv (pd_writedst p) (base @ parts_enc 0xED parts)"
    using assms by (auto simp: partial_accepted_def)
  define w where "w = pd_partlen p - length (pd_part p)"
  show ?thesis
  proof (cases "w < length bs")
    case True
    define d where "d = dst_write (dst_write (dst_write (pd_writedst p) [0xED]) (pd_part p)) (take w bs)"
    have d: "recv d (base @ parts_enc 0xED (parts @ [pd_part p @ take w bs]))"
      using recv_write [OF recv_write [OF recv_write [OF p(7), of "[0xED]"], of "pd_part p"], of "take w bs"]
      by (simp add: d_def parts_enc_def)
    obtain parts' d' r where q: "partial_write_parts 0xED PARTIAL_PKT_BLOCK_SIZE d (drop w bs) = (d', r)"
      "length r < PARTIAL_PKT_BLOCK_SIZE" "\<forall>x \<in> set parts'. length x = PARTIAL_PKT_BLOCK_SIZE"
      "concat parts' @ r = drop w bs"
      "recv d' ((base @ parts_enc 0xED (parts @ [pd_part p @ take w bs])) @ parts_enc 0xED parts')"
      using write_parts_received [OF d, of PARTIAL_PKT_BLOCK_SIZE "0xED" "drop w bs"] by (auto simp: block_size)
    let ?all = "(parts @ [pd_part p @ take w bs]) @ parts'"
    have "partial_dst_write param n bs = (Some (p\<lparr>pd_writedst := d', pd_part := r\<rparr>), RNP_SUCCESS)"
      using True q(1) by (simp add: partial_dst_write_def p(1-3) w_def d_def Let_def)
    moreover have "length (pd_part p @ take w bs) = PARTIAL_PKT_BLOCK_SIZE" using True p(2,4) by (simp add: w_def)
    then have "\<forall>x \<in> set ?all. length x = PARTIAL_PKT_BLOCK_SIZE" using p(5) q(3) by auto
    moreover have "concat ?all @ r = data @ bs" using q(4) by (simp flip: p(6))
    moreover have "recv d' (base @ parts_enc 0xED ?all)" using q(5) by (simp add: parts_enc_def)
    ultimately show ?thesis using p(2,3) q(2) unfolding partial_accepted_def
      by (intro exI [of _ "Some (p\<lparr>pd_writedst := d', pd_part := r\<rparr>)"] conjI exI [of _ ?all]
          exI [of _ "p\<lparr>pd_writedst := d', pd_part := r\<rparr>"]) auto
  next
    case False
    then have "partial_dst_write param n bs = (Some (p\<lparr>pd_part := pd_part p @ bs\<rparr>), RNP_SUCCESS)"
      by (simp add: partial_dst_write_def p(1) w_def)
    with False p show ?thesis unfolding partial_accepted_def
      by (intro exI [of _ "Some (p\<lparr>pd_part := pd_part p @ bs\<rparr>)"] conjI exI [of _ parts]
          exI [of _ "p\<lparr>pd_part := pd_part p @ bs\<rparr>"]) (auto simp: w_def)
  qed
qed

lemma partial_acceptor: "acceptor partial_dst_write (partial_accepted recv base)"
  by unfold_locales (rule partial_dst_write_accepted)

lemma partial_receiver: "receiver (partial_recv recv base)"
  unfolding partial_recv_def by (rule acceptor.accepted_receiver [OF partial_acceptor])

text \<open>Finishing: the destination has received the parts and the last part with its length.\<close>

lemma partial_finish_recv:
  assumes "partial_recv recv base pd data"
  obtains pd' p parts lastpart where "dst_finish pd = (pd', dst_werr (pd_writedst p))" "dst_param pd' = Some p"
    "\<forall>x \<in> set parts. length x = PARTIAL_PKT_BLOCK_SIZE" "length lastpart \<le> PARTIAL_PKT_BLOCK_SIZE"
    "concat parts @ lastpart = data"
    "recv (pd_writedst p) (base @ parts_enc 0xED parts @ write_packet_len (length lastpart) @ lastpart)"
proof -
  note f = acceptor.accepted_flush [OF partial_acceptor assms [unfolded partial_recv_def]]
  obtain p parts where p: "dst_param (dst_flush pd) = Some p" "length (pd_part p) \<le> PARTIAL_PKT_BLOCK_SIZE"
    "\<forall>x \<in> set parts. length x = PARTIAL_PKT_BLOCK_SIZE" "concat parts @ pd_part p = data"
    "recv (pd_writedst p) (base @ parts_enc 0xED parts)" "dst_finishf (dst_flush pd) = Some partial_dst_finish"
    using f by (auto simp: recv_accepted_def partial_accepted_def)
  define d where "d = dst_write (dst_write (pd_writedst p) (write_packet_len (length (pd_part p)))) (pd_part p)"
  have "dst_finish pd = ((dst_flush pd)\<lparr>dst_param := Some (p\<lparr>pd_writedst := d\<rparr>), dst_finished := True\<rparr>, dst_werr d)"
    using p(1,6) by (simp add: dst_finish_def partial_dst_finish_def d_def Let_def)
  moreover have "recv d (base @ parts_enc 0xED parts @ write_packet_len (length (pd_part p)) @ pd_part p)"
    using recv_write [OF recv_write [OF p(5), of "write_packet_len (length (pd_part p))"], of "pd_part p"]
    by (simp add: d_def)
  ultimately show thesis using that [of _ "p\<lparr>pd_writedst := d\<rparr>" parts "pd_part p"] p(2-4) by simp
qed

lemma init_partial_recv:
  assumes "recv d a"
  obtains pd where "init_partial_pkt_dst (\<lambda>_. True) d = (pd, RNP_SUCCESS)" "partial_recv recv a pd []"
proof -
  have "0xE0 OR to_byte PARTIAL_PKT_SIZE_BITS = 0xED" by (simp add: PARTIAL_PKT_SIZE_BITS_def)
  with assms that show thesis
    by (force simp: init_partial_pkt_dst_def init_dst_common_def partial_recv_def recv_accepted_def partial_accepted_def parts_enc_def
        intro: exI [of _ "[]"])
qed

end

section \<open>Reading the parts back\<close>

lemma part_hdr_full: "part_hdr (0xED # x) = Some (PARTIAL_PKT_BLOCK_SIZE, False, x)"
  by (simp add: get_part_len_def block_size push_bit_eq_mult)

lemma part_hdr_last:
  assumes "n \<le> PARTIAL_PKT_BLOCK_SIZE"
  shows "part_hdr (write_packet_len n @ x) = Some (n, True, x)"
proof (cases "n < 192")
  case False
  then have "(n - 192) div 256 < 32" using assms by (simp add: div_less_iff_less_mult block_size)
  with False assms show ?thesis by (simp add: write_packet_len_def block_size drop_bit_eq_div)
qed (simp add: write_packet_len_def)

lemma partial_full_part:
  assumes "length x = PARTIAL_PKT_BLOCK_SIZE"
  shows "partial_data PARTIAL_PKT_BLOCK_SIZE False (x @ a) = x @ partial_data 0 False a"
    and "partial_readable PARTIAL_PKT_BLOCK_SIZE False (x @ a) = partial_readable 0 False a"
    and "partial_data 0 False (0xED # x @ a) = x @ partial_data 0 False a"
    and "partial_readable 0 False (0xED # x @ a) = partial_readable 0 False a"
proof -
  show part: "partial_data PARTIAL_PKT_BLOCK_SIZE False (x @ a) = x @ partial_data 0 False a"
    "partial_readable PARTIAL_PKT_BLOCK_SIZE False (x @ a) = partial_readable 0 False a"
    using assms partial_data_take [of PARTIAL_PKT_BLOCK_SIZE PARTIAL_PKT_BLOCK_SIZE "x @ a" False]
      partial_readable_take [of PARTIAL_PKT_BLOCK_SIZE PARTIAL_PKT_BLOCK_SIZE "x @ a" False] by simp_all
  show "partial_data 0 False (0xED # x @ a) = x @ partial_data 0 False a"
    using partial_data_next [OF part_hdr_full] part(1) by simp
  show "partial_readable 0 False (0xED # x @ a) = partial_readable 0 False a"
    by (simp add: partial_readable.simps [of 0 False "0xED # x @ a"] part_hdr_full part(2) del: part_hdr.simps)
qed

lemma partial_data_parts:
  assumes "\<forall>x \<in> set parts. length x = PARTIAL_PKT_BLOCK_SIZE" "length y \<le> PARTIAL_PKT_BLOCK_SIZE"
  shows "partial_data 0 False (parts_enc 0xED parts @ write_packet_len (length y) @ y @ r) = concat parts @ y \<and>
         partial_readable 0 False (parts_enc 0xED parts @ write_packet_len (length y) @ y @ r)"
  using assms(1)
proof (induction parts)
  case Nil
  show ?case
    by (simp add: parts_enc_def partial_data.simps [of 0] partial_data.simps [of "length y"]
        partial_readable.simps [of 0] partial_readable.simps [of "length y"] part_hdr_last [OF assms(2)])
next
  case (Cons x parts)
  then show ?case by (simp add: parts_enc_def partial_full_part)
qed

section \<open>Partial packets through memory streams\<close>

interpretation mem_partial_acceptor: acceptor partial_dst_write "partial_accepted (mem_recv c) base" for c base
  by (rule mem_receiver.partial_acceptor)

interpretation mem_partial_receiver: receiver "partial_recv (mem_recv c) base" for c base
  by (rule mem_receiver.partial_receiver)

lemma length_parts_enc:
  "\<forall>x \<in> set parts. length x = PARTIAL_PKT_BLOCK_SIZE \<Longrightarrow> length (parts_enc h parts) \<le> 2 * length (concat parts)"
  by (induction parts) (auto simp: parts_enc_def block_size)

lemma length_write_packet_len: "length (write_packet_len n) \<le> 5"
  by (simp add: write_packet_len_def)

text \<open>What a streamed packet of partial length leaves in the memory.\<close>

lemma streamed_packet_memory:
  fixes tag :: nat
  assumes "2 * length (concat bss) + 6 \<le> c"
  defines "t \<equiv> to_byte tag OR PGP_PTAG_ALWAYS_SET OR PGP_PTAG_NEW_FORMAT"
  obtains pd pd' p parts y where
    "init_streamed_packet (\<lambda>_. True) \<lparr>pkt_partial = True, pkt_indeterminate = ind, pkt_tag = tag\<rparr>
       (fst (init_mem_dest (\<lambda>_. True) c)) = Inr (Partial_dst pd)"
    "finish_streamed_packet (Partial_dst (fold (\<lambda>bs d. dst_write d bs) bss pd)) = (Partial_dst pd', RNP_SUCCESS)"
    "dst_param pd' = Some p"
    "mem_dest_get_memory (pd_writedst p) = Some (t # parts_enc 0xED parts @ write_packet_len (length y) @ y)"
    "\<forall>x \<in> set parts. length x = PARTIAL_PKT_BLOCK_SIZE" "length y \<le> PARTIAL_PKT_BLOCK_SIZE"
    "concat parts @ y = concat bss"
proof -
  define d1 where "d1 = dst_write (fst (init_mem_dest (\<lambda>_. True) c)) [t]"
  have d1: "mem_recv c d1 [t]"
    using mem_receiver.recv_write [OF init_mem_dest_recv, of c "[t]"] by (simp add: d1_def)
  obtain pd where pd: "init_partial_pkt_dst (\<lambda>_. True) d1 = (pd, RNP_SUCCESS)" "partial_recv (mem_recv c) [t] pd []"
    using mem_receiver.init_partial_recv [OF d1] by blast
  have init: "init_streamed_packet (\<lambda>_. True) \<lparr>pkt_partial = True, pkt_indeterminate = ind, pkt_tag = tag\<rparr>
       (fst (init_mem_dest (\<lambda>_. True) c)) = Inr (Partial_dst pd)"
    using pd(1) by (simp add: init_streamed_packet_def t_def d1_def Let_def)
  have all: "partial_recv (mem_recv c) [t] (fold (\<lambda>bs d. dst_write d bs) bss pd) (concat bss)"
    using mem_partial_receiver.recv_writes [OF pd(2), of bss] by simp
  obtain pd' p parts y where f: "dst_finish (fold (\<lambda>bs d. dst_write d bs) bss pd) = (pd', dst_werr (pd_writedst p))"
    "dst_param pd' = Some p" "\<forall>x \<in> set parts. length x = PARTIAL_PKT_BLOCK_SIZE"
    "length y \<le> PARTIAL_PKT_BLOCK_SIZE" "concat parts @ y = concat bss"
    "mem_recv c (pd_writedst p) ([t] @ parts_enc 0xED parts @ write_packet_len (length y) @ y)"
    by (rule mem_receiver.partial_finish_recv [OF all])
  have "length (concat parts) + length y = length (concat bss)" using f(5) by (metis length_append)
  then have "length ([t] @ parts_enc 0xED parts @ write_packet_len (length y) @ y) \<le> c"
    using length_parts_enc [OF f(3), of "0xED"] length_write_packet_len [of "length y"] assms(1)
    unfolding length_append by simp
  note m = mem_recv_memory [OF f(6) this]
  have fin: "finish_streamed_packet (Partial_dst (fold (\<lambda>bs d. dst_write d bs) bss pd)) = (Partial_dst pd', RNP_SUCCESS)"
    using f(1) m by (simp add: finish_streamed_packet_def)
  show thesis by (rule that [OF init fin f(2) _ f(3-5)]) (use m in simp)
qed

end
