(* ===== verification/Hash_Context.thy ===== *)
theory Hash_Context
  imports S2k
begin

text \<open>
  \<^verbatim>\<open>src/lib/hash.c\<close>: hash contexts and lists of hash contexts.

  The hash objects of the Botan library are a parameter: which algorithm names it knows,
  the length of their output and the digest of a string of bytes.  An object is the
  name of its algorithm and the bytes that were added to it, and a null handle is
  \<^const>\<open>None\<close>.  Lists of contexts are lists in the order of \<^verbatim>\<open>lib/list.c\<close>.  The lemmas at
  the end say what contexts and lists of contexts have been given and so what they compute.
\<close>

record botan =
  bo_hash_init :: "string \<Rightarrow> bool"
  bo_hash_output_length :: "string \<Rightarrow> nat option"
  bo_hash_final :: "string \<Rightarrow> bytes \<Rightarrow> bytes option"

section \<open>Contexts\<close>

record pgp_hash =
  h_handle :: "(string \<times> bytes) option"
  h_output_len :: nat
  h_alg :: nat

definition zero_hash :: pgp_hash where
  "zero_hash = \<lparr>h_handle = None, h_output_len = 0, h_alg = 0\<rparr>"

text \<open>Where \<^verbatim>\<open>botan_hash_output_length\<close> fails the context is left as it is.\<close>

definition pgp_hash_create :: "botan \<Rightarrow> pgp_hash \<Rightarrow> nat \<Rightarrow> pgp_hash \<times> bool" where
  "pgp_hash_create bo hash alg =
     (case pgp_hash_name_botan alg of
        None \<Rightarrow> (hash, False)
      | Some name \<Rightarrow>
          if \<not> bo_hash_init bo name then (hash, False)
          else
            (case bo_hash_output_length bo name of
               None \<Rightarrow> (hash, False)
             | Some n \<Rightarrow> (\<lparr>h_handle = Some (name, []), h_output_len = n, h_alg = alg\<rparr>, True)))"

text \<open>\<^verbatim>\<open>botan_hash_update\<close> on a null handle only returns an error code.\<close>

definition pgp_hash_add :: "pgp_hash \<Rightarrow> bytes \<Rightarrow> pgp_hash" where
  "pgp_hash_add hash buf = hash\<lparr>h_handle := map_option (\<lambda>(name, bs). (name, bs @ buf)) (h_handle hash)\<rparr>"

definition pgp_hash_copy :: "pgp_hash \<Rightarrow> pgp_hash \<Rightarrow> pgp_hash \<times> bool" where
  "pgp_hash_copy dst src =
     (case h_handle src of
        None \<Rightarrow> (dst, False)
      | Some h \<Rightarrow> (\<lparr>h_handle = Some h, h_output_len = h_output_len src, h_alg = h_alg src\<rparr>, True))"

fun pgp_hash_add_int :: "pgp_hash \<Rightarrow> 32 word \<Rightarrow> nat \<Rightarrow> pgp_hash" where
  "pgp_hash_add_int hash n 0 = hash"
| "pgp_hash_add_int hash n (Suc k) =
     pgp_hash_add_int (pgp_hash_add hash [ucast (drop_bit (k * 8) n)]) n k"

text \<open>
  \<^verbatim>\<open>pgp_hash_finish\<close> with an output buffer gives the digest; the count is the output length,
  or zero when there is nothing to finish or the library fails.  \<^verbatim>\<open>pgp_hash_discard\<close> is the
  call with a null output.
\<close>

definition pgp_hash_finish :: "botan \<Rightarrow> pgp_hash \<Rightarrow> pgp_hash \<times> nat \<times> bytes" where
  "pgp_hash_finish bo hash =
     (case h_handle hash of
        None \<Rightarrow> (hash, 0, [])
      | Some (name, bs) \<Rightarrow>
          (case bo_hash_final bo name bs of
             None \<Rightarrow> (hash, 0, [])
           | Some out \<Rightarrow> (hash\<lparr>h_handle := None, h_output_len := 0\<rparr>, h_output_len hash, out)))"

definition pgp_hash_discard :: "pgp_hash \<Rightarrow> pgp_hash \<times> nat" where
  "pgp_hash_discard hash =
     (case h_handle hash of
        None \<Rightarrow> (hash, 0)
      | Some _ \<Rightarrow> (hash\<lparr>h_handle := None, h_output_len := 0\<rparr>, h_output_len hash))"

definition pgp_hash_output_length :: "pgp_hash \<Rightarrow> nat" where
  "pgp_hash_output_length hash = h_output_len hash"

definition pgp_hash_alg_type :: "pgp_hash \<Rightarrow> nat" where
  "pgp_hash_alg_type hash = h_alg hash"

definition pgp_hash_name :: "pgp_hash \<Rightarrow> string option" where
  "pgp_hash_name hash = pgp_show_hash_alg (h_alg hash)"

definition pgp_digest_length :: "botan \<Rightarrow> nat \<Rightarrow> nat option" where
  "pgp_digest_length bo alg =
     (case pgp_hash_name_botan alg of
        None \<Rightarrow> None
      | Some name \<Rightarrow> if bo_hash_init bo name then bo_hash_output_length bo name else None)"

definition pgp_hash_uint32 :: "pgp_hash \<Rightarrow> 32 word \<Rightarrow> pgp_hash \<times> bool" where
  "pgp_hash_uint32 hash n = (pgp_hash_add hash (STORE32BE (unat n)), h_handle hash \<noteq> None)"

section \<open>Lists of contexts\<close>

fun pgp_hash_list_get :: "pgp_hash list \<Rightarrow> nat \<Rightarrow> pgp_hash option" where
  "pgp_hash_list_get [] alg = None"
| "pgp_hash_list_get (h # hs) alg = (if pgp_hash_alg_type h = alg then Some h else pgp_hash_list_get hs alg)"

text \<open>The list item has a header of 24 bytes and a context of 24 bytes, a new list a head of 24 bytes.\<close>

definition pgp_hash_list_add :: "botan \<Rightarrow> alloc \<Rightarrow> pgp_hash list \<Rightarrow> nat \<Rightarrow> pgp_hash list \<times> bool" where
  "pgp_hash_list_add bo al hashes alg =
     (if pgp_hash_list_get hashes alg \<noteq> None then (hashes, True)
      else
        (case pgp_hash_create bo zero_hash alg of
           (h, ok) \<Rightarrow>
             if \<not> ok then (hashes, False)
             else if (hashes = [] \<longrightarrow> al 24) \<and> al 48 then (hashes @ [h], True)
             else (hashes, False)))"

definition pgp_hash_list_update :: "pgp_hash list \<Rightarrow> bytes \<Rightarrow> pgp_hash list" where
  "pgp_hash_list_update hashes buf = map (\<lambda>h. pgp_hash_add h buf) hashes"

definition pgp_hash_list_free :: "pgp_hash list \<Rightarrow> pgp_hash list" where
  "pgp_hash_list_free hashes = (let finished = map (fst \<circ> pgp_hash_discard) hashes in [])"

section \<open>Names\<close>

text \<open>
  \<^verbatim>\<open>rnp_strcasecmp\<close> of \<^verbatim>\<open>src/lib/misc.c\<close>, with \<^verbatim>\<open>tolower\<close> of the C locale; the end of a
  string is its null byte, and a string has no other.
\<close>

definition tolower :: "char \<Rightarrow> int" where
  "tolower c = (let n = of_char c in if 65 \<le> n \<and> n \<le> 90 then n + 32 else n)"

fun rnp_strcasecmp :: "string \<Rightarrow> string \<Rightarrow> int" where
  "rnp_strcasecmp [] [] = 0"
| "rnp_strcasecmp [] (d # ds) = 0 - tolower d"
| "rnp_strcasecmp (c # cs) [] = tolower c - 0"
| "rnp_strcasecmp (c # cs) (d # ds) =
     (let n = tolower c - tolower d in if n = 0 then rnp_strcasecmp cs ds else n)"

fun str_to_hash_alg_from :: "(nat \<times> string \<times> string) list \<Rightarrow> string \<Rightarrow> nat" where
  "str_to_hash_alg_from [] s = PGP_HASH_UNKNOWN"
| "str_to_hash_alg_from ((alg, name, botan_name) # es) s =
     (if rnp_strcasecmp s name = 0 then alg else str_to_hash_alg_from es s)"

definition pgp_str_to_hash_alg :: "string option \<Rightarrow> nat" where
  "pgp_str_to_hash_alg hash =
     (case hash of None \<Rightarrow> PGP_HASH_SHA256 | Some s \<Rightarrow> str_to_hash_alg_from hash_alg_map s)"

definition c_string :: "string \<Rightarrow> bool" where
  "c_string s \<longleftrightarrow> CHR 0x00 \<notin> set s"

lemma tolower_zero: "tolower c = 0 \<Longrightarrow> c = CHR 0x00"
proof -
  assume "tolower c = 0"
  then have "of_char c = (of_char (CHR 0x00) :: int)" by (auto simp: tolower_def Let_def split: if_splits)
  then show ?thesis by (simp only: of_char_eq_iff)
qed

lemma strcasecmp_eq:
  assumes "c_string s" "c_string t"
  shows "rnp_strcasecmp s t = 0 \<longleftrightarrow> map tolower s = map tolower t"
  using assms
  by (induction s t rule: rnp_strcasecmp.induct) (auto simp: c_string_def Let_def dest: tolower_zero)

section \<open>What contexts compute\<close>

text \<open>A context that has been given the bytes \<open>a\<close>.\<close>

definition hash_fed :: "botan \<Rightarrow> pgp_hash \<Rightarrow> nat \<Rightarrow> bytes \<Rightarrow> bool" where
  "hash_fed bo h alg a \<longleftrightarrow>
     h_alg h = alg \<and> (\<exists>name n. pgp_hash_name_botan alg = Some name \<and> h_handle h = Some (name, a) \<and>
       bo_hash_output_length bo name = Some n \<and> h_output_len h = n)"

lemma create_fed: "pgp_hash_create bo h alg = (h', True) \<Longrightarrow> hash_fed bo h' alg []"
  by (auto simp: pgp_hash_create_def hash_fed_def split: option.splits if_splits)

lemma add_fed: "hash_fed bo h alg a \<Longrightarrow> hash_fed bo (pgp_hash_add h bs) alg (a @ bs)"
  by (auto simp: pgp_hash_add_def hash_fed_def)

lemma copy_fed: "hash_fed bo h alg a \<Longrightarrow> \<exists>h'. pgp_hash_copy dst h = (h', True) \<and> hash_fed bo h' alg a"
  by (auto simp: pgp_hash_copy_def hash_fed_def)

lemma add_int_fed:
  "hash_fed bo h alg a \<Longrightarrow> hash_fed bo (pgp_hash_add_int h n k) alg (a @ map (\<lambda>i. ucast (drop_bit (i * 8) n)) (rev [0..<k]))"
proof (induction k arbitrary: h a)
  case (Suc k)
  from Suc.IH [OF add_fed [OF Suc.prems, of "[ucast (drop_bit (k * 8) n)]"]] show ?case by simp
qed simp

text \<open>
  A list of contexts as the code keeps it: one for each algorithm, and all of them have seen
  the same data.
\<close>

definition hashes_fed :: "botan \<Rightarrow> pgp_hash list \<Rightarrow> nat list \<Rightarrow> bytes \<Rightarrow> bool" where
  "hashes_fed bo hs algs a \<longleftrightarrow> list_all2 (\<lambda>h alg. hash_fed bo h alg a) hs algs \<and> distinct algs"

lemma list_get_fed:
  "hashes_fed bo hs algs a \<Longrightarrow>
   case pgp_hash_list_get hs alg of Some h \<Rightarrow> alg \<in> set algs \<and> hash_fed bo h alg a | None \<Rightarrow> alg \<notin> set algs"
proof (induction hs arbitrary: algs)
  case (Cons h hs)
  from Cons.prems obtain g gs where "algs = g # gs" "hash_fed bo h g a" "hashes_fed bo hs gs a"
    by (auto simp: hashes_fed_def list_all2_Cons1)
  with Cons.IH [of gs] show ?case
    by (auto simp: pgp_hash_alg_type_def hash_fed_def split: option.splits)
qed (simp add: hashes_fed_def)

lemma list_update_fed: "hashes_fed bo hs algs a \<Longrightarrow> hashes_fed bo (pgp_hash_list_update hs bs) algs (a @ bs)"
  by (auto simp: hashes_fed_def pgp_hash_list_update_def list_all2_map1 elim!: list_all2_mono intro: add_fed)

lemma list_add_fed:
  assumes "hashes_fed bo hs algs []" "pgp_hash_list_add bo al hs alg = (hs', True)"
  shows "hashes_fed bo hs' (if alg \<in> set algs then algs else algs @ [alg]) []"
  using assms list_get_fed [OF assms(1), of alg]
  by (auto simp: pgp_hash_list_add_def hashes_fed_def create_fed
      split: prod.splits if_splits option.splits intro!: list_all2_appendI)

lemma list_updates_fed:
  "hashes_fed bo hs algs a \<Longrightarrow> hashes_fed bo (fold (\<lambda>bs hs. pgp_hash_list_update hs bs) bss hs) algs (a @ concat bss)"
proof (induction bss arbitrary: hs a)
  case (Cons bs bss)
  from Cons.IH [OF list_update_fed [OF Cons.prems]] show ?case by simp
qed simp

lemma fold_hash_error:
  "fold (\<lambda>alg r. if snd r then pgp_hash_list_add bo al (fst r) alg else r) algs (hs, False) = (hs, False)"
  by (induction algs) simp_all

lemma list_adds_fed:
  assumes "fold (\<lambda>alg r. if snd r then pgp_hash_list_add bo al (fst r) alg else r) algs (hs, True) = (hs', True)"
    "hashes_fed bo hs gs []"
  shows "\<exists>gs'. hashes_fed bo hs' gs' [] \<and> set gs' = set gs \<union> set algs"
  using assms
proof (induction algs arbitrary: hs gs)
  case (Cons a algs)
  obtain hs1 ok where add: "pgp_hash_list_add bo al hs a = (hs1, ok)" by fastforce
  have "ok" using Cons.prems(1) add by (cases ok) (auto simp: fold_hash_error)
  then show ?case
    using Cons.IH [of hs1] Cons.prems(1) add list_add_fed [OF Cons.prems(2), of al a hs1] by (fastforce split: if_splits)
qed auto

end
