(* ===== verification/Stream_Armor.thy ===== *)
theory Stream_Armor
  imports Stream_Cursor Partial_Packets Hash_Context
begin

text \<open>
  \<^verbatim>\<open>src/librepgp/stream-armor.c\<close>: ASCII armor.  The armored destination encodes what is
  written to it in base 64, wrapped into lines, between a header and a trailer with a
  checksum; the armored source undoes that.  The checksum is a hash context for CRC-24 of
  the Botan library, and \<^verbatim>\<open>PACKAGE_STRING\<close>, which the build configures, is a parameter.
\<close>

section \<open>Text and tables\<close>

definition str_bytes :: "string \<Rightarrow> bytes" where
  "str_bytes s = map of_char s"

abbreviation (input) ARMORED_BLOCK_SIZE :: nat where "ARMORED_BLOCK_SIZE \<equiv> 4096"

definition CH_EQ :: byte where "CH_EQ = 61"

definition CH_DASH :: byte where "CH_DASH = 45"

definition ST_DASHES :: bytes where "ST_DASHES = str_bytes ''-----''"

definition ST_ARMOR_BEGIN :: bytes where "ST_ARMOR_BEGIN = str_bytes ''-----BEGIN PGP ''"

definition ST_ARMOR_END :: bytes where "ST_ARMOR_END = str_bytes ''-----END PGP ''"

definition ST_CLEAR_BEGIN :: bytes where
  "ST_CLEAR_BEGIN = str_bytes ''-----BEGIN PGP SIGNED MESSAGE-----''"

definition ST_HEADER_VERSION :: bytes where "ST_HEADER_VERSION = str_bytes ''Version: ''"

definition ST_HEADER_COMMENT :: bytes where "ST_HEADER_COMMENT = str_bytes ''Comment: ''"

definition ST_HEADER_HASH :: bytes where "ST_HEADER_HASH = str_bytes ''Hash: ''"

definition ST_HEADER_CHARSET :: bytes where "ST_HEADER_CHARSET = str_bytes ''Charset: ''"

definition B64DEC :: bytes where
  "B64DEC =
     [0xff, 0xff, 0xff, 0xff, 0xff, 0xff, 0xff, 0xff, 0xff, 0xfd, 0xfd, 0xff, 0xff, 0xfd, 0xff, 0xff,
      0xff, 0xff, 0xff, 0xff, 0xff, 0xff, 0xff, 0xff, 0xff, 0xff, 0xff, 0xff, 0xff, 0xff, 0xff, 0xff,
      0xfd, 0xff, 0xff, 0xff, 0xff, 0xff, 0xff, 0xff, 0xff, 0xff, 0xff, 0x3e, 0xff, 0xff, 0xff, 0x3f,
      0x34, 0x35, 0x36, 0x37, 0x38, 0x39, 0x3a, 0x3b, 0x3c, 0x3d, 0xff, 0xff, 0xff, 0xfe, 0xff, 0xff,
      0xff, 0x00, 0x01, 0x02, 0x03, 0x04, 0x05, 0x06, 0x07, 0x08, 0x09, 0x0a, 0x0b, 0x0c, 0x0d, 0x0e,
      0x0f, 0x10, 0x11, 0x12, 0x13, 0x14, 0x15, 0x16, 0x17, 0x18, 0x19, 0xff, 0xff, 0xff, 0xff, 0xff,
      0xff, 0x1a, 0x1b, 0x1c, 0x1d, 0x1e, 0x1f, 0x20, 0x21, 0x22, 0x23, 0x24, 0x25, 0x26, 0x27, 0x28,
      0x29, 0x2a, 0x2b, 0x2c, 0x2d, 0x2e, 0x2f, 0x30, 0x31, 0x32, 0x33, 0xff, 0xff, 0xff, 0xff, 0xff,
      0xff, 0xff, 0xff, 0xff, 0xff, 0xff, 0xff, 0xff, 0xff, 0xff, 0xff, 0xff, 0xff, 0xff, 0xff, 0xff,
      0xff, 0xff, 0xff, 0xff, 0xff, 0xff, 0xff, 0xff, 0xff, 0xff, 0xff, 0xff, 0xff, 0xff, 0xff, 0xff,
      0xff, 0xff, 0xff, 0xff, 0xff, 0xff, 0xff, 0xff, 0xff, 0xff, 0xff, 0xff, 0xff, 0xff, 0xff, 0xff,
      0xff, 0xff, 0xff, 0xff, 0xff, 0xff, 0xff, 0xff, 0xff, 0xff, 0xff, 0xff, 0xff, 0xff, 0xff, 0xff,
      0xff, 0xff, 0xff, 0xff, 0xff, 0xff, 0xff, 0xff, 0xff, 0xff, 0xff, 0xff, 0xff, 0xff, 0xff, 0xff,
      0xff, 0xff, 0xff, 0xff, 0xff, 0xff, 0xff, 0xff, 0xff, 0xff, 0xff, 0xff, 0xff, 0xff, 0xff, 0xff,
      0xff, 0xff, 0xff, 0xff, 0xff, 0xff, 0xff, 0xff, 0xff, 0xff, 0xff, 0xff, 0xff, 0xff, 0xff, 0xff,
      0xff, 0xff, 0xff, 0xff, 0xff, 0xff, 0xff, 0xff, 0xff, 0xff, 0xff, 0xff, 0xff, 0xff, 0xff, 0xff]"

definition B64ENC :: bytes where
  "B64ENC =
     concat (replicate 4 (str_bytes
       ''ABCDEFGHIJKLMNOPQRSTUVWXYZabcdefghijklmnopqrstuvwxyz0123456789+/''))"

text \<open>
  C strings: a string ends before its first null byte, \<^verbatim>\<open>strncmp\<close> compares up to \<open>n\<close> characters
  and stops after a common null byte, \<^verbatim>\<open>strstr\<close> searches for a substring.  \<open>cstr\<close> is the
  string at the start of a buffer.
\<close>

definition cstr :: "bytes \<Rightarrow> bytes" where
  "cstr buf = takeWhile (\<lambda>c. c \<noteq> 0) buf"

definition strncmp_eq :: "bytes \<Rightarrow> bytes \<Rightarrow> nat \<Rightarrow> bool" where
  "strncmp_eq a b n \<longleftrightarrow> take n (cstr a @ [0]) = take n (cstr b @ [0])"

fun strstr :: "bytes \<Rightarrow> bytes \<Rightarrow> bool" where
  "strstr [] s = (s = [])"
| "strstr (c # cs) s = (take (length s) (c # cs) = s \<or> strstr cs s)"

datatype pgp_armored_msg =
    PGP_ARMORED_UNKNOWN
  | PGP_ARMORED_MESSAGE
  | PGP_ARMORED_PUBLIC_KEY
  | PGP_ARMORED_SECRET_KEY
  | PGP_ARMORED_SIGNATURE
  | PGP_ARMORED_CLEARTEXT

section \<open>Reading\<close>

text \<open>
  \<^verbatim>\<open>pgp_source_armored_param_t\<close>.  \<open>as_rest\<close> are the first \<^verbatim>\<open>restlen\<close> bytes of the buffer of
  decoded bytes and \<open>as_brest\<close> the decoded six-bit values that are still to be joined.
  \<open>as_frees\<close> counts how often the structure was passed to \<^verbatim>\<open>free\<close>: the close callback
  leaves \<^verbatim>\<open>src->param\<close> as it is, and a count above one is a double free.
\<close>

record 'q armored_src_param =
  as_readsrc :: "'q pgp_source"
  as_type :: pgp_armored_msg
  as_armorhdr :: "bytes option"
  as_version :: "bytes option"
  as_comment :: "bytes option"
  as_hash :: "bytes option"
  as_charset :: "bytes option"
  as_rest :: bytes
  as_restpos :: nat
  as_brest :: bytes
  as_eofb64 :: bool
  as_readcrc :: bytes
  as_crc_ctx :: pgp_hash
  as_frees :: nat

definition armor_read_padding :: "alloc \<Rightarrow> 'q pgp_source \<Rightarrow> 'q pgp_source \<times> nat option" where
  "armor_read_padding al readsrc =
     (case src_peek_line readsrc 12 of
        (src1, None) \<Rightarrow> (src1, None)
      | (src1, Some st) \<Rightarrow>
          let stlen = length st in
          if stlen = 1 \<or> stlen = 2 then
            if st ! 0 \<noteq> CH_EQ \<or> stlen = 2 \<and> st ! 1 \<noteq> CH_EQ then (src1, None)
            else
              let src2 = fst (src_skip al src1 stlen); src3 = fst (src_skip_eol al src2)
              in (src3, Some stlen)
          else if stlen = 5 then (src1, Some 0)
          else (src1, None))"

text \<open>
  The checksum line.  The source indexes the table with a plain \<^verbatim>\<open>char\<close>; the model has it
  unsigned, as on the platforms where it is, since the index would otherwise be negative
  for a byte from 128 on.
\<close>

definition armor_read_crc :: "alloc \<Rightarrow> 'q pgp_source \<Rightarrow> 'q pgp_source \<times> bytes option" where
  "armor_read_crc al readsrc =
     (case src_peek_line readsrc 8 of
        (src1, None) \<Rightarrow> (src1, None)
      | (src1, Some crc) \<Rightarrow>
          if length crc = 5 \<and> crc ! 0 = CH_EQ then
            let dec = map (\<lambda>i. B64DEC ! unat (crc ! (i + 1))) [0, 1, 2, 3] in
            if \<exists>d \<in> set dec. 64 \<le> d then (src1, None)
            else
              let src2 = fst (src_skip al src1 5); src3 = fst (src_skip_eol al src2)
              in (src3, Some [push_bit 2 (dec ! 0) OR (drop_bit 4 (dec ! 1) AND 0x0F),
                              push_bit 4 (dec ! 1) OR (drop_bit 2 (dec ! 2) AND 0x0F),
                              push_bit 6 (dec ! 2) OR dec ! 3])
          else (src1, None))"

text \<open>
  The trailer repeats the header line with \<^verbatim>\<open>END\<close> for \<^verbatim>\<open>BEGIN\<close>.  With a header string of fewer
  than five characters \<^verbatim>\<open>strlen - 5\<close> wraps and the copy that follows overruns its buffers;
  the model stops there with an error.
\<close>

definition armor_read_trailer :: "alloc \<Rightarrow> bytes \<Rightarrow> 'q pgp_source \<Rightarrow> 'q pgp_source \<times> bool" where
  "armor_read_trailer al armorhdr readsrc =
     (let hdr = cstr armorhdr; stlen = length hdr + 8 in
      if length hdr < 5 then (readsrc, False)
      else
        let st = take 8 ST_ARMOR_END @ drop 5 hdr @ ST_DASHES in
        (case src_peek readsrc stlen of
           (src1, None) \<Rightarrow> (src1, False)
         | (src1, Some str) \<Rightarrow>
             if length str < stlen \<or> \<not> strncmp_eq str st stlen then (src1, False)
             else (fst (src_skip al src1 stlen), True)))"

text \<open>
  The scan of a block of base 64 text: the six-bit values, the number of characters looked
  at, and whether the scan met an equals sign; \<^const>\<open>None\<close> for a wrong character.
\<close>

fun b64_scan :: "bytes \<Rightarrow> bytes \<times> nat \<times> bool option" where
  "b64_scan [] = ([], 0, Some False)"
| "b64_scan (c # cs) =
     (let bval = B64DEC ! unat c in
      if bval < 64 then (case b64_scan cs of (vs, k, e) \<Rightarrow> (bval # vs, k + 1, e))
      else if bval = 0xfe then ([], 1, Some True)
      else if bval = 0xff then ([], 1, None)
      else (case b64_scan cs of (vs, k, e) \<Rightarrow> (vs, k + 1, e)))"

text \<open>Four six-bit values make three bytes.\<close>

fun b64_join :: "bytes \<Rightarrow> bytes" where
  "b64_join (a # b # c # d # ds) =
     (let b24 = push_bit 18 (ucast a) OR push_bit 12 (ucast b) OR push_bit 6 (ucast c) OR ucast d :: 32 word
      in ucast (drop_bit 16 b24) # ucast (drop_bit 8 b24) # ucast (b24 AND 0xff) # b64_join ds)"
| "b64_join _ = []"

text \<open>
  The end of the base 64 text, from the equals sign on: padding, checksum line and trailer.
  The result is the number of padding characters, and the checksum as far as it was read.
\<close>

definition armor_read_end ::
    "alloc \<Rightarrow> bytes \<Rightarrow> 'q pgp_source \<Rightarrow> bytes \<Rightarrow> 'q pgp_source \<times> bytes \<times> nat option" where
  "armor_read_end al armorhdr readsrc readcrc =
     (case armor_read_padding al readsrc of
        (src1, None) \<Rightarrow> (src1, readcrc, None)
      | (src1, Some eqcount) \<Rightarrow>
          (case armor_read_crc al src1 of
             (src2, None) \<Rightarrow> (src2, readcrc, None)
           | (src2, Some crc) \<Rightarrow>
               (case armor_read_trailer al armorhdr src2 of
                  (src3, ok) \<Rightarrow> (src3, crc, if ok then Some eqcount else None))))"

text \<open>
  What the reading loop leaves: the source, the six-bit values not yet joined, the bytes put
  into the buffer, how many are still wanted, whether the end was reached, the checksum and
  the padding, or \<^const>\<open>None\<close> after an error.
\<close>

record 'q armor_state =
  al_src :: "'q pgp_source"
  al_dec :: bytes
  al_out :: bytes
  al_left :: nat
  al_eof :: bool
  al_crc :: bytes
  al_eqcount :: "nat option"

text \<open>
  The reading loop.  It goes on while three bytes or more are wanted; when the text ends
  without an equals sign it never returns, which is the value \<^const>\<open>None\<close>.
\<close>

partial_function (option) armored_read_loop ::
    "alloc \<Rightarrow> bytes \<Rightarrow> bytes \<Rightarrow> 'q pgp_source \<Rightarrow> bytes \<Rightarrow> bytes \<Rightarrow> nat \<Rightarrow> 'q armor_state option" where
  "armored_read_loop al armorhdr readcrc readsrc dec out left =
     (case src_peek readsrc ARMORED_BLOCK_SIZE of
        (src1, None) \<Rightarrow>
          Some \<lparr>al_src = src1, al_dec = dec, al_out = out, al_left = left, al_eof = False,
                al_crc = readcrc, al_eqcount = None\<rparr>
      | (src1, Some b64buf) \<Rightarrow>
          (case b64_scan b64buf of
             (vs, k, None) \<Rightarrow>
               Some \<lparr>al_src = src1, al_dec = dec @ vs, al_out = out, al_left = left, al_eof = False,
                     al_crc = readcrc, al_eqcount = None\<rparr>
           | (vs, k, Some eof) \<Rightarrow>
               let d = dec @ vs;
                   groups = (if length d div 4 * 3 < left then length d div 4 else left div 3);
                   out' = out @ b64_join (take (groups * 4) d);
                   left' = left - groups * 3;
                   d' = drop (groups * 4) d
               in if eof then
                    let src2 = fst (src_skip al src1 (k - 1)) in
                    (case armor_read_end al armorhdr src2 readcrc of
                       (src3, crc, eqc) \<Rightarrow>
                         Some \<lparr>al_src = src3, al_dec = d', al_out = out', al_left = left', al_eof = True,
                               al_crc = crc, al_eqcount = eqc\<rparr>)
                  else
                    let src2 = fst (src_skip al src1 (length b64buf)) in
                    if 3 \<le> left' then armored_read_loop al armorhdr readcrc src2 d' out' left'
                    else Some \<lparr>al_src = src2, al_dec = d', al_out = out', al_left = left', al_eof = False,
                               al_crc = readcrc, al_eqcount = Some 0\<rparr>))"

text \<open>The bytes of an incomplete last group, given its values and the number of padding characters.\<close>

definition b64_tail :: "bytes \<Rightarrow> nat \<Rightarrow> bytes" where
  "b64_tail d eqcount =
     (if eqcount = 1 then
        (let b24 = push_bit 10 (ucast (d ! 0)) OR push_bit 4 (ucast (d ! 1)) OR drop_bit 2 (ucast (d ! 2)) :: 32 word
         in [ucast (drop_bit 8 b24), ucast (b24 AND 0xff)])
      else if eqcount = 2 then [push_bit 2 (d ! 0) OR drop_bit 4 (d ! 1)]
      else [])"

text \<open>
  The end of \<^verbatim>\<open>armored_src_read\<close>: the decoded bytes that are left go to \<^verbatim>\<open>rest\<close>, and from
  there as many as are still wanted to the caller.  They are added to the checksum unless
  it was already computed.
\<close>

definition armored_deliver ::
    "'q armored_src_param \<Rightarrow> 'q armor_state \<Rightarrow> bytes \<Rightarrow> 'q armored_src_param option \<times> bytes option" where
  "armored_deliver param l rest =
     (let k = (if 0 < al_left l \<and> rest \<noteq> [] then min (al_left l) (length rest) else 0);
          h = (if al_eof l then as_crc_ctx param else pgp_hash_add (as_crc_ctx param) (take k rest))
      in (Some (param\<lparr>as_crc_ctx := h, as_rest := rest, as_restpos := as_restpos param + k\<rparr>),
          Some (al_out l @ take k rest)))"

text \<open>
  What follows the reading loop: the values that are left are joined; at the end of the text
  the padding and the checksum are verified.
\<close>

definition armored_read_finish ::
    "botan \<Rightarrow> 'q armored_src_param \<Rightarrow> nat \<Rightarrow> 'q armor_state \<Rightarrow> 'q armored_src_param option \<times> bytes option" where
  "armored_read_finish bo param eqcount l =
     (let d = al_dec l;
          tail = drop (length d div 4 * 4) d;
          param1 = param\<lparr>as_readsrc := al_src l, as_eofb64 := al_eof l, as_readcrc := al_crc l,
                         as_crc_ctx := pgp_hash_add (as_crc_ctx param) (al_out l)\<rparr>
      in
      if al_eof l then
        if (length tail + eqcount) mod 4 \<noteq> 0 then (Some param1, None)
        else
          let rest = b64_join d @ b64_tail tail eqcount in
          (case pgp_hash_finish bo (pgp_hash_add (as_crc_ctx param1) rest) of
             (h, n, crc_fin) \<Rightarrow>
               if n = 0 \<or> take 3 crc_fin \<noteq> al_crc l then (Some (param1\<lparr>as_crc_ctx := h\<rparr>), None)
               else armored_deliver (param1\<lparr>as_crc_ctx := h\<rparr>) l rest)
      else armored_deliver (param1\<lparr>as_brest := tail\<rparr>) l (b64_join d))"

text \<open>
  \<^verbatim>\<open>armored_src_read\<close>.  Private data that was freed is \<^const>\<open>None\<close>.  A call that never
  returns is answered like one after the source was closed.
\<close>

definition armored_src_read ::
    "botan \<Rightarrow> alloc \<Rightarrow> 'q armored_src_param option \<Rightarrow> nat \<Rightarrow> 'q armored_src_param option \<times> bytes option" where
  "armored_src_read bo al p len =
     (case p of
        None \<Rightarrow> (None, None)
      | Some param \<Rightarrow>
          let pending = drop (as_restpos param) (as_rest param) in
          if pending \<noteq> [] \<and> len \<le> length pending then
            (Some (param\<lparr>as_restpos := as_restpos param + len,
                         as_crc_ctx := pgp_hash_add (as_crc_ctx param) (take len pending)\<rparr>),
             Some (take len pending))
          else
            let left = len - length pending;
                param1 = (if pending \<noteq> [] then param\<lparr>as_rest := [], as_restpos := 0\<rparr> else param)
            in
            if as_eofb64 param then (Some param1, Some pending)
            else
              (case armored_read_loop al (case as_armorhdr param of Some h \<Rightarrow> h | None \<Rightarrow> []) (as_readcrc param)
                      (as_readsrc param) (as_brest param) pending left of
                 None \<Rightarrow> (None, None)
               | Some l \<Rightarrow>
                   (case al_eqcount l of
                      None \<Rightarrow> (Some (param1\<lparr>as_readsrc := al_src l, as_eofb64 := al_eof l, as_readcrc := al_crc l\<rparr>), None)
                    | Some eqcount \<Rightarrow> armored_read_finish bo param1 eqcount l)))"

definition armored_src_close :: "'q armored_src_param option \<Rightarrow> 'q armored_src_param option" where
  "armored_src_close p =
     map_option (\<lambda>param. param\<lparr>as_crc_ctx := fst (pgp_hash_discard (as_crc_ctx param)),
                                as_frees := as_frees param + 1\<rparr>) p"

section \<open>Armor headers\<close>

text \<open>The first position from \<open>i\<close> on, below \<open>i + k\<close>, where five dashes stand.\<close>

fun find_dashes :: "bytes \<Rightarrow> nat \<Rightarrow> nat \<Rightarrow> nat option" where
  "find_dashes buf i 0 = None"
| "find_dashes buf i (Suc k) =
     (if take 5 (drop i buf) = ST_DASHES then Some i else find_dashes buf (Suc i) k)"

text \<open>The buffer has twenty characters or more; the result is the start of the header and its length.\<close>

definition find_armor_header :: "bytes \<Rightarrow> (nat \<times> nat) option" where
  "find_armor_header buf =
     (case find_dashes buf 0 (length buf - 10) of
        None \<Rightarrow> None
      | Some st \<Rightarrow>
          (case find_dashes buf (st + 5) (length buf - 5 + 1 - (st + 5)) of
             None \<Rightarrow> None
           | Some i \<Rightarrow> Some (st, i + 5 - st)))"

definition armor_str_to_data_type :: "bytes option \<Rightarrow> nat \<Rightarrow> pgp_armored_msg" where
  "armor_str_to_data_type str len =
     (case str of
        None \<Rightarrow> PGP_ARMORED_UNKNOWN
      | Some s \<Rightarrow>
          if strncmp_eq s (str_bytes ''BEGIN PGP MESSAGE'') len then PGP_ARMORED_MESSAGE
          else if strncmp_eq s (str_bytes ''BEGIN PGP PUBLIC KEY BLOCK'') len \<or>
                  strncmp_eq s (str_bytes ''BEGIN PGP PUBLIC KEY'') len then PGP_ARMORED_PUBLIC_KEY
          else if strncmp_eq s (str_bytes ''BEGIN PGP SECRET KEY BLOCK'') len \<or>
                  strncmp_eq s (str_bytes ''BEGIN PGP SECRET KEY'') len then PGP_ARMORED_SECRET_KEY
          else if strncmp_eq s (str_bytes ''BEGIN PGP SIGNATURE'') len then PGP_ARMORED_SIGNATURE
          else if strncmp_eq s (str_bytes ''BEGIN PGP SIGNED MESSAGE'') len then PGP_ARMORED_CLEARTEXT
          else PGP_ARMORED_UNKNOWN)"

definition rnp_armor_guess_type :: "'q pgp_source \<Rightarrow> 'q pgp_source \<times> pgp_armored_msg" where
  "rnp_armor_guess_type src =
     (case src_peek src 1 of
        (src', None) \<Rightarrow> (src', PGP_ARMORED_UNKNOWN)
      | (src', Some buf) \<Rightarrow>
          (src',
           if length buf < 1 then PGP_ARMORED_UNKNOWN
           else
             let ptype = get_packet_type (buf ! 0) in
             if ptype \<in> {PGP_PTAG_CT_PK_SESSION_KEY, PGP_PTAG_CT_SK_SESSION_KEY, PGP_PTAG_CT_1_PASS_SIG,
                         PGP_PTAG_CT_SE_DATA, PGP_PTAG_CT_SE_IP_DATA, PGP_PTAG_CT_COMPRESSED, PGP_PTAG_CT_LITDATA}
             then PGP_ARMORED_MESSAGE
             else if ptype = PGP_PTAG_CT_PUBLIC_KEY then PGP_ARMORED_PUBLIC_KEY
             else if ptype = PGP_PTAG_CT_SECRET_KEY then PGP_ARMORED_SECRET_KEY
             else if ptype = PGP_PTAG_CT_SIGNATURE then PGP_ARMORED_SIGNATURE
             else PGP_ARMORED_UNKNOWN))"

definition armor_parse_header :: "alloc \<Rightarrow> 'q armored_src_param \<Rightarrow> 'q armored_src_param \<times> bool" where
  "armor_parse_header al param =
     (case src_peek (as_readsrc param) 128 of
        (src1, None) \<Rightarrow> (param\<lparr>as_readsrc := src1\<rparr>, False)
      | (src1, Some hdr) \<Rightarrow>
          let param1 = param\<lparr>as_readsrc := src1\<rparr> in
          if length hdr < 20 then (param1, False)
          else
            (case find_armor_header hdr of
               None \<Rightarrow> (param1, False)
             | Some (st, armhdrlen) \<Rightarrow>
                 let str = take (armhdrlen - 10) (drop (st + 5) hdr);
                     t = armor_str_to_data_type (Some str) (armhdrlen - 10);
                     param2 = param1\<lparr>as_type := t\<rparr>
                 in if t = PGP_ARMORED_UNKNOWN \<or> \<not> al (armhdrlen - 9) then (param2, False)
                    else (param2\<lparr>as_armorhdr := Some str, as_readsrc := fst (src_skip al src1 (st + armhdrlen))\<rparr>, True)))"

text \<open>What a header line does to the parameters; an unknown header is only logged.\<close>

definition armor_set_header :: "'q armored_src_param \<Rightarrow> bytes \<Rightarrow> 'q armored_src_param" where
  "armor_set_header param header =
     (if take 9 header = ST_HEADER_VERSION then param\<lparr>as_version := Some (drop 9 header)\<rparr>
      else if take 9 header = ST_HEADER_COMMENT then param\<lparr>as_comment := Some (drop 9 header)\<rparr>
      else if take 6 header = ST_HEADER_HASH then param\<lparr>as_hash := Some (drop 6 header)\<rparr>
      else if take 9 header = ST_HEADER_CHARSET then param\<lparr>as_charset := Some (drop 9 header)\<rparr>
      else param)"

text \<open>The header lines up to an empty one; \<^const>\<open>None\<close> if the source never comes to it.\<close>

partial_function (option) armor_parse_headers ::
    "alloc \<Rightarrow> 'q armored_src_param \<Rightarrow> ('q armored_src_param \<times> bool) option" where
  "armor_parse_headers al param =
     (case src_peek_line (as_readsrc param) 1024 of
        (src1, None) \<Rightarrow> Some (param\<lparr>as_readsrc := src1\<rparr>, False)
      | (src1, Some header) \<Rightarrow>
          if header \<noteq> [] \<and> \<not> al (length header + 1) then Some (param\<lparr>as_readsrc := src1\<rparr>, False)
          else
            let param1 = (if header \<noteq> [] then armor_set_header param header else param);
                src2 = (if header \<noteq> [] then fst (src_skip al src1 (length header)) else src1)
            in
            (case src_skip_eol al src2 of
               (src3, eol) \<Rightarrow>
                 let param2 = param1\<lparr>as_readsrc := src3\<rparr> in
                 if \<not> eol then Some (param2, False)
                 else if header \<noteq> [] then armor_parse_headers al param2
                 else Some (param2, True)))"

text \<open>
  \<^verbatim>\<open>init_armored_src\<close>: a structure of 4200 bytes is allocated, then the header line and the
  headers are parsed.  The result is the source and the result code; \<^const>\<open>None\<close> if
  parsing the headers never returns.
\<close>

definition armored_zero_param :: "'q pgp_source \<Rightarrow> 'q armored_src_param" where
  "armored_zero_param readsrc =
     \<lparr>as_readsrc = readsrc, as_type = PGP_ARMORED_UNKNOWN, as_armorhdr = None, as_version = None,
      as_comment = None, as_hash = None, as_charset = None, as_rest = [], as_restpos = 0, as_brest = [],
      as_eofb64 = False, as_readcrc = [0, 0, 0], as_crc_ctx = zero_hash, as_frees = 0\<rparr>"

definition init_armored_src ::
    "botan \<Rightarrow> alloc \<Rightarrow> 'q pgp_source \<Rightarrow> ('q armored_src_param option pgp_source \<times> rnp_result) option" where
  "init_armored_src bo al readsrc =
     (case init_src_common al 4200 None (Some (armored_zero_param readsrc)) of
        (src, ok) \<Rightarrow>
          if \<not> ok then Some (src, RNP_ERROR_OUT_OF_MEMORY)
          else
            (case pgp_hash_create bo zero_hash PGP_HASH_CRC24 of
               (h, created) \<Rightarrow>
                 if \<not> created then Some (src, RNP_ERROR_GENERIC)
                 else
                   let param = (armored_zero_param readsrc)\<lparr>as_crc_ctx := h\<rparr>;
                       src1 = src\<lparr>src_rdf := armored_src_read bo al, src_closef := Some armored_src_close,
                                  src_type := PGP_STREAM_ARMORED\<rparr>;
                       fail = (\<lambda>param. Some (src_close (src1\<lparr>src_param := Some param\<rparr>), RNP_ERROR_BAD_FORMAT))
                   in
                   (case armor_parse_header al param of
                      (param1, ok1) \<Rightarrow>
                        if \<not> ok1 then fail param1
                        else
                          (case src_skip_eol al (as_readsrc param1) of
                             (r, eol) \<Rightarrow>
                               let param2 = param1\<lparr>as_readsrc := r\<rparr> in
                               if \<not> eol then fail param2
                               else
                                 (case armor_parse_headers al param2 of
                                    None \<Rightarrow> None
                                  | Some (param3, ok3) \<Rightarrow>
                                      if \<not> ok3 then fail param3
                                      else Some (src1\<lparr>src_param := Some param3\<rparr>, RNP_SUCCESS))))))"

definition is_armored_source :: "'q pgp_source \<Rightarrow> 'q pgp_source \<times> bool" where
  "is_armored_source src =
     (case src_peek src 128 of
        (src', None) \<Rightarrow> (src', False)
      | (src', Some buf) \<Rightarrow>
          (src', length ST_ARMOR_BEGIN + 1 \<le> length buf \<and> strstr (cstr (butlast buf)) ST_ARMOR_BEGIN))"

definition is_cleartext_source :: "'q pgp_source \<Rightarrow> 'q pgp_source \<times> bool" where
  "is_cleartext_source src =
     (case src_peek src 128 of
        (src', None) \<Rightarrow> (src', False)
      | (src', Some buf) \<Rightarrow>
          (src', length ST_CLEAR_BEGIN \<le> length buf \<and> strstr (cstr (butlast buf)) ST_CLEAR_BEGIN))"

text \<open>
  The loop of \<^verbatim>\<open>rnp_dearmor_source\<close> and \<^verbatim>\<open>rnp_armor_source\<close> that copies a source to a
  destination; they differ in the result code after a failed read.  \<^const>\<open>None\<close> if the source
  never ends.
\<close>

partial_function (option) copy_loop ::
    "rnp_result \<Rightarrow> 'a pgp_source \<Rightarrow> 'b pgp_dest \<Rightarrow> ('a pgp_source \<times> 'b pgp_dest \<times> rnp_result) option" where
  "copy_loop read_error src dst =
     (if src_eofb src then Some (src, dst, RNP_SUCCESS)
      else
        (case src_read src PGP_INPUT_CACHE_SIZE of
           (src', None) \<Rightarrow> Some (src', dst, read_error)
         | (src', Some buf) \<Rightarrow>
             if buf \<noteq> [] then
               let dst' = dst_write dst buf in
               if dst_werr dst' \<noteq> RNP_SUCCESS then Some (src', dst', RNP_ERROR_WRITE)
               else copy_loop read_error src' dst'
             else copy_loop read_error src' dst))"

text \<open>
  \<^verbatim>\<open>rnp_dearmor_source\<close>.  The local \<^verbatim>\<open>armorsrc\<close> is part of the result, after it was closed.
\<close>

datatype ('a, 'b) dearmor_result = Dearmored (dr_res: rnp_result) (dr_dst: "'b pgp_dest") (dr_src: "'a pgp_source option")

definition rnp_dearmor_source ::
    "botan \<Rightarrow> alloc \<Rightarrow> 'q pgp_source \<Rightarrow> 'b pgp_dest \<Rightarrow> ('q armored_src_param option, 'b) dearmor_result option" where
  "rnp_dearmor_source bo al src dst =
     (case src_peek src (length ST_CLEAR_BEGIN + 1) of
        (src1, None) \<Rightarrow> Some (Dearmored RNP_ERROR_READ dst None)
      | (src1, Some readbuf) \<Rightarrow>
          let text = cstr (butlast readbuf) in
          if length readbuf < length ST_ARMOR_BEGIN then Some (Dearmored RNP_ERROR_READ dst None)
          else if \<not> strstr text ST_ARMOR_BEGIN \<or> strstr text ST_CLEAR_BEGIN
          then Some (Dearmored RNP_ERROR_BAD_FORMAT dst None)
          else
            (case init_armored_src bo al src1 of
               None \<Rightarrow> None
             | Some (armorsrc, res) \<Rightarrow>
                 if res \<noteq> RNP_SUCCESS then Some (Dearmored res dst (Some (src_close armorsrc)))
                 else
                   (case copy_loop RNP_ERROR_GENERIC armorsrc dst of
                      None \<Rightarrow> None
                    | Some (armorsrc', dst', res') \<Rightarrow> Some (Dearmored res' dst' (Some (src_close armorsrc'))))))"

section \<open>Writing\<close>

text \<open>\<^verbatim>\<open>pgp_dest_armored_param_t\<close>; \<open>ad_tail\<close> are the first \<^verbatim>\<open>tailc\<close> bytes of \<^verbatim>\<open>tail\<close>.\<close>

record 'q armored_dst_param =
  ad_writedst :: "'q pgp_dest"
  ad_type :: pgp_armored_msg
  ad_usecrlf :: bool
  ad_lout :: nat
  ad_llen :: nat
  ad_tail :: bytes
  ad_crc_ctx :: pgp_hash

definition armor_message_header :: "pgp_armored_msg \<Rightarrow> bool \<Rightarrow> bytes option" where
  "armor_message_header t finish =
     map_option (\<lambda>str. (if finish then ST_ARMOR_END else ST_ARMOR_BEGIN) @ str_bytes str @ ST_DASHES)
       (case t of
          PGP_ARMORED_MESSAGE \<Rightarrow> Some ''MESSAGE''
        | PGP_ARMORED_PUBLIC_KEY \<Rightarrow> Some ''PUBLIC KEY BLOCK''
        | PGP_ARMORED_SECRET_KEY \<Rightarrow> Some ''SECRET KEY BLOCK''
        | PGP_ARMORED_SIGNATURE \<Rightarrow> Some ''SIGNATURE''
        | PGP_ARMORED_CLEARTEXT \<Rightarrow> Some ''SIGNED MESSAGE''
        | PGP_ARMORED_UNKNOWN \<Rightarrow> None)"

definition armor_eol :: "'q armored_dst_param \<Rightarrow> bytes" where
  "armor_eol param = (if ad_usecrlf param then [CH_CR, CH_LF] else [CH_LF])"

definition armor_write :: "'q armored_dst_param \<Rightarrow> bytes \<Rightarrow> 'q armored_dst_param" where
  "armor_write param bs = param\<lparr>ad_writedst := dst_write (ad_writedst param) bs\<rparr>"

definition armor_write_eol :: "'q armored_dst_param \<Rightarrow> 'q armored_dst_param" where
  "armor_write_eol param = armor_write param (armor_eol param)"

definition armored_encode3 :: "bytes \<Rightarrow> bytes" where
  "armored_encode3 inp =
     [B64ENC ! unat (drop_bit 2 (inp ! 0)),
      B64ENC ! unat (push_bit 4 (inp ! 0) OR drop_bit 4 (inp ! 1)),
      B64ENC ! unat (push_bit 2 (inp ! 1) OR drop_bit 6 (inp ! 2)),
      B64ENC ! unat (inp ! 2)]"

text \<open>The inner loop over one line of input.\<close>

fun b64_line :: "bytes \<Rightarrow> bytes" where
  "b64_line (a # b # c # bs) =
     (let t = push_bit 16 (ucast a) OR push_bit 8 (ucast b) OR ucast c :: 32 word in
      [B64ENC ! unat (drop_bit 18 t AND 0xff), B64ENC ! unat (drop_bit 12 t AND 0xff),
       B64ENC ! unat (drop_bit 6 t AND 0xff), B64ENC ! unat (t AND 0xff)] @ b64_line bs)"
| "b64_line _ = []"

text \<open>
  The loop over the lines, with the output collected in a buffer of 16384 bytes.  A step that
  takes no input would be repeated for ever; the invariant of the destination excludes it
  (\<open>ad_lout\<close> is a multiple of four below \<open>ad_llen\<close>), and the model stops there.
\<close>

definition armor_line_len :: "'q armored_dst_param \<Rightarrow> nat" where
  "armor_line_len param =
     (if ad_lout param = 0 then drop_bit 2 (ad_llen param) + drop_bit 1 (ad_llen param)
      else drop_bit 2 (ad_llen param - ad_lout param) * 3)"

function armored_lines ::
    "'q armored_dst_param \<Rightarrow> bytes \<Rightarrow> bytes \<Rightarrow> 'q armored_dst_param \<times> bytes \<times> bytes" where
  "armored_lines param encbuf buf =
     (if length buf < 3 \<or> armor_line_len param = 0 then (param, encbuf, buf)
      else
        let over = (PGP_INPUT_CACHE_SIZE div 2 - ad_llen param - 2 < length encbuf);
            param1 = (if over then armor_write param encbuf else param);
            enc1 = (if over then [] else encbuf);
            full = (armor_line_len param \<le> length buf);
            n = (if full then armor_line_len param else length buf div 3 * 3);
            lout = (if full then 0 else ad_lout param + n div 3 * 4)
        in armored_lines (param1\<lparr>ad_lout := lout\<rparr>)
             (enc1 @ b64_line (take n buf) @ (if lout = 0 then armor_eol param else [])) (drop n buf))"
  by pat_completeness auto

termination
  by (relation "measure (\<lambda>(param, encbuf, buf). length buf)") auto

declare armored_lines.simps [simp del]

text \<open>The first group, of bytes that are left from the previous call and new ones.\<close>

definition armored_first :: "'q armored_dst_param \<Rightarrow> bytes \<Rightarrow> 'q armored_dst_param \<times> bytes \<times> bytes" where
  "armored_first param buf =
     (if ad_tail param = [] then (param, [], buf)
      else
        let n = 3 - length (ad_tail param);
            enc = armored_encode3 (ad_tail param @ take n buf);
            lout = ad_lout param + 4;
            line = (lout = ad_llen param)
        in (param\<lparr>ad_tail := [], ad_lout := (if line then 0 else lout)\<rparr>,
            enc @ (if line then armor_eol param else []), drop n buf))"

definition armored_dst_write ::
    "'q armored_dst_param option \<Rightarrow> nat \<Rightarrow> bytes \<Rightarrow> 'q armored_dst_param option \<times> rnp_result" where
  "armored_dst_write p writeb buf =
     (case p of
        None \<Rightarrow> (None, RNP_ERROR_BAD_PARAMETERS)
      | Some param0 \<Rightarrow>
          let param = param0\<lparr>ad_crc_ctx := pgp_hash_add (ad_crc_ctx param0) buf\<rparr> in
          if length buf + length (ad_tail param) < 3
          then (Some (param\<lparr>ad_tail := ad_tail param @ buf\<rparr>), RNP_SUCCESS)
          else
            (case armored_first param buf of
               (param1, enc1, buf1) \<Rightarrow>
                 (case armored_lines param1 enc1 buf1 of
                    (param2, enc2, buf2) \<Rightarrow>
                      (Some ((armor_write param2 enc2)\<lparr>ad_tail := buf2\<rparr>), RNP_SUCCESS))))"

text \<open>The last, incomplete group with its padding.\<close>

definition armor_tail_text :: "bytes \<Rightarrow> bytes" where
  "armor_tail_text tail =
     (if length tail = 1 then
        [B64ENC ! unat (drop_bit 2 (tail ! 0)), B64ENC ! unat (push_bit 4 (tail ! 0)), CH_EQ, CH_EQ]
      else if length tail = 2 then
        [B64ENC ! unat (drop_bit 2 (tail ! 0)),
         B64ENC ! unat (push_bit 4 (tail ! 0) OR drop_bit 4 (tail ! 1)),
         B64ENC ! unat (push_bit 2 (tail ! 1)), CH_EQ]
      else [])"

text \<open>
  \<^verbatim>\<open>armored_dst_finish\<close>.  The checksum buffer is not initialised before the library fills it;
  should that fail the model has zeros there.  A destination of unknown type does not exist,
  since initialising it fails.
\<close>

definition armored_dst_finish ::
    "botan \<Rightarrow> 'q armored_dst_param option \<Rightarrow> 'q armored_dst_param option \<times> rnp_result" where
  "armored_dst_finish bo p =
     (case p of
        None \<Rightarrow> (None, RNP_ERROR_BAD_PARAMETERS)
      | Some param \<Rightarrow>
          let param1 = armor_write param (armor_tail_text (ad_tail param));
              param2 = (if ad_tail param \<noteq> [] \<or> 0 < ad_lout param then armor_write_eol param1 else param1)
          in
          (case pgp_hash_finish bo (ad_crc_ctx param2) of
             (h, n, crc) \<Rightarrow>
               let param3 = param2\<lparr>ad_crc_ctx := h\<rparr>;
                   param4 = armor_write_eol (armor_write param3 (CH_EQ # armored_encode3 (take 3 (crc @ [0, 0, 0]))));
                   trailer = (case armor_message_header (ad_type param) True of Some s \<Rightarrow> s | None \<Rightarrow> []);
                   param5 = armor_write_eol (armor_write param4 trailer)
               in (Some param5, dst_werr (ad_writedst param5))))"

definition armored_dst_close :: "'q armored_dst_param option \<Rightarrow> bool \<Rightarrow> 'q armored_dst_param option" where
  "armored_dst_close p discard = None"

text \<open>
  \<^verbatim>\<open>init_armored_dst\<close>: a structure of 56 bytes is allocated; the fields below of the destination
  are set and its other fields stay as they are.  The header line is copied to an array of 40
  bytes, which \<^verbatim>\<open>strncpy\<close> leaves without a final zero when the package string has 31 bytes or more;
  the model ends the line there, where the code goes on with the bytes behind the array.
\<close>

definition init_armored_dst ::
    "botan \<Rightarrow> alloc \<Rightarrow> bytes \<Rightarrow> 'q armored_dst_param option pgp_dest \<Rightarrow> 'q pgp_dest \<Rightarrow> pgp_armored_msg
     \<Rightarrow> 'q armored_dst_param option pgp_dest \<times> rnp_result" where
  "init_armored_dst bo al package_string dst writedst msgtype =
     (if \<not> al 56 then (dst, RNP_ERROR_OUT_OF_MEMORY)
      else
        let param = \<lparr>ad_writedst = writedst, ad_type = msgtype, ad_usecrlf = True, ad_lout = 0, ad_llen = 76,
                     ad_tail = [], ad_crc_ctx = zero_hash\<rparr>;
            dst1 = dst\<lparr>dst_wrf := Some armored_dst_write, dst_finishf := Some (armored_dst_finish bo),
                       dst_closef := Some armored_dst_close, dst_type := PGP_STREAM_ARMORED, dst_writeb := 0,
                       dst_cache := [], dst_param := Some param, dst_werr := RNP_SUCCESS\<rparr>
        in
        (case pgp_hash_create bo zero_hash PGP_HASH_CRC24 of
           (h, created) \<Rightarrow>
             if \<not> created then (dst1, RNP_ERROR_GENERIC)
             else
               (case armor_message_header msgtype False of
                  None \<Rightarrow> (dst1\<lparr>dst_param := armored_dst_close (Some param) True\<rparr>, RNP_ERROR_BAD_PARAMETERS)
                | Some hdr \<Rightarrow>
                    let param1 = armor_write_eol (armor_write (param\<lparr>ad_crc_ctx := h\<rparr>) hdr);
                        version = cstr (take 40 (ST_HEADER_VERSION @ package_string));
                        param2 = armor_write_eol (armor_write_eol (armor_write param1 version))
                    in (dst1\<lparr>dst_param := Some param2\<rparr>, RNP_SUCCESS))))"

definition zero_dest :: "'q option pgp_dest" where
  "zero_dest = fst (init_dst_common (\<lambda>_. True) 0 None None)"

text \<open>
  \<^verbatim>\<open>rnp_armor_source\<close>.  \<^verbatim>\<open>dst_close\<close> finishes the armored destination unless it is discarded
  and then frees it; the result has the destination below it.  What finishing returns is
  not looked at.
\<close>

definition rnp_armor_source ::
    "botan \<Rightarrow> alloc \<Rightarrow> bytes \<Rightarrow> 'a pgp_source \<Rightarrow> 'q pgp_dest \<Rightarrow> pgp_armored_msg
     \<Rightarrow> ('a pgp_source \<times> 'q pgp_dest \<times> rnp_result) option" where
  "rnp_armor_source bo al package_string src dst msgtype =
     (case init_armored_dst bo al package_string zero_dest dst msgtype of
        (armordst, res) \<Rightarrow>
          if res \<noteq> RNP_SUCCESS then Some (src, dst, res)
          else
            (case copy_loop RNP_ERROR_READ src armordst of
               None \<Rightarrow> None
             | Some (src', armordst', res') \<Rightarrow>
                 let closed = (if res' = RNP_SUCCESS \<and> \<not> dst_finished armordst' then fst (dst_finish armordst')
                               else armordst')
                 in Some (src', case dst_param closed of Some param \<Rightarrow> ad_writedst param | None \<Rightarrow> dst, res')))"

end
