(* ===== verification/Armor_Base64.thy ===== *)
theory Armor_Base64
  imports Stream_Armor
begin

text \<open>The base 64 code of the armored streams: that decoding undoes encoding.\<close>

section \<open>The base 64 code\<close>

lemma B64ENC_codes: "B64ENC = concat (replicate 4
   [65, 66, 67, 68, 69, 70, 71, 72, 73, 74, 75, 76, 77, 78, 79, 80, 81, 82, 83, 84, 85, 86, 87, 88, 89, 90,
    97, 98, 99, 100, 101, 102, 103, 104, 105, 106, 107, 108, 109, 110, 111, 112, 113, 114, 115, 116, 117, 118, 119, 120, 121, 122,
    48, 49, 50, 51, 52, 53, 54, 55, 56, 57, 43, 47])"
  by (simp add: B64ENC_def str_bytes_def)

lemma length_B64ENC [simp]: "length B64ENC = 256"
  by (simp add: B64ENC_codes length_concat sum_list_replicate)

lemma B64_table: "map (\<lambda>c. unat (B64DEC ! unat c)) B64ENC = map (\<lambda>n. n mod 64) [0..<256]"
  unfolding B64ENC_codes B64DEC_def by code_simp

text \<open>The character of a six-bit value, and the value of a character.\<close>

abbreviation (input) "b64_char v \<equiv> B64ENC ! unat v"

abbreviation (input) "b64_val c \<equiv> B64DEC ! unat c"

lemma unat_less_256: "unat (v :: byte) < 256" using unsigned_less [of v] by simp

lemma B64ENC_table: "map (\<lambda>n. B64ENC ! (n mod 64)) [0..<256] = B64ENC"
  unfolding B64ENC_codes by code_simp

lemma unat_and_3f: "unat (v AND 0x3f) = unat v mod 64" for v :: byte
proof -
  have "unat (v AND mask 6) = unat v mod 64"
    by (simp add: take_bit_eq_mod unat_mod_distrib flip: take_bit_eq_mask)
  then show ?thesis by (simp add: mask_eq_exp_minus_1)
qed

lemma b64_val_char [simp]: "b64_val (b64_char v) = v AND 0x3f"
proof (rule word_eq_iff_unsigned [THEN iffD2, where 'a1 = nat])
  show "unat (b64_val (b64_char v)) = unat (v AND 0x3f)"
    using arg_cong [OF B64_table, of "\<lambda>xs. xs ! unat v"] unat_less_256 [of v] by (simp add: unat_and_3f)
qed

lemma b64_char_and: "b64_char (v AND 0x3f) = b64_char v" for v :: byte
  using arg_cong [OF B64ENC_table, of "\<lambda>xs. xs ! unat v"] unat_less_256 [of v] by (simp add: unat_and_3f)

text \<open>The six-bit values of whole groups of three bytes.\<close>

fun b64_split :: "bytes \<Rightarrow> bytes" where
  "b64_split (a # b # c # bs) =
     [drop_bit 2 a, (push_bit 4 a OR drop_bit 4 b) AND 0x3f, (push_bit 2 b OR drop_bit 6 c) AND 0x3f, c AND 0x3f]
     @ b64_split bs"
| "b64_split _ = []"

lemma byte_eqI:
  fixes a b :: byte
  assumes "bit a 0 = bit b 0" "bit a 1 = bit b 1" "bit a 2 = bit b 2" "bit a 3 = bit b 3"
    "bit a 4 = bit b 4" "bit a 5 = bit b 5" "bit a 6 = bit b 6" "bit a 7 = bit b 7"
  shows "a = b"
proof (rule bit_word_eqI)
  fix n assume "n < LENGTH(8)"
  then have "n \<in> {0, 1, 2, 3, 4, 5, 6, 7}" by auto
  then show "bit a n = bit b n" using assms by auto
qed

lemma byte_high_bit: "8 \<le> n \<Longrightarrow> \<not> bit (a :: byte) n"
  using bit_imp_le_length [of a n] by auto

lemma b64_join_split4:
  fixes a b c :: byte
  shows "b64_join (drop_bit 2 a # ((push_bit 4 a OR drop_bit 4 b) AND 0x3f) # ((push_bit 2 b OR drop_bit 6 c) AND 0x3f) #
    (c AND 0x3f) # ds) = a # b # c # b64_join ds"
  by (auto simp: Let_def intro!: byte_eqI; simp add: bit_simps byte_high_bit)

lemma div3_step: "(3 + n) div 3 = Suc (n div 3)" by simp

lemma take_3_plus: "take (3 + n) (a # b # c # xs) = a # b # c # take n xs"
  by (simp add: numeral_3_eq_3)

lemma b64_join_split: "b64_join (b64_split bs @ ds) = take (length bs div 3 * 3) bs @ b64_join ds"
  by (induction bs rule: b64_split.induct) (simp_all add: b64_join_split4 div3_step take_3_plus del: b64_join.simps(1))

lemma length_b64_split [simp]: "length (b64_split bs) = length bs div 3 * 4"
  by (induction bs rule: b64_split.induct) (simp_all add: div3_step)

lemma b64_tail1: "b64_tail [drop_bit 2 a, push_bit 4 a AND 0x3f] 2 = [a]" for a :: byte
  by (auto simp: b64_tail_def intro!: byte_eqI; simp add: bit_simps byte_high_bit)

lemma b64_tail2:
  "b64_tail [drop_bit 2 a, (push_bit 4 a OR drop_bit 4 b) AND 0x3f, push_bit 2 b AND 0x3f] 1 = [a, b]" for a b :: byte
  by (auto simp: b64_tail_def Let_def intro!: byte_eqI; simp add: bit_simps byte_high_bit)

text \<open>The encoder of a line gives the characters of these values; encoding one group is a special case.\<close>

lemma unat_low_byte: "unat (t AND 0xff) = unat (ucast t :: byte)" for t :: "32 word"
proof -
  have "unat (t AND mask 8) = unat (ucast t :: byte)"
    by (simp add: take_bit_eq_mod unat_mod_distrib unsigned_ucast_eq flip: take_bit_eq_mask)
  then show ?thesis by (simp add: mask_eq_exp_minus_1)
qed

lemma b64_line_step: "b64_line (a # b # c # bs) = armored_encode3 [a, b, c] @ b64_line bs"
proof -
  define t :: "32 word" where "t = push_bit 16 (ucast a) OR push_bit 8 (ucast b) OR ucast c"
  have t: "drop_bit 2 a = ucast (drop_bit 18 t)" "push_bit 4 a OR drop_bit 4 b = ucast (drop_bit 12 t)"
    "push_bit 2 b OR drop_bit 6 c = ucast (drop_bit 6 t)" "c = ucast t"
    by (auto simp: t_def intro!: byte_eqI; simp add: bit_simps byte_high_bit)+
  have "b64_line (a # b # c # bs) =
    [B64ENC ! unat (drop_bit 18 t AND 0xff), B64ENC ! unat (drop_bit 12 t AND 0xff),
     B64ENC ! unat (drop_bit 6 t AND 0xff), B64ENC ! unat (t AND 0xff)] @ b64_line bs"
    unfolding t_def b64_line.simps Let_def ..
  then show ?thesis using t by (simp only: armored_encode3_def unat_low_byte) (simp add: nth_Cons')
qed

lemma drop_bit_2_and: "drop_bit 2 a AND 0x3f = drop_bit 2 a" for a :: byte
  by (auto intro!: byte_eqI; simp add: bit_simps byte_high_bit)

lemma b64_line_vals: "map (\<lambda>c. B64DEC ! unat c) (b64_line bs) = b64_split bs"
  by (induction bs rule: b64_split.induct)
    (simp_all add: b64_line_step armored_encode3_def drop_bit_2_and del: b64_line.simps(1))

lemma length_b64_line [simp]: "length (b64_line bs) = length bs div 3 * 4"
  using arg_cong [OF b64_line_vals [of bs], of length] by simp

lemma b64_line_append: "3 dvd length xs \<Longrightarrow> b64_line (xs @ ys) = b64_line xs @ b64_line ys"
proof (induction xs rule: b64_line.induct)
  case (1 a b c bs)
  then have "3 dvd length bs" by simp presburger
  then show ?case using 1 by (simp add: b64_line_step del: b64_line.simps(1))
qed (auto dest: dvd_imp_le)

text \<open>
  The incomplete group at the end: its bytes, the six-bit values of the text that stands for
  them, and the padding.
\<close>

definition b64_rem :: "bytes \<Rightarrow> bytes" where
  "b64_rem bs = drop (length bs div 3 * 3) bs"

definition b64_tail_vals :: "bytes \<Rightarrow> bytes" where
  "b64_tail_vals r =
     (if length r = 1 then [drop_bit 2 (r ! 0), push_bit 4 (r ! 0) AND 0x3f]
      else if length r = 2 then
        [drop_bit 2 (r ! 0), (push_bit 4 (r ! 0) OR drop_bit 4 (r ! 1)) AND 0x3f, push_bit 2 (r ! 1) AND 0x3f]
      else [])"

definition b64_pad :: "bytes \<Rightarrow> nat" where
  "b64_pad r = (if length r = 1 then 2 else if length r = 2 then 1 else 0)"

lemma b64_rem_length: "length (b64_rem bs) < 3"
  using div_mult_mod_eq [of "length bs" 3] by (simp add: b64_rem_def minus_div_mult_eq_mod)

lemma b64_tail_text_eq:
  "length r < 3 \<Longrightarrow> armor_tail_text r = map (\<lambda>v. B64ENC ! unat v) (b64_tail_vals r) @ replicate (b64_pad r) CH_EQ"
  by (auto simp: armor_tail_text_def b64_tail_vals_def b64_pad_def b64_char_and numeral_2_eq_2)

text \<open>Decoding values: whole groups are joined, and the rest by the padding.\<close>

definition b64_decode :: "bytes \<Rightarrow> nat \<Rightarrow> bytes" where
  "b64_decode vs eqcount = b64_join vs @ b64_tail (drop (length vs div 4 * 4) vs) eqcount"

lemma b64_tail_decode: "length r < 3 \<Longrightarrow> b64_tail (b64_tail_vals r) (b64_pad r) = r"
  by (cases r rule: list.exhaust; cases "tl r") (auto simp: b64_tail_vals_def b64_pad_def b64_tail1 b64_tail2 [simplified], simp add: b64_tail_def)

lemma b64_decode_vals:
  "b64_decode (b64_split bs @ b64_tail_vals (b64_rem bs)) (b64_pad (b64_rem bs)) = bs"
proof -
  have len: "length (b64_tail_vals (b64_rem bs)) < 4" by (simp add: b64_tail_vals_def)
  then have "b64_join (b64_tail_vals (b64_rem bs)) = []" by (auto simp: b64_tail_vals_def)
  moreover have "(length bs div 3 * 4 + length (b64_tail_vals (b64_rem bs))) div 4 = length bs div 3" using len by simp
  ultimately show ?thesis
    using b64_tail_decode [OF b64_rem_length, of bs]
    by (simp add: b64_decode_def b64_join_split b64_rem_def)
qed

lemma b64_pad_length: "(length (b64_split bs @ b64_tail_vals (b64_rem bs)) + b64_pad (b64_rem bs)) mod 4 = 0"
  using b64_rem_length [of bs] by (auto simp: b64_tail_vals_def b64_pad_def)

end
