(* ===== verification/Armor_Write.thy ===== *)
theory Armor_Write
  imports Armor_Base64
begin

text \<open>
  The armored destination: whatever the pieces in which data is written, the destination
  below it receives the base 64 text of the data, broken into lines of 76 characters.
\<close>

section \<open>Lines\<close>

text \<open>Text broken after every 76 characters, beginning in column \<open>col\<close>.\<close>

fun armor_wrap :: "nat \<Rightarrow> bytes \<Rightarrow> bytes" where
  "armor_wrap col [] = []"
| "armor_wrap col (c # cs) =
     c # (if Suc col = 76 then CH_CR # CH_LF # armor_wrap 0 cs else armor_wrap (Suc col) cs)"

lemma armor_wrap_append:
  "col < 76 \<Longrightarrow> armor_wrap col (xs @ ys) = armor_wrap col xs @ armor_wrap ((col + length xs) mod 76) ys"
proof (induction xs arbitrary: col)
  case (Cons x xs)
  then show ?case using Cons.IH [of 0] Cons.IH [of "Suc col"] by auto
qed simp

lemma length_armor_wrap: "length (armor_wrap col cs) \<le> 3 * length cs"
proof (induction cs arbitrary: col)
  case (Cons c cs)
  from Cons.IH [of 0] Cons.IH [of "Suc col"] show ?case by auto
qed simp

lemma armor_wrap_short: "col + length cs < 76 \<Longrightarrow> armor_wrap col cs = cs"
  by (induction cs arbitrary: col) auto

lemma armor_wrap_full: "col + length cs = 76 \<Longrightarrow> cs \<noteq> [] \<Longrightarrow> armor_wrap col cs = cs @ [CH_CR, CH_LF]"
proof (induction cs arbitrary: col)
  case (Cons c cs)
  then show ?case by (cases "cs = []") auto
qed simp

lemma b64_rem_drop: "3 dvd n \<Longrightarrow> n \<le> length buf \<Longrightarrow> b64_rem (drop n buf) = b64_rem buf"
proof (elim dvdE)
  fix k assume "n = 3 * k" "n \<le> length buf"
  then show ?thesis using div_mult_self4 [of 3 k "length buf - n"] by (simp add: b64_rem_def ac_simps)
qed

lemma b64_line_take_drop: "3 dvd n \<Longrightarrow> n \<le> length buf \<Longrightarrow> b64_line (take n buf) @ b64_line (drop n buf) = b64_line buf"
  using b64_line_append [of "take n buf" "drop n buf"] by simp

text \<open>What writing armor relies on in the parameters.\<close>

definition armor_layout :: "'q armored_dst_param \<Rightarrow> bool" where
  "armor_layout p \<longleftrightarrow> ad_llen p = 76 \<and> ad_usecrlf p \<and> ad_lout p < 76 \<and> 4 dvd ad_lout p"

lemma armor_line_len_eq: "armor_layout p \<Longrightarrow> armor_line_len p = (76 - ad_lout p) div 4 * 3"
  by (simp add: armor_layout_def armor_line_len_def drop_bit_eq_div)

lemma dvd4_cases: "4 dvd n \<Longrightarrow> n < 76 \<Longrightarrow> \<exists>k. n = 4 * k \<and> k < 19" for n :: nat
  by (auto elim!: dvdE)

context receiver
begin

lemma armor_write_recv: "recv (ad_writedst p) w \<Longrightarrow> recv (ad_writedst (armor_write p bs)) (w @ bs)"
  by (simp add: armor_write_def recv_write)

lemma armored_lines_recv:
  assumes "armor_layout p" "recv (ad_writedst p) w" "length e \<le> 16384"
  shows "\<exists>d e' w'. armored_lines p e buf =
      (p\<lparr>ad_writedst := d, ad_lout := (ad_lout p + length (b64_line buf)) mod 76\<rparr>, e', b64_rem buf) \<and>
    recv d w' \<and> w' @ e' = w @ e @ armor_wrap (ad_lout p) (b64_line buf) \<and> length e' \<le> 16384"
  using assms
proof (induction p e buf arbitrary: w rule: armored_lines.induct)
  case (1 p e buf)
  obtain k where k: "ad_lout p = 4 * k" "k < 19" using 1(2) dvd4_cases by (auto simp: armor_layout_def)
  have L: "armor_line_len p = (19 - k) * 3" using armor_line_len_eq [OF 1(2)] k by (simp add: diff_mult_distrib2)
  show ?case
  proof (cases "length buf < 3")
    case True
    then have "b64_line buf = []" using length_b64_line [of buf] by (simp flip: length_0_conv)
    moreover have "b64_rem buf = buf" using True by (simp add: b64_rem_def)
    moreover have "armored_lines p e buf = (p, e, buf)" using True by (subst armored_lines.simps) simp
    moreover have "ad_lout p mod 76 = ad_lout p" using 1(2) by (simp add: armor_layout_def)
    ultimately show ?thesis using 1(3,4) by (intro exI [of _ "ad_writedst p"] exI [of _ e] exI [of _ w]) simp
  next
    case False
    define over where "over = (PGP_INPUT_CACHE_SIZE div 2 - ad_llen p - 2 < length e)"
    define p1 where "p1 = (if over then armor_write p e else p)"
    define e1 where "e1 = (if over then [] else e)"
    define full where "full = (armor_line_len p \<le> length buf)"
    define n where "n = (if full then armor_line_len p else length buf div 3 * 3)"
    define lout where "lout = (if full then 0 else ad_lout p + n div 3 * 4)"
    define e2 where "e2 = e1 @ b64_line (take n buf) @ (if lout = 0 then armor_eol p else [])"
    have "3 dvd n" by (simp add: n_def L)
    moreover have "n \<le> length buf" using div_times_less_eq_dividend [of "length buf" 3] by (simp add: n_def full_def)
    moreover have "0 < n" using False L k(2) by (simp add: n_def div_greater_zero_iff)
    ultimately have n: "3 dvd n" "n \<le> length buf" "0 < n" by blast+
    have lo: "length e1 + 78 \<le> 16384" using 1(2,4)
      by (auto simp: e1_def over_def PGP_INPUT_CACHE_SIZE_def armor_layout_def)
    have step: "armored_lines p e buf = armored_lines (p1\<lparr>ad_lout := lout\<rparr>) e2 (drop n buf)"
      using False L k(2)
      by (subst armored_lines.simps) (simp add: Let_def over_def p1_def e1_def full_def n_def lout_def e2_def)
    have w1: "recv (ad_writedst (p1\<lparr>ad_lout := lout\<rparr>)) (if over then w @ e else w)"
      using 1(3) by (auto simp: p1_def intro: armor_write_recv)
    have wrap: "armor_wrap (ad_lout p) (b64_line (take n buf)) =
        b64_line (take n buf) @ (if lout = 0 then armor_eol p else []) \<and> lout = (ad_lout p + n div 3 * 4) mod 76 \<and>
        lout < 76 \<and> 4 dvd lout \<and> n div 3 * 4 \<le> 76"
    proof (cases full)
      case True
      then have "ad_lout p + n div 3 * 4 = 76" using k L by (simp add: n_def)
      moreover have "b64_line (take n buf) \<noteq> []" using n dvd_imp_le [OF n(1,3)]
        by (auto simp: div_greater_zero_iff simp flip: length_0_conv)
      ultimately show ?thesis using True n 1(2)
        by (subst armor_wrap_full) (auto simp: lout_def armor_layout_def armor_eol_def min_def)
    next
      case False
      then have "n < (19 - k) * 3" "3 dvd n" using L by (auto simp: n_def full_def)
      then have lt: "n div 3 + k < 19" using k(2) by auto
      then have "ad_lout p + n div 3 * 4 < 76" using k by simp
      moreover have "0 < n div 3" using n by auto
      ultimately show ?thesis using False n k
        by (subst armor_wrap_short) (auto simp: lout_def min_def)
    qed
    have lay: "armor_layout (p1\<lparr>ad_lout := lout\<rparr>)" using 1(2) wrap by (auto simp: armor_layout_def p1_def armor_write_def)
    have e2: "length e2 \<le> 16384" using lo wrap n 1(2) by (auto simp: e2_def armor_eol_def min_def)
    have go: "\<not> (length buf < 3 \<or> armor_line_len p = 0)" using False L k(2) by simp
    obtain d e' w' where ih: "armored_lines (p1\<lparr>ad_lout := lout\<rparr>) e2 (drop n buf) =
      (p1\<lparr>ad_writedst := d, ad_lout := (lout + length (b64_line (drop n buf))) mod 76\<rparr>, e', b64_rem (drop n buf))"
      "recv d w'" "w' @ e' = (if over then w @ e else w) @ e2 @ armor_wrap lout (b64_line (drop n buf))"
      "length e' \<le> 16384"
      using "1.IH" [OF go over_def p1_def e1_def full_def n_def lout_def, folded e2_def, OF lay w1 e2] by auto
    have out: "w' @ e' = w @ e @ armor_wrap (ad_lout p) (b64_line buf)"
      using ih(3) wrap armor_wrap_append [of "ad_lout p" "b64_line (take n buf)" "b64_line (drop n buf)"] n k
      by (auto simp: e2_def e1_def b64_line_take_drop min_def)
    have col: "(lout + length (b64_line (drop n buf))) mod 76 = (ad_lout p + length (b64_line buf)) mod 76"
    proof -
      have "length buf div 3 * 4 = n div 3 * 4 + (length buf - n) div 3 * 4"
        using n arg_cong [OF b64_line_take_drop [OF n(1,2)], of length] by (simp add: min_def split: if_splits)
      then show ?thesis using wrap by (simp add: mod_simps add.assoc)
    qed
    have "armored_lines p e buf =
        (p\<lparr>ad_writedst := d, ad_lout := (ad_lout p + length (b64_line buf)) mod 76\<rparr>, e', b64_rem buf)"
      using step ih(1) b64_rem_drop [OF n(1,2)] col by (simp add: p1_def armor_write_def)
    with ih(2,4) out show ?thesis by blast
  qed
qed

end

text \<open>
  \<open>data\<close> has been accepted by the armoring callback whose destination had received \<open>base\<close>: the
  whole groups are encoded and wrapped, the rest is kept, and the checksum context has seen all.
\<close>

definition armored_accepted ::
    "('q pgp_dest \<Rightarrow> bytes \<Rightarrow> bool) \<Rightarrow> bytes \<Rightarrow> pgp_armored_msg \<Rightarrow> 'q armored_dst_param option \<Rightarrow> bytes \<Rightarrow> bool" where
  "armored_accepted recv base t param data \<longleftrightarrow>
     (\<exists>p. param = Some p \<and> armor_layout p \<and> ad_type p = t \<and>
        ad_lout p = length (b64_line data) mod 76 \<and> ad_tail p = b64_rem data \<and>
        h_handle (ad_crc_ctx p) = Some (''CRC24'', data) \<and>
        recv (ad_writedst p) (base @ armor_wrap 0 (b64_line data)))"

lemma b64_short: "length bs < 3 \<Longrightarrow> b64_line bs = [] \<and> b64_rem bs = bs"
  using length_b64_line [of bs] by (simp add: b64_rem_def flip: length_0_conv)

text \<open>Encoding in pieces: only the incomplete group is carried over.\<close>

lemma b64_append:
  "b64_line (data @ bs) = b64_line data @ b64_line (b64_rem data @ bs)"
  "b64_rem (data @ bs) = b64_rem (b64_rem data @ bs)"
proof -
  define n where "n = length data div 3 * 3"
  have n: "3 dvd n" "n \<le> length data" by (simp_all add: n_def)
  have rem: "b64_rem data = drop n data" by (simp add: n_def b64_rem_def)
  have "b64_line data = b64_line (take n data) @ b64_line (b64_rem data)"
    using b64_line_take_drop [OF n] by (simp add: rem)
  also have "b64_line (b64_rem data) = []" using b64_short [OF b64_rem_length] by blast
  finally show "b64_line (data @ bs) = b64_line data @ b64_line (b64_rem data @ bs)"
    using b64_line_take_drop [of n "data @ bs"] n by (simp add: rem)
  show "b64_rem (data @ bs) = b64_rem (b64_rem data @ bs)"
    using b64_rem_drop [of n "data @ bs"] n by (simp add: rem)
qed

lemma b64_line_3: "length x = 3 \<Longrightarrow> b64_line x = armored_encode3 x"
proof -
  assume "length x = 3"
  then obtain a b c where "x = [a, b, c]" by (auto simp: numeral_3_eq_3 length_Suc_conv)
  then show ?thesis by (simp add: b64_line_step del: b64_line.simps(1))
qed

lemma armored_first_eq:
  assumes "armor_layout p" "length (ad_tail p) < 3" "3 \<le> length bs + length (ad_tail p)"
  shows "\<exists>x. armored_first p bs =
       (p\<lparr>ad_tail := [], ad_lout := (ad_lout p + length (b64_line x)) mod 76\<rparr>, armor_wrap (ad_lout p) (b64_line x),
        drop (length x - length (ad_tail p)) bs) \<and>
     3 dvd length x \<and> x @ drop (length x - length (ad_tail p)) bs = ad_tail p @ bs \<and> length x \<le> 3"
proof (cases "ad_tail p = []")
  case True
  have "p = p\<lparr>ad_tail := [], ad_lout := ad_lout p mod 76\<rparr>" using True assms(1) by (simp add: armor_layout_def)
  then show ?thesis using True by (intro exI [of _ "[]"]) (simp add: armored_first_def)
next
  case False
  define x where "x = ad_tail p @ take (3 - length (ad_tail p)) bs"
  have x: "length x = 3" using assms by (simp add: x_def)
  have enc: "b64_line x = armored_encode3 x" "length (armored_encode3 x) = 4"
    using b64_line_3 [OF x] by (simp_all add: armored_encode3_def)
  obtain k where k: "ad_lout p = 4 * k" "k < 19" using assms(1) dvd4_cases by (auto simp: armor_layout_def)
  have "armor_wrap (ad_lout p) (b64_line x) =
      b64_line x @ (if ad_lout p + 4 = ad_llen p then armor_eol p else []) \<and>
    (ad_lout p + 4) mod 76 = (if ad_lout p + 4 = ad_llen p then 0 else ad_lout p + 4)"
  proof (cases "k = 18")
    case True
    then show ?thesis using k assms(1) enc
      by (subst armor_wrap_full) (auto simp: armor_layout_def armor_eol_def)
  next
    case False
    then show ?thesis using k assms(1) enc by (subst armor_wrap_short) (auto simp: armor_layout_def)
  qed
  then show ?thesis using False x enc
    by (intro exI [of _ x]) (auto simp: armored_first_def Let_def x_def)
qed

context receiver
begin

lemma armored_dst_write_accepted:
  assumes "armored_accepted recv base t param data"
  shows "\<exists>param'. armored_dst_write param m bs = (param', RNP_SUCCESS) \<and>
                  armored_accepted recv base t param' (data @ bs)"
proof -
  obtain p0 where p0: "param = Some p0" "armor_layout p0" "ad_type p0 = t"
    "ad_lout p0 = length (b64_line data) mod 76" "ad_tail p0 = b64_rem data"
    "h_handle (ad_crc_ctx p0) = Some (''CRC24'', data)" "recv (ad_writedst p0) (base @ armor_wrap 0 (b64_line data))"
    using assms by (auto simp: armored_accepted_def)
  define p where "p = p0\<lparr>ad_crc_ctx := pgp_hash_add (ad_crc_ctx p0) bs\<rparr>"
  have p: "armor_layout p" "ad_lout p = ad_lout p0" "ad_tail p = b64_rem data" "ad_type p = t"
    "h_handle (ad_crc_ctx p) = Some (''CRC24'', data @ bs)" "ad_writedst p = ad_writedst p0"
    using p0 by (auto simp: p_def armor_layout_def pgp_hash_add_def)
  show ?thesis
  proof (cases "length bs + length (ad_tail p) < 3")
    case True
    then have b: "b64_line (data @ bs) = b64_line data" "b64_rem (data @ bs) = b64_rem data @ bs"
      using b64_append [of data bs] b64_short [of "b64_rem data @ bs"] p(3) by simp_all
    have "armored_dst_write param m bs = (Some (p\<lparr>ad_tail := ad_tail p @ bs\<rparr>), RNP_SUCCESS)"
      using True by (simp add: armored_dst_write_def p0(1) Let_def flip: p_def)
    moreover have "armored_accepted recv base t (Some (p\<lparr>ad_tail := ad_tail p @ bs\<rparr>)) (data @ bs)"
      using p p0(4,7) b by (simp add: armored_accepted_def armor_layout_def)
    ultimately show ?thesis by blast
  next
    case False
    obtain x where x: "armored_first p bs =
       (p\<lparr>ad_tail := [], ad_lout := (ad_lout p + length (b64_line x)) mod 76\<rparr>, armor_wrap (ad_lout p) (b64_line x),
        drop (length x - length (ad_tail p)) bs)" "3 dvd length x"
      "x @ drop (length x - length (ad_tail p)) bs = b64_rem data @ bs" "length x \<le> 3"
      using armored_first_eq [OF p(1), of bs] False b64_rem_length [of data] p(3) by auto
    define p1 where "p1 = p\<lparr>ad_tail := [], ad_lout := (ad_lout p + length (b64_line x)) mod 76\<rparr>"
    define y where "y = drop (length x - length (ad_tail p)) bs"
    have p1: "armor_layout p1" "recv (ad_writedst p1) (base @ armor_wrap 0 (b64_line data))"
      using p(1,6) p0(7) x(2) by (auto simp: p1_def armor_layout_def dvd_mod)
    have "length (armor_wrap (ad_lout p) (b64_line x)) \<le> 16384"
      using length_armor_wrap [of "ad_lout p" "b64_line x"] x(4) by simp
    then obtain d e w where l: "armored_lines p1 (armor_wrap (ad_lout p) (b64_line x)) y =
        (p1\<lparr>ad_writedst := d, ad_lout := (ad_lout p1 + length (b64_line y)) mod 76\<rparr>, e, b64_rem y)" "recv d w"
      "w @ e = (base @ armor_wrap 0 (b64_line data)) @ armor_wrap (ad_lout p) (b64_line x) @ armor_wrap (ad_lout p1) (b64_line y)"
      using armored_lines_recv [OF p1] by blast
    define q where "q = (armor_write (p1\<lparr>ad_writedst := d, ad_lout := (ad_lout p1 + length (b64_line y)) mod 76\<rparr>) e)
      \<lparr>ad_tail := b64_rem y\<rparr>"
    have xy: "x @ y = b64_rem data @ bs" using x(3) by (simp add: y_def)
    have line: "b64_line (data @ bs) = b64_line data @ b64_line x @ b64_line y"
      using b64_append(1) [of data bs] b64_line_append [OF x(2), of y] by (simp add: xy)
    have rem: "b64_rem (data @ bs) = b64_rem y"
      using b64_append(2) [of data bs] b64_rem_drop [of "length x" "x @ y"] x(2) by (simp flip: xy)
    have "armored_dst_write param m bs = (Some q, RNP_SUCCESS)"
      using False x(1) l(1) by (simp add: armored_dst_write_def p0(1) Let_def q_def p1_def y_def flip: p_def)
    moreover have "armored_accepted recv base t (Some q) (data @ bs)"
    proof -
      have "armor_wrap 0 (b64_line (data @ bs)) = armor_wrap 0 (b64_line data) @
          armor_wrap (ad_lout p) (b64_line x) @ armor_wrap (ad_lout p1) (b64_line y)"
        unfolding line by (simp add: armor_wrap_append p1_def p(2) p0(4) mod_simps)
      with armor_write_recv [of "p1\<lparr>ad_writedst := d, ad_lout := (ad_lout p1 + length (b64_line y)) mod 76\<rparr>" w e] l(2,3)
      have "recv (ad_writedst q) (base @ armor_wrap 0 (b64_line (data @ bs)))" by (simp add: q_def)
      moreover have "ad_lout q = length (b64_line (data @ bs)) mod 76"
        by (simp add: line q_def armor_write_def p1_def p(2) p0(4) mod_simps add.assoc del: length_b64_line)
      moreover have "armor_layout q" using p1(1) by (auto simp: q_def armor_write_def armor_layout_def dvd_mod)
      ultimately show ?thesis using p rem by (simp add: armored_accepted_def q_def armor_write_def p1_def)
    qed
    ultimately show ?thesis by blast
  qed
qed

end

section \<open>The whole armor\<close>

definition armor_head :: "bytes \<Rightarrow> pgp_armored_msg \<Rightarrow> bytes" where
  "armor_head package_string t =
     the (armor_message_header t False) @ [CH_CR, CH_LF] @
     cstr (take 40 (ST_HEADER_VERSION @ package_string)) @ [CH_CR, CH_LF] @ [CH_CR, CH_LF]"

definition armor_body :: "bytes \<Rightarrow> bytes" where
  "armor_body data =
     armor_wrap 0 (b64_line data) @ armor_tail_text (b64_rem data) @
     (if b64_rem data \<noteq> [] \<or> length (b64_line data) mod 76 \<noteq> 0 then [CH_CR, CH_LF] else [])"

definition armor_foot :: "pgp_armored_msg \<Rightarrow> bytes \<Rightarrow> bytes" where
  "armor_foot t crc =
     CH_EQ # armored_encode3 crc @ [CH_CR, CH_LF] @ the (armor_message_header t True) @ [CH_CR, CH_LF]"

text \<open>The library offers CRC-24 with an output of three bytes.\<close>

definition crc24_ok :: "botan \<Rightarrow> bool" where
  "crc24_ok bo \<longleftrightarrow>
     bo_hash_init bo ''CRC24'' \<and> bo_hash_output_length bo ''CRC24'' = Some 3 \<and>
     (\<forall>bs. \<exists>crc. bo_hash_final bo ''CRC24'' bs = Some crc \<and> length crc = 3)"

definition crc24 :: "botan \<Rightarrow> bytes \<Rightarrow> bytes" where
  "crc24 bo bs = the (bo_hash_final bo ''CRC24'' bs)"

lemma crc24: "crc24_ok bo \<Longrightarrow> bo_hash_final bo ''CRC24'' bs = Some (crc24 bo bs) \<and> length (crc24 bo bs) = 3"
  by (metis crc24_def crc24_ok_def option.sel)

lemma crc24_create:
  "crc24_ok bo \<Longrightarrow> pgp_hash_create bo zero_hash PGP_HASH_CRC24 =
     (\<lparr>h_handle = Some (''CRC24'', []), h_output_len = 3, h_alg = PGP_HASH_CRC24\<rparr>, True)"
  by (simp add: pgp_hash_create_def crc24_ok_def pgp_hash_name_botan_def hash_alg_map_def)

definition armored_recv ::
    "('q pgp_dest \<Rightarrow> bytes \<Rightarrow> bool) \<Rightarrow> botan \<Rightarrow> bytes \<Rightarrow> pgp_armored_msg \<Rightarrow> 'q armored_dst_param option pgp_dest \<Rightarrow> bytes \<Rightarrow> bool" where
  "armored_recv recv bo base t =
     recv_accepted armored_dst_write (Some (armored_dst_finish bo)) (armored_accepted recv base t)"

lemma armor_header_known: "t \<noteq> PGP_ARMORED_UNKNOWN \<Longrightarrow> \<exists>s. armor_message_header t f = Some s"
  by (cases t) (simp_all add: armor_message_header_def)

context receiver
begin

lemma armored_acceptor: "acceptor armored_dst_write (armored_accepted recv base t)"
  by unfold_locales (rule armored_dst_write_accepted)

lemma armored_receiver: "receiver (armored_recv recv bo base t)"
  unfolding armored_recv_def by (rule acceptor.accepted_receiver [OF armored_acceptor])

lemma armor_write_eol_recv:
  "ad_usecrlf p \<Longrightarrow> recv (ad_writedst p) w \<Longrightarrow> recv (ad_writedst (armor_write_eol p)) (w @ [CH_CR, CH_LF])"
  using armor_write_recv [of p w "[CH_CR, CH_LF]"] by (simp add: armor_write_eol_def armor_eol_def)

lemma init_armored_recv:
  assumes "recv d a" "crc24_ok bo" "t \<noteq> PGP_ARMORED_UNKNOWN"
  obtains ad where "init_armored_dst bo (\<lambda>_. True) package_string zero_dest d t = (ad, RNP_SUCCESS)"
    "armored_recv recv bo (a @ armor_head package_string t) t ad []" "\<not> dst_finished ad"
proof -
  define h where "h = \<lparr>h_handle = Some (''CRC24'', [] :: bytes), h_output_len = 3, h_alg = PGP_HASH_CRC24\<rparr>"
  define p where "p = \<lparr>ad_writedst = d, ad_type = t, ad_usecrlf = True, ad_lout = 0, ad_llen = 76,
                     ad_tail = [], ad_crc_ctx = h\<rparr>"
  define v where "v = cstr (take 40 (ST_HEADER_VERSION @ package_string))"
  define q where "q = armor_write_eol (armor_write_eol (armor_write (armor_write_eol (armor_write p (the (armor_message_header t False)))) v))"
  have frame: "ad_type q = t \<and> ad_usecrlf q \<and> ad_lout q = 0 \<and> ad_llen q = 76 \<and> ad_tail q = [] \<and> ad_crc_ctx q = h"
    by (simp add: q_def armor_write_eol_def armor_write_def p_def)
  have "recv (ad_writedst q) (a @ armor_head package_string t)"
  proof -
    have "recv (ad_writedst p) a" using assms(1) by (simp add: p_def)
    then have "recv (ad_writedst q) (((((a @ the (armor_message_header t False)) @ [CH_CR, CH_LF]) @ v) @ [CH_CR, CH_LF]) @ [CH_CR, CH_LF])"
      unfolding q_def by (intro armor_write_eol_recv armor_write_recv) (simp_all add: armor_write_eol_def armor_write_def p_def)
    then show ?thesis by (simp add: armor_head_def v_def)
  qed
  then have acc: "armored_accepted recv (a @ armor_head package_string t) t (Some q) []"
    using frame by (simp add: armored_accepted_def armor_layout_def h_def b64_rem_def)
  define ad where "ad = (zero_dest\<lparr>dst_wrf := Some armored_dst_write, dst_finishf := Some (armored_dst_finish bo),
                       dst_closef := Some armored_dst_close, dst_type := PGP_STREAM_ARMORED, dst_writeb := 0,
                       dst_cache := [], dst_param := Some q, dst_werr := RNP_SUCCESS\<rparr>)"
  have "init_armored_dst bo (\<lambda>_. True) package_string zero_dest d t = (ad, RNP_SUCCESS)"
    using crc24_create [OF assms(2)] armor_header_known [OF assms(3), of False]
    by (auto simp: init_armored_dst_def ad_def q_def v_def p_def h_def Let_def)
  moreover have "armored_recv recv bo (a @ armor_head package_string t) t ad []"
    using acc by (simp add: armored_recv_def recv_accepted_def ad_def zero_dest_def init_dst_common_def)
  moreover have "\<not> dst_finished ad" by (simp add: ad_def zero_dest_def init_dst_common_def)
  ultimately show thesis by (rule that)
qed

lemma armored_finish_recv:
  assumes "armored_recv recv bo base t ad data" "crc24_ok bo" "t \<noteq> PGP_ARMORED_UNKNOWN"
  obtains ad' p where "dst_finish ad = (ad', dst_werr (ad_writedst p))" "dst_param ad' = Some p"
    "recv (ad_writedst p) (base @ armor_body data @ armor_foot t (crc24 bo data))"
proof -
  note f = acceptor.accepted_flush [OF armored_acceptor assms(1) [unfolded armored_recv_def]]
  obtain p where p: "dst_param (dst_flush ad) = Some p" "armor_layout p" "ad_type p = t"
    "ad_lout p = length (b64_line data) mod 76" "ad_tail p = b64_rem data"
    "h_handle (ad_crc_ctx p) = Some (''CRC24'', data)" "recv (ad_writedst p) (base @ armor_wrap 0 (b64_line data))"
    "dst_finishf (dst_flush ad) = Some (armored_dst_finish bo)"
    using f by (auto simp: recv_accepted_def armored_accepted_def)
  define p1 where "p1 = armor_write p (armor_tail_text (ad_tail p))"
  define p2 where "p2 = (if ad_tail p \<noteq> [] \<or> 0 < ad_lout p then armor_write_eol p1 else p1)"
  define h where "h = (ad_crc_ctx p)\<lparr>h_handle := None, h_output_len := 0\<rparr>"
  define p3 where "p3 = p2\<lparr>ad_crc_ctx := h\<rparr>"
  define p5 where "p5 = armor_write_eol (armor_write (armor_write_eol (armor_write p3
    (CH_EQ # armored_encode3 (crc24 bo data)))) (the (armor_message_header t True)))"
  have frame: "ad_usecrlf p1" "ad_crc_ctx p2 = ad_crc_ctx p" "ad_usecrlf p3" "ad_writedst p3 = ad_writedst p2"
    using p(2) by (auto simp: p3_def p2_def p1_def armor_write_eol_def armor_write_def armor_layout_def)
  have r1: "recv (ad_writedst p1) ((base @ armor_wrap 0 (b64_line data)) @ armor_tail_text (ad_tail p))"
    unfolding p1_def by (rule armor_write_recv [OF p(7)])
  have "recv (ad_writedst p2) (base @ armor_body data)"
    using armor_write_eol_recv [OF frame(1) r1] r1 p(4,5) by (auto simp: p2_def armor_body_def)
  then have "recv (ad_writedst p5)
    (((((base @ armor_body data) @ (CH_EQ # armored_encode3 (crc24 bo data))) @ [CH_CR, CH_LF]) @
      the (armor_message_header t True)) @ [CH_CR, CH_LF])"
    unfolding p5_def using frame(3,4)
    by (intro armor_write_eol_recv armor_write_recv) (simp_all add: armor_write_eol_def armor_write_def)
  then have out: "recv (ad_writedst p5) (base @ armor_body data @ armor_foot t (crc24 bo data))"
    by (simp add: armor_foot_def)
  have fin: "pgp_hash_finish bo (ad_crc_ctx p2) = (h, h_output_len (ad_crc_ctx p), crc24 bo data)"
    using crc24 [OF assms(2), of data] p(6) by (simp add: pgp_hash_finish_def frame(2) h_def)
  obtain trailer where "armor_message_header t True = Some trailer" using armor_header_known [OF assms(3)] by blast
  then have "armored_dst_finish bo (Some p) = (Some p5, dst_werr (ad_writedst p5))"
    using fin crc24 [OF assms(2), of data] p(3)
    unfolding armored_dst_finish_def option.case Let_def p1_def [symmetric] p2_def [symmetric] fin
    by (simp add: p5_def p3_def)
  then have "dst_finish ad = ((dst_flush ad)\<lparr>dst_param := Some p5, dst_finished := True\<rparr>, dst_werr (ad_writedst p5))"
    using p(1,8) by (simp add: dst_finish_def)
  then show thesis using out by (intro that) auto
qed

end

end
