(* ===== verification/Stream_Copy.thy ===== *)
theory Stream_Copy
  imports Armor_Write
begin

text \<open>
  Copying a source in blocks of the size of the input cache.  What the copying loop needs from
  a source is the locale \<open>block_reader\<close>.  A reliable source satisfies it for every size; an
  armored source only delivers its data when it is read in large blocks, which is what the
  locale \<open>block_source\<close> states of a callback.
\<close>

section \<open>The copying loop\<close>

locale block_reader =
  fixes holds :: "'q pgp_source \<Rightarrow> bytes \<Rightarrow> bool"
  assumes read_block: "holds s a \<Longrightarrow> \<not> src_eofb s \<Longrightarrow>
      \<exists>s'. src_read s PGP_INPUT_CACHE_SIZE = (s', Some (take PGP_INPUT_CACHE_SIZE a)) \<and>
           holds s' (drop PGP_INPUT_CACHE_SIZE a) \<and> (a = [] \<longrightarrow> src_eofb s')"
    and holds_eof: "holds s a \<Longrightarrow> src_eofb s \<Longrightarrow> a = []"
begin

lemma copy_loop_recv:
  assumes "receiver recv" "\<And>d b. recv d b \<Longrightarrow> length b \<le> n \<Longrightarrow> dst_werr d = RNP_SUCCESS"
    and "holds s a" "recv d w" "length w + length a \<le> n"
  shows "\<exists>s' d'. copy_loop e s d = Some (s', d', RNP_SUCCESS) \<and> recv d' (w @ a) \<and> holds s' []"
  using assms(3-5)
proof (induction "length a" arbitrary: s d w a rule: less_induct)
  case less
  show ?case
  proof (cases "src_eofb s")
    case True
    then have "a = []" using less.prems(1) holds_eof by blast
    with True less.prems show ?thesis by (subst copy_loop.simps) auto
  next
    case False
    let ?b = "take PGP_INPUT_CACHE_SIZE a" and ?d = "dst_write d (take PGP_INPUT_CACHE_SIZE a)"
    obtain s' where s': "src_read s PGP_INPUT_CACHE_SIZE = (s', Some ?b)"
      "holds s' (drop PGP_INPUT_CACHE_SIZE a)" "a = [] \<longrightarrow> src_eofb s'"
      using read_block [OF less.prems(1) False] by blast
    show ?thesis
    proof (cases "a = []")
      case True
      then have "copy_loop e s d = Some (s', d, RNP_SUCCESS)"
        using False s' by (subst copy_loop.simps) (simp add: copy_loop.simps [of _ s'])
      then show ?thesis using True less.prems s' by auto
    next
      case nonempty: False
      have b: "?b \<noteq> []" using nonempty by (simp add: PGP_INPUT_CACHE_SIZE_def)
      have d: "recv ?d (w @ ?b)" by (rule receiver.recv_write [OF assms(1) less.prems(2)])
      then have "dst_werr ?d = RNP_SUCCESS" using less.prems(3) by (intro assms(2)) auto
      then have "copy_loop e s d = copy_loop e s' ?d"
        using False s'(1) b by (subst copy_loop.simps) (simp add: Let_def)
      moreover have "\<exists>s'' d'. copy_loop e s' ?d = Some (s'', d', RNP_SUCCESS) \<and>
          recv d' ((w @ ?b) @ drop PGP_INPUT_CACHE_SIZE a) \<and> holds s'' []"
        using nonempty s' d less.prems(3)
        by (intro less.hyps) (auto simp: PGP_INPUT_CACHE_SIZE_def)
      ultimately show ?thesis by simp
    qed
  qed
qed

end

context reliable_source
begin

lemma reliable_block_reader: "block_reader (src_holds rd rest ok)"
proof
  fix s a
  assume h: "src_holds rd rest ok s a"
  then have inv: "src_inv rd rest ok s" and av: "src_avail rest s = a" by (auto simp: src_holds_def)
  show "src_eofb s \<Longrightarrow> a = []" using inv av by (auto simp: src_inv_def)
  have lim: "src_readb s + PGP_INPUT_CACHE_SIZE < 2 ^ 64"
    using src_holds_readb [OF h] by (simp add: PGP_INPUT_CACHE_SIZE_def)
  obtain s' where s': "src_read s PGP_INPUT_CACHE_SIZE = (s', Some (take PGP_INPUT_CACHE_SIZE a))"
    "src_avail rest s' = drop PGP_INPUT_CACHE_SIZE a" "src_inv rd rest ok s'"
    by (rule src_read_eq [OF inv lim, unfolded av])
  moreover have "a = [] \<longrightarrow> src_eofb s'"
    using s'(1) src_read_empty [OF inv _ lim, of s'] by (auto simp: PGP_INPUT_CACHE_SIZE_def)
  ultimately show "\<exists>s'. src_read s PGP_INPUT_CACHE_SIZE = (s', Some (take PGP_INPUT_CACHE_SIZE a)) \<and>
      src_holds rd rest ok s' (drop PGP_INPUT_CACHE_SIZE a) \<and> (a = [] \<longrightarrow> src_eofb s')"
    by (auto simp: src_holds_def)
qed

end

interpretation mem_blocks: block_reader "src_holds mem_src_read mem_rest mem_ok"
  by (rule mem_source.reliable_block_reader)

section \<open>Callbacks that are read in blocks\<close>

text \<open>
  \<open>del p a\<close>: with private data \<open>p\<close> the callback has the bytes \<open>a\<close> to deliver, if it is asked for
  as many bytes as the cache holds.
\<close>

definition block_holds ::
    "('q \<Rightarrow> nat \<Rightarrow> 'q \<times> bytes option) \<Rightarrow> ('q \<Rightarrow> bytes \<Rightarrow> bool) \<Rightarrow> 'q pgp_source \<Rightarrow> bytes \<Rightarrow> bool" where
  "block_holds rd del s a \<longleftrightarrow>
     src_rdf s = rd \<and> \<not> src_knownsize s \<and>
     (\<exists>c b. src_cache s = Some c \<and> cache_ok c \<and> readahead c \<and> del (src_param s) b \<and> a = cached c @ b) \<and>
     (src_eofb s \<longrightarrow> a = [])"

locale block_source =
  fixes rd :: "'q \<Rightarrow> nat \<Rightarrow> 'q \<times> bytes option"
    and del :: "'q \<Rightarrow> bytes \<Rightarrow> bool"
  assumes rd_block: "del p a \<Longrightarrow>
      \<exists>p' bs b. rd p PGP_INPUT_CACHE_SIZE = (p', Some bs) \<and> a = bs @ b \<and> del p' b \<and>
                length bs \<le> PGP_INPUT_CACHE_SIZE \<and> (bs = [] \<longrightarrow> a = [])"
begin

lemma block_loop:
  assumes "left \<le> PGP_INPUT_CACHE_SIZE" "del p a" "cache_ok c" "cpos c = clen c" "readahead c"
  shows "\<exists>p' c' st b. src_read_loop rd p c buf left True = (p', c', buf @ take left a, st) \<and> st \<noteq> ReadError \<and>
    del p' b \<and> cache_ok c' \<and> readahead c' \<and> cached c' @ b = drop left a \<and> (st = AtEof \<longrightarrow> cached c' @ b = [])"
  using assms
proof (induction left arbitrary: p c buf a rule: less_induct)
  case (less left)
  have empty: "cached c = []" using less.prems(4) by (rule cached_empty)
  note unf = src_read_loop.simps [of rd p c buf left]
  show ?case
  proof (cases "left = 0")
    case True
    with less.prems empty show ?thesis by auto
  next
    case False
    obtain p1 bs b where rd: "rd p PGP_INPUT_CACHE_SIZE = (p1, Some bs)" "a = bs @ b" "del p1 b"
      "length bs \<le> PGP_INPUT_CACHE_SIZE" "bs = [] \<longrightarrow> a = []"
      using rd_block [OF less.prems(2)] by blast
    let ?c = "c\<lparr>cbuf := mem_write 0 bs (cbuf c)\<rparr>"
    have c: "cache_ok ?c" "cpos ?c = clen ?c" "readahead ?c"
      using less.prems(3-5) rd(4) by (auto simp: cache_ok_def)
    consider "bs = []" | "bs \<noteq> []" "length bs < left" | "bs \<noteq> []" "left \<le> length bs" by linarith
    then show ?thesis
    proof cases
      case 1
      then show ?thesis using unf False less.prems rd empty by auto
    next
      case 2
      have "src_read_loop rd p c buf left True = src_read_loop rd p1 ?c (buf @ bs) (left - length bs) True"
        using unf 2 False less.prems(1) rd(1) by (simp add: Let_def)
      moreover have "left - length bs < left" "left - length bs \<le> PGP_INPUT_CACHE_SIZE"
        using 2 less.prems(1) by (auto simp: Suc_le_eq)
      ultimately show ?thesis using less.IH [of "left - length bs" p1 b ?c "buf @ bs"] c rd(2,3) 2 by auto
    next
      case 3
      define c' where "c' = ?c\<lparr>cpos := left, clen := length bs\<rparr>"
      have "src_read_loop rd p c buf left True = (p1, c', buf @ take left bs, Finished)"
        using unf 3 False less.prems(1) rd(1) by (simp add: Let_def c'_def)
      moreover have "cached c' = drop left bs" "cache_ok c'" "readahead c'"
        using 3 c rd(4) less.prems(3) by (auto simp: c'_def cached_def cache_ok_def mem_write_def)
      ultimately show ?thesis using 3 rd(2,3) by auto
    qed
  qed
qed

lemma block_reader_holds: "block_reader (block_holds rd del)"
proof
  fix s a
  assume h: "block_holds rd del s a"
  show "src_eofb s \<Longrightarrow> a = []" using h by (auto simp: block_holds_def)
  assume eof: "\<not> src_eofb s"
  obtain c b where c: "src_rdf s = rd" "\<not> src_knownsize s" "src_cache s = Some c" "cache_ok c" "readahead c"
    "del (src_param s) b" "a = cached c @ b" using h by (auto simp: block_holds_def)
  let ?N = PGP_INPUT_CACHE_SIZE
  have len: "req_len s ?N = ?N" "\<not> req_clamp s ?N" using c(2) by (simp_all add: req_len_def req_clamp_def)
  have N: "?N \<noteq> 0" by (simp add: PGP_INPUT_CACHE_SIZE_def)
  show "\<exists>s'. src_read s ?N = (s', Some (take ?N a)) \<and> block_holds rd del s' (drop ?N a) \<and> (a = [] \<longrightarrow> src_eofb s')"
  proof (cases "cpos c < clen c \<and> ?N \<le> clen c - cpos c")
    case True
    then have "cached c \<noteq> []" "?N \<le> length (cached c)" using length_cached [OF c(4)] by auto
    moreover have "cache_ok (c\<lparr>cpos := cpos c + ?N\<rparr>)" using c(4) True by (auto simp: cache_ok_def)
    ultimately show ?thesis
      using src_read_hit_eq [OF c(3) eof N] True c eof
      by (force simp: len src_read_finish_def Let_def block_holds_def cached_advance)
  next
    case False
    define c0 where "c0 = (if cpos c < clen c then c\<lparr>cpos := clen c\<rparr> else c)"
    have c0: "cache_ok c0" "cpos c0 = clen c0" "readahead c0" using c(4,5) by (auto simp: c0_def cache_ok_def)
    have le: "length (cached c) \<le> ?N" using c(4) by (auto simp: length_cached cache_ok_def)
    obtain p' c' st b' where l: "src_read_loop rd (src_param s) c0 (cached c) (?N - length (cached c)) True =
        (p', c', cached c @ take (?N - length (cached c)) b, st)" "st \<noteq> ReadError" "del p' b'" "cache_ok c'" "readahead c'"
      "cached c' @ b' = drop (?N - length (cached c)) b" "st = AtEof \<longrightarrow> cached c' @ b' = []"
      using block_loop [OF _ c(6) c0, of "?N - length (cached c)" "cached c"] by auto
    have r: "src_read s ?N = src_read_finish (s\<lparr>src_param := p', src_cache := Some c', src_eofb := (st = AtEof)\<rparr>) (take ?N a)"
      using src_read_miss_eq [OF c(3) eof N, of c0 p' c' "take ?N a" st] False l(1,2) c(1,5,7) le
      by (simp add: len c0_def)
    have "take ?N a = [] \<Longrightarrow> st = AtEof"
      using read_loop_finished [of rd "src_param s" c0 "cached c" "?N - length (cached c)" True p' c'] l(1,2) le N c(7)
      by (cases st) (auto simp: PGP_INPUT_CACHE_SIZE_def)
    with r l(3-7) c(1,2,7) le N show ?thesis
      by (auto simp: src_read_finish_def Let_def block_holds_def)
  qed
qed

end

end
