(* ===== verification/Armor_Read.thy ===== *)
theory Armor_Read
  imports Stream_Copy
begin

text \<open>
  The armored source: when the text below it is well-formed armor, reading it in blocks
  delivers the encoded data and then reports the end.
\<close>

section \<open>Base 64 text\<close>

text \<open>Characters of the code and blanks; the values of the former.\<close>

definition b64_text :: "bytes \<Rightarrow> bool" where
  "b64_text T \<longleftrightarrow> (\<forall>c \<in> set T. B64DEC ! unat c < 64 \<or> B64DEC ! unat c = 0xfd)"

definition b64_values :: "bytes \<Rightarrow> bytes" where
  "b64_values T = map (\<lambda>c. B64DEC ! unat c) (filter (\<lambda>c. B64DEC ! unat c < 64) T)"

lemma b64_text_simps [simp]:
  "b64_text []" "b64_text (c # T) \<longleftrightarrow> (B64DEC ! unat c < 64 \<or> B64DEC ! unat c = 0xfd) \<and> b64_text T"
  "b64_text (S @ T) \<longleftrightarrow> b64_text S \<and> b64_text T"
  by (auto simp: b64_text_def)

lemma b64_values_simps [simp]:
  "b64_values [] = []" "b64_values (S @ T) = b64_values S @ b64_values T"
  by (simp_all add: b64_values_def)

lemma length_b64_values: "length (b64_values T) \<le> length T"
  by (simp add: b64_values_def)

lemma b64_val_eq: "B64DEC ! unat CH_EQ = 0xfe" by (simp add: CH_EQ_def B64DEC_def)

lemma b64_scan_text:
  "b64_text T \<Longrightarrow> b64_scan T = (b64_values T, length T, Some False)"
  "b64_text T \<Longrightarrow> b64_scan (T @ CH_EQ # U) = (b64_values T, Suc (length T), Some True)"
proof (induction T)
  case Nil
  { case 1 then show ?case by simp next case 2 then show ?case by (simp add: b64_val_eq) }
next
  case (Cons c T)
  { case 1 with Cons show ?case by (auto simp: b64_values_def Let_def) 
  next case 2 with Cons show ?case by (auto simp: b64_values_def Let_def) }
qed

lemma b64_join_append: "4 dvd length xs \<Longrightarrow> b64_join (xs @ ys) = b64_join xs @ b64_join ys"
proof (induction xs rule: b64_join.induct)
  case (1 a b c d ds)
  then have "4 dvd length ds" by simp presburger
  with 1 show ?case by (simp add: Let_def)
qed (auto dest: dvd_imp_le)

lemma div4_step: "(4 + n) div 4 = Suc (n div 4)" by simp

lemma length_b64_join [simp]: "length (b64_join ds) = length ds div 4 * 3"
  by (induction ds rule: b64_join.induct) (simp_all add: Let_def div4_step)

lemma b64_join_floor: "b64_join (take (length ds div 4 * 4) ds) = b64_join ds"
proof -
  let ?n = "length ds div 4 * 4"
  have "length (drop ?n ds) < 4" by (simp add: minus_div_mult_eq_mod)
  then have "b64_join (drop ?n ds) = []" by (simp flip: length_0_conv)
  then show ?thesis using b64_join_append [of "take ?n ds" "drop ?n ds"] by simp
qed

lemma b64_decode_append: "4 dvd length xs \<Longrightarrow> b64_decode (xs @ ys) e = b64_join xs @ b64_decode ys e"
  by (auto simp: b64_decode_def b64_join_append elim!: dvdE)

section \<open>The end of the armor\<close>

text \<open>Padding, checksum line and trailer, and what follows.\<close>

definition armor_trailer :: "bytes \<Rightarrow> bytes" where
  "armor_trailer hdr = take 8 ST_ARMOR_END @ drop 5 (cstr hdr) @ ST_DASHES"

definition armor_ending :: "bytes \<Rightarrow> bytes \<Rightarrow> nat \<Rightarrow> bytes \<Rightarrow> bytes" where
  "armor_ending hdr crc e r =
     (if e = 0 then [] else replicate e CH_EQ @ [CH_CR, CH_LF]) @
     CH_EQ # armored_encode3 crc @ [CH_CR, CH_LF] @ armor_trailer hdr @ r"

lemma crc_line_decode:
  assumes "length crc = 3"
  defines "v \<equiv> map (\<lambda>c. B64DEC ! unat c) (armored_encode3 crc)"
  shows "v = b64_split crc" "\<forall>x \<in> set v. x < 64"
    "[push_bit 2 (v ! 0) OR (drop_bit 4 (v ! 1) AND 0x0F), push_bit 4 (v ! 1) OR (drop_bit 2 (v ! 2) AND 0x0F),
      push_bit 6 (v ! 2) OR v ! 3] = crc"
proof -
  obtain a b c where crc: "crc = [a, b, c]" using assms(1) by (auto simp: numeral_3_eq_3 length_Suc_conv)
  show v: "v = b64_split crc" using b64_line_vals [of crc] b64_line_3 [OF assms(1)] by (simp add: v_def)
  have lt: "x AND 0x3f < (64 :: byte)" for x
    using unat_and_3f [of x] by (simp add: word_less_nat_alt)
  have "drop_bit 2 a < (64 :: byte)" using lt [of "drop_bit 2 a"] by (simp add: drop_bit_2_and)
  then show "\<forall>x \<in> set v. x < 64" unfolding v crc by (simp add: lt)
  show "[push_bit 2 (v ! 0) OR (drop_bit 4 (v ! 1) AND 0x0F), push_bit 4 (v ! 1) OR (drop_bit 2 (v ! 2) AND 0x0F),
      push_bit 6 (v ! 2) OR v ! 3] = crc"
    unfolding v crc by (auto intro!: byte_eqI; simp add: bit_simps byte_high_bit)
qed

lemma takeWhile_line: "CH_LF \<notin> set xs \<Longrightarrow> strip_cr (takeWhile (\<lambda>b. b \<noteq> CH_LF) (xs @ CH_CR # CH_LF # ys)) = xs"
proof -
  assume "CH_LF \<notin> set xs"
  then have "takeWhile (\<lambda>b. b \<noteq> CH_LF) (xs @ CH_CR # CH_LF # ys) = xs @ [CH_CR]"
    by (subst takeWhile_append2) (auto simp: CH_CR_def CH_LF_def)
  then show ?thesis by (simp add: strip_cr_def)
qed

context reliable_source
begin

abbreviation "has \<equiv> src_holds rd rest ok"

lemma peek_has:
  assumes "has s a" "n \<le> PGP_INPUT_CACHE_SIZE"
  obtains s' where "src_peek s n = (s', Some (take n a))" "has s' a"
proof -
  have "src_inv rd rest ok s" "src_avail rest s = a" "src_readb s + n < 2 ^ 64"
    using assms src_holds_readb [OF assms(1)] by (auto simp: src_holds_def PGP_INPUT_CACHE_SIZE_def)
  then show thesis using that src_peek_eq [of s n] assms(2) by (metis src_holds_def)
qed

lemma skip_has:
  assumes "has s a" "n \<le> length a"
  shows "has (fst (src_skip (\<lambda>_. True) s n)) (drop n a)"
proof -
  have inv: "src_inv rd rest ok s" and a: "src_avail rest s = a" and lim: "src_readb s + n < 2 ^ 64"
    using assms src_holds_readb [OF assms(1)] by (auto simp: src_holds_def)
  show ?thesis by (rule src_skip_eq [OF inv lim, of "\<lambda>_. True"]) (auto simp: src_holds_def a)
qed

lemma skip_eol_has:
  assumes "has s (CH_CR # CH_LF # a)"
  obtains s' where "src_skip_eol (\<lambda>_. True) s = (s', True)" "has s' a"
proof -
  have inv: "src_inv rd rest ok s" and a: "src_avail rest s = CH_CR # CH_LF # a" and lim: "src_readb s + 2 < 2 ^ 64"
    using src_holds_readb [OF assms] assms by (auto simp: src_holds_def)
  show thesis
    by (rule src_skip_eol_eq [OF inv lim, of "\<lambda>_. True"])
      (use that in \<open>auto simp: src_holds_def a CH_CR_def CH_LF_def\<close>)
qed

lemma peek_line_has:
  assumes "has s (xs @ CH_CR # CH_LF # ys)" "CH_LF \<notin> set xs" "length xs + 2 \<le> 64" "length xs + 2 < len"
  obtains s' where "src_peek_line s len = (s', Some xs)" "has s' (xs @ CH_CR # CH_LF # ys)"
proof -
  let ?a = "xs @ CH_CR # CH_LF # ys"
  have inv: "src_inv rd rest ok s" and a: "src_avail rest s = ?a" and lim: "src_readb s + 64 < 2 ^ 64"
    using src_holds_readb [OF assms(1)] assms(1) by (auto simp: src_holds_def)
  have "length xs + 2 \<le> min 64 (len - 1)" using assms(3,4) by simp
  then obtain k where "min 64 (len - 1) = length xs + 2 + k" by (metis le_Suc_ex)
  then have "CH_LF \<in> set (take (min 64 (len - 1)) ?a)" by simp
  then have found: "CH_LF \<in> set (take (min 64 (len - 1)) (src_avail rest s))" by (simp only: a)
  obtain s' where s': "src_inv rd rest ok s'" "src_avail rest s' = src_avail rest s"
    "src_peek_line s len = (s', if CH_LF \<in> set (take (min 64 (len - 1)) (src_avail rest s))
            then Some (strip_cr (takeWhile (\<lambda>b. b \<noteq> CH_LF) (src_avail rest s))) else None)"
    by (rule src_peek_line_eq [OF inv lim, of len]) (use assms(4) in simp)
  have "src_peek_line s len = (s', Some xs)"
    using s'(3) found unfolding a takeWhile_line [OF assms(2)] by (simp only: if_True)
  moreover have "has s' ?a" using s'(1,2) a by (simp add: src_holds_def)
  ultimately show thesis by (rule that)
qed

end

lemma encode3_chars:
  assumes "length crc = 3" "c \<in> set (armored_encode3 crc)"
  shows "c \<noteq> CH_LF" "c \<noteq> CH_CR" "c \<noteq> CH_EQ"
proof -
  have "B64DEC ! unat c < 64" using crc_line_decode(2) [OF assms(1)] assms(2) by auto
  then show "c \<noteq> CH_LF" "c \<noteq> CH_CR" "c \<noteq> CH_EQ"
    by (auto simp: CH_LF_def CH_CR_def CH_EQ_def B64DEC_def)
qed

lemma length_encode3 [simp]: "length (armored_encode3 x) = 4" by (simp add: armored_encode3_def)

context reliable_source
begin

lemma read_padding_has:
  assumes "has s (armor_ending hdr crc e r)" "e \<le> 2" "length crc = 3"
  obtains s' where "armor_read_padding (\<lambda>_. True) s = (s', Some e)" "has s' (armor_ending hdr crc 0 r)"
proof (cases "e = 0")
  case True
  have lf: "CH_LF \<notin> set (CH_EQ # armored_encode3 crc)"
    using encode3_chars(1) [OF assms(3)] by (auto simp: CH_LF_def CH_EQ_def)
  have a: "armor_ending hdr crc 0 r = (CH_EQ # armored_encode3 crc) @ CH_CR # CH_LF # armor_trailer hdr @ r"
    by (simp add: armor_ending_def)
  show thesis
    by (rule peek_line_has [OF assms(1) [unfolded True a] lf, of 12])
      (use that True a in \<open>auto simp: armor_read_padding_def Let_def\<close>)
next
  case False
  let ?b = "armor_ending hdr crc 0 r"
  have a: "armor_ending hdr crc e r = replicate e CH_EQ @ CH_CR # CH_LF # ?b"
    using False by (simp add: armor_ending_def)
  have lf: "CH_LF \<notin> set (replicate e CH_EQ)" by (auto simp: CH_LF_def CH_EQ_def)
  obtain s1 where s1: "src_peek_line s 12 = (s1, Some (replicate e CH_EQ))"
      "has s1 (replicate e CH_EQ @ CH_CR # CH_LF # ?b)"
    by (rule peek_line_has [OF assms(1) [unfolded a] lf, of 12]) (use assms(2) in auto)
  have "has (fst (src_skip (\<lambda>_. True) s1 e)) (CH_CR # CH_LF # ?b)" using skip_has [OF s1(2), of e] by simp
  then obtain s2 where s2: "src_skip_eol (\<lambda>_. True) (fst (src_skip (\<lambda>_. True) s1 e)) = (s2, True)" "has s2 ?b"
    by (rule skip_eol_has)
  have "e = 1 \<or> e = 2" using False assms(2) by auto
  then have "armor_read_padding (\<lambda>_. True) s = (s2, Some e)"
    using s1(1) s2(1) by (auto simp: armor_read_padding_def Let_def numeral_2_eq_2)
  with s2(2) show thesis by (intro that)
qed

lemma read_crc_has:
  assumes "has s (armor_ending hdr crc 0 r)" "length crc = 3"
  obtains s' where "armor_read_crc (\<lambda>_. True) s = (s', Some crc)" "has s' (armor_trailer hdr @ r)"
proof -
  let ?x = "CH_EQ # armored_encode3 crc"
  have lf: "CH_LF \<notin> set ?x" using encode3_chars(1) [OF assms(2)] by (auto simp: CH_LF_def CH_EQ_def)
  have a: "armor_ending hdr crc 0 r = ?x @ CH_CR # CH_LF # armor_trailer hdr @ r" by (simp add: armor_ending_def)
  obtain s1 where s1: "src_peek_line s 8 = (s1, Some ?x)" "has s1 (?x @ CH_CR # CH_LF # armor_trailer hdr @ r)"
    by (rule peek_line_has [OF assms(1) [unfolded a] lf, of 8]) auto
  have "has (fst (src_skip (\<lambda>_. True) s1 5)) (CH_CR # CH_LF # armor_trailer hdr @ r)"
    using skip_has [OF s1(2), of 5] by simp
  then obtain s2 where s2: "src_skip_eol (\<lambda>_. True) (fst (src_skip (\<lambda>_. True) s1 5)) = (s2, True)"
    "has s2 (armor_trailer hdr @ r)" by (rule skip_eol_has)
  define v where "v = map (\<lambda>c. B64DEC ! unat c) (armored_encode3 crc)"
  have v: "map (\<lambda>i. B64DEC ! unat (?x ! (i + 1))) [0, 1, 2, 3] = v"
    by (simp add: v_def armored_encode3_def)
  have "\<not> (\<exists>d \<in> set v. 64 \<le> d)" using crc_line_decode(2) [OF assms(2)] by (auto simp: v_def not_le)
  then have "armor_read_crc (\<lambda>_. True) s = (s2, Some crc)"
    using s1(1) s2(1) crc_line_decode(3) [OF assms(2)] unfolding armor_read_crc_def v_def [symmetric]
    by (simp add: Let_def v [simplified])
  with s2(2) show thesis by (intro that)
qed

end

lemma cstr_no_null: "0 \<notin> set (cstr x)"
  by (auto simp: cstr_def dest: set_takeWhileD)

lemma cstr_id: "0 \<notin> set x \<Longrightarrow> cstr x = x"
  by (auto simp: cstr_def)

lemma ST_ARMOR_END_codes: "ST_ARMOR_END = [45, 45, 45, 45, 45, 69, 78, 68, 32, 80, 71, 80, 32]"
  by (simp add: ST_ARMOR_END_def str_bytes_def)

lemma ST_DASHES_codes: "ST_DASHES = [45, 45, 45, 45, 45]"
  by (simp add: ST_DASHES_def str_bytes_def)

lemma armor_trailer_no_null: "0 \<notin> set (armor_trailer hdr)"
  using cstr_no_null [of hdr] by (auto simp: armor_trailer_def ST_ARMOR_END_codes ST_DASHES_codes dest: in_set_dropD)

lemma length_armor_trailer: "5 \<le> length (cstr hdr) \<Longrightarrow> length (armor_trailer hdr) = length (cstr hdr) + 8"
  by (simp add: armor_trailer_def ST_ARMOR_END_codes ST_DASHES_codes)

context reliable_source
begin

lemma read_trailer_has:
  assumes "has s (armor_trailer hdr @ r)" "5 \<le> length (cstr hdr)" "length (cstr hdr) \<le> 128"
  obtains s' where "armor_read_trailer (\<lambda>_. True) hdr s = (s', True)" "has s' r"
proof -
  let ?n = "length (cstr hdr) + 8"
  obtain s1 where s1: "src_peek s ?n = (s1, Some (take ?n (armor_trailer hdr @ r)))" "has s1 (armor_trailer hdr @ r)"
    by (rule peek_has [OF assms(1), of ?n]) (use assms(3) in \<open>auto simp: PGP_INPUT_CACHE_SIZE_def\<close>)
  have t: "take ?n (armor_trailer hdr @ r) = armor_trailer hdr" by (simp add: length_armor_trailer [OF assms(2)])
  have "armor_read_trailer (\<lambda>_. True) hdr s = (fst (src_skip (\<lambda>_. True) s1 ?n), True)"
    using s1(1) assms(2) unfolding t
    by (simp add: armor_read_trailer_def Let_def length_armor_trailer strncmp_eq_def flip: armor_trailer_def)
  moreover have "has (fst (src_skip (\<lambda>_. True) s1 ?n)) r"
    using skip_has [OF s1(2), of ?n] by (simp add: length_armor_trailer [OF assms(2)])
  ultimately show thesis by (rule that)
qed

lemma read_end_has:
  assumes "has s (armor_ending hdr crc e r)" "e \<le> 2" "length crc = 3" "5 \<le> length (cstr hdr)" "length (cstr hdr) \<le> 128"
  obtains s' where "armor_read_end (\<lambda>_. True) hdr s rc = (s', crc, Some e)" "has s' r"
proof -
  obtain s1 where s1: "armor_read_padding (\<lambda>_. True) s = (s1, Some e)" "has s1 (armor_ending hdr crc 0 r)"
    by (rule read_padding_has [OF assms(1-3)])
  obtain s2 where s2: "armor_read_crc (\<lambda>_. True) s1 = (s2, Some crc)" "has s2 (armor_trailer hdr @ r)"
    by (rule read_crc_has [OF s1(2) assms(3)])
  obtain s3 where s3: "armor_read_trailer (\<lambda>_. True) hdr s2 = (s3, True)" "has s3 r"
    by (rule read_trailer_has [OF s2(2) assms(4,5)])
  show thesis using s1(1) s2(1) s3 by (intro that) (simp_all add: armor_read_end_def)
qed

end

text \<open>
  What the reading loop leaves behind: it has taken \<open>g\<close> groups from the values \<open>dec\<close> that it began
  with and those of the text \<open>T\<^sub>1\<close> that it has read.
\<close>

definition armor_progress ::
    "bytes \<Rightarrow> bytes \<Rightarrow> nat \<Rightarrow> bytes \<Rightarrow> 'q armor_state \<Rightarrow> nat \<Rightarrow> bool" where
  "armor_progress dec out left T1 l g \<longleftrightarrow>
     (let V = dec @ b64_values T1 in
      g * 4 \<le> length V \<and> g * 3 \<le> left \<and> al_left l = left - g * 3 \<and>
      al_out l = out @ b64_join (take (g * 4) V) \<and> al_dec l = drop (g * 4) V \<and>
      length (al_dec l) \<le> 4099 \<and> (al_left l < 3 \<or> length (al_dec l) < 4))"

lemma armor_progress_step:
  assumes "armor_progress (drop (g * 4) (dec @ b64_values T1)) (out @ b64_join (take (g * 4) (dec @ b64_values T1)))
      (left - g * 3) T2 l k" "g * 4 \<le> length (dec @ b64_values T1)" "g * 3 \<le> left"
  shows "armor_progress dec out left (T1 @ T2) l (g + k)"
proof -
  define W where "W = dec @ b64_values T1"
  let ?A = "take (g * 4) W" and ?B = "drop (g * 4) W @ b64_values T2"
  have split: "dec @ b64_values (T1 @ T2) = ?A @ ?B"
    by (simp only: append_assoc [symmetric] append_take_drop_id) (simp add: W_def)
  have len: "length ?A = g * 4" using assms(2) by (simp add: W_def)
  have "take ((g + k) * 4) (?A @ ?B) = ?A @ take (k * 4) ?B" "drop ((g + k) * 4) (?A @ ?B) = drop (k * 4) ?B"
    using len by (simp_all only: add_mult_distrib take_append drop_append) simp_all
  moreover have "b64_join (?A @ take (k * 4) ?B) = b64_join ?A @ b64_join (take (k * 4) ?B)"
    using len by (intro b64_join_append) simp
  ultimately have "b64_join (take ((g + k) * 4) (?A @ ?B)) = b64_join ?A @ b64_join (take (k * 4) ?B)"
    "drop ((g + k) * 4) (?A @ ?B) = drop (k * 4) ?B" by (simp_all only:)
  moreover have "(g + k) * 4 \<le> length (?A @ ?B)" "(g + k) * 3 \<le> left" "left - (g + k) * 3 = left - g * 3 - k * 3"
    using assms len unfolding armor_progress_def Let_def W_def [symmetric]
    by (simp_all only: length_append add_mult_distrib) (elim conjE; simp)+
  ultimately show ?thesis using assms(1) unfolding armor_progress_def Let_def split W_def [symmetric]
    by (elim conjE) (simp only: append_assoc simp_thms)
qed

lemma armor_ending_eq: "\<exists>U. armor_ending hdr crc e r = CH_EQ # U"
  by (cases e) (auto simp: armor_ending_def)

lemma b64_text_part: "b64_text T \<Longrightarrow> b64_text (take n T) \<and> b64_text (drop n T)"
  by (metis append_take_drop_id b64_text_simps(3))

text \<open>How many groups the loop takes for \<open>left\<close> bytes out of \<open>n\<close> values.\<close>

lemma armor_groups:
  fixes n left :: nat
  defines "g \<equiv> (if n div 4 * 3 < left then n div 4 else left div 3)"
  shows "g * 4 \<le> n" "g * 3 \<le> left" "left - g * 3 < 3 \<or> n - g * 4 < 4"
proof -
  show "g * 4 \<le> n"
  proof (cases "n div 4 * 3 < left")
    case False
    then have "left div 3 \<le> n div 4" using div_le_mono [of left "n div 4 * 3" 3] by simp
    then have "left div 3 * 4 \<le> n div 4 * 4" by simp
    then show ?thesis using False div_times_less_eq_dividend [of n 4] by (simp add: g_def)
  qed (simp add: g_def)
  show "g * 3 \<le> left" by (auto simp: g_def)
  show "left - g * 3 < 3 \<or> n - g * 4 < 4" by (auto simp: g_def minus_div_mult_eq_mod)
qed

context reliable_source
begin

lemma read_loop_has:
  assumes "has s (T @ armor_ending hdr crc e r)" "b64_text T" "e \<le> 2" "length crc = 3" "5 \<le> length (cstr hdr)"
    "length (cstr hdr) \<le> 128" "length dec < 4"
  shows "\<exists>l T1 T2 g. armored_read_loop (\<lambda>_. True) hdr rc s dec out left = Some l \<and> T = T1 @ T2 \<and>
    armor_progress dec out left T1 l g \<and>
    (if al_eof l then T2 = [] \<and> al_crc l = crc \<and> al_eqcount l = Some e \<and> has (al_src l) r
     else al_eqcount l = Some 0 \<and> al_crc l = rc \<and> al_left l < 3 \<and> has (al_src l) (T2 @ armor_ending hdr crc e r))"
  using assms(1,2,7)
proof (induction "length T" arbitrary: s T dec out left rule: less_induct)
  case less
  let ?E = "armor_ending hdr crc e r"
  obtain s1 where s1: "src_peek s 4096 = (s1, Some (take 4096 (T @ ?E)))" "has s1 (T @ ?E)"
    by (rule peek_has [OF less.prems(1), of 4096]) (auto simp: PGP_INPUT_CACHE_SIZE_def)
  define T1 where "T1 = take 4096 T"
  define T2 where "T2 = drop 4096 T"
  have T: "T = T1 @ T2" "b64_text T1" "b64_text T2" using b64_text_part [OF less.prems(2)] by (auto simp: T1_def T2_def)
  define V where "V = dec @ b64_values T1"
  define g where "g = (if length V div 4 * 3 < left then length V div 4 else left div 3)"
  have V: "length V \<le> 4099" using length_b64_values [of T1] less.prems(3) by (simp add: V_def T1_def)
  have g: "g * 4 \<le> length V" "g * 3 \<le> left" "left - g * 3 < 3 \<or> length V - g * 4 < 4"
    unfolding g_def by (rule armor_groups)+
  let ?out = "out @ b64_join (take (g * 4) V)" and ?left = "left - g * 3" and ?d = "drop (g * 4) V"
  have prog: "armor_progress dec out left T1 l g"
    if "al_left l = ?left" "al_out l = ?out" "al_dec l = ?d" for l :: "'a armor_state"
    using that g V by (simp add: armor_progress_def flip: V_def)
  show ?case
  proof (cases "length T < 4096")
    case True
    obtain U where U: "?E = CH_EQ # U" using armor_ending_eq by blast
    have T1: "T1 = T" "T2 = []" using True by (simp_all add: T1_def T2_def)
    obtain m where m: "4096 - length T = Suc m" using True by (metis Suc_diff_Suc)
    have scan: "b64_scan (take 4096 (T @ ?E)) = (b64_values T, Suc (length T), Some True)"
      using b64_scan_text(2) [OF less.prems(2), of "take m U"] True by (simp add: U m)
    obtain s3 where s3: "armor_read_end (\<lambda>_. True) hdr (fst (src_skip (\<lambda>_. True) s1 (length T))) rc = (s3, crc, Some e)" "has s3 r"
      by (rule read_end_has [of "fst (src_skip (\<lambda>_. True) s1 (length T))"]) (use skip_has [OF s1(2), of "length T"] assms(3-6) in auto)
    define l where "l = \<lparr>al_src = s3, al_dec = ?d, al_out = ?out, al_left = ?left, al_eof = True, al_crc = crc, al_eqcount = Some e\<rparr>"
    have "armored_read_loop (\<lambda>_. True) hdr rc s dec out left = Some l"
      using s1(1) scan s3(1) by (subst armored_read_loop.simps) (simp add: Let_def l_def g_def V_def T1(1))
    moreover have "armor_progress dec out left T1 l g" by (rule prog) (simp_all add: l_def)
    ultimately show ?thesis using s3(2) T1 by (intro exI [of _ l] exI [of _ T1] exI [of _ T2] exI [of _ g]) (simp add: l_def)
  next
    case False
    then have len: "length T1 = 4096" by (simp add: T1_def)
    have blk: "take 4096 (T @ ?E) = T1" using False by (simp add: T1_def)
    define s2 where "s2 = fst (src_skip (\<lambda>_. True) s1 4096)"
    have s2: "has s2 (T2 @ ?E)" using skip_has [OF s1(2), of 4096] False by (simp add: s2_def T2_def)
    define l where "l = \<lparr>al_src = s2, al_dec = ?d, al_out = ?out, al_left = ?left, al_eof = False, al_crc = rc, al_eqcount = Some 0\<rparr>"
    have unf: "armored_read_loop (\<lambda>_. True) hdr rc s dec out left =
        (if 3 \<le> ?left then armored_read_loop (\<lambda>_. True) hdr rc s2 ?d ?out ?left else Some l)"
      by (subst armored_read_loop.simps)
        (simp only: s1(1) [unfolded blk] b64_scan_text(1) [OF T(2)] len prod.case option.case Let_def if_False
          V_def [symmetric] g_def [symmetric] s2_def [symmetric] l_def)
    show ?thesis
    proof (cases "3 \<le> ?left")
      case True
      have "length T2 < length T" "length ?d < 4" using False g(3) True by (auto simp: T2_def)
      from less.hyps [OF this(1) s2 T(3) this(2), of ?out ?left]
      obtain l' T1' T2' k where ih: "armored_read_loop (\<lambda>_. True) hdr rc s2 ?d ?out ?left = Some l'" "T2 = T1' @ T2'"
        "armor_progress ?d ?out ?left T1' l' k"
        "if al_eof l' then T2' = [] \<and> al_crc l' = crc \<and> al_eqcount l' = Some e \<and> has (al_src l') r
         else al_eqcount l' = Some 0 \<and> al_crc l' = rc \<and> al_left l' < 3 \<and> has (al_src l') (T2' @ ?E)" by blast
      have "armor_progress dec out left (T1 @ T1') l' (g + k)"
        by (rule armor_progress_step) (use ih(3) g in \<open>simp_all add: V_def\<close>)
      moreover have "T = (T1 @ T1') @ T2'" using T(1) ih(2) by simp
      ultimately show ?thesis using unf True ih(1,4) by (metis (full_types))
    next
      case stop: False
      have "armor_progress dec out left T1 l g" by (rule prog) (simp_all add: l_def)
      then show ?thesis using unf stop s2 T(1)
        by (intro exI [of _ l] exI [of _ T1] exI [of _ T2] exI [of _ g]) (simp add: l_def)
    qed
  qed
qed

end

section \<open>Reading in blocks\<close>

text \<open>
  The armored source with private data \<open>p\<close> has \<open>data\<close> to deliver: decoded bytes that were not
  asked for yet and, before the end of the text, the decoding of the values at hand and of
  those in the text, which ends with the checksum of all the data.
\<close>

definition armored_del ::
    "('q \<Rightarrow> nat \<Rightarrow> 'q \<times> bytes option) \<Rightarrow> ('q \<Rightarrow> bytes) \<Rightarrow> ('q \<Rightarrow> bool) \<Rightarrow> botan \<Rightarrow> 'q armored_src_param option \<Rightarrow> bytes \<Rightarrow> bool" where
  "armored_del rd rest ok bo p data \<longleftrightarrow>
     (\<exists>q. p = Some q \<and> length (as_rest q) \<le> ARMORED_BLOCK_SIZE \<and>
        (let pending = drop (as_restpos q) (as_rest q) in
         if as_eofb64 q then data = pending
         else (pending = [] \<longrightarrow> as_restpos q = 0) \<and> length (as_brest q) < 4 \<and>
           (\<exists>T hdr crc e r seen.
              as_armorhdr q = Some hdr \<and> 5 \<le> length (cstr hdr) \<and> length (cstr hdr) \<le> 128 \<and> length crc = 3 \<and> e \<le> 2 \<and>
              b64_text T \<and> src_holds rd rest ok (as_readsrc q) (T @ armor_ending hdr crc e r) \<and>
              (length (as_brest q @ b64_values T) + e) mod 4 = 0 \<and>
              data = pending @ b64_decode (as_brest q @ b64_values T) e \<and>
              h_handle (as_crc_ctx q) = Some (''CRC24'', seen) \<and> h_output_len (as_crc_ctx q) \<noteq> 0 \<and>
              bo_hash_final bo ''CRC24'' (seen @ data) = Some crc)))"

lemma armored_delI:
  assumes "\<not> as_eofb64 q" "length (as_rest q) \<le> ARMORED_BLOCK_SIZE"
    "drop (as_restpos q) (as_rest q) = [] \<longrightarrow> as_restpos q = 0" "length (as_brest q) < 4"
    "as_armorhdr q = Some hdr" "5 \<le> length (cstr hdr)" "length (cstr hdr) \<le> 128" "length crc = 3" "e \<le> 2"
    "b64_text T" "src_holds rd rest ok (as_readsrc q) (T @ armor_ending hdr crc e r)"
    "(length (as_brest q @ b64_values T) + e) mod 4 = 0"
    "data = drop (as_restpos q) (as_rest q) @ b64_decode (as_brest q @ b64_values T) e"
    "h_handle (as_crc_ctx q) = Some (''CRC24'', seen)" "h_output_len (as_crc_ctx q) \<noteq> 0"
    "bo_hash_final bo ''CRC24'' (seen @ data) = Some crc"
  shows "armored_del rd rest ok bo (Some q) data"
  unfolding armored_del_def Let_def
  by (rule exI [of _ q], intro conjI refl assms(2), unfold if_not_P [OF assms(1)],
      intro conjI assms(3,4) exI [of _ T] exI [of _ hdr] exI [of _ crc] exI [of _ e] exI [of _ r] exI [of _ seen] assms)

text \<open>Taking whole groups from the front of the values.\<close>

lemma decode_progress:
  assumes "armor_progress dec pending left T1 l g"
  defines "tail \<equiv> drop (length (al_dec l) div 4 * 4) (al_dec l)"
  shows "pending @ b64_decode (dec @ b64_values (T1 @ T2)) e =
      al_out l @ b64_join (al_dec l) @ b64_decode (tail @ b64_values T2) e"
    and "(length (dec @ b64_values (T1 @ T2)) + e) mod 4 = (length (tail @ b64_values T2) + e) mod 4"
proof -
  define V where "V = dec @ b64_values T1"
  let ?A = "take (g * 4) V" and ?B = "take (length (al_dec l) div 4 * 4) (al_dec l)"
  have p: "g * 4 \<le> length V" "al_out l = pending @ b64_join ?A" "al_dec l = drop (g * 4) V"
    using assms(1) by (auto simp: armor_progress_def V_def Let_def)
  have V: "dec @ b64_values (T1 @ T2) = ?A @ ?B @ tail @ b64_values T2"
    unfolding tail_def p(3) by (simp only: append_assoc [symmetric] append_take_drop_id) (simp add: V_def)
  have A: "length ?A = g * 4" "length ?B = length (al_dec l) div 4 * 4" using p(1) by simp_all
  show "pending @ b64_decode (dec @ b64_values (T1 @ T2)) e =
      al_out l @ b64_join (al_dec l) @ b64_decode (tail @ b64_values T2) e"
    unfolding V using A by (simp add: b64_decode_append p(2) b64_join_floor del: take_append)
  show "(length (dec @ b64_values (T1 @ T2)) + e) mod 4 = (length (tail @ b64_values T2) + e) mod 4"
    unfolding V length_append A by (simp add: mod_simps add.assoc)
qed

lemma armored_deliver_eq:
  "armored_deliver param l rst =
     (Some (param\<lparr>as_crc_ctx := (if al_eof l then as_crc_ctx param
                                 else pgp_hash_add (as_crc_ctx param) (take (min (al_left l) (length rst)) rst)),
                  as_rest := rst, as_restpos := as_restpos param + min (al_left l) (length rst)\<rparr>),
      Some (al_out l @ take (min (al_left l) (length rst)) rst))"
  by (cases "al_left l = 0"; cases "rst = []") (auto simp: armored_deliver_def Let_def)

lemma length_b64_tail: "length (b64_tail d e) \<le> 2"
  by (simp add: b64_tail_def Let_def)

lemma b64_decode_short: "length vs < 4 \<Longrightarrow> b64_decode vs e = b64_tail vs e"
  by (simp add: b64_decode_def flip: length_0_conv)

lemma b64_rest_of_tail: "length (drop (length d div 4 * 4) d) < 4"
  by (simp add: minus_div_mult_eq_mod)

context reliable_source
begin

lemma armored_read_block:
  assumes "armored_del rd rest ok bo p data" "ARMORED_BLOCK_SIZE < n"
  shows "\<exists>p' bs b. armored_src_read bo (\<lambda>_. True) p n = (p', Some bs) \<and> data = bs @ b \<and>
    armored_del rd rest ok bo p' b \<and> length bs \<le> n \<and> (bs = [] \<longrightarrow> data = [])"
proof -
  obtain q where q: "p = Some q" "length (as_rest q) \<le> 4096" using assms(1) by (auto simp: armored_del_def)
  define pending where "pending = drop (as_restpos q) (as_rest q)"
  define q1 where "q1 = (if pending \<noteq> [] then q\<lparr>as_rest := [], as_restpos := 0\<rparr> else q)"
  have pl: "length pending < n" using q(2) assms(2) by (simp add: pending_def)
  show ?thesis
  proof (cases "as_eofb64 q")
    case True
    then have "armored_src_read bo (\<lambda>_. True) p n = (Some q1, Some pending)"
      using pl by (simp add: armored_src_read_def q(1) Let_def q1_def flip: pending_def)
    moreover have "data = pending" "armored_del rd rest ok bo (Some q1) []"
      using assms(1) True q(2) unfolding q(1) by (simp_all add: armored_del_def q1_def pending_def)
    ultimately show ?thesis using pl by (intro exI [of _ "Some q1"] exI [of _ pending] exI [of _ "[]"]) simp
  next
    case False
    then obtain T hdr crc e r seen where t: "as_armorhdr q = Some hdr" "5 \<le> length (cstr hdr)" "length (cstr hdr) \<le> 128"
      "length crc = 3" "e \<le> 2" "b64_text T" "has (as_readsrc q) (T @ armor_ending hdr crc e r)"
      "(length (as_brest q @ b64_values T) + e) mod 4 = 0" "data = pending @ b64_decode (as_brest q @ b64_values T) e"
      "h_handle (as_crc_ctx q) = Some (''CRC24'', seen)" "h_output_len (as_crc_ctx q) \<noteq> 0"
      "bo_hash_final bo ''CRC24'' (seen @ data) = Some crc" "pending = [] \<longrightarrow> as_restpos q = 0" "length (as_brest q) < 4"
      using assms(1) False unfolding q(1) armored_del_def Let_def option.inject pending_def by auto
    define left where "left = n - length pending"
    obtain l T1 T2 g where l: "armored_read_loop (\<lambda>_. True) hdr (as_readcrc q) (as_readsrc q) (as_brest q) pending left = Some l"
      "T = T1 @ T2" "armor_progress (as_brest q) pending left T1 l g"
      "if al_eof l then T2 = [] \<and> al_crc l = crc \<and> al_eqcount l = Some e \<and> has (al_src l) r
       else al_eqcount l = Some 0 \<and> al_crc l = as_readcrc q \<and> al_left l < 3 \<and> has (al_src l) (T2 @ armor_ending hdr crc e r)"
      using read_loop_has [OF t(7,6,5,4,2,3,14)] by blast
    obtain eqc where eqc: "al_eqcount l = Some eqc" "al_eof l \<longrightarrow> eqc = e" using l(4) by (auto split: if_splits)
    have read: "armored_src_read bo (\<lambda>_. True) p n = armored_read_finish bo q1 eqc l"
      using False pl l(1) eqc(1) t(1)
      by (simp add: armored_src_read_def q(1) Let_def q1_def left_def flip: pending_def)
    have q1: "as_restpos q1 = 0" "as_crc_ctx q1 = as_crc_ctx q" "as_armorhdr q1 = Some hdr"
      using t(1,13) by (auto simp: q1_def)
    define tail where "tail = drop (length (al_dec l) div 4 * 4) (al_dec l)"
    note dp = decode_progress [OF l(3), of T2 e, folded tail_def l(2)]
    have lo: "al_left l = left - g * 3" "g * 3 \<le> left" "length (al_dec l) \<le> 4099"
      "length (al_out l) = length pending + g * 3"
      using l(3) by (auto simp: armor_progress_def Let_def)
    define seen1 where "seen1 = seen @ al_out l"
    define q2 where "q2 = q1\<lparr>as_readsrc := al_src l, as_eofb64 := al_eof l, as_readcrc := al_crc l,
                         as_crc_ctx := pgp_hash_add (as_crc_ctx q1) (al_out l)\<rparr>"
    have h: "h_handle (as_crc_ctx q2) = Some (''CRC24'', seen1)" "h_output_len (as_crc_ctx q2) \<noteq> 0"
      using t(10,11) by (simp_all add: q2_def q1(2) pgp_hash_add_def seen1_def)
    show ?thesis
    proof (cases "al_eof l")
      case True
      define rst where "rst = b64_join (al_dec l) @ b64_tail tail e"
      have T2: "T2 = []" "al_crc l = crc" "eqc = e" using l(4) True eqc(2) by auto
      have tl: "length tail < 4" unfolding tail_def by (rule b64_rest_of_tail)
      have data: "data = al_out l @ rst" using dp(1) T2(1) t(9) b64_decode_short [OF tl] by (simp add: rst_def)
      define k where "k = min (al_left l) (length rst)"
      define hf where "hf = (pgp_hash_add (as_crc_ctx q2) rst)\<lparr>h_handle := None, h_output_len := 0\<rparr>"
      define q3 where "q3 = q2\<lparr>as_crc_ctx := hf, as_rest := rst, as_restpos := k\<rparr>"
      have fin: "pgp_hash_finish bo (pgp_hash_add (as_crc_ctx q2) rst) = (hf, h_output_len (as_crc_ctx q2), crc)"
        using h t(12) by (simp add: pgp_hash_finish_def pgp_hash_add_def hf_def seen1_def data)
      have pad: "(length tail + e) mod 4 = 0" using dp(2) T2(1) t(8) by simp
      have "armored_read_finish bo q1 eqc l = (Some q3, Some (al_out l @ take k rst))"
        using True pad h(2) t(4) T2(2)
        unfolding armored_read_finish_def Let_def tail_def [symmetric] q2_def [symmetric] T2(3) rst_def [symmetric]
          fin prod.case armored_deliver_eq k_def [symmetric]
        by (simp add: q3_def) (simp add: q2_def q1(1))
      moreover have "data = (al_out l @ take k rst) @ drop k rst" by (simp add: data)
      moreover have "length rst \<le> 4096" using lo(3) length_b64_tail [of tail e]
        by (auto simp: rst_def div_le_mono elim!: order_trans [rotated])
      then have "armored_del rd rest ok bo (Some q3) (drop k rst)"
        using True by (simp add: armored_del_def q3_def q2_def)
      moreover have "length (al_out l @ take k rst) \<le> n" using lo pl by (simp add: k_def left_def)
      moreover have "al_out l @ take k rst = [] \<longrightarrow> data = []"
        using lo pl assms(2) by (auto simp: data k_def left_def min_def)
      ultimately show ?thesis unfolding read by blast
    next
      case False
      define rst where "rst = b64_join (al_dec l)"
      define k where "k = min (al_left l) (length rst)"
      define q3 where "q3 = q2\<lparr>as_brest := tail, as_crc_ctx := pgp_hash_add (as_crc_ctx q2) (take k rst),
          as_rest := rst, as_restpos := k\<rparr>"
      have l4: "al_left l < 3" "has (al_src l) (T2 @ armor_ending hdr crc e r)" using l(4) False by auto
      have data: "data = (al_out l @ take k rst) @ drop k rst @ b64_decode (tail @ b64_values T2) e"
        using dp(1) t(9) by (simp add: rst_def)
      have "armored_read_finish bo q1 eqc l = (Some q3, Some (al_out l @ take k rst))"
        using False by (simp add: armored_read_finish_def Let_def armored_deliver_eq q3_def k_def rst_def q2_def q1(1) tail_def)
      moreover have "armored_del rd rest ok bo (Some q3) (drop k rst @ b64_decode (tail @ b64_values T2) e)"
      proof -
        have "drop k rst = [] \<longrightarrow> k = 0"
        proof
          assume "drop k rst = []"
          then have "length rst \<le> al_left l" by (simp add: k_def min_def split: if_splits)
          then have "length (al_dec l) div 4 * 3 < 3" using l4(1) by (simp add: rst_def)
          then show "k = 0" by (simp add: k_def rst_def)
        qed
        moreover have "length rst \<le> 4096" using lo(3) by (auto simp: rst_def div_le_mono elim!: order_trans [rotated])
        moreover have "length tail < 4" unfolding tail_def by (rule b64_rest_of_tail)
        moreover have "bo_hash_final bo ''CRC24'' ((seen1 @ take k rst) @ drop k rst @ b64_decode (tail @ b64_values T2) e) = Some crc"
          using t(12) by (simp add: data seen1_def)
        moreover have "b64_text T2" using t(6) l(2) by simp
        moreover have "h_handle (as_crc_ctx q3) = Some (''CRC24'', seen1 @ take k rst)" "h_output_len (as_crc_ctx q3) \<noteq> 0"
          using h by (simp_all add: q3_def pgp_hash_add_def)
        moreover have "(length (tail @ b64_values T2) + e) mod 4 = 0" using dp(2) t(8) by simp
        moreover have sel: "as_eofb64 q3 = False" "as_rest q3 = rst" "as_restpos q3 = k" "as_brest q3 = tail"
          "as_armorhdr q3 = Some hdr" "as_readsrc q3 = al_src l"
          using False q1(3) by (simp_all add: q3_def q2_def)
        ultimately show ?thesis using l4(2) t(2-5)
          by (intro armored_delI [where T = T2 and hdr = hdr and crc = crc and e = e and r = r and
                seen = "seen1 @ take k rst"]) (simp_all only: sel simp_thms)
      qed
      moreover have "length (al_out l @ take k rst) \<le> n" using lo pl by (simp add: k_def left_def)
      moreover have "al_out l @ take k rst = [] \<longrightarrow> data = []"
        using lo pl assms(2) l4(1) by (auto simp: left_def)
      ultimately show ?thesis unfolding read using data by blast
    qed
  qed
qed

end

lemma mem_armored_source:
  "block_source (armored_src_read bo (\<lambda>_. True)) (armored_del mem_src_read mem_rest mem_ok bo)"
  by unfold_locales (rule mem_source.armored_read_block, auto simp: PGP_INPUT_CACHE_SIZE_def)

interpretation mem_armored: block_source "armored_src_read bo (\<lambda>_. True)" "armored_del mem_src_read mem_rest mem_ok bo" for bo
  by (rule mem_armored_source)

interpretation mem_armored_blocks:
  block_reader "block_holds (armored_src_read bo (\<lambda>_. True)) (armored_del mem_src_read mem_rest mem_ok bo)" for bo
  by (rule mem_armored.block_reader_holds)

end
