(* ===== verification/Armor_Roundtrip.thy ===== *)
theory Armor_Roundtrip
  imports Armor_Read
begin

text \<open>
  Armor as a whole: the header lines are parsed, and the text that the armored destination
  writes is the text that the armored source decodes.
\<close>

section \<open>Header lines\<close>

lemma find_dashes_eq:
  assumes "take 5 (drop j buf) = ST_DASHES" "i \<le> j" "j < i + k"
    and "\<And>m. i \<le> m \<Longrightarrow> m < j \<Longrightarrow> take 5 (drop m buf) \<noteq> ST_DASHES"
  shows "find_dashes buf i k = Some j"
  using assms(2-4)
proof (induction k arbitrary: i)
  case (Suc k)
  show ?case
  proof (cases "i = j")
    case True
    then show ?thesis using assms(1) by simp
  next
    case False
    then show ?thesis using Suc.IH [of "Suc i"] Suc.prems by simp
  qed
qed simp

lemma find_armor_header_eq:
  assumes "CH_DASH \<notin> set mid" "mid \<noteq> []"
  shows "find_armor_header (ST_DASHES @ mid @ ST_DASHES @ z) = Some (0, length mid + 10)"
proof -
  let ?b = "ST_DASHES @ mid @ ST_DASHES @ z"
  have d: "length ST_DASHES = 5" by (simp add: ST_DASHES_codes)
  have "find_dashes ?b 0 (length ?b - 10) = Some 0"
    using assms(2) by (intro find_dashes_eq) (auto simp: d)
  moreover have "find_dashes ?b 5 (length ?b - 5 + 1 - 5) = Some (5 + length mid)"
  proof (rule find_dashes_eq)
    show "take 5 (drop (5 + length mid) ?b) = ST_DASHES" by (simp add: d)
    fix m assume m: "5 \<le> m" "m < 5 + length mid"
    then have "drop m ?b = drop (m - 5) mid @ ST_DASHES @ z" using d by simp
    moreover obtain x xs where "drop (m - 5) mid = x # xs" using m by (cases "drop (m - 5) mid") auto
    moreover have "x \<noteq> CH_DASH" using assms(1) calculation(2) by (metis in_set_dropD list.set_intros(1))
    ultimately show "take 5 (drop m ?b) \<noteq> ST_DASHES" by (auto simp: ST_DASHES_codes CH_DASH_def)
  qed (auto simp: d)
  ultimately show ?thesis by (simp add: find_armor_header_def)
qed

text \<open>The string between the dashes of a header line.\<close>

definition armor_label :: "pgp_armored_msg \<Rightarrow> bytes" where
  "armor_label t = drop 5 (take (length (the (armor_message_header t False)) - 5) (the (armor_message_header t False)))"

lemma armor_label_props:
  assumes "t \<noteq> PGP_ARMORED_UNKNOWN"
  shows "armor_message_header t False = Some (ST_DASHES @ armor_label t @ ST_DASHES)"
    and "armor_message_header t True = Some (armor_trailer (armor_label t))"
    and "armor_str_to_data_type (Some (armor_label t)) (length (armor_label t)) = t"
    and "CH_DASH \<notin> set (armor_label t)" "cstr (armor_label t) = armor_label t"
    and "5 \<le> length (armor_label t)" "length (armor_label t) \<le> 26"
  using assms
  by (cases t; simp add: armor_label_def armor_message_header_def ST_DASHES_def ST_ARMOR_BEGIN_def ST_ARMOR_END_def
      str_bytes_def armor_trailer_def cstr_def armor_str_to_data_type_def strncmp_eq_def CH_DASH_def)+

text \<open>What the build must guarantee of \<^verbatim>\<open>PACKAGE_STRING\<close>: it has no line feed.\<close>

definition version_line :: "bytes \<Rightarrow> bytes" where
  "version_line package_string = cstr (take 40 (ST_HEADER_VERSION @ package_string))"

lemma armor_head_eq:
  "t \<noteq> PGP_ARMORED_UNKNOWN \<Longrightarrow> armor_head package_string t =
     ST_DASHES @ armor_label t @ ST_DASHES @ CH_CR # CH_LF # version_line package_string @ CH_CR # CH_LF # CH_CR # CH_LF # []"
  by (simp add: armor_head_def armor_label_props(1) version_line_def)

lemma ST_HEADER_VERSION_codes: "ST_HEADER_VERSION = [86, 101, 114, 115, 105, 111, 110, 58, 32]"
  by (simp add: ST_HEADER_VERSION_def str_bytes_def)

lemma version_line_split: "\<exists>v. version_line package_string = ST_HEADER_VERSION @ v \<and> length v \<le> 31 \<and> set v \<subseteq> set package_string"
proof -
  have "version_line package_string = ST_HEADER_VERSION @ cstr (take 31 package_string)"
    by (simp add: version_line_def cstr_def ST_HEADER_VERSION_codes)
  moreover have "length (cstr (take 31 package_string)) \<le> 31"
    unfolding cstr_def by (rule order_trans [OF length_takeWhile_le]) simp
  moreover have "set (cstr (take 31 package_string)) \<subseteq> set package_string"
    by (auto simp: cstr_def dest: set_takeWhileD in_set_takeD)
  ultimately show ?thesis by blast
qed

context reliable_source
begin

lemma parse_header_has:
  assumes "has (as_readsrc q) (ST_DASHES @ armor_label t @ ST_DASHES @ z)" "t \<noteq> PGP_ARMORED_UNKNOWN" "5 \<le> length z"
  obtains s' where "armor_parse_header (\<lambda>_. True) q = (q\<lparr>as_readsrc := s', as_type := t, as_armorhdr := Some (armor_label t)\<rparr>, True)"
    "has s' z"
proof -
  let ?m = "armor_label t"
  let ?a = "ST_DASHES @ ?m @ ST_DASHES @ z"
  note lab = armor_label_props [OF assms(2)]
  have d: "length ST_DASHES = 5" by (simp add: ST_DASHES_codes)
  obtain s1 where s1: "src_peek (as_readsrc q) 128 = (s1, Some (take 128 ?a))" "has s1 ?a"
    by (rule peek_has [OF assms(1), of 128]) (auto simp: PGP_INPUT_CACHE_SIZE_def)
  define z' where "z' = take (118 - length ?m) z"
  have t: "take 128 ?a = ST_DASHES @ ?m @ ST_DASHES @ z'" using lab(7) by (simp add: d z'_def)
  have len: "\<not> length (ST_DASHES @ ?m @ ST_DASHES @ z') < 20" using lab(6,7) assms(3) by (simp add: d z'_def)
  have find: "find_armor_header (ST_DASHES @ ?m @ ST_DASHES @ z') = Some (0, length ?m + 10)"
    using lab(4,6) by (intro find_armor_header_eq) auto
  have "armor_parse_header (\<lambda>_. True) q =
      (q\<lparr>as_readsrc := fst (src_skip (\<lambda>_. True) s1 (length ?m + 10)), as_type := t, as_armorhdr := Some ?m\<rparr>, True)"
    using s1(1) len find lab(3) assms(2) unfolding t by (simp add: armor_parse_header_def Let_def d)
  moreover have "has (fst (src_skip (\<lambda>_. True) s1 (length ?m + 10))) z"
    using skip_has [OF s1(2), of "length ?m + 10"] by (simp add: d)
  ultimately show thesis by (rule that)
qed

lemma parse_headers_has:
  assumes "has (as_readsrc q) (version_line ps @ CH_CR # CH_LF # CH_CR # CH_LF # z)" "CH_LF \<notin> set ps"
  obtains s' v where "armor_parse_headers (\<lambda>_. True) q = Some (q\<lparr>as_readsrc := s', as_version := Some v\<rparr>, True)" "has s' z"
proof -
  obtain v where v: "version_line ps = ST_HEADER_VERSION @ v" "length v \<le> 31" "set v \<subseteq> set ps"
    using version_line_split by blast
  let ?h = "version_line ps"
  have h: "CH_LF \<notin> set ?h" "length ?h \<le> 40" "?h \<noteq> []" "take 9 ?h = ST_HEADER_VERSION" "drop 9 ?h = v"
    using v assms(2) by (auto simp: ST_HEADER_VERSION_codes CH_LF_def)
  obtain s1 where s1: "src_peek_line (as_readsrc q) 1024 = (s1, Some ?h)" "has s1 (?h @ CH_CR # CH_LF # CH_CR # CH_LF # z)"
    by (rule peek_line_has [OF assms(1) h(1), of 1024]) (use h(2) in auto)
  have "has (fst (src_skip (\<lambda>_. True) s1 (length ?h))) (CH_CR # CH_LF # CH_CR # CH_LF # z)"
    using skip_has [OF s1(2), of "length ?h"] by simp
  then obtain s2 where s2: "src_skip_eol (\<lambda>_. True) (fst (src_skip (\<lambda>_. True) s1 (length ?h))) = (s2, True)"
    "has s2 (CH_CR # CH_LF # z)" by (rule skip_eol_has)
  obtain s3 where s3: "src_peek_line s2 1024 = (s3, Some [])" "has s3 (CH_CR # CH_LF # z)"
    by (rule peek_line_has [of s2 "[]" z 1024]) (use s2(2) in auto)
  obtain s4 where s4: "src_skip_eol (\<lambda>_. True) s3 = (s4, True)" "has s4 z" by (rule skip_eol_has [OF s3(2)])
  define q1 where "q1 = q\<lparr>as_version := Some v, as_readsrc := s2\<rparr>"
  have "armor_parse_headers (\<lambda>_. True) q = armor_parse_headers (\<lambda>_. True) q1"
    using s1(1) s2(1) h by (subst armor_parse_headers.simps) (simp add: Let_def armor_set_header_def q1_def)
  moreover have "armor_parse_headers (\<lambda>_. True) q1 = Some (q1\<lparr>as_readsrc := s4\<rparr>, True)"
    using s3(1) s4(1) by (subst armor_parse_headers.simps) (simp add: q1_def)
  ultimately show thesis using s4(2) by (intro that [of v s4]) (simp_all add: q1_def)
qed

lemma init_armored_has:
  assumes "has s (armor_head ps t @ z)" "t \<noteq> PGP_ARMORED_UNKNOWN" "CH_LF \<notin> set ps" "crc24_ok bo"
  obtains src q where "init_armored_src bo (\<lambda>_. True) s = Some (src, RNP_SUCCESS)" "has (as_readsrc q) z"
    "src_param src = Some q" "src_rdf src = armored_src_read bo (\<lambda>_. True)" "\<not> src_knownsize src" "\<not> src_eofb src"
    "src_cache src = Some \<lparr>cbuf = [], cpos = 0, clen = 0, readahead = True\<rparr>"
    "as_rest q = []" "as_restpos q = 0" "as_brest q = []" "\<not> as_eofb64 q" "as_armorhdr q = Some (armor_label t)"
    "h_handle (as_crc_ctx q) = Some (''CRC24'', [])" "h_output_len (as_crc_ctx q) \<noteq> 0" "as_frees q = 0"
    "src_closef src = Some armored_src_close"
proof -
  define h where "h = \<lparr>h_handle = Some (''CRC24'', [] :: bytes), h_output_len = 3, h_alg = PGP_HASH_CRC24\<rparr>"
  define q0 where "q0 = (armored_zero_param s)\<lparr>as_crc_ctx := h\<rparr>"
  let ?z = "CH_CR # CH_LF # version_line ps @ CH_CR # CH_LF # CH_CR # CH_LF # z"
  have a: "armor_head ps t @ z = ST_DASHES @ armor_label t @ ST_DASHES @ ?z" by (simp add: armor_head_eq [OF assms(2)])
  have "has (as_readsrc q0) (ST_DASHES @ armor_label t @ ST_DASHES @ ?z)"
    using assms(1) by (simp add: q0_def armored_zero_param_def a)
  then obtain s1 where s1: "armor_parse_header (\<lambda>_. True) q0 =
      (q0\<lparr>as_readsrc := s1, as_type := t, as_armorhdr := Some (armor_label t)\<rparr>, True)" "has s1 ?z"
    by (rule parse_header_has) (use assms(2) in auto)
  obtain s2 where s2: "src_skip_eol (\<lambda>_. True) s1 = (s2, True)" "has s2 (version_line ps @ CH_CR # CH_LF # CH_CR # CH_LF # z)"
    by (rule skip_eol_has [OF s1(2)])
  define q2 where "q2 = q0\<lparr>as_type := t, as_armorhdr := Some (armor_label t), as_readsrc := s2\<rparr>"
  obtain s3 v where s3: "armor_parse_headers (\<lambda>_. True) q2 = Some (q2\<lparr>as_readsrc := s3, as_version := Some v\<rparr>, True)" "has s3 z"
    by (rule parse_headers_has [of q2 ps z]) (use s2(2) assms(3) in \<open>auto simp: q2_def\<close>)
  define q where "q = q2\<lparr>as_readsrc := s3, as_version := Some v\<rparr>"
  define src where "src = (fst (init_src_common (\<lambda>_. True) 4200 None (Some (armored_zero_param s))))
     \<lparr>src_rdf := armored_src_read bo (\<lambda>_. True), src_closef := Some armored_src_close,
      src_type := PGP_STREAM_ARMORED, src_param := Some q\<rparr>"
  have "init_armored_src bo (\<lambda>_. True) s = Some (src, RNP_SUCCESS)"
    using crc24_create [OF assms(4)] s1(1) s2(1) s3(1)
    by (simp add: init_armored_src_def init_src_common_def Let_def src_def q_def flip: h_def q0_def q2_def)
  then show thesis using s3(2)
    by (intro that [of src q]) (simp_all add: src_def init_src_common_def q_def q2_def q0_def armored_zero_param_def h_def)
qed

end

section \<open>The text that is written is the text that is read\<close>

lemma b64_char_text: "B64DEC ! unat (B64ENC ! unat v) < 64" for v :: byte
proof -
  have "unat (v AND 0x3f) < 64" by (simp add: unat_and_3f)
  then show ?thesis by (simp add: word_less_nat_alt)
qed

lemma b64_blank_vals: "B64DEC ! unat CH_CR = 0xfd" "B64DEC ! unat CH_LF = 0xfd"
  by (simp_all add: B64DEC_def CH_CR_def CH_LF_def)

lemma b64_line_text: "c \<in> set (b64_line bs) \<Longrightarrow> B64DEC ! unat c < 64"
proof (induction bs rule: b64_line.induct)
  case (1 a b c' bs)
  then show ?case by (auto simp: b64_line_step armored_encode3_def b64_char_text simp del: b64_line.simps(1) b64_val_char)
qed simp_all

lemma armor_wrap_text:
  assumes "\<And>c. c \<in> set cs \<Longrightarrow> B64DEC ! unat c < 64"
  shows "b64_text (armor_wrap col cs)" "b64_values (armor_wrap col cs) = map (\<lambda>c. B64DEC ! unat c) cs"
  using assms by (induction cs arbitrary: col) (auto simp: b64_blank_vals b64_values_def)

lemma tail_text:
  assumes "length r < 3"
  shows "b64_text (map (\<lambda>v. B64ENC ! unat v) (b64_tail_vals r))"
    "b64_values (map (\<lambda>v. B64ENC ! unat v) (b64_tail_vals r)) = b64_tail_vals r"
proof -
  show "b64_text (map (\<lambda>v. B64ENC ! unat v) (b64_tail_vals r))"
    by (auto simp: b64_text_def b64_char_text simp del: b64_val_char)
  have "x AND 0x3f = x" if "x \<in> set (b64_tail_vals r)" for x
    using that by (auto simp: b64_tail_vals_def drop_bit_2_and split: if_splits)
  moreover have "filter (\<lambda>c. B64DEC ! unat c < 64) (map (\<lambda>v. B64ENC ! unat v) (b64_tail_vals r)) =
      map (\<lambda>v. B64ENC ! unat v) (b64_tail_vals r)"
    by (rule filter_True) (auto simp: b64_char_text simp del: b64_val_char)
  ultimately show "b64_values (map (\<lambda>v. B64ENC ! unat v) (b64_tail_vals r)) = b64_tail_vals r"
    by (simp add: b64_values_def map_idI)
qed

lemma armor_text_split:
  assumes "t \<noteq> PGP_ARMORED_UNKNOWN"
  obtains T where "armor_body data @ armor_foot t crc =
      T @ armor_ending (armor_label t) crc (b64_pad (b64_rem data)) [CH_CR, CH_LF]"
    "b64_text T" "b64_values T = b64_split data @ b64_tail_vals (b64_rem data)"
proof -
  let ?r = "b64_rem data" and ?W = "armor_wrap 0 (b64_line data)"
  note w = armor_wrap_text [of "b64_line data" 0, OF b64_line_text]
  note r = tail_text [OF b64_rem_length, of data]
  have foot: "armor_foot t crc = CH_EQ # armored_encode3 crc @ CH_CR # CH_LF # armor_trailer (armor_label t) @ [CH_CR, CH_LF]"
    using armor_label_props(2) [OF assms] by (simp add: armor_foot_def)
  show thesis
  proof (cases "?r = []")
    case True
    then have "b64_pad ?r = 0" "armor_tail_text ?r = []" "b64_tail_vals ?r = []"
      by (simp_all add: b64_pad_def armor_tail_text_def b64_tail_vals_def)
    then show ?thesis using True w b64_line_vals [of data]
      by (intro that [of "?W @ (if length (b64_line data) mod 76 \<noteq> 0 then [CH_CR, CH_LF] else [])"])
        (auto simp: armor_body_def armor_ending_def foot b64_blank_vals b64_values_def)
  next
    case False
    have "b64_pad ?r \<noteq> 0" using False b64_rem_length [of data] by (cases ?r; cases "tl ?r") (auto simp: b64_pad_def)
    then show ?thesis using False w r b64_line_vals [of data] b64_tail_text_eq [OF b64_rem_length, of data]
      by (intro that [of "?W @ map (\<lambda>v. B64ENC ! unat v) (b64_tail_vals ?r)"])
        (auto simp: armor_body_def armor_ending_def foot)
  qed
qed

section \<open>Through memory\<close>

lemma armored_recv_werr: "armored_recv recv bo base t d a \<Longrightarrow> dst_werr d = RNP_SUCCESS"
  by (simp add: armored_recv_def recv_accepted_def)

lemma dst_finished_write [simp]: "dst_finished (dst_write d bs) = dst_finished d"
  by (auto simp: dst_write_def dst_write_rest_def dst_call_write_def Let_def split: option.splits prod.splits)

context receiver
begin

lemma recv_unfinished: "receiver (\<lambda>d a. recv d a \<and> \<not> dst_finished d)"
  by unfold_locales (simp add: recv_write)

end

context receiver
begin

text \<open>Whatever the destination is, it is given the armored text, and the result is success.\<close>

lemma armor_source_recv:
  assumes "src_holds mem_src_read mem_rest mem_ok s data" "recv d []" "crc24_ok bo" "t \<noteq> PGP_ARMORED_UNKNOWN"
  obtains s' d' where "rnp_armor_source bo (\<lambda>_. True) ps s d t = Some (s', d', RNP_SUCCESS)"
    "recv d' (armor_head ps t @ armor_body data @ armor_foot t (crc24 bo data))"
proof -
  let ?recv = "\<lambda>d a. armored_recv recv bo (armor_head ps t) t d a \<and> \<not> dst_finished d"
  obtain ad where ad: "init_armored_dst bo (\<lambda>_. True) ps zero_dest d t = (ad, RNP_SUCCESS)"
    "armored_recv recv bo ([] @ armor_head ps t) t ad []" "\<not> dst_finished ad"
    by (rule init_armored_recv [OF assms(2-4)])
  have w: "\<And>d b. ?recv d b \<Longrightarrow> length b \<le> length data \<Longrightarrow> dst_werr d = RNP_SUCCESS"
    using armored_recv_werr by blast
  have r: "receiver ?recv" by (rule receiver.recv_unfinished [OF armored_receiver])
  have "\<exists>s' d'. copy_loop RNP_ERROR_READ s ad = Some (s', d', RNP_SUCCESS) \<and> ?recv d' ([] @ data) \<and>
      src_holds mem_src_read mem_rest mem_ok s' []"
    by (rule mem_blocks.copy_loop_recv [where n = "length data", OF r w assms(1)]) (use ad(2,3) in auto)
  then obtain s' ad' where cp: "copy_loop RNP_ERROR_READ s ad = Some (s', ad', RNP_SUCCESS)"
    "armored_recv recv bo (armor_head ps t) t ad' data" "\<not> dst_finished ad'"
    by auto
  obtain ad'' p where f: "dst_finish ad' = (ad'', dst_werr (ad_writedst p))" "dst_param ad'' = Some p"
    "recv (ad_writedst p) (armor_head ps t @ armor_body data @ armor_foot t (crc24 bo data))"
    by (rule armored_finish_recv [OF cp(2) assms(3,4)])
  have "rnp_armor_source bo (\<lambda>_. True) ps s d t = Some (s', ad_writedst p, RNP_SUCCESS)"
    using ad(1) cp(1,3) f(1,2) by (simp add: rnp_armor_source_def Let_def)
  then show thesis using f(3) by (rule that)
qed

end

text \<open>The size of the text.\<close>

lemma length_armor_text:
  assumes "t \<noteq> PGP_ARMORED_UNKNOWN" "length crc = 3"
  shows "length (armor_head ps t @ armor_body data @ armor_foot t crc) \<le> 4 * length data + 200"
proof -
  have "length (armor_wrap 0 (b64_line data)) \<le> 3 * (length data div 3 * 4)"
    using length_armor_wrap [of 0 "b64_line data"] by simp
  then have "length (armor_body data) \<le> 4 * length data + 6"
    using div_times_less_eq_dividend [of "length data" 3] by (auto simp: armor_body_def armor_tail_text_def)
  moreover have "length (armor_head ps t) \<le> 100"
    using armor_label_props(7) [OF assms(1)] version_line_split [of ps]
    by (auto simp: armor_head_eq [OF assms(1)] ST_DASHES_codes ST_HEADER_VERSION_codes)
  moreover have "length (armor_foot t crc) \<le> 60"
    using armor_label_props [OF assms(1)] length_armor_trailer [of "armor_label t"] by (simp add: armor_foot_def)
  ultimately show ?thesis by simp
qed

lemma armor_source_mem:
  assumes "length data < 2 ^ 63" "crc24_ok bo" "t \<noteq> PGP_ARMORED_UNKNOWN" "4 * length data + 200 \<le> c"
  obtains s d where
    "rnp_armor_source bo (\<lambda>_. True) ps (fst (init_mem_src (\<lambda>_. True) data)) (fst (init_mem_dest (\<lambda>_. True) c)) t =
       Some (s, d, RNP_SUCCESS)"
    "mem_dest_get_memory d = Some (armor_head ps t @ armor_body data @ armor_foot t (crc24 bo data))"
proof -
  obtain s0 where s0: "init_mem_src (\<lambda>_. True) data = (s0, RNP_SUCCESS)" "src_holds mem_src_read mem_rest mem_ok s0 data"
    using assms(1) by (rule init_mem_src_holds)
  obtain s d where r: "rnp_armor_source bo (\<lambda>_. True) ps s0 (fst (init_mem_dest (\<lambda>_. True) c)) t = Some (s, d, RNP_SUCCESS)"
    "mem_recv c d (armor_head ps t @ armor_body data @ armor_foot t (crc24 bo data))"
    by (rule mem_receiver.armor_source_recv [OF s0(2) init_mem_dest_recv assms(2,3)])
  have "length (armor_head ps t @ armor_body data @ armor_foot t (crc24 bo data)) \<le> c"
    using length_armor_text [OF assms(3), of "crc24 bo data" ps data] crc24 [OF assms(2)] assms(4) by simp
  then show thesis using mem_recv_memory [OF r(2)] r(1) s0(1) by (intro that) auto
qed

lemma strstr_prefix: "strstr (s @ x) s"
  by (cases "s @ x") (simp_all, metis append_eq_conv_conj)

text \<open>The first 34 characters of armor decide that it is armor, and not a cleartext signature.\<close>

lemma armor_head_start:
  assumes "t \<noteq> PGP_ARMORED_UNKNOWN" "t \<noteq> PGP_ARMORED_CLEARTEXT"
  shows "strstr (cstr (take 34 (armor_head ps t))) ST_ARMOR_BEGIN" "\<not> strstr (cstr (take 34 (armor_head ps t))) ST_CLEAR_BEGIN"
    "35 \<le> length (armor_head ps t)"
proof -
  obtain v where v: "version_line ps = ST_HEADER_VERSION @ v" using version_line_split by blast
  show "strstr (cstr (take 34 (armor_head ps t))) ST_ARMOR_BEGIN" "\<not> strstr (cstr (take 34 (armor_head ps t))) ST_CLEAR_BEGIN"
    "35 \<le> length (armor_head ps t)"
    using assms unfolding armor_head_eq [OF assms(1)] v
    by (cases t; simp add: armor_label_def armor_message_header_def ST_DASHES_def ST_ARMOR_BEGIN_def ST_CLEAR_BEGIN_def
      ST_HEADER_VERSION_def str_bytes_def cstr_def CH_CR_def CH_LF_def)+
qed

lemma dearmor_source_mem:
  fixes bo ps t data
  defines "tx \<equiv> armor_head ps t @ armor_body data @ armor_foot t (crc24 bo data)"
  assumes "length tx < 2 ^ 63" "crc24_ok bo" "t \<noteq> PGP_ARMORED_UNKNOWN" "t \<noteq> PGP_ARMORED_CLEARTEXT"
    "CH_LF \<notin> set ps" "length data \<le> c"
  obtains d asrc where
    "rnp_dearmor_source bo (\<lambda>_. True) (fst (init_mem_src (\<lambda>_. True) tx)) (fst (init_mem_dest (\<lambda>_. True) c)) =
       Some (Dearmored RNP_SUCCESS d asrc)"
    "mem_dest_get_memory d = Some data"
proof -
  let ?has = "src_holds mem_src_read mem_rest mem_ok"
  obtain s0 where s0: "init_mem_src (\<lambda>_. True) tx = (s0, RNP_SUCCESS)" "?has s0 tx"
    using assms(2) by (rule init_mem_src_holds)
  obtain s1 where s1: "src_peek s0 35 = (s1, Some (take 35 tx))" "?has s1 tx"
    by (rule mem_source.peek_has [OF s0(2), of 35]) (auto simp: PGP_INPUT_CACHE_SIZE_def)
  note st = armor_head_start [OF assms(4,5), of ps]
  have len: "length ST_CLEAR_BEGIN = 34" "length ST_ARMOR_BEGIN = 15"
    by (simp_all add: ST_CLEAR_BEGIN_def ST_ARMOR_BEGIN_def str_bytes_def)
  have tx35: "butlast (take 35 tx) = take 34 (armor_head ps t)" "min (length tx) 35 = 35"
    using st(3) by (simp_all add: tx_def butlast_take)
  obtain T where T: "armor_body data @ armor_foot t (crc24 bo data) =
      T @ armor_ending (armor_label t) (crc24 bo data) (b64_pad (b64_rem data)) [CH_CR, CH_LF]"
    "b64_text T" "b64_values T = b64_split data @ b64_tail_vals (b64_rem data)"
    by (rule armor_text_split [OF assms(4)])
  obtain src q where i: "init_armored_src bo (\<lambda>_. True) s1 = Some (src, RNP_SUCCESS)"
    "?has (as_readsrc q) (armor_body data @ armor_foot t (crc24 bo data))"
    "src_param src = Some q" "src_rdf src = armored_src_read bo (\<lambda>_. True)" "\<not> src_knownsize src" "\<not> src_eofb src"
    "src_cache src = Some \<lparr>cbuf = [], cpos = 0, clen = 0, readahead = True\<rparr>"
    "as_rest q = []" "as_restpos q = 0" "as_brest q = []" "\<not> as_eofb64 q" "as_armorhdr q = Some (armor_label t)"
    "h_handle (as_crc_ctx q) = Some (''CRC24'', [])" "h_output_len (as_crc_ctx q) \<noteq> 0"
    by (rule mem_source.init_armored_has [OF s1(2) [unfolded tx_def] assms(4,6,3)])
  have "armored_del mem_src_read mem_rest mem_ok bo (Some q) data"
    by (rule armored_delI [where T = T and hdr = "armor_label t" and crc = "crc24 bo data" and e = "b64_pad (b64_rem data)"
        and r = "[CH_CR, CH_LF]" and seen = "[]"])
      (use i T b64_decode_vals [of data] b64_pad_length [of data] crc24 [OF assms(3)] armor_label_props [OF assms(4)] in \<open>simp_all add: b64_pad_def\<close>)
  then have bh: "block_holds (armored_src_read bo (\<lambda>_. True)) (armored_del mem_src_read mem_rest mem_ok bo) src data"
    using i(3-7) by (simp add: block_holds_def cached_def cache_ok_def)
  have w: "\<And>d b. mem_recv c d b \<Longrightarrow> length b \<le> length data \<Longrightarrow> dst_werr d = RNP_SUCCESS"
    using mem_recv_memory assms(7) by (meson order_trans)
  have "\<exists>s' d'. copy_loop RNP_ERROR_GENERIC src (fst (init_mem_dest (\<lambda>_. True) c)) = Some (s', d', RNP_SUCCESS) \<and>
      mem_recv c d' ([] @ data) \<and> block_holds (armored_src_read bo (\<lambda>_. True)) (armored_del mem_src_read mem_rest mem_ok bo) s' []"
    by (rule mem_armored_blocks.copy_loop_recv [where n = "length data", OF mem_receiver.receiver_axioms w bh init_mem_dest_recv])
      auto
  then obtain src' d where cp: "copy_loop RNP_ERROR_GENERIC src (fst (init_mem_dest (\<lambda>_. True) c)) = Some (src', d, RNP_SUCCESS)"
    "mem_recv c d data"
    by auto
  have "rnp_dearmor_source bo (\<lambda>_. True) s0 (fst (init_mem_dest (\<lambda>_. True) c)) =
      Some (Dearmored RNP_SUCCESS d (Some (src_close src')))"
    using s1(1) st(1,2) i(1) cp(1) by (simp add: rnp_dearmor_source_def len tx35 Let_def)
  then show thesis using mem_recv_memory [OF cp(2) assms(7)] s0(1) by (intro that) auto
qed

end
