(* ===== verification/Armor_Limits.thy ===== *)
theory Armor_Limits
  imports Armor_Roundtrip
begin

text \<open>
  Bounds and failures of the armored streams: the encoder's buffer and the length of lines;
  text without an end, which the reading loop never leaves; parameters that are freed twice;
  errors of the destination that are not reported.
\<close>

section \<open>The buffer of the encoder\<close>

lemma armored_lines_bound:
  assumes "armor_layout p" "length encbuf \<le> 16384" "armored_lines p encbuf buf = (p', enc', buf')"
  shows "length enc' \<le> 16384"
  using assms
proof (induction p encbuf buf rule: armored_lines.induct)
  case (1 p encbuf buf)
  show ?case
  proof (cases "length buf < 3 \<or> armor_line_len p = 0")
    case True
    then show ?thesis using 1 by (simp add: armored_lines.simps)
  next
    case False
    define over where "over = (PGP_INPUT_CACHE_SIZE div 2 - ad_llen p - 2 < length encbuf)"
    define p1 where "p1 = (if over then armor_write p encbuf else p)"
    define enc1 where "enc1 = (if over then [] else encbuf)"
    define full where "full = (armor_line_len p \<le> length buf)"
    define n where "n = (if full then armor_line_len p else length buf div 3 * 3)"
    define lout where "lout = (if full then 0 else ad_lout p + n div 3 * 4)"
    define enc2 where "enc2 = enc1 @ b64_line (take n buf) @ (if lout = 0 then armor_eol p else [])"
    obtain k where k: "ad_lout p = 4 * k" "k < 19" using dvd4_cases 1(2) unfolding armor_layout_def by blast
    have ll: "armor_line_len p = (19 - k) * 3" using 1(2) k by (simp add: armor_line_len_eq)
    have n: "n \<le> (19 - k) * 3" "n \<le> length buf" using False by (auto simp: n_def full_def ll)
    have lay: "armor_layout (p1\<lparr>ad_lout := lout\<rparr>)"
    proof -
      have "length buf div 3 < 19 - k" if "\<not> full" using that by (simp add: full_def ll div_less_iff_less_mult)
      then have "lout < 76 \<and> 4 dvd lout" using k by (auto simp: lout_def n_def)
      then show ?thesis using 1(2) by (auto simp: armor_layout_def p1_def armor_write_def)
    qed
    have "length (b64_line (take n buf)) \<le> (19 - k) * 4" using n by simp
    moreover have "length enc1 \<le> 16384 - 78" using 1(2)
      by (auto simp: enc1_def over_def PGP_INPUT_CACHE_SIZE_def armor_layout_def)
    moreover have "length (armor_eol p) = 2" using 1(2) by (simp add: armor_layout_def armor_eol_def)
    ultimately have len: "length enc2 \<le> 16384" by (auto simp: enc2_def)
    have step: "armored_lines p encbuf buf = armored_lines (p1\<lparr>ad_lout := lout\<rparr>) enc2 (drop n buf)"
      using False unfolding armored_lines.simps [of p encbuf buf]
      by (simp add: Let_def p1_def enc1_def enc2_def lout_def n_def full_def over_def)
    show ?thesis
      using 1(1) [OF False over_def p1_def enc1_def full_def n_def lout_def] lay len 1(4) unfolding step enc2_def by blast
  qed
qed

section \<open>Lines\<close>

text \<open>No line is longer than 76 characters and a carriage return, from column \<open>col\<close> on.\<close>

fun lines_ok :: "nat \<Rightarrow> bytes \<Rightarrow> bool" where
  "lines_ok col [] = True"
| "lines_ok col (c # cs) = (if c = CH_LF then lines_ok 0 cs else col < 77 \<and> lines_ok (Suc col) cs)"

lemma lines_ok_wrap:
  "col < 76 \<Longrightarrow> CH_LF \<notin> set cs \<Longrightarrow>
   lines_ok col (armor_wrap col cs @ z) = lines_ok ((col + length cs) mod 76) z"
proof (induction cs arbitrary: col)
  case (Cons c cs)
  show ?case
  proof (cases "Suc col = 76")
    case True
    then show ?thesis using Cons.prems Cons.IH [of 0] by (auto simp: CH_CR_def CH_LF_def)
  next
    case False
    then show ?thesis using Cons.prems Cons.IH [of "Suc col"] by auto
  qed
qed simp

lemma lines_ok_short: "CH_LF \<notin> set xs \<Longrightarrow> col + length xs \<le> 77 \<Longrightarrow> lines_ok col (xs @ CH_LF # z) = lines_ok 0 z"
  by (induction xs arbitrary: col) auto

lemma b64_char_no_lf: "CH_LF \<noteq> B64ENC ! unat v" for v :: byte
  using b64_char_text [of v] b64_blank_vals(2) by (auto simp del: b64_val_char)

lemma b64_no_lf: "CH_LF \<notin> set (b64_line bs)"
  using b64_line_text [of CH_LF bs] by (auto simp: b64_blank_vals)

lemma armor_body_lines: "lines_ok 0 (armor_body data)"
proof -
  let ?n = "length (b64_line data) mod 76" and ?t = "armor_tail_text (b64_rem data)"
  have "4 dvd length (b64_line data)" by simp
  then have "4 dvd ?n" by (rule dvd_mod) simp
  then have n: "?n \<le> 72" using dvd4_cases [of ?n] by fastforce
  have lf: "CH_LF \<noteq> CH_EQ" "CH_LF \<noteq> CH_CR" by (simp_all add: CH_EQ_def CH_LF_def CH_CR_def)
  have t: "CH_LF \<notin> set (?t @ [CH_CR])" "length ?t \<le> 4" "b64_rem data = [] \<Longrightarrow> ?t = []"
    using lf by (auto simp: armor_tail_text_def b64_char_no_lf)
  have "lines_ok 0 (armor_body data) =
      lines_ok ?n (?t @ (if b64_rem data \<noteq> [] \<or> ?n \<noteq> 0 then [CH_CR, CH_LF] else []))"
    unfolding armor_body_def by (subst lines_ok_wrap) (simp_all add: b64_no_lf)
  also have "\<dots>" using lines_ok_short [OF t(1), of ?n "[]"] n t(2,3) by auto
  finally show ?thesis .
qed

section \<open>Text without an end\<close>

context reliable_source
begin

text \<open>
  The loop can only return if the text may hold what is asked for: without an equals sign
  it goes on reading at the end of the text.
\<close>

lemma read_loop_returns:
  assumes "armored_read_loop (\<lambda>_. True) hdr crc s dec out left = Some l" "has s T" "b64_text T"
  shows "left < (length dec + length T) div 4 * 3 + 3"
proof -
  have "al = (\<lambda>_. True) \<longrightarrow> (\<forall>T. has s T \<longrightarrow> b64_text T \<longrightarrow> left < (length dec + length T) div 4 * 3 + 3)"
    if "armored_read_loop al hdr crc s dec out left = Some l" for al s dec out left l
    using that
  proof (rule armored_read_loop.raw_induct [rotated], goal_cases)
    case (1 f al hdr crc s dec out left l)
    show ?case
    proof (intro impI allI)
      fix T
      assume al: "al = (\<lambda>_. True)" and h: "has s T" "b64_text T"
      let ?b = "take ARMORED_BLOCK_SIZE T" and ?T = "drop ARMORED_BLOCK_SIZE T"
      obtain s1 where s1: "src_peek s ARMORED_BLOCK_SIZE = (s1, Some ?b)" "has s1 T"
        by (rule peek_has [OF h(1), of ARMORED_BLOCK_SIZE]) (simp_all add: PGP_INPUT_CACHE_SIZE_def)
      have b: "b64_text ?b" "b64_text ?T" using b64_text_part [OF h(2), of ARMORED_BLOCK_SIZE] by auto
      have s2: "has (fst (src_skip (\<lambda>_. True) s1 (length ?b))) ?T"
        using skip_has [OF s1(2), of "length ?b"] by (cases "length T \<le> ARMORED_BLOCK_SIZE") simp_all
      define d where "d = dec @ b64_values ?b"
      define g where "g = length d div 4"
      show "left < (length dec + length T) div 4 * 3 + 3"
      proof (rule ccontr)
        assume big: "\<not> ?thesis"
        have d: "length d + length ?T \<le> length dec + length T"
          using length_b64_values [of ?b] by (simp add: d_def, linarith)
        then have "(length d + length ?T) div 4 \<le> (length dec + length T) div 4" by (rule div_le_mono)
        then have lg: "(length d + length ?T) div 4 * 3 + 3 \<le> left" using big by linarith
        have "(4 * g + (length (drop (g * 4) d) + length ?T)) div 4 = g + (length (drop (g * 4) d) + length ?T) div 4"
          by simp
        moreover have "4 * g + length (drop (g * 4) d) = length d" by (simp add: g_def)
        ultimately have split: "(length d + length ?T) div 4 = g + (length (drop (g * 4) d) + length ?T) div 4"
          by (metis add.assoc)
        define q where "q = (length (drop (g * 4) d) + length ?T) div 4"
        have "(g + q) * 3 + 3 \<le> left" using lg unfolding split q_def by simp
        then have "length d div 4 * 3 < left" "3 \<le> left - g * 3" by (simp_all flip: g_def)
        then have "f al hdr crc (fst (src_skip (\<lambda>_. True) s1 (length ?b))) (drop (g * 4) d)
            (out @ b64_join (take (g * 4) d)) (left - g * 3) = Some l"
          using 1(2) s1(1) b64_scan_text(1) [OF b(1)] al by (simp add: Let_def g_def d_def)
        from 1(1) [OF this] have "left - g * 3 < (length (drop (g * 4) d) + length ?T) div 4 * 3 + 3"
          using al s2 b(2) by blast
        then show False using lg split by simp
      qed
    qed
  qed
  then show ?thesis using assms by blast
qed

end

section \<open>Closing twice\<close>

text \<open>Parsing the headers does not free the parameters.\<close>

lemma parse_header_frees: "as_frees (fst (armor_parse_header al param)) = as_frees param"
  by (auto simp: armor_parse_header_def Let_def split: prod.splits option.splits)

lemma set_header_frees: "as_frees (armor_set_header param h) = as_frees param"
  by (simp add: armor_set_header_def)

lemma parse_headers_frees:
  assumes "armor_parse_headers al param = Some r"
  shows "as_frees (fst r) = as_frees param"
  using assms
proof (rule armor_parse_headers.raw_induct [rotated], goal_cases)
  case (1 f al param r)
  then show ?case
    by (auto simp: Let_def set_header_frees split: prod.splits option.splits if_splits dest!: 1(1))
qed

lemma parse_header_freesD: "armor_parse_header al param = (p, ok) \<Longrightarrow> as_frees p = as_frees param"
  using parse_header_frees [of al param] by simp

lemma init_armored_src_failed:
  assumes "init_armored_src bo al readsrc = Some (s, RNP_ERROR_BAD_FORMAT)"
  shows "\<exists>q. src_param s = Some q \<and> as_frees q = 1 \<and> src_closef s = Some armored_src_close"
proof -
  have "\<exists>s1 p. s = src_close (s1\<lparr>src_param := Some p\<rparr>) \<and> src_closef s1 = Some armored_src_close \<and> as_frees p = 0"
    using assms unfolding init_armored_src_def Let_def
    by (auto split: prod.splits option.splits if_splits dest!: parse_headers_frees parse_header_freesD)
      (force simp: armored_zero_param_def)+
  then show ?thesis by (auto simp: src_close_def armored_src_close_def)
qed

lemma copy_loop_result:
  assumes "copy_loop e s d = Some r"
  shows "snd (snd r) \<in> {RNP_SUCCESS, RNP_ERROR_WRITE, e}"
  using assms
proof (rule copy_loop.raw_induct [rotated], goal_cases)
  case (1 f e s d r)
  show ?case using 1(2) by (auto simp: Let_def split: prod.splits option.splits if_splits dest!: 1(1))
qed

lemma dearmor_close_twice:
  assumes "rnp_dearmor_source bo al src dst = Some (Dearmored RNP_ERROR_BAD_FORMAT d (Some s))"
  shows "\<exists>q. src_param s = Some q \<and> as_frees q = 2"
proof -
  have "\<exists>r s1. s = src_close s1 \<and> init_armored_src bo al r = Some (s1, RNP_ERROR_BAD_FORMAT)"
    using assms unfolding rnp_dearmor_source_def Let_def
    by (auto split: prod.splits option.splits if_splits dest!: copy_loop_result)
  then show ?thesis using init_armored_src_failed by (fastforce simp: src_close_def armored_src_close_def)
qed

section \<open>Errors of the destination\<close>

text \<open>A memory destination that has not failed holds no more than its limit.\<close>

definition mem_limited_ok :: "nat \<Rightarrow> mem_dst_param option \<Rightarrow> nat \<Rightarrow> bool" where
  "mem_limited_ok c param writeb \<longleftrightarrow>
     (\<exists>m. param = Some m \<and> length (mdp_memory m) = writeb \<and> writeb \<le> c \<and> mdp_maxalloc m = c \<and> mdp_allocated m \<le> c)"

interpretation mem_limited: byte_sink "mem_dst_write al" mem_out "mem_limited_ok c" for al c
  by unfold_locales
    (auto simp: mem_dst_write_def mem_out_def mem_limited_ok_def Let_def split: option.splits if_splits)

definition mem_limited_recv :: "nat \<Rightarrow> mem_dst_param option pgp_dest \<Rightarrow> bytes \<Rightarrow> bool" where
  "mem_limited_recv c d a \<longleftrightarrow>
     recv_unless_error (mem_dst_write (\<lambda>_. True)) mem_out (mem_limited_ok c) d a \<and> dst_no_cache d"

interpretation mem_limited_receiver: receiver "mem_limited_recv c" for c
  by unfold_locales (auto simp: mem_limited_recv_def intro: mem_limited.unless_error.recv_write)

lemma init_mem_dest_limited: "mem_limited_recv c (fst (init_mem_dest (\<lambda>_. True) c)) []"
  by (auto simp: mem_limited_recv_def recv_unless_error_def init_mem_dest_def init_dst_common_def dst_inv_def dst_out_def
      mem_limited_ok_def mem_out_def)

lemma mem_limited_overflow: "mem_limited_recv c d a \<Longrightarrow> c < length a \<Longrightarrow> dst_werr d \<noteq> RNP_SUCCESS"
  by (auto simp: mem_limited_recv_def recv_unless_error_def dst_inv_def mem_limited_ok_def dst_out_def mem_out_def)

lemma armor_source_overflow:
  assumes "length data < 2 ^ 63" "crc24_ok bo" "t \<noteq> PGP_ARMORED_UNKNOWN"
    "c < length (armor_head ps t @ armor_body data @ armor_foot t (crc24 bo data))"
  obtains s d where
    "rnp_armor_source bo (\<lambda>_. True) ps (fst (init_mem_src (\<lambda>_. True) data)) (fst (init_mem_dest (\<lambda>_. True) c)) t =
       Some (s, d, RNP_SUCCESS)" "dst_werr d \<noteq> RNP_SUCCESS"
proof -
  obtain s0 where s0: "init_mem_src (\<lambda>_. True) data = (s0, RNP_SUCCESS)" "src_holds mem_src_read mem_rest mem_ok s0 data"
    using assms(1) by (rule init_mem_src_holds)
  obtain s d where r: "rnp_armor_source bo (\<lambda>_. True) ps s0 (fst (init_mem_dest (\<lambda>_. True) c)) t = Some (s, d, RNP_SUCCESS)"
    "mem_limited_recv c d (armor_head ps t @ armor_body data @ armor_foot t (crc24 bo data))"
    by (rule mem_limited_receiver.armor_source_recv [OF s0(2) init_mem_dest_limited assms(2,3)])
  show thesis using mem_limited_overflow [OF r(2) assms(4)] r(1) s0(1) by (intro that) auto
qed

end
