(* ===== verification/Literal_Packets.thy ===== *)
theory Literal_Packets
  imports Partial_Packets
begin

text \<open>
  Literal data packets: the destination of \<^verbatim>\<open>src/src/librepgp/stream-write.c\<close>, which writes the
  data format, the file name and the time and then the data into a packet of partial
  length, and the source of \<^verbatim>\<open>src/src/librepgp/stream-parse.c\<close>, which reads packets of
  definite, partial and indeterminate length.
\<close>

section \<open>Writing\<close>

text \<open>
  What the functions on \<^verbatim>\<open>param->writedst\<close> do to it.  Closing it frees the partial length
  destination; what is left is the original destination.
\<close>

definition streamed_write :: "'q streamed_dst \<Rightarrow> bytes \<Rightarrow> 'q streamed_dst" where
  "streamed_write sd bs =
     (case sd of Partial_dst pd \<Rightarrow> Partial_dst (dst_write pd bs) | Direct_dst d \<Rightarrow> Direct_dst (dst_write d bs))"

definition close_streamed_packet :: "'q streamed_dst \<Rightarrow> bool \<Rightarrow> 'q pgp_dest option" where
  "close_streamed_packet sd discard =
     (case sd of
        Partial_dst pd \<Rightarrow>
          let pd' = (if \<not> discard \<and> \<not> dst_finished pd then fst (dst_finish pd) else pd)
          in map_option pd_writedst (dst_param pd')
      | Direct_dst d \<Rightarrow> Some d)"

definition literal_dst_write :: "'q streamed_dst option \<Rightarrow> nat \<Rightarrow> bytes \<Rightarrow> 'q streamed_dst option \<times> rnp_result" where
  "literal_dst_write param writeb buf =
     (case param of
        None \<Rightarrow> (None, RNP_ERROR_BAD_PARAMETERS)
      | Some sd \<Rightarrow> (Some (streamed_write sd buf), RNP_SUCCESS))"

text \<open>
  \<^verbatim>\<open>literal_dst_finish\<close> does not check its parameters as the write callback does; \<^verbatim>\<open>dst_close\<close>, which
  frees them, is the last use of a destination.
\<close>

definition literal_dst_finish :: "'q streamed_dst option \<Rightarrow> 'q streamed_dst option \<times> rnp_result" where
  "literal_dst_finish param =
     (case param of
        None \<Rightarrow> (None, RNP_ERROR_BAD_PARAMETERS)
      | Some sd \<Rightarrow> (case finish_streamed_packet sd of (sd', res) \<Rightarrow> (Some sd', res)))"

definition literal_dst_close :: "'q streamed_dst option \<Rightarrow> bool \<Rightarrow> 'q streamed_dst option" where
  "literal_dst_close param discard = None"

text \<open>
  \<^verbatim>\<open>init_literal_dst\<close>, with the file name and the time of the operation's context.  The time is
  stored in 32 bits.  On failure the result has the destination to write to, which may have
  received a tag byte.
\<close>

definition literal_header :: "bytes option \<Rightarrow> nat \<Rightarrow> bytes" where
  "literal_header filename filemtime =
     (let name = take 255 (case filename of None \<Rightarrow> [] | Some s \<Rightarrow> s)
      in [of_char (CHR ''b''), to_byte (length name)] @ name @ STORE32BE filemtime)"

definition init_literal_dst ::
    "alloc \<Rightarrow> bytes option \<Rightarrow> nat \<Rightarrow> 'q pgp_dest \<Rightarrow> ('q pgp_dest \<times> rnp_result) + 'q streamed_dst option pgp_dest" where
  "init_literal_dst al filename filemtime writedst =
     (case init_dst_common al 24 None None of
        (dst, ok) \<Rightarrow>
          if \<not> ok then Inl (writedst, RNP_ERROR_OUT_OF_MEMORY)
          else
            (case init_streamed_packet al
                    \<lparr>pkt_partial = True, pkt_indeterminate = False, pkt_tag = nat PGP_PTAG_CT_LITDATA\<rparr> writedst of
               Inl writedst' \<Rightarrow> Inl (writedst', RNP_ERROR_BAD_PARAMETERS)
             | Inr sd \<Rightarrow>
                 let name = take 255 (case filename of None \<Rightarrow> [] | Some s \<Rightarrow> s);
                     sd1 = streamed_write sd [of_char (CHR ''b''), to_byte (length name)];
                     sd2 = (if name \<noteq> [] then streamed_write sd1 name else sd1);
                     sd3 = streamed_write sd2 (STORE32BE filemtime)
                 in Inr (dst\<lparr>dst_param := Some sd3, dst_wrf := Some literal_dst_write,
                             dst_finishf := Some literal_dst_finish, dst_closef := Some literal_dst_close,
                             dst_type := PGP_STREAM_LITERAL\<rparr>)))"

section \<open>Reading\<close>

text \<open>
  The source of a packet's body, \<^verbatim>\<open>param->readsrc\<close>: the source that holds the packet or a partial
  length source on top of it, which is then \<^verbatim>\<open>origsrc\<close>.
\<close>

datatype 'q packet_src =
    Whole_src "'q pgp_source"
  | Parts_src "'q partial_src_param option pgp_source"

definition packet_read :: "'q packet_src \<Rightarrow> nat \<Rightarrow> 'q packet_src \<times> bytes option" where
  "packet_read ps len =
     (case ps of
        Whole_src s \<Rightarrow> (case src_read s len of (s', r) \<Rightarrow> (Whole_src s', r))
      | Parts_src s \<Rightarrow> (case src_read s len of (s', r) \<Rightarrow> (Parts_src s', r)))"

definition packet_orig :: "'q packet_src \<Rightarrow> 'q pgp_source option" where
  "packet_orig ps = (case ps of Whole_src s \<Rightarrow> Some s | Parts_src s \<Rightarrow> map_option pp_readsrc (src_param s))"

record 'q pgp_source_packet_param =
  ps_readsrc :: "'q packet_src"
  ps_partial :: bool
  ps_indeterminate :: bool
  ps_hdrlen :: nat
  ps_len :: nat

text \<open>A negative header length is stored in the unsigned field.\<close>

definition init_packet_params :: "alloc \<Rightarrow> 'q pgp_source \<Rightarrow> 'q pgp_source_packet_param \<times> rnp_result" where
  "init_packet_params al readsrc =
     (case stream_pkt_hdr_len readsrc of
        (s1, hl) \<Rightarrow>
          let param = (\<lambda>ps. \<lparr>ps_readsrc = ps, ps_partial = False, ps_indeterminate = False,
                             ps_hdrlen = (case hl of None \<Rightarrow> 2 ^ 64 - 1 | Some n \<Rightarrow> n), ps_len = 0\<rparr>) in
          (case stream_partial_pkt_len s1 of
             (s2, True) \<Rightarrow>
               if \<not> al 72 then (param (Whole_src s2), RNP_ERROR_OUT_OF_MEMORY)
               else
                 (case init_partial_pkt_src al s2 of
                    Inl (s3, errcode) \<Rightarrow> (param (Whole_src s3), errcode)
                  | Inr partsrc \<Rightarrow> ((param (Parts_src partsrc))\<lparr>ps_partial := True\<rparr>, RNP_SUCCESS))
           | (s2, False) \<Rightarrow>
               (case stream_intedeterminate_pkt_len s2 of
                  (s3, True) \<Rightarrow>
                    ((param (Whole_src (fst (src_skip al s3 1))))\<lparr>ps_indeterminate := True\<rparr>, RNP_SUCCESS)
                | (s3, False) \<Rightarrow>
                    (case stream_read_pkt_len s3 of
                       (s4, None) \<Rightarrow> (param (Whole_src s4), RNP_ERROR_BAD_FORMAT)
                     | (s4, Some len) \<Rightarrow> ((param (Whole_src s4))\<lparr>ps_len := len\<rparr>, RNP_SUCCESS)))))"

record 'q literal_src_param =
  ls_pkt :: "'q pgp_source_packet_param"
  ls_text :: bool
  ls_filename :: bytes
  ls_timestamp :: "32 word"

definition literal_src_read :: "'q literal_src_param option \<Rightarrow> nat \<Rightarrow> 'q literal_src_param option \<times> bytes option" where
  "literal_src_read p len =
     (case p of
        None \<Rightarrow> (None, None)
      | Some param \<Rightarrow>
          (case packet_read (ps_readsrc (ls_pkt param)) len of
             (ps, r) \<Rightarrow> (Some (param\<lparr>ls_pkt := (ls_pkt param)\<lparr>ps_readsrc := ps\<rparr>\<rparr>), r)))"

definition literal_src_close :: "'q literal_src_param option \<Rightarrow> 'q literal_src_param option" where
  "literal_src_close p = None"

text \<open>Reading exactly \<open>n\<close> bytes of the packet.\<close>

definition packet_get :: "'q packet_src \<Rightarrow> nat \<Rightarrow> 'q packet_src \<times> bytes option" where
  "packet_get ps n =
     (case packet_read ps n of
        (ps', Some bs) \<Rightarrow> (ps', if length bs = n then Some bs else None)
      | (ps', None) \<Rightarrow> (ps', None))"

text \<open>The fields in front of the data: format, file name and time.\<close>

definition literal_fields :: "'q packet_src \<Rightarrow> 'q packet_src \<times> (rnp_result + bool \<times> bytes \<times> 32 word)" where
  "literal_fields ps =
     (case packet_get ps 1 of
        (ps1, None) \<Rightarrow> (ps1, Inl RNP_ERROR_READ)
      | (ps1, Some fmt) \<Rightarrow>
          if fmt ! 0 \<notin> of_char ` {CHR ''b'', CHR ''t'', CHR ''u'', CHR ''l'', CHR ''1''}
          then (ps1, Inl RNP_ERROR_BAD_FORMAT)
          else
            (case packet_get ps1 1 of
               (ps2, None) \<Rightarrow> (ps2, Inl RNP_ERROR_READ)
             | (ps2, Some nlen) \<Rightarrow>
                 (case (if nlen ! 0 = 0 then (ps2, Some []) else packet_get ps2 (unat (nlen ! 0))) of
                    (ps3, None) \<Rightarrow> (ps3, Inl RNP_ERROR_READ)
                  | (ps3, Some name) \<Rightarrow>
                      (case packet_get ps3 4 of
                         (ps4, None) \<Rightarrow> (ps4, Inl RNP_ERROR_READ)
                       | (ps4, Some tst) \<Rightarrow>
                           (ps4, Inr (fmt ! 0 \<noteq> of_char (CHR ''b''), name, read_uint32 tst))))))"

text \<open>
  \<^verbatim>\<open>init_literal_src\<close>.  The size of the data is the length of the packet less the length of the
  fields, in 64 bits.  On failure the result has the source that holds the packet.
\<close>

definition init_literal_src ::
    "alloc \<Rightarrow> 'q pgp_source \<Rightarrow> ('q pgp_source option \<times> rnp_result) + 'q literal_src_param option pgp_source" where
  "init_literal_src al readsrc =
     (case init_src_common al 304 None None of
        (src, ok) \<Rightarrow>
          if \<not> ok then Inl (Some readsrc, RNP_ERROR_OUT_OF_MEMORY)
          else
            (case init_packet_params al readsrc of
               (pkt, errcode) \<Rightarrow>
                 if errcode \<noteq> RNP_SUCCESS then Inl (packet_orig (ps_readsrc pkt), errcode)
                 else
                   (case literal_fields (ps_readsrc pkt) of
                      (ps, Inl err) \<Rightarrow> Inl (packet_orig ps, err)
                    | (ps, Inr (text, name, tst)) \<Rightarrow>
                        let param = \<lparr>ls_pkt = pkt\<lparr>ps_readsrc := ps\<rparr>, ls_text = text, ls_filename = name,
                                     ls_timestamp = tst\<rparr>;
                            src1 = src\<lparr>src_param := Some param, src_rdf := literal_src_read,
                                       src_closef := Some literal_src_close, src_type := PGP_STREAM_LITERAL\<rparr>
                        in Inr (if \<not> ps_indeterminate pkt \<and> \<not> ps_partial pkt
                                then src1\<lparr>src_size := sub64 (ps_len pkt) (6 + length name), src_knownsize := True\<rparr>
                                else src1))))"


section \<open>What a literal destination writes\<close>

lemma dst_finish_finished: "dst_finish d = (d', r) \<Longrightarrow> dst_finished d'"
  by (auto simp: dst_finish_def Let_def split: option.splits prod.splits)

text \<open>
  The callback has accepted \<open>data\<close> after the fields \<open>hdr\<close>: the partial length destination has
  received both.
\<close>

definition literal_accepted ::
    "('q pgp_dest \<Rightarrow> bytes \<Rightarrow> bool) \<Rightarrow> bytes \<Rightarrow> bytes \<Rightarrow> 'q streamed_dst option \<Rightarrow> bytes \<Rightarrow> bool" where
  "literal_accepted recv base hdr p data \<longleftrightarrow>
     (\<exists>pd. p = Some (Partial_dst pd) \<and> partial_recv recv base pd (hdr @ data))"

definition literal_recv ::
    "('q pgp_dest \<Rightarrow> bytes \<Rightarrow> bool) \<Rightarrow> bytes \<Rightarrow> bytes \<Rightarrow> 'q streamed_dst option pgp_dest \<Rightarrow> bytes \<Rightarrow> bool" where
  "literal_recv recv base hdr = recv_accepted literal_dst_write (Some literal_dst_finish) (literal_accepted recv base hdr)"

context receiver
begin

lemma literal_acceptor: "acceptor literal_dst_write (literal_accepted recv base hdr)"
proof
  fix p a n bs
  assume "literal_accepted recv base hdr p a"
  then obtain pd where pd: "p = Some (Partial_dst pd)" "partial_recv recv base pd (hdr @ a)"
    by (auto simp: literal_accepted_def)
  show "\<exists>p'. literal_dst_write p n bs = (p', RNP_SUCCESS) \<and> literal_accepted recv base hdr p' (a @ bs)"
    using receiver.recv_write [OF partial_receiver pd(2), of bs]
    by (simp add: literal_dst_write_def streamed_write_def literal_accepted_def pd(1))
qed

lemma literal_receiver: "receiver (literal_recv recv base hdr)"
  unfolding literal_recv_def by (rule acceptor.accepted_receiver [OF literal_acceptor])

lemma init_literal_recv:
  assumes "recv d a"
  obtains dst where "init_literal_dst (\<lambda>_. True) filename filemtime d = Inr dst"
    "literal_recv recv (a @ [0xCB]) (literal_header filename filemtime) dst []"
proof -
  define name where "name = take 255 (case filename of None \<Rightarrow> [] | Some s \<Rightarrow> s)"
  define pieces where "pieces = [[of_char (CHR ''b''), to_byte (length name)], name, STORE32BE filemtime]"
  have tag: "to_byte (nat PGP_PTAG_CT_LITDATA) OR PGP_PTAG_ALWAYS_SET OR PGP_PTAG_NEW_FORMAT = 0xCB" by simp
  obtain pd where pd: "init_partial_pkt_dst (\<lambda>_. True) (dst_write d [0xCB]) = (pd, RNP_SUCCESS)"
    "partial_recv recv (a @ [0xCB]) pd []"
    using init_partial_recv [OF recv_write [OF assms, of "[0xCB]"]] by blast
  have fields: "literal_header filename filemtime = concat pieces"
    by (simp add: literal_header_def name_def pieces_def Let_def)
  define pd3 where "pd3 = fold (\<lambda>bs d. dst_write d bs) pieces pd"
  have pd3: "partial_recv recv (a @ [0xCB]) pd3 (literal_header filename filemtime)"
    using receiver.recv_writes [OF partial_receiver pd(2), of pieces] by (simp add: fields pd3_def)
  have "streamed_write (let sd = streamed_write (Partial_dst pd) (pieces ! 0)
      in if name \<noteq> [] then streamed_write sd name else sd) (STORE32BE filemtime) = Partial_dst pd3"
    by (cases "name = []") (simp_all add: streamed_write_def pieces_def pd3_def Let_def)
  then have "\<exists>dst. init_literal_dst (\<lambda>_. True) filename filemtime d = Inr dst \<and>
      recv_accepted literal_dst_write (Some literal_dst_finish) (\<lambda>p a. p = Some (Partial_dst pd3) \<and> a = []) dst []"
    unfolding init_literal_dst_def init_dst_common_def init_streamed_packet_def name_def [symmetric]
    by (simp add: pd(1) tag Let_def recv_accepted_def pieces_def)
  with pd3 that show thesis by (auto simp: literal_recv_def recv_accepted_def literal_accepted_def)
qed

lemma literal_finish_recv:
  assumes "literal_recv recv base hdr dst data"
  obtains dst' pd p parts lastpart where "dst_finish dst = (dst', dst_werr (pd_writedst p))"
    "dst_param dst' = Some (Partial_dst pd)" "dst_param pd = Some p" "dst_finished pd"
    "\<forall>x \<in> set parts. length x = PARTIAL_PKT_BLOCK_SIZE" "length lastpart \<le> PARTIAL_PKT_BLOCK_SIZE"
    "concat parts @ lastpart = hdr @ data"
    "recv (pd_writedst p) (base @ parts_enc 0xED parts @ write_packet_len (length lastpart) @ lastpart)"
proof -
  note f = acceptor.accepted_flush [OF literal_acceptor assms [unfolded literal_recv_def]]
  obtain pd where pd: "dst_param (dst_flush dst) = Some (Partial_dst pd)" "partial_recv recv base pd (hdr @ data)"
    "dst_finishf (dst_flush dst) = Some literal_dst_finish"
    using f by (auto simp: recv_accepted_def literal_accepted_def)
  obtain pd' p parts y where p: "dst_finish pd = (pd', dst_werr (pd_writedst p))" "dst_param pd' = Some p"
    "\<forall>x \<in> set parts. length x = PARTIAL_PKT_BLOCK_SIZE" "length y \<le> PARTIAL_PKT_BLOCK_SIZE"
    "concat parts @ y = hdr @ data"
    "recv (pd_writedst p) (base @ parts_enc 0xED parts @ write_packet_len (length y) @ y)"
    by (rule partial_finish_recv [OF pd(2)])
  have "dst_finish dst = ((dst_flush dst)\<lparr>dst_param := Some (Partial_dst pd'), dst_finished := True\<rparr>,
      dst_werr (pd_writedst p))"
    using pd(1,3) p(1) by (simp add: dst_finish_def literal_dst_finish_def finish_streamed_packet_def)
  from that [OF this _ p(2) dst_finish_finished [OF p(1)] p(3-6)] show thesis by simp
qed

end


section \<open>What a literal source delivers\<close>

definition packet_rest :: "('q \<Rightarrow> bytes) \<Rightarrow> 'q packet_src \<Rightarrow> bytes" where
  "packet_rest rest ps =
     (case ps of Whole_src s \<Rightarrow> src_avail rest s | Parts_src s \<Rightarrow> src_avail (partial_rest rest) s)"

definition packet_ok ::
    "('q \<Rightarrow> nat \<Rightarrow> 'q \<times> bytes option) \<Rightarrow> ('q \<Rightarrow> bytes) \<Rightarrow> ('q \<Rightarrow> bool) \<Rightarrow> 'q packet_src \<Rightarrow> bool" where
  "packet_ok rd rest ok ps =
     (case ps of
        Whole_src s \<Rightarrow> src_inv rd rest ok s
      | Parts_src s \<Rightarrow>
          src_inv partial_pkt_src_read (partial_rest rest) (\<lambda>p. partial_ok rd rest ok p \<and> partial_whole rest p) s)"

definition literal_rest :: "('q \<Rightarrow> bytes) \<Rightarrow> 'q literal_src_param option \<Rightarrow> bytes" where
  "literal_rest rest p = (case p of None \<Rightarrow> [] | Some q \<Rightarrow> packet_rest rest (ps_readsrc (ls_pkt q)))"

definition literal_ok ::
    "('q \<Rightarrow> nat \<Rightarrow> 'q \<times> bytes option) \<Rightarrow> ('q \<Rightarrow> bytes) \<Rightarrow> ('q \<Rightarrow> bool) \<Rightarrow> 'q literal_src_param option \<Rightarrow> bool" where
  "literal_ok rd rest ok p \<longleftrightarrow> (\<exists>q. p = Some q \<and> packet_ok rd rest ok (ps_readsrc (ls_pkt q)))"

context reliable_source
begin

lemma read_whole:
  assumes "holds s a"
  obtains s' where "src_read s (length a) = (s', Some a)" "snd (src_eof s')"
proof -
  have inv: "src_inv rd rest ok s" and av: "src_avail rest s = a" using assms by (auto simp: src_holds_def)
  obtain s' where s': "src_read s (length a) = (s', Some a)" "src_avail rest s' = []" "src_inv rd rest ok s'"
    by (rule src_read_any [OF inv, of "length a"]) (simp add: av)
  have "src_readb s' + 1 < 2 ^ 64" using s'(3) by (simp add: src_inv_def)
  then have "snd (src_eof s')" by (rule src_eof_eq [OF s'(3)]) (simp add: s'(2))
  with s'(1) that show thesis by blast
qed

lemma packet_read_holds:
  assumes "packet_ok rd rest ok ps"
  obtains ps' where "packet_read ps n = (ps', Some (take n (packet_rest rest ps)))"
    "packet_rest rest ps' = drop n (packet_rest rest ps)" "packet_ok rd rest ok ps'"
proof (cases ps)
  case (Whole_src s)
  then have "src_inv rd rest ok s" using assms by (simp add: packet_ok_def)
  then show thesis
    by (rule src_read_any [of s n]) (simp add: that Whole_src packet_read_def packet_rest_def packet_ok_def)
next
  case (Parts_src s)
  then have "src_inv partial_pkt_src_read (partial_rest rest) (\<lambda>p. partial_ok rd rest ok p \<and> partial_whole rest p) s"
    using assms by (simp add: packet_ok_def)
  then show thesis
    by (rule reliable_source.src_read_any [OF partial_reliable_source, of s n])
      (simp add: that Parts_src packet_read_def packet_rest_def packet_ok_def)
qed

lemma literal_reliable_source:
  "reliable_source literal_src_read (literal_rest rest) (literal_ok rd rest ok)"
proof -
  have call: "\<exists>p'. literal_src_read p n = (p', Some (take n (literal_rest rest p))) \<and>
      literal_rest rest p' = drop n (literal_rest rest p) \<and> literal_ok rd rest ok p'"
    if lok: "literal_ok rd rest ok p" for p n
  proof -
    obtain q where q: "p = Some q" "packet_ok rd rest ok (ps_readsrc (ls_pkt q))"
      using lok by (auto simp: literal_ok_def)
    show ?thesis
      by (rule packet_read_holds [OF q(2), of n]) (simp add: q(1) literal_src_read_def literal_rest_def literal_ok_def)
  qed
  show ?thesis
  proof unfold_locales
    fix p n p' r bs
    assume p: "literal_ok rd rest ok p"
    obtain q where q: "literal_src_read p n = (q, Some (take n (literal_rest rest p)))"
      "literal_rest rest q = drop n (literal_rest rest p)" "literal_ok rd rest ok q"
      using call [OF p] by blast
    show "literal_src_read p n = (p', r) \<Longrightarrow> literal_ok rd rest ok p'"
      "literal_src_read p n = (p', Some bs) \<Longrightarrow> literal_rest rest p = bs @ literal_rest rest p'"
      "literal_src_read p n = (p', Some bs) \<Longrightarrow> length bs \<le> n"
      "literal_src_read p n = (p', Some []) \<Longrightarrow> 0 < n \<Longrightarrow> literal_rest rest p = []"
      "snd (literal_src_read p n) \<noteq> None"
      using q by auto
  qed
qed

lemma packet_get_exact:
  assumes "packet_ok rd rest ok ps" "packet_rest rest ps = xs @ r" "length xs = n"
  obtains ps' where "packet_get ps n = (ps', Some xs)" "packet_rest rest ps' = r" "packet_ok rd rest ok ps'"
  by (rule packet_read_holds [OF assms(1), of n]) (use assms(2,3) in \<open>simp add: that packet_get_def\<close>)

text \<open>The fields of a literal packet, read one after the other.\<close>

lemma literal_fields_holds:
  assumes "packet_ok rd rest ok ps" "length name < 256"
    and "packet_rest rest ps = fmt # to_byte (length name) # name @ STORE32BE tm @ data"
    and "fmt \<in> of_char ` {CHR ''b'', CHR ''t'', CHR ''u'', CHR ''l'', CHR ''1''}"
  obtains ps' where
    "literal_fields ps = (ps', Inr (fmt \<noteq> of_char (CHR ''b''), name, read_uint32 (STORE32BE tm)))"
    "packet_rest rest ps' = data" "packet_ok rd rest ok ps'"
proof -
  obtain ps1 where 1: "packet_get ps 1 = (ps1, Some [fmt])"
    "packet_rest rest ps1 = [to_byte (length name)] @ name @ STORE32BE tm @ data" "packet_ok rd rest ok ps1"
    by (rule packet_get_exact [OF assms(1), of "[fmt]"]) (simp_all add: assms(3))
  obtain ps2 where 2: "packet_get ps1 1 = (ps2, Some [to_byte (length name)])"
    "packet_rest rest ps2 = name @ STORE32BE tm @ data" "packet_ok rd rest ok ps2"
    by (rule packet_get_exact [OF 1(3,2)]) simp_all
  obtain ps3 where 3: "packet_get ps2 (length name) = (ps3, Some name)"
    "packet_rest rest ps3 = STORE32BE tm @ data" "packet_ok rd rest ok ps3"
    by (rule packet_get_exact [OF 2(3,2)]) simp_all
  define ps3' where "ps3' = (if name = [] then ps2 else ps3)"
  have m: "packet_rest rest ps3' = STORE32BE tm @ data" "packet_ok rd rest ok ps3'"
    using 2 3 by (auto simp: ps3'_def)
  obtain ps4 where 4: "packet_get ps3' 4 = (ps4, Some (STORE32BE tm))" "packet_rest rest ps4 = data" "packet_ok rd rest ok ps4"
    by (rule packet_get_exact [OF m(2,1), of 4]) simp_all
  have n: "unat (to_byte (length name)) = length name" using assms(2) by simp
  then have z: "to_byte (length name) = 0 \<longleftrightarrow> name = []" by (metis length_0_conv unat_eq_zero)
  have "literal_fields ps = (ps4, Inr (fmt \<noteq> of_char (CHR ''b''), name, read_uint32 (STORE32BE tm)))"
    unfolding literal_fields_def using assms(2,4) 1(1) 2(1) 3(1) 4(1) z
    by (cases "name = []") (simp_all add: ps3'_def del: image_insert)
  with 4 that show thesis by blast
qed

text \<open>Looking at the header does not change what the source holds.\<close>

lemma pkt_hdr_len_holds:
  assumes "holds s a"
  obtains s' hl where "stream_pkt_hdr_len s = (s', hl)" "holds s' a"
proof -
  have inv: "src_inv rd rest ok s" "src_avail rest s = a" using assms by (auto simp: src_holds_def)
  have "src_readb s + 2 < 2 ^ 64" using src_holds_readb [OF assms] by simp
  then obtain s' where "src_peek s 2 = (s', Some (take 2 a))" "holds s' a"
    using src_peek_eq [OF inv(1), of 2] inv(2) by (auto simp: src_holds_def PGP_INPUT_CACHE_SIZE_def)
  with that show thesis by (simp add: stream_pkt_hdr_len_def)
qed

lemma indeterminate_pkt_len_holds:
  assumes "holds s (t # a)" "t AND PGP_PTAG_NEW_FORMAT \<noteq> 0"
  obtains s' where "stream_intedeterminate_pkt_len s = (s', False)" "holds s' (t # a)"
proof -
  have inv: "src_inv rd rest ok s" "src_avail rest s = t # a" using assms by (auto simp: src_holds_def)
  have "src_readb s + 1 < 2 ^ 64" using src_holds_readb [OF assms(1)] by simp
  then obtain s' where "src_peek s 1 = (s', Some [t])" "holds s' (t # a)"
    using src_peek_eq [OF inv(1), of 1] inv(2) by (auto simp: src_holds_def PGP_INPUT_CACHE_SIZE_def)
  with that assms(2) show thesis by (simp add: stream_intedeterminate_pkt_len_def)
qed

text \<open>A packet of definite length, followed by other bytes.\<close>

lemma init_params_whole:
  assumes "holds s (packet_bytes tag body @ r)" "length body < 2 ^ 32"
  obtains pkt where "init_packet_params al s = (pkt, RNP_SUCCESS)" "\<not> ps_partial pkt" "\<not> ps_indeterminate pkt"
    "ps_len pkt = length body" "packet_ok rd rest ok (ps_readsrc pkt)" "packet_rest rest (ps_readsrc pkt) = body @ r"
proof -
  let ?t = "tag OR PGP_PTAG_ALWAYS_SET OR PGP_PTAG_NEW_FORMAT"
  define n where "n = length body"
  have t: "?t AND PGP_PTAG_NEW_FORMAT \<noteq> 0" by (simp add: bit.conj_disj_distrib2)
  obtain s1 hl where s1: "stream_pkt_hdr_len s = (s1, hl)" "holds s1 (packet_bytes tag body @ r)"
    by (rule pkt_hdr_len_holds [OF assms(1)])
  obtain h x where h: "write_packet_len n @ body @ r = h # x" "unat h < 224 \<or> unat h = 255"
  proof (cases "n < 192 \<or> 8383 < n")
    case False
    then have "n - 192 < 32 * 256" by linarith
    then have "(n - 192) div 256 < 32" by (simp only: less_mult_imp_div_less)
    with False that show ?thesis by (simp add: write_packet_len_def drop_bit_eq_div)
  qed (use that in \<open>auto simp: write_packet_len_def\<close>)
  have bytes: "packet_bytes tag body @ r = ?t # h # x" using h(1) by (simp add: packet_bytes_def n_def)
  obtain s2 where s2: "stream_partial_pkt_len s1 = (s2, False)" "holds s2 (packet_bytes tag body @ r)"
    by (rule partial_pkt_len_holds [OF s1(2)]) (use h(2) in \<open>auto simp: bytes\<close>)
  obtain s3 where s3: "stream_intedeterminate_pkt_len s2 = (s3, False)" "holds s3 (packet_bytes tag body @ r)"
    by (rule indeterminate_pkt_len_holds [OF s2(2) [unfolded bytes] t]) (simp add: bytes)
  obtain s4 where "stream_read_pkt_len s3 = (s4, Some (length body))" "holds s4 (body @ r)"
    by (rule packet_len_holds [OF s3(2) assms(2)])
  with s1 s2 s3 show thesis
    by (intro that) (auto simp: init_packet_params_def Let_def packet_ok_def packet_rest_def src_holds_def)
qed

text \<open>A packet of partial length whose parts are complete.\<close>

lemma init_params_parts:
  assumes "holds s (t # h # a)" "t AND PGP_PTAG_NEW_FORMAT \<noteq> 0" "224 \<le> unat h" "unat h < 255"
    and "partial_readable (get_part_len h) False a"
  obtains pkt where "init_packet_params (\<lambda>_. True) s = (pkt, RNP_SUCCESS)" "ps_partial pkt"
    "packet_ok rd rest ok (ps_readsrc pkt)" "packet_rest rest (ps_readsrc pkt) = partial_data (get_part_len h) False a"
proof -
  obtain s1 hl where s1: "stream_pkt_hdr_len s = (s1, hl)" "holds s1 (t # h # a)"
    by (rule pkt_hdr_len_holds [OF assms(1)])
  obtain s2 where s2: "stream_partial_pkt_len s1 = (s2, True)" "holds s2 (t # h # a)"
    by (rule partial_pkt_len_holds [OF s1(2)]) (use assms(2-4) in simp)
  obtain src where "init_partial_pkt_src (\<lambda>_. True) s2 = Inr src"
    "src_holds partial_pkt_src_read (partial_rest rest) (\<lambda>p. partial_ok rd rest ok p \<and> partial_whole rest p) src
       (partial_data (get_part_len h) False a)"
    by (rule init_partial_src_holds [OF s2(2) assms(2-4)]) (use assms(5) in auto)
  with s1 s2 show thesis
    by (intro that) (auto simp: init_packet_params_def Let_def packet_ok_def packet_rest_def src_holds_def)
qed

text \<open>What \<^verbatim>\<open>init_literal_src\<close> makes of a packet whose fields are complete.\<close>

lemma init_literal_src_fields:
  assumes "init_packet_params (\<lambda>_. True) s = (pkt, RNP_SUCCESS)" "packet_ok rd rest ok (ps_readsrc pkt)"
    and "packet_rest rest (ps_readsrc pkt) = fmt # to_byte (length name) # name @ STORE32BE tm @ data"
    and "length name < 256" "fmt \<in> of_char ` {CHR ''b'', CHR ''t'', CHR ''u'', CHR ''l'', CHR ''1''}"
    and "length data < 2 ^ 63"
  obtains src q where "init_literal_src (\<lambda>_. True) s = Inr src" "src_param src = Some q"
    "ls_text q \<longleftrightarrow> fmt \<noteq> of_char (CHR ''b'')" "ls_filename q = name" "ls_timestamp q = read_uint32 (STORE32BE tm)"
    "src_knownsize src \<longleftrightarrow> \<not> ps_indeterminate pkt \<and> \<not> ps_partial pkt"
    "src_knownsize src \<Longrightarrow> src_size src = sub64 (ps_len pkt) (6 + length name)"
    "literal_ok rd rest ok (src_param src)" "literal_rest rest (src_param src) = data"
    "src_rdf src = literal_src_read" "src_readb src = 0" "\<not> src_eofb src"
    "src_cache src = Some \<lparr>cbuf = [], cpos = 0, clen = 0, readahead = True\<rparr>"
    "\<not> src_knownsize src \<or> length data \<le> src_size src \<and> src_size src < 2 ^ 63 \<Longrightarrow>
       src_holds literal_src_read (literal_rest rest) (literal_ok rd rest ok) src data"
proof -
  obtain ps where ps: "literal_fields (ps_readsrc pkt) =
      (ps, Inr (fmt \<noteq> of_char (CHR ''b''), name, read_uint32 (STORE32BE tm)))"
    "packet_rest rest ps = data" "packet_ok rd rest ok ps"
    by (rule literal_fields_holds [OF assms(2,4,3,5)])
  define q where "q = \<lparr>ls_pkt = pkt\<lparr>ps_readsrc := ps\<rparr>, ls_text = (fmt \<noteq> of_char (CHR ''b'')), ls_filename = name,
    ls_timestamp = read_uint32 (STORE32BE tm)\<rparr>"
  define known where "known = (\<not> ps_indeterminate pkt \<and> \<not> ps_partial pkt)"
  define src where "src = \<lparr>src_rdf = literal_src_read, src_finishf = None, src_closef = Some literal_src_close,
    src_type = PGP_STREAM_LITERAL, src_size = (if known then sub64 (ps_len pkt) (6 + length name) else 0), src_readb = 0,
    src_cache = Some \<lparr>cbuf = [], cpos = 0, clen = 0, readahead = True\<rparr>,
    src_param = Some q, src_eofb = False, src_knownsize = known\<rparr>"
  have init: "init_literal_src (\<lambda>_. True) s = Inr src"
    by (simp add: init_literal_src_def assms(1) ps(1) init_src_common_def src_def q_def known_def Let_def)
  show thesis
    by (rule that [OF init, of q])
      (use ps assms(6) in \<open>auto simp: src_def q_def literal_ok_def literal_rest_def known_def
        src_holds_def src_inv_def src_avail_def cached_def cache_ok_def\<close>)
qed

end


section \<open>Literal packets through memory streams\<close>

interpretation mem_literal_receiver: receiver "literal_recv (mem_recv c) base hdr" for c base hdr
  by (rule mem_receiver.literal_receiver)

interpretation mem_literal: reliable_source literal_src_read "literal_rest mem_rest" "literal_ok mem_src_read mem_rest mem_ok"
  by (rule mem_source.literal_reliable_source)

lemma parts_short:
  assumes "\<forall>x \<in> set parts. length x = PARTIAL_PKT_BLOCK_SIZE" "length (concat parts @ y) < PARTIAL_PKT_BLOCK_SIZE"
  shows "parts = []"
  using assms by (cases parts) auto

lemma literal_packet_memory:
  assumes "2 * (length (literal_header fn tm) + length (concat bss)) + 6 \<le> c"
  obtains dst dst' sd d parts y where
    "init_literal_dst (\<lambda>_. True) fn tm (fst (init_mem_dest (\<lambda>_. True) c)) = Inr dst"
    "dst_finish (fold (\<lambda>bs d. dst_write d bs) bss dst) = (dst', RNP_SUCCESS)" "dst_param dst' = Some sd"
    "close_streamed_packet sd False = Some d"
    "mem_dest_get_memory d = Some (0xCB # parts_enc 0xED parts @ write_packet_len (length y) @ y)"
    "\<forall>x \<in> set parts. length x = PARTIAL_PKT_BLOCK_SIZE" "length y \<le> PARTIAL_PKT_BLOCK_SIZE"
    "concat parts @ y = literal_header fn tm @ concat bss"
proof -
  obtain dst where dst: "init_literal_dst (\<lambda>_. True) fn tm (fst (init_mem_dest (\<lambda>_. True) c)) = Inr dst"
    "literal_recv (mem_recv c) [0xCB] (literal_header fn tm) dst []"
    using mem_receiver.init_literal_recv [OF init_mem_dest_recv, where filename = fn and filemtime = tm] by auto
  have all: "literal_recv (mem_recv c) [0xCB] (literal_header fn tm) (fold (\<lambda>bs d. dst_write d bs) bss dst) (concat bss)"
    using mem_literal_receiver.recv_writes [OF dst(2), of bss] by simp
  obtain dst' pd p parts y where f: "dst_finish (fold (\<lambda>bs d. dst_write d bs) bss dst) = (dst', dst_werr (pd_writedst p))"
    "dst_param dst' = Some (Partial_dst pd)" "dst_param pd = Some p" "dst_finished pd"
    "\<forall>x \<in> set parts. length x = PARTIAL_PKT_BLOCK_SIZE"
    "length y \<le> PARTIAL_PKT_BLOCK_SIZE" "concat parts @ y = literal_header fn tm @ concat bss"
    "mem_recv c (pd_writedst p) ([0xCB] @ parts_enc 0xED parts @ write_packet_len (length y) @ y)"
    by (rule mem_receiver.literal_finish_recv [OF all])
  have "length (concat parts) + length y = length (literal_header fn tm) + length (concat bss)"
    using f(7) by (metis length_append)
  then have "length ([0xCB] @ parts_enc 0xED parts @ write_packet_len (length y) @ y) \<le> c"
    using length_parts_enc [OF f(5), of "0xED"] length_write_packet_len [of "length y"] assms
    unfolding length_append by simp
  note m = mem_recv_memory [OF f(8) this]
  have fin: "dst_finish (fold (\<lambda>bs d. dst_write d bs) bss dst) = (dst', RNP_SUCCESS)"
    and cl: "close_streamed_packet (Partial_dst pd) False = Some (pd_writedst p)"
    using f(1,3,4) m by (simp_all add: close_streamed_packet_def)
  show thesis by (rule that [OF dst(1) fin f(2) cl _ f(5-7)]) (use m in simp)
qed

lemma length_concat_parts: "length (concat parts) \<le> length (parts_enc h parts)"
  by (induction parts) (auto simp: parts_enc_def)

lemma literal_packet_source:
  assumes "length (0xCB # parts_enc 0xED parts @ write_packet_len (length y) @ y) < 2 ^ 63"
    and "\<forall>x \<in> set parts. length x = PARTIAL_PKT_BLOCK_SIZE" "length y \<le> PARTIAL_PKT_BLOCK_SIZE"
    and "concat parts @ y = literal_header fn tm @ data"
  defines "mem \<equiv> 0xCB # parts_enc 0xED parts @ write_packet_len (length y) @ y"
  obtains src q where "init_literal_src (\<lambda>_. True) (fst (init_mem_src (\<lambda>_. True) mem)) = Inr src"
    "src_param src = Some q" "\<not> ls_text q" "ls_filename q = take 255 (case fn of None \<Rightarrow> [] | Some s \<Rightarrow> s)"
    "ls_timestamp q = read_uint32 (STORE32BE tm)"
    "src_holds literal_src_read (literal_rest mem_rest) (literal_ok mem_src_read mem_rest mem_ok) src data"
proof -
  define name where "name = take 255 (case fn of None \<Rightarrow> [] | Some s \<Rightarrow> s)"
  have hdr: "literal_header fn tm @ data = 98 # to_byte (length name) # name @ STORE32BE tm @ data" and nm: "length name < 256"
    by (simp_all add: literal_header_def name_def Let_def)
  obtain s0 where s0: "init_mem_src (\<lambda>_. True) mem = (s0, RNP_SUCCESS)" "src_holds mem_src_read mem_rest mem_ok s0 mem"
    using init_mem_src_holds [of mem] assms(1) by (auto simp: mem_def)
  have hl: "length (literal_header fn tm @ data) = 6 + length name + length data" by (simp add: hdr)
  then have total: "6 + length name + length data = length (concat parts) + length y" by (metis assms(4) length_append)
  have dl: "length data < 2 ^ 63" using total length_concat_parts [of parts "0xED"] assms(1) by simp
  have "\<exists>pkt. init_packet_params (\<lambda>_. True) s0 = (pkt, RNP_SUCCESS) \<and> packet_ok mem_src_read mem_rest mem_ok (ps_readsrc pkt) \<and>
    packet_rest mem_rest (ps_readsrc pkt) = literal_header fn tm @ data \<and>
    (ps_partial pkt \<or> ps_len pkt = 6 + length name + length data)"
  proof (cases parts)
    case Nil
    have tag: "0xCB = (11 :: byte) OR PGP_PTAG_ALWAYS_SET OR PGP_PTAG_NEW_FORMAT" by simp
    have "mem = packet_bytes 11 y @ []" by (simp add: mem_def Nil parts_enc_def packet_bytes_def)
    then have h: "src_holds mem_src_read mem_rest mem_ok s0 (packet_bytes 11 y @ [])" using s0(2) by simp
    have y: "length y < 2 ^ 32" using assms(3) by (simp add: block_size)
    show ?thesis
      by (rule mem_source.init_params_whole [OF h y, where al = "\<lambda>_. True"]) (use assms(4) total Nil in auto)
  next
    case (Cons x xs)
    define a where "a = x @ parts_enc 0xED xs @ write_packet_len (length y) @ y"
    have h: "src_holds mem_src_read mem_rest mem_ok s0 (0xCB # 0xED # a)"
      using s0(2) by (simp add: a_def mem_def Cons parts_enc_def)
    have x: "length x = PARTIAL_PKT_BLOCK_SIZE" and xs: "\<forall>z \<in> set xs. length z = PARTIAL_PKT_BLOCK_SIZE"
      using assms(2) Cons by auto
    have data: "partial_data (get_part_len 0xED) False a = literal_header fn tm @ data"
      "partial_readable (get_part_len 0xED) False a"
      using partial_data_parts [OF xs assms(3), of "[]"] partial_full_part [OF x] assms(4) Cons
      by (simp_all add: a_def get_part_len_def block_size push_bit_eq_mult)
    show ?thesis
      by (rule mem_source.init_params_parts [OF h _ _ _ data(2)]) (auto simp: data(1))
  qed
  then obtain pkt where pkt: "init_packet_params (\<lambda>_. True) s0 = (pkt, RNP_SUCCESS)"
    "packet_ok mem_src_read mem_rest mem_ok (ps_readsrc pkt)"
    "packet_rest mem_rest (ps_readsrc pkt) = 98 # to_byte (length name) # name @ STORE32BE tm @ data"
    "ps_partial pkt \<or> ps_len pkt = 6 + length name + length data" by (auto simp: hdr)
  have fmt: "98 \<in> (of_char ` {CHR ''b'', CHR ''t'', CHR ''u'', CHR ''l'', CHR ''1''} :: byte set)" by simp
  show thesis
    by (rule mem_source.init_literal_src_fields [OF pkt(1-3) nm fmt dl])
      (rule that, use s0(1) pkt(4) dl in \<open>auto simp: name_def sub64_def\<close>)
qed

end
