(* ===== verification/Signature.thy ===== *)
theory Signature
  imports Packet_Roundtrip
begin

text \<open>
  Signature packets, the rest of \<^verbatim>\<open>src/src/librepgp/stream-packet.c\<close>: version 3 and
  version 4 fields, subpackets, the signature material, and the accessors that the
  verification code uses.  \<^verbatim>\<open>pgp_sig_subpkt_t\<close> and \<^verbatim>\<open>pgp_signature_t\<close> are declared in
  \<^verbatim>\<open>src/src/lib/types.h\<close>.
\<close>

section \<open>Structures\<close>

text \<open>
  The union \<^verbatim>\<open>fields\<close> of a subpacket, one constructor for each member that the parser
  sets.  A pointer into the data together with its length is the byte list it delimits;
  the pointers of a notation are missing when its two lengths do not add up.
\<close>

datatype subpkt_fields =
    F_none
  | F_create nat
  | F_expiry nat
  | F_exportable bool
  | F_trust byte byte
  | F_regexp bytes
  | F_revocable bool
  | F_preferred bytes
  | F_revocation_key byte byte bytes
  | F_issuer bytes
  | F_notation_lens nat nat
  | F_notation bytes bytes
  | F_ks_prefs bool
  | F_preferred_ks bytes
  | F_primary_uid bool
  | F_policy bytes
  | F_key_flags byte
  | F_signer bytes
  | F_revocation_reason byte bytes
  | F_feature_mdc bool
  | F_sig_target byte byte bytes
  | F_issuer_fp byte bytes

text \<open>\<^verbatim>\<open>pgp_sig_subpkt_t\<close>; the field \<^verbatim>\<open>len\<close> is the length of \<open>sp_data\<close>.\<close>

record pgp_sig_subpkt =
  sp_type :: nat
  sp_data :: bytes
  sp_critical :: bool
  sp_hashed :: bool
  sp_parsed :: bool
  sp_fields :: subpkt_fields

text \<open>The union \<^verbatim>\<open>material\<close> of a signature.\<close>

datatype sig_material =
    Mat_none
  | Mat_rsa bytes
  | Mat_dsa bytes bytes
  | Mat_ecc bytes bytes
  | Mat_eg bytes bytes

text \<open>\<^verbatim>\<open>pgp_signature_t\<close>; the list of subpackets is a HOL list.\<close>

record pgp_signature =
  sig_version :: nat
  sig_type :: nat
  sig_palg :: nat
  sig_halg :: nat
  sig_lbits :: bytes
  sig_hashed_data :: bytes
  sig_material :: sig_material
  sig_creation_time :: nat
  sig_signer :: bytes
  sig_subpkts :: "pgp_sig_subpkt list"
  sig_hashed_subpkts :: nat

abbreviation (input) PGP_SIG_SUBPKT_CREATION_TIME :: nat where "PGP_SIG_SUBPKT_CREATION_TIME \<equiv> 2"
abbreviation (input) PGP_SIG_SUBPKT_EXPIRATION_TIME :: nat where "PGP_SIG_SUBPKT_EXPIRATION_TIME \<equiv> 3"
abbreviation (input) PGP_SIG_SUBPKT_EXPORT_CERT :: nat where "PGP_SIG_SUBPKT_EXPORT_CERT \<equiv> 4"
abbreviation (input) PGP_SIG_SUBPKT_TRUST :: nat where "PGP_SIG_SUBPKT_TRUST \<equiv> 5"
abbreviation (input) PGP_SIG_SUBPKT_REGEXP :: nat where "PGP_SIG_SUBPKT_REGEXP \<equiv> 6"
abbreviation (input) PGP_SIG_SUBPKT_REVOCABLE :: nat where "PGP_SIG_SUBPKT_REVOCABLE \<equiv> 7"
abbreviation (input) PGP_SIG_SUBPKT_KEY_EXPIRY :: nat where "PGP_SIG_SUBPKT_KEY_EXPIRY \<equiv> 9"
abbreviation (input) PGP_SIG_SUBPKT_PREFERRED_SKA :: nat where "PGP_SIG_SUBPKT_PREFERRED_SKA \<equiv> 11"
abbreviation (input) PGP_SIG_SUBPKT_REVOCATION_KEY :: nat where "PGP_SIG_SUBPKT_REVOCATION_KEY \<equiv> 12"
abbreviation (input) PGP_SIG_SUBPKT_ISSUER_KEY_ID :: nat where "PGP_SIG_SUBPKT_ISSUER_KEY_ID \<equiv> 16"
abbreviation (input) PGP_SIG_SUBPKT_NOTATION_DATA :: nat where "PGP_SIG_SUBPKT_NOTATION_DATA \<equiv> 20"
abbreviation (input) PGP_SIG_SUBPKT_PREFERRED_HASH :: nat where "PGP_SIG_SUBPKT_PREFERRED_HASH \<equiv> 21"
abbreviation (input) PGP_SIG_SUBPKT_PREF_COMPRESS :: nat where "PGP_SIG_SUBPKT_PREF_COMPRESS \<equiv> 22"
abbreviation (input) PGP_SIG_SUBPKT_KEYSERV_PREFS :: nat where "PGP_SIG_SUBPKT_KEYSERV_PREFS \<equiv> 23"
abbreviation (input) PGP_SIG_SUBPKT_PREF_KEYSERV :: nat where "PGP_SIG_SUBPKT_PREF_KEYSERV \<equiv> 24"
abbreviation (input) PGP_SIG_SUBPKT_PRIMARY_USER_ID :: nat where "PGP_SIG_SUBPKT_PRIMARY_USER_ID \<equiv> 25"
abbreviation (input) PGP_SIG_SUBPKT_POLICY_URI :: nat where "PGP_SIG_SUBPKT_POLICY_URI \<equiv> 26"
abbreviation (input) PGP_SIG_SUBPKT_KEY_FLAGS :: nat where "PGP_SIG_SUBPKT_KEY_FLAGS \<equiv> 27"
abbreviation (input) PGP_SIG_SUBPKT_SIGNERS_USER_ID :: nat where "PGP_SIG_SUBPKT_SIGNERS_USER_ID \<equiv> 28"
abbreviation (input) PGP_SIG_SUBPKT_REVOCATION_REASON :: nat where "PGP_SIG_SUBPKT_REVOCATION_REASON \<equiv> 29"
abbreviation (input) PGP_SIG_SUBPKT_FEATURES :: nat where "PGP_SIG_SUBPKT_FEATURES \<equiv> 30"
abbreviation (input) PGP_SIG_SUBPKT_SIGNATURE_TARGET :: nat where "PGP_SIG_SUBPKT_SIGNATURE_TARGET \<equiv> 31"
abbreviation (input) PGP_SIG_SUBPKT_EMBEDDED_SIGNATURE :: nat where "PGP_SIG_SUBPKT_EMBEDDED_SIGNATURE \<equiv> 32"
abbreviation (input) PGP_SIG_SUBPKT_ISSUER_FPR :: nat where "PGP_SIG_SUBPKT_ISSUER_FPR \<equiv> 33"

section \<open>Version 3 fields\<close>

definition signature_read_v3 ::
    "alloc \<Rightarrow> 'q pgp_source \<Rightarrow> pgp_signature \<Rightarrow> nat \<Rightarrow> 'q pgp_source \<times> (rnp_result + pgp_signature)" where
  "signature_read_v3 al src sig len =
     (if len < 16 then (src, Inl RNP_ERROR_BAD_FORMAT)
      else
        (case src_get src 16 of
           (src1, None) \<Rightarrow> (src1, Inl RNP_ERROR_READ)
         | (src1, Some buf) \<Rightarrow>
             if buf ! 0 \<noteq> 5 then (src1, Inl RNP_ERROR_BAD_FORMAT)
             else if \<not> al 5 then (src1, Inl RNP_ERROR_OUT_OF_MEMORY)
             else
               (src1, Inr (sig\<lparr>sig_hashed_data := take 5 (drop 1 buf),
                              sig_type := unat (buf ! 1),
                              sig_creation_time := unat (read_uint32 (drop 2 buf)),
                              sig_signer := take PGP_KEY_ID_SIZE (drop 6 buf),
                              sig_palg := unat (buf ! 14),
                              sig_halg := unat (buf ! 15)\<rparr>))))"

section \<open>Subpackets\<close>

text \<open>
  The switch of \<^verbatim>\<open>signature_parse_subpacket\<close>: the value of the union for each known type
  whose data has the right length, \<open>Inl\<close> the union after a wrong length, and
  \<^const>\<open>None\<close> for an unknown type.
\<close>

definition subpkt_switch :: "nat \<Rightarrow> bytes \<Rightarrow> (subpkt_fields + subpkt_fields) option" where
  "subpkt_switch t data =
     (let len = length data;
          need = (\<lambda>c f. Some (if c then Inr f else Inl F_none))
      in
      if t = PGP_SIG_SUBPKT_CREATION_TIME then need (len = 4) (F_create (unat (read_uint32 data)))
      else if t = PGP_SIG_SUBPKT_EXPIRATION_TIME \<or> t = PGP_SIG_SUBPKT_KEY_EXPIRY
      then need (len = 4) (F_expiry (unat (read_uint32 data)))
      else if t = PGP_SIG_SUBPKT_EXPORT_CERT then need (len = 1) (F_exportable (data ! 0 \<noteq> 0))
      else if t = PGP_SIG_SUBPKT_TRUST then need (len = 2) (F_trust (data ! 0) (data ! 1))
      else if t = PGP_SIG_SUBPKT_REGEXP then need True (F_regexp data)
      else if t = PGP_SIG_SUBPKT_REVOCABLE then need (len = 1) (F_revocable (data ! 0 \<noteq> 0))
      else if t = PGP_SIG_SUBPKT_PREFERRED_SKA \<or> t = PGP_SIG_SUBPKT_PREFERRED_HASH \<or>
              t = PGP_SIG_SUBPKT_PREF_COMPRESS
      then need True (F_preferred data)
      else if t = PGP_SIG_SUBPKT_REVOCATION_KEY
      then need (len = 22) (F_revocation_key (data ! 0) (data ! 1) (drop 2 data))
      else if t = PGP_SIG_SUBPKT_ISSUER_KEY_ID then need (len = 8) (F_issuer data)
      else if t = PGP_SIG_SUBPKT_NOTATION_DATA then
        if len \<ge> 8 then
          let nlen = unat (read_uint16 (drop 4 data)); vlen = unat (read_uint16 (drop 6 data)) in
          if len \<noteq> 8 + nlen + vlen then Some (Inl (F_notation_lens nlen vlen))
          else Some (Inr (F_notation (take nlen (drop 8 data)) (take vlen (drop (8 + nlen) data))))
        else Some (Inl F_none)
      else if t = PGP_SIG_SUBPKT_KEYSERV_PREFS then need (len \<ge> 1) (F_ks_prefs (data ! 0 AND 0x80 \<noteq> 0))
      else if t = PGP_SIG_SUBPKT_PREF_KEYSERV then need True (F_preferred_ks data)
      else if t = PGP_SIG_SUBPKT_PRIMARY_USER_ID then need (len = 1) (F_primary_uid (data ! 0 \<noteq> 0))
      else if t = PGP_SIG_SUBPKT_POLICY_URI then need True (F_policy data)
      else if t = PGP_SIG_SUBPKT_KEY_FLAGS then need (len \<ge> 1) (F_key_flags (data ! 0))
      else if t = PGP_SIG_SUBPKT_SIGNERS_USER_ID then need True (F_signer data)
      else if t = PGP_SIG_SUBPKT_REVOCATION_REASON
      then need (len \<ge> 1) (F_revocation_reason (data ! 0) (drop 1 data))
      else if t = PGP_SIG_SUBPKT_FEATURES then need (len \<ge> 1) (F_feature_mdc (data ! 0 AND 0x01 \<noteq> 0))
      else if t = PGP_SIG_SUBPKT_SIGNATURE_TARGET
      then need (len \<ge> 18) (F_sig_target (data ! 0) (data ! 1) (drop 2 data))
      else if t = PGP_SIG_SUBPKT_EMBEDDED_SIGNATURE then need True F_none
      else if t = PGP_SIG_SUBPKT_ISSUER_FPR
      then need (len \<ge> 21) (F_issuer_fp (data ! 0) (drop 1 data))
      else None)"

definition signature_parse_subpacket :: "pgp_sig_subpkt \<Rightarrow> pgp_sig_subpkt \<times> bool" where
  "signature_parse_subpacket subpkt =
     (let checked = (sp_type subpkt = PGP_SIG_SUBPKT_CREATION_TIME \<longrightarrow> sp_hashed subpkt) in
      case subpkt_switch (sp_type subpkt) (sp_data subpkt) of
        None \<Rightarrow> (subpkt, \<not> sp_critical subpkt)
      | Some (Inl f) \<Rightarrow> (subpkt\<lparr>sp_fields := f\<rparr>, False)
      | Some (Inr f) \<Rightarrow> (subpkt\<lparr>sp_fields := f, sp_parsed := True\<rparr>, checked))"

text \<open>The length at the start of a subpacket, and what follows it; the buffer has two bytes or more.\<close>

definition subpkt_len :: "bytes \<Rightarrow> (nat \<times> bytes) option" where
  "subpkt_len buf =
     (if unat (buf ! 0) < 192 then Some (unat (buf ! 0), drop 1 buf)
      else if unat (buf ! 0) < 255
      then Some (push_bit 8 (unat (buf ! 0) - 192) + unat (buf ! 1) + 192, drop 2 buf)
      else if length buf < 5 then None
      else Some (unat (read_uint32 (drop 1 buf)), drop 5 buf))"

text \<open>The structure that is filled from the type byte and the data of a subpacket.\<close>

definition new_subpkt :: "bytes \<Rightarrow> bool \<Rightarrow> pgp_sig_subpkt" where
  "new_subpkt sp hashed =
     \<lparr>sp_type = unat (sp ! 0 AND 0x7f), sp_data = drop 1 sp, sp_critical = (sp ! 0 AND 0x80 \<noteq> 0),
      sp_hashed = hashed, sp_parsed = False, sp_fields = F_none\<rparr>"

text \<open>\<^verbatim>\<open>res = res && signature_parse_subpacket(&subpkt)\<close>.\<close>

definition and_parse_subpacket :: "bool \<Rightarrow> pgp_sig_subpkt \<Rightarrow> pgp_sig_subpkt \<times> bool" where
  "and_parse_subpacket res sp = (if res then signature_parse_subpacket sp else (sp, False))"

text \<open>
  \<^verbatim>\<open>list_append\<close> of a subpacket: an item of 24 + 56 bytes, and a list head of 24 bytes
  when the list is new; then the count of the hashed subpackets.
\<close>

definition sig_append_subpkt :: "alloc \<Rightarrow> pgp_signature \<Rightarrow> pgp_sig_subpkt \<Rightarrow> bool \<Rightarrow> pgp_signature option" where
  "sig_append_subpkt al sig sp hashed =
     (if (sig_subpkts sig = [] \<longrightarrow> al 24) \<and> al 80
      then Some (sig\<lparr>sig_subpkts := sig_subpkts sig @ [sp],
                     sig_hashed_subpkts := sig_hashed_subpkts sig + (if hashed then 1 else 0)\<rparr>)
      else None)"

lemma subpkt_len_shorter: "subpkt_len buf = Some (n, r) \<Longrightarrow> 2 \<le> length buf \<Longrightarrow> length r < length buf"
  by (auto simp: subpkt_len_def split: if_splits)

function subpackets_loop ::
    "alloc \<Rightarrow> pgp_signature \<Rightarrow> bytes \<Rightarrow> bool \<Rightarrow> bool \<Rightarrow> pgp_signature \<times> bool" where
  "subpackets_loop al sig buf hashed res =
     (if buf = [] then (sig, res)
      else if length buf < 2 then (sig, False)
      else
        (case subpkt_len buf of
           None \<Rightarrow> (sig, False)
         | Some (splen, buf') \<Rightarrow>
             if splen < 1 then subpackets_loop al sig buf' hashed res
             else if length buf' < splen then (sig, False)
             else if \<not> al (splen - 1) then (sig, False)
             else
               (case and_parse_subpacket res (new_subpkt (take splen buf') hashed) of
                  (sp, res') \<Rightarrow>
                    (case sig_append_subpkt al sig sp hashed of
                       None \<Rightarrow> (sig, False)
                     | Some sig' \<Rightarrow> subpackets_loop al sig' (drop splen buf') hashed res'))))"
  by pat_completeness auto
termination
  by (relation "measure (\<lambda>(al, sig, buf, hashed, res). length buf)")
    (auto dest!: subpkt_len_shorter)

declare subpackets_loop.simps [simp del]

definition signature_parse_subpackets ::
    "alloc \<Rightarrow> pgp_signature \<Rightarrow> bytes \<Rightarrow> bool \<Rightarrow> pgp_signature \<times> bool" where
  "signature_parse_subpackets al sig buf hashed = subpackets_loop al sig buf hashed True"

section \<open>Version 4 fields\<close>

definition sig_v4_unhashed ::
    "alloc \<Rightarrow> 'q pgp_source \<Rightarrow> pgp_signature \<Rightarrow> nat \<Rightarrow> 'q pgp_source \<times> (rnp_result + pgp_signature)" where
  "sig_v4_unhashed al src sig len =
     (case src_get src 2 of
        (src1, None) \<Rightarrow> (src1, Inl RNP_ERROR_READ)
      | (src1, Some buf) \<Rightarrow>
          let splen = unat (read_uint16 buf) in
          if len - 2 < splen then (src1, Inl RNP_ERROR_BAD_FORMAT)
          else if \<not> al splen then (src1, Inl RNP_ERROR_OUT_OF_MEMORY)
          else
            (case src_get src1 splen of
               (src2, None) \<Rightarrow> (src2, Inl RNP_ERROR_READ)
             | (src2, Some spbuf) \<Rightarrow>
                 (case signature_parse_subpackets al sig spbuf False of
                    (sig', ok) \<Rightarrow> (src2, if ok then Inr sig' else Inl RNP_ERROR_BAD_FORMAT))))"

definition signature_read_v4 ::
    "alloc \<Rightarrow> 'q pgp_source \<Rightarrow> pgp_signature \<Rightarrow> nat \<Rightarrow> 'q pgp_source \<times> (rnp_result + pgp_signature)" where
  "signature_read_v4 al src sig len =
     (if len < 5 then (src, Inl RNP_ERROR_BAD_FORMAT)
      else
        (case src_get src 5 of
           (src1, None) \<Rightarrow> (src1, Inl RNP_ERROR_READ)
         | (src1, Some buf) \<Rightarrow>
             let sig1 = sig\<lparr>sig_type := unat (buf ! 0), sig_palg := unat (buf ! 1), sig_halg := unat (buf ! 2)\<rparr>;
                 splen = unat (read_uint16 (drop 3 buf));
                 len1 = len - 5
             in if len1 < splen + 2 then (src1, Inl RNP_ERROR_BAD_FORMAT)
                else if \<not> al (splen + 6) then (src1, Inl RNP_ERROR_OUT_OF_MEMORY)
                else
                  (case src_get src1 splen of
                     (src2, None) \<Rightarrow> (src2, Inl RNP_ERROR_READ)
                   | (src2, Some sps) \<Rightarrow>
                       let sig2 = sig1\<lparr>sig_hashed_data := to_byte (sig_version sig) # buf @ sps\<rparr> in
                       (case signature_parse_subpackets al sig2 sps True of
                          (sig3, ok) \<Rightarrow>
                            if \<not> ok then (src2, Inl RNP_ERROR_BAD_FORMAT)
                            else sig_v4_unhashed al src2 sig3 (len1 - splen)))))"

section \<open>The signature packet\<close>

text \<open>
  The code at the label \<^verbatim>\<open>finish\<close> for an error: the rest of the packet is skipped, unless
  reading failed.
\<close>

definition sig_fail ::
    "alloc \<Rightarrow> 'q pgp_source \<Rightarrow> nat \<Rightarrow> rnp_result \<Rightarrow> 'q pgp_source \<times> (rnp_result + pgp_signature)" where
  "sig_fail al src pktend e =
     (if e = RNP_ERROR_READ then (src, Inl e)
      else (fst (src_skip al src (sub64 pktend (src_readb src))), Inl e))"

definition sig_read_mpi :: "'q pgp_source \<Rightarrow> nat \<Rightarrow> 'q pgp_source \<times> bytes option" where
  "sig_read_mpi src pktend = stream_read_mpi src (sub64 pktend (src_readb src))"

definition sig_read_mpi2 :: "'q pgp_source \<Rightarrow> nat \<Rightarrow> 'q pgp_source \<times> (bytes \<times> bytes) option" where
  "sig_read_mpi2 src pktend =
     (case sig_read_mpi src pktend of
        (src1, None) \<Rightarrow> (src1, None)
      | (src1, Some r) \<Rightarrow>
          (case sig_read_mpi src1 pktend of
             (src2, None) \<Rightarrow> (src2, None)
           | (src2, Some s) \<Rightarrow> (src2, Some (r, s))))"

definition sig_read_material ::
    "'q pgp_source \<Rightarrow> nat \<Rightarrow> nat \<Rightarrow> 'q pgp_source \<times> sig_material option" where
  "sig_read_material src pktend palg =
     (if palg = PGP_PKA_RSA then
        (case sig_read_mpi src pktend of (src', r) \<Rightarrow> (src', map_option Mat_rsa r))
      else if palg = PGP_PKA_DSA then
        (case sig_read_mpi2 src pktend of (src', r) \<Rightarrow> (src', map_option (\<lambda>(r, s). Mat_dsa r s) r))
      else if palg = PGP_PKA_EDDSA \<or> palg = PGP_PKA_ECDSA \<or> palg = PGP_PKA_SM2 \<or> palg = PGP_PKA_ECDH then
        (case sig_read_mpi2 src pktend of (src', r) \<Rightarrow> (src', map_option (\<lambda>(r, s). Mat_ecc r s) r))
      else if palg = PGP_PKA_ELGAMAL_ENCRYPT_OR_SIGN then
        (case sig_read_mpi2 src pktend of (src', r) \<Rightarrow> (src', map_option (\<lambda>(r, s). Mat_eg r s) r))
      else (src, None))"

text \<open>
  The second half of \<^verbatim>\<open>stream_parse_signature\<close>.  When fewer than two bytes are left the C
  code goes to \<^verbatim>\<open>finish\<close> without setting an error.
\<close>

definition sig_parse_rest ::
    "alloc \<Rightarrow> 'q pgp_source \<Rightarrow> nat \<Rightarrow> pgp_signature \<Rightarrow> 'q pgp_source \<times> (rnp_result + pgp_signature)" where
  "sig_parse_rest al src pktend sig =
     (if sub64 pktend (src_readb src) < 2 then (src, Inr sig)
      else
        (case src_get src 2 of
           (src1, None) \<Rightarrow> sig_fail al src1 pktend RNP_ERROR_READ
         | (src1, Some lbits) \<Rightarrow>
             (case sig_read_material src1 pktend (sig_palg sig) of
                (src2, None) \<Rightarrow> sig_fail al src2 pktend RNP_ERROR_BAD_FORMAT
              | (src2, Some m) \<Rightarrow> (src2, Inr (sig\<lparr>sig_lbits := lbits, sig_material := m\<rparr>)))))"

definition zero_signature :: pgp_signature where
  "zero_signature =
     \<lparr>sig_version = 0, sig_type = 0, sig_palg = 0, sig_halg = 0, sig_lbits = [0, 0], sig_hashed_data = [],
      sig_material = Mat_none, sig_creation_time = 0, sig_signer = replicate PGP_KEY_ID_SIZE 0,
      sig_subpkts = [], sig_hashed_subpkts = 0\<rparr>"

definition stream_parse_signature ::
    "alloc \<Rightarrow> 'q pgp_source \<Rightarrow> 'q pgp_source \<times> (rnp_result + pgp_signature)" where
  "stream_parse_signature al src =
     (case stream_read_pkt_len src of
        (src1, None) \<Rightarrow> (src1, Inl RNP_ERROR_READ)
      | (src1, Some len) \<Rightarrow>
          if len < 1 then (src1, Inl RNP_ERROR_BAD_FORMAT)
          else
            let pktend = u64 (src_readb src1 + len) in
            (case src_get src1 1 of
               (src2, None) \<Rightarrow> (src2, Inl RNP_ERROR_READ)
             | (src2, Some v) \<Rightarrow>
                 let ver = unat (v ! 0); sig = zero_signature\<lparr>sig_version := ver\<rparr> in
                 (case (if ver = 2 \<or> ver = 3 then signature_read_v3 al src2 sig (len - 1)
                        else if ver = 4 then signature_read_v4 al src2 sig (len - 1)
                        else (src2, Inl RNP_ERROR_BAD_FORMAT)) of
                    (src3, Inl e) \<Rightarrow> sig_fail al src3 pktend e
                  | (src3, Inr sig1) \<Rightarrow> sig_parse_rest al src3 pktend sig1)))"

definition stream_write_signature :: "pgp_signature \<Rightarrow> 'q pgp_dest \<Rightarrow> 'q pgp_dest \<times> bool" where
  "stream_write_signature sig dst = (dst, False)"

section \<open>Accessors\<close>

fun subpkt_find :: "nat \<Rightarrow> pgp_sig_subpkt list \<Rightarrow> pgp_sig_subpkt option" where
  "subpkt_find t [] = None"
| "subpkt_find t (sp # sps) =
     (if sp_type sp = t then (if sp_parsed sp then Some sp else None) else subpkt_find t sps)"

definition signature_get_subpkt :: "pgp_signature \<Rightarrow> nat \<Rightarrow> pgp_sig_subpkt option" where
  "signature_get_subpkt sig t = (if sig_version sig < 4 then None else subpkt_find t (sig_subpkts sig))"

text \<open>Reading a member of the union; another member's bytes are not defined by the source.\<close>

fun fields_issuer :: "subpkt_fields \<Rightarrow> bytes" where
  "fields_issuer (F_issuer b) = b"
| "fields_issuer _ = []"

fun fields_issuer_fp :: "subpkt_fields \<Rightarrow> bytes" where
  "fields_issuer_fp (F_issuer_fp v fp) = fp"
| "fields_issuer_fp _ = []"

fun fields_create :: "subpkt_fields \<Rightarrow> nat" where
  "fields_create (F_create t) = t"
| "fields_create _ = 0"

fun fields_expiry :: "subpkt_fields \<Rightarrow> nat" where
  "fields_expiry (F_expiry t) = t"
| "fields_expiry _ = 0"

text \<open>The bytes that \<^verbatim>\<open>signature_get_keyfp\<close> stores at its argument.\<close>

definition signature_get_keyfp :: "pgp_signature \<Rightarrow> bytes option" where
  "signature_get_keyfp sig =
     (if 3 < sig_version sig
      then map_option (\<lambda>sp. fields_issuer_fp (sp_fields sp)) (signature_get_subpkt sig PGP_SIG_SUBPKT_ISSUER_FPR)
      else None)"

definition signature_get_keyid :: "pgp_signature \<Rightarrow> bytes option" where
  "signature_get_keyid sig =
     (if sig_version sig < 4 then Some (sig_signer sig)
      else
        (case signature_get_subpkt sig PGP_SIG_SUBPKT_ISSUER_KEY_ID of
           Some sp \<Rightarrow> Some (fields_issuer (sp_fields sp))
         | None \<Rightarrow>
             (case signature_get_subpkt sig PGP_SIG_SUBPKT_ISSUER_FPR of
                Some sp \<Rightarrow> (let fp = fields_issuer_fp (sp_fields sp) in
                            Some (drop (length fp - PGP_KEY_ID_SIZE) fp))
              | None \<Rightarrow> None)))"

definition signature_get_creation :: "pgp_signature \<Rightarrow> nat" where
  "signature_get_creation sig =
     (if sig_version sig < 4 then sig_creation_time sig
      else
        (case signature_get_subpkt sig PGP_SIG_SUBPKT_CREATION_TIME of
           Some sp \<Rightarrow> fields_create (sp_fields sp)
         | None \<Rightarrow> 0))"

definition signature_get_expiration :: "pgp_signature \<Rightarrow> nat" where
  "signature_get_expiration sig =
     (if 3 < sig_version sig then
        (case signature_get_subpkt sig PGP_SIG_SUBPKT_EXPIRATION_TIME of
           Some sp \<Rightarrow> fields_expiry (sp_fields sp)
         | None \<Rightarrow> 0)
      else 0)"

definition signature_matches_onepass :: "pgp_signature \<Rightarrow> pgp_one_pass_sig \<Rightarrow> bool" where
  "signature_matches_onepass sig onepass =
     (case signature_get_keyid sig of
        None \<Rightarrow> False
      | Some keyid \<Rightarrow>
          take PGP_KEY_ID_SIZE keyid = take PGP_KEY_ID_SIZE (op_keyid onepass) \<and>
          sig_halg sig = op_halg onepass \<and> sig_palg sig = op_palg onepass \<and> sig_type sig = op_type onepass)"

section \<open>Invariant of parsed subpackets\<close>

text \<open>
  The data of a subpacket and the value that it encodes, one rule for each type (RFC 4880,
  5.2.3.4 to 5.2.3.26, and the issuer fingerprint): numbers have their most significant byte
  first, flags are bits of an octet.  Of an embedded signature nothing is decoded.
\<close>

inductive field_coding :: "nat \<Rightarrow> subpkt_fields \<Rightarrow> bytes \<Rightarrow> bool" where
  creation_time: "field_coding 2 (F_create (unat a * 2 ^ 24 + unat b * 2 ^ 16 + unat c * 2 ^ 8 + unat d)) [a, b, c, d]"
| expiration_time: "t \<in> {3, 9} \<Longrightarrow>
    field_coding t (F_expiry (unat a * 2 ^ 24 + unat b * 2 ^ 16 + unat c * 2 ^ 8 + unat d)) [a, b, c, d]"
| exportable: "field_coding 4 (F_exportable (c \<noteq> 0)) [c]"
| trust: "field_coding 5 (F_trust level amount) [level, amount]"
| regexp: "field_coding 6 (F_regexp str) str"
| revocable: "field_coding 7 (F_revocable (c \<noteq> 0)) [c]"
| preferred: "t \<in> {11, 21, 22} \<Longrightarrow> field_coding t (F_preferred algs) algs"
| revocation_key: "length fp = 20 \<Longrightarrow> field_coding 12 (F_revocation_key cls alg fp) (cls # alg # fp)"
| issuer: "length kid = 8 \<Longrightarrow> field_coding 16 (F_issuer kid) kid"
| notation_data: "length name = unat a * 256 + unat b \<Longrightarrow> length val = unat c * 256 + unat d \<Longrightarrow> length flags = 4 \<Longrightarrow>
    field_coding 20 (F_notation name val) (flags @ [a, b, c, d] @ name @ val)"
| keyserver_prefs: "field_coding 23 (F_ks_prefs (bit c 7)) (c # cs)"
| preferred_keyserver: "field_coding 24 (F_preferred_ks uri) uri"
| primary_uid: "field_coding 25 (F_primary_uid (c \<noteq> 0)) [c]"
| policy: "field_coding 26 (F_policy uri) uri"
| key_flags: "field_coding 27 (F_key_flags c) (c # cs)"
| signers_uid: "field_coding 28 (F_signer uid) uid"
| revocation_reason: "field_coding 29 (F_revocation_reason code str) (code # str)"
| features: "field_coding 30 (F_feature_mdc (bit c 0)) (c # cs)"
| signature_target: "16 \<le> length hash \<Longrightarrow> field_coding 31 (F_sig_target pkalg halg hash) (pkalg # halg # hash)"
| embedded: "field_coding 32 F_none data"
| issuer_fp: "20 \<le> length fp \<Longrightarrow> field_coding 33 (F_issuer_fp ver fp) (ver # fp)"

inductive_cases issuer_codingE: "field_coding 16 f data"
inductive_cases issuer_fp_codingE: "field_coding 33 f data"

definition known_subpkts :: "nat set" where
  "known_subpkts = {2, 3, 4, 5, 6, 7, 9, 11, 12, 16, 20, 21, 22, 23, 24, 25, 26, 27, 28, 29, 30, 31, 32, 33}"

text \<open>
  A subpacket of an accepted signature: when it is marked as parsed it holds the value that
  its data encodes for its type, and a creation time is a hashed subpacket; when not, its type
  is unknown and it is not critical.
\<close>

definition subpkt_ok :: "pgp_sig_subpkt \<Rightarrow> bool" where
  "subpkt_ok sp \<longleftrightarrow> sp_type sp < 128 \<and>
     (if sp_parsed sp
      then field_coding (sp_type sp) (sp_fields sp) (sp_data sp) \<and> (sp_type sp = 2 \<longrightarrow> sp_hashed sp)
      else sp_type sp \<notin> known_subpkts \<and> \<not> sp_critical sp)"

definition sig_inv :: "pgp_signature \<Rightarrow> bool" where
  "sig_inv sig \<longleftrightarrow>
     (\<forall>sp \<in> set (sig_subpkts sig). subpkt_ok sp) \<and>
     sig_hashed_subpkts sig = length (filter sp_hashed (sig_subpkts sig)) \<and>
     length (sig_signer sig) = PGP_KEY_ID_SIZE"

text \<open>The switch decodes what the rules encode.\<close>

lemma list_4: "length xs = 4 \<Longrightarrow> \<exists>a b c d. xs = [a, b, c, d]"
  by (auto simp: numeral_eq_Suc length_Suc_conv)

lemma switch_numbers:
  assumes "length data = 4"
  shows "field_coding 2 (F_create (unat (read_uint32 data))) data"
    "t \<in> {3, 9} \<Longrightarrow> field_coding t (F_expiry (unat (read_uint32 data))) data"
  using list_4 [OF assms] by (auto simp only: unat_read_uint32 intro: creation_time expiration_time)

lemma switch_flags:
  "field_coding 23 (F_ks_prefs (c AND 0x80 \<noteq> 0)) (c # cs)" "field_coding 30 (F_feature_mdc (c AND 1 \<noteq> 0)) (c # cs)"
  using keyserver_prefs [of c cs] features [of c cs] and_exp_eq_0_iff_not_bit [of c 7] and_exp_eq_0_iff_not_bit [of c 0]
  by simp_all

lemma switch_notation:
  assumes "length data = 8 + nlen + vlen" "nlen = unat (read_uint16 (drop 4 data))" "vlen = unat (read_uint16 (drop 6 data))"
  shows "field_coding 20 (F_notation (take nlen (drop 8 data)) (take vlen (drop (8 + nlen) data))) data"
proof -
  define r where "r = drop 8 data"
  have "length (take 4 (drop 4 data)) = 4" using assms(1) by simp
  then obtain a b c d where h: "take 4 (drop 4 data) = [a, b, c, d]" using list_4 by blast
  have "data = take 4 data @ take 4 (drop 4 data) @ drop 4 (drop 4 data)" by (simp only: append_take_drop_id)
  then have d: "data = take 4 data @ [a, b, c, d] @ r" by (simp add: h r_def)
  have l4: "length (take 4 data) = 4" using assms(1) by simp
  have len: "nlen = unat a * 256 + unat b" "vlen = unat c * 256 + unat d"
    using arg_cong [OF d, of "drop 4"] arg_cong [OF d, of "drop 6"] l4 assms(2,3) by (cases r; simp add: unat_read_uint16)+
  have r: "r = take nlen r @ take vlen (drop nlen r)"
    using assms(1) append_take_drop_id [of nlen r] by (simp add: r_def)
  have "field_coding 20 (F_notation (take nlen r) (take vlen (drop nlen r)))
      (take 4 data @ [a, b, c, d] @ take nlen r @ take vlen (drop nlen r))"
    by (rule notation_data) (use assms(1) len in \<open>auto simp: r_def\<close>)
  then show ?thesis using d r by (simp add: r_def add.commute)
qed

lemma switch_known: "subpkt_switch t data = None \<longleftrightarrow> t \<notin> known_subpkts"
proof
  have "(if b then if c then Some x else Some y else Some z) \<noteq> None" for b c and x y z :: "'c" by simp
  then have "subpkt_switch 20 data \<noteq> None" unfolding subpkt_switch_def Let_def
    by (simp only: simp_thms numeral_eq_iff num.distinct num.inject if_False if_True)
  then show "subpkt_switch t data = None \<Longrightarrow> t \<notin> known_subpkts"
    unfolding known_subpkts_def by (cases "t = 20") (simp, auto simp: subpkt_switch_def)
  show "t \<notin> known_subpkts \<Longrightarrow> subpkt_switch t data = None" by (simp add: subpkt_switch_def known_subpkts_def)
qed

lemma switch_coding:
  assumes "subpkt_switch t data = Some (Inr f)"
  shows "field_coding t f data"
proof -
  have "t \<in> known_subpkts" using assms switch_known [of t data] by auto
  then consider "t \<in> {2, 3, 9}" | "t = 20" | "t \<in> {6, 11, 21, 22, 16, 24, 26, 28, 32}" | "t \<in> {4, 5, 7, 25}" | "t \<in> {12, 31, 33}" | "t \<in> {23, 27, 29, 30}"
    by (auto simp: known_subpkts_def)
  then show ?thesis
  proof cases
    case 1
    then show ?thesis using assms switch_numbers by (auto simp: subpkt_switch_def split: if_splits)
  next
    case 2
    define nlen vlen where l: "nlen = unat (read_uint16 (drop 4 data))" "vlen = unat (read_uint16 (drop 6 data))"
    have "length data = 8 + nlen + vlen" "f = F_notation (take nlen (drop 8 data)) (take vlen (drop (8 + nlen) data))"
      using assms unfolding subpkt_switch_def Let_def 2 l [symmetric] by (simp_all split: if_splits)
    with switch_notation [OF _ l] 2 show ?thesis by simp
  next
    case 3
    then show ?thesis using assms
      by (auto simp: subpkt_switch_def split: if_splits intro: regexp preferred issuer preferred_keyserver policy signers_uid embedded)
  next
    case 4
    then show ?thesis using assms
      by (auto simp: subpkt_switch_def length_Suc_conv numeral_2_eq_2 split: if_splits intro: exportable trust revocable primary_uid)
  next
    case 5
    then obtain c d cs where "data = c # d # cs" using assms
      by (cases data; cases "tl data") (auto simp: subpkt_switch_def split: if_splits)
    then show ?thesis using 5 assms
      by (auto simp: subpkt_switch_def split: if_splits intro: revocation_key signature_target issuer_fp)
  next
    case 6
    then obtain c cs where "data = c # cs" using assms by (cases data) (auto simp: subpkt_switch_def)
    then show ?thesis using 6 assms
      by (auto simp: subpkt_switch_def intro: switch_flags [simplified] key_flags revocation_reason)
  qed
qed

lemma parse_subpacket_ok:
  assumes "signature_parse_subpacket sp = (sp', True)" "\<not> sp_parsed sp" "sp_type sp < 128"
  shows "subpkt_ok sp'" "sp_hashed sp' = sp_hashed sp"
  using assms by (auto simp: signature_parse_subpacket_def subpkt_ok_def Let_def switch_coding switch_known
      split: option.splits sum.splits)

lemma new_subpkt_ok: "sp_type (new_subpkt sp hashed) < 128" "\<not> sp_parsed (new_subpkt sp hashed)"
  "sp_hashed (new_subpkt sp hashed) = hashed"
proof -
  have "sp ! 0 AND 0x7f \<le> 0x7f" by (rule word_and_le1)
  then show "sp_type (new_subpkt sp hashed) < 128" by (simp add: new_subpkt_def word_le_nat_alt)
qed (simp_all add: new_subpkt_def)

lemma and_parse_subpacket_ok:
  assumes "and_parse_subpacket res (new_subpkt sp hashed) = (sp', True)"
  shows "res \<and> subpkt_ok sp' \<and> sp_hashed sp' = hashed"
  using assms parse_subpacket_ok [OF _ new_subpkt_ok(2,1)] new_subpkt_ok(3)
  by (auto simp: and_parse_subpacket_def split: if_splits)

lemma sig_append_subpkt_ok:
  assumes "sig_append_subpkt al sig sp hashed = Some sig'" "sig_inv sig" "subpkt_ok sp \<and> sp_hashed sp = hashed"
  shows "sig_inv sig'"
  using assms by (auto simp: sig_append_subpkt_def sig_inv_def split: if_splits)

lemma subpackets_loop_ok:
  "subpackets_loop al sig buf hashed res = (sig', True) \<Longrightarrow> res \<and> (sig_inv sig \<longrightarrow> sig_inv sig')"
proof (induction al sig buf hashed res rule: subpackets_loop.induct)
  case (1 al sig buf hashed res)
  show ?case
  proof (cases "buf = []")
    case False
    note unf = "1.prems" [unfolded subpackets_loop.simps [of al sig buf]] and ne = False
    then obtain n r where l: "\<not> length buf < 2" "subpkt_len buf = Some (n, r)" by (auto split: if_splits option.splits)
    show ?thesis
    proof (cases "n < 1")
      case True
      then show ?thesis using "1.IH"(1) [OF ne l refl True] unf ne l by simp
    next
      case False
      obtain sp res' where sp: "and_parse_subpacket res (new_subpkt (take n r) hashed) = (sp, res')" by fastforce
      obtain sig1 where s1: "\<not> length r < n" "al (n - 1)" "sig_append_subpkt al sig sp hashed = Some sig1"
        "subpackets_loop al sig1 (drop n r) hashed res' = (sig', True)"
        using unf ne l False sp by (auto split: if_splits option.splits)
      have "res' \<and> (sig_inv sig1 \<longrightarrow> sig_inv sig')"
        by (rule "1.IH"(2) [OF ne l refl False s1(1) _ sp [symmetric] s1(3,4)]) (use s1(2) in simp)
      moreover from this sp have "res \<and> subpkt_ok sp \<and> sp_hashed sp = hashed" by (intro and_parse_subpacket_ok) simp
      ultimately show ?thesis using sig_append_subpkt_ok [OF s1(3)] by blast
    qed
  qed (use "1.prems" in \<open>simp add: subpackets_loop.simps\<close>)
qed

section \<open>Subpackets that were encoded are parsed back\<close>

definition subpkt_enc :: "pgp_sig_subpkt \<Rightarrow> bytes" where
  "subpkt_enc sp =
     write_packet_len (length (sp_data sp) + 1) @
     (to_byte (sp_type sp) OR (if sp_critical sp then 0x80 else 0)) # sp_data sp"

text \<open>A subpacket that the parser accepts, with the contents that it computes.\<close>

definition subpkt_wf :: "bool \<Rightarrow> pgp_sig_subpkt \<Rightarrow> bool" where
  "subpkt_wf hashed sp \<longleftrightarrow>
     sp_type sp < 128 \<and> length (sp_data sp) < 2 ^ 16 \<and> sp_hashed sp = hashed \<and>
     signature_parse_subpacket (sp\<lparr>sp_parsed := False, sp_fields := F_none\<rparr>) = (sp, True)"

lemma subpackets_step:
  assumes "2 \<le> length buf" "subpkt_len buf = Some (n, b)" "0 < n" "n \<le> length b" "al (n - 1)"
    and "and_parse_subpacket res (new_subpkt (take n b) hashed) = (sp, res')"
    and "sig_append_subpkt al sig sp hashed = Some sig'"
  shows "subpackets_loop al sig buf hashed res = subpackets_loop al sig' (drop n b) hashed res'"
  using assms by (subst subpackets_loop.simps) auto

lemma subpkt_len_write:
  assumes "n < 2 ^ 32" "0 < n"
  shows "subpkt_len (write_packet_len n @ x # r) = Some (n, x # r)"
    and "2 \<le> length (write_packet_len n @ x # r)"
proof -
  consider "n < 192" | "192 \<le> n" "n < 8384" | "8384 \<le> n" by linarith
  then show "subpkt_len (write_packet_len n @ x # r) = Some (n, x # r)"
  proof cases
    case 2
    then have "(n - 192) div 256 < 32" by (simp add: div_less_iff_less_mult)
    with 2 show ?thesis by (simp add: write_packet_len_def subpkt_len_def drop_bit_eq_div push_bit_eq_mult)
  next
    case 3
    have "n div 2 ^ 24 < 256" using assms(1) by (simp add: div_less_iff_less_mult)
    with 3 be32_decompose [OF assms(1)] show ?thesis
      by (simp add: write_packet_len_def subpkt_len_def STORE32BE_def drop_bit_eq_div unat_read_uint32)
  qed (use assms in \<open>simp add: write_packet_len_def subpkt_len_def\<close>)
  show "2 \<le> length (write_packet_len n @ x # r)" by (simp add: write_packet_len_def STORE32BE_def)
qed

lemma type_byte:
  assumes "t < 128"
  shows "unat ((to_byte t OR (if c then 0x80 else 0)) AND 0x7f) = t"
    and "(to_byte t OR (if c then 0x80 else 0)) AND 0x80 \<noteq> 0 \<longleftrightarrow> c"
proof -
  have "unat (to_byte t AND 0x7f) = take_bit 7 (unat (to_byte t))"
    by (simp add: unsigned_and_eq take_bit_eq_mask mask_eq_exp_minus_1)
  then have t7: "to_byte t AND 0x7f = to_byte t"
    using assms by (simp add: word_unat_eq_iff take_bit_eq_mod)
  then have "to_byte t AND 0x80 = to_byte t AND (0x7f AND 0x80)" by (metis and.assoc)
  with t7 have t: "to_byte t AND 0x7f = to_byte t" "to_byte t AND 0x80 = 0" by simp_all
  show "unat ((to_byte t OR (if c then 0x80 else 0)) AND 0x7f) = t"
    using t assms by (simp add: bit.conj_disj_distrib2)
  show "(to_byte t OR (if c then 0x80 else 0)) AND 0x80 \<noteq> 0 \<longleftrightarrow> c"
    using t by (simp add: bit.conj_disj_distrib2)
qed

lemma new_subpkt_enc:
  assumes "subpkt_wf hashed sp"
  shows "new_subpkt ((to_byte (sp_type sp) OR (if sp_critical sp then 0x80 else 0)) # sp_data sp) hashed =
         sp\<lparr>sp_parsed := False, sp_fields := F_none\<rparr>"
  using assms type_byte [of "sp_type sp" "sp_critical sp"] by (cases sp) (auto simp: new_subpkt_def subpkt_wf_def)

lemma subpackets_loop_enc:
  assumes "list_all (subpkt_wf hashed) sps"
  shows "subpackets_loop (\<lambda>_. True) sig (concat (map subpkt_enc sps)) hashed True =
     (sig\<lparr>sig_subpkts := sig_subpkts sig @ sps,
          sig_hashed_subpkts := sig_hashed_subpkts sig + (if hashed then length sps else 0)\<rparr>, True)"
  using assms
proof (induction sps arbitrary: sig)
  case Nil
  show ?case by (simp add: subpackets_loop.simps)
next
  case (Cons sp sps)
  define t where "t = to_byte (sp_type sp) OR (if sp_critical sp then 0x80 else 0)"
  define rest where "rest = concat (map subpkt_enc sps)"
  have wf: "subpkt_wf hashed sp" using Cons.prems by simp
  then have len: "length (sp_data sp) + 1 < 2 ^ 32" by (simp add: subpkt_wf_def)
  have enc: "concat (map subpkt_enc (sp # sps)) = write_packet_len (length (sp_data sp) + 1) @ t # sp_data sp @ rest"
    by (simp add: subpkt_enc_def t_def rest_def)
  have pos: "0 < length (sp_data sp) + 1" by simp
  note h = subpkt_len_write [OF len pos, of t "sp_data sp @ rest"]
  have p: "and_parse_subpacket True (new_subpkt (take (length (sp_data sp) + 1) (t # sp_data sp @ rest)) hashed) = (sp, True)"
    using new_subpkt_enc [OF wf] wf by (simp add: t_def and_parse_subpacket_def subpkt_wf_def)
  have q: "sig_append_subpkt (\<lambda>_. True) sig sp hashed = Some (sig\<lparr>sig_subpkts := sig_subpkts sig @ [sp],
       sig_hashed_subpkts := sig_hashed_subpkts sig + (if hashed then 1 else 0)\<rparr>)"
    by (simp add: sig_append_subpkt_def)
  have "subpackets_loop (\<lambda>_. True) sig (concat (map subpkt_enc (sp # sps))) hashed True =
      subpackets_loop (\<lambda>_. True) (sig\<lparr>sig_subpkts := sig_subpkts sig @ [sp],
       sig_hashed_subpkts := sig_hashed_subpkts sig + (if hashed then 1 else 0)\<rparr>) rest hashed True"
    unfolding enc using subpackets_step [OF h(2,1) pos _ _ p q] by simp
  with Cons.IH Cons.prems show ?case by (simp add: rest_def)
qed

section \<open>Signature packets that were encoded are parsed back\<close>

definition be16 :: "nat \<Rightarrow> bytes" where
  "be16 n = [to_byte (n div 256), to_byte n]"

lemma be16_simps [simp]: "length (be16 n) = 2" "n < 65536 \<Longrightarrow> unat (read_uint16 (be16 n)) = n"
  by (simp_all add: be16_def unat_read_uint16)

fun material_enc :: "sig_material \<Rightarrow> bytes" where
  "material_enc Mat_none = []"
| "material_enc (Mat_rsa s) = mpi_enc s"
| "material_enc (Mat_dsa r s) = mpi_enc r @ mpi_enc s"
| "material_enc (Mat_ecc r s) = mpi_enc r @ mpi_enc s"
| "material_enc (Mat_eg r s) = mpi_enc r @ mpi_enc s"

fun material_wf :: "nat \<Rightarrow> sig_material \<Rightarrow> bool" where
  "material_wf palg Mat_none = False"
| "material_wf palg (Mat_rsa s) = (palg = PGP_PKA_RSA \<and> mpi_wf s)"
| "material_wf palg (Mat_dsa r s) = (palg = PGP_PKA_DSA \<and> mpi_wf r \<and> mpi_wf s)"
| "material_wf palg (Mat_ecc r s) =
     ((palg = PGP_PKA_EDDSA \<or> palg = PGP_PKA_ECDSA \<or> palg = PGP_PKA_SM2 \<or> palg = PGP_PKA_ECDH) \<and>
      mpi_wf r \<and> mpi_wf s)"
| "material_wf palg (Mat_eg r s) = (palg = PGP_PKA_ELGAMAL_ENCRYPT_OR_SIGN \<and> mpi_wf r \<and> mpi_wf s)"

definition sig_hashed_enc :: "pgp_signature \<Rightarrow> bytes" where
  "sig_hashed_enc sig = concat (map subpkt_enc (take (sig_hashed_subpkts sig) (sig_subpkts sig)))"

definition sig_unhashed_enc :: "pgp_signature \<Rightarrow> bytes" where
  "sig_unhashed_enc sig = concat (map subpkt_enc (drop (sig_hashed_subpkts sig) (sig_subpkts sig)))"

definition sig_v4_head :: "pgp_signature \<Rightarrow> bytes" where
  "sig_v4_head sig =
     [to_byte (sig_type sig), to_byte (sig_palg sig), to_byte (sig_halg sig)] @
     be16 (length (sig_hashed_enc sig))"

definition sig_v4_fields :: "pgp_signature \<Rightarrow> bytes" where
  "sig_v4_fields sig =
     sig_v4_head sig @ sig_hashed_enc sig @ be16 (length (sig_unhashed_enc sig)) @ sig_unhashed_enc sig"

definition sig_v4_wf :: "pgp_signature \<Rightarrow> bool" where
  "sig_v4_wf sig \<longleftrightarrow>
     sig_version sig = 4 \<and> sig_type sig < 256 \<and> sig_palg sig < 256 \<and> sig_halg sig < 256 \<and>
     sig_hashed_data sig = 4 # sig_v4_head sig @ sig_hashed_enc sig \<and>
     length (sig_hashed_enc sig) < 65536 \<and> length (sig_unhashed_enc sig) < 65536 \<and>
     list_all (subpkt_wf True) (take (sig_hashed_subpkts sig) (sig_subpkts sig)) \<and>
     list_all (subpkt_wf False) (drop (sig_hashed_subpkts sig) (sig_subpkts sig)) \<and>
     sig_hashed_subpkts sig \<le> length (sig_subpkts sig) \<and>
     sig_creation_time sig = 0 \<and> sig_signer sig = replicate PGP_KEY_ID_SIZE 0"

definition sig_v3_fields :: "pgp_signature \<Rightarrow> bytes" where
  "sig_v3_fields sig =
     [5, to_byte (sig_type sig)] @ STORE32BE (sig_creation_time sig) @ sig_signer sig @
     [to_byte (sig_palg sig), to_byte (sig_halg sig)]"

definition sig_v3_wf :: "pgp_signature \<Rightarrow> bool" where
  "sig_v3_wf sig \<longleftrightarrow>
     (sig_version sig = 2 \<or> sig_version sig = 3) \<and>
     sig_type sig < 256 \<and> sig_palg sig < 256 \<and> sig_halg sig < 256 \<and>
     sig_hashed_data sig = to_byte (sig_type sig) # STORE32BE (sig_creation_time sig) \<and>
     sig_creation_time sig < 2 ^ 32 \<and> length (sig_signer sig) = PGP_KEY_ID_SIZE \<and>
     sig_subpkts sig = [] \<and> sig_hashed_subpkts sig = 0"

definition sig_wf :: "pgp_signature \<Rightarrow> bool" where
  "sig_wf sig \<longleftrightarrow>
     (sig_v3_wf sig \<or> sig_v4_wf sig) \<and> length (sig_lbits sig) = 2 \<and>
     material_wf (sig_palg sig) (sig_material sig)"

definition sig_fields :: "pgp_signature \<Rightarrow> bytes" where
  "sig_fields sig = (if sig_version sig = 4 then sig_v4_fields sig else sig_v3_fields sig)"

text \<open>A signature without hash bits and material, as \<^verbatim>\<open>memset\<close> left them.\<close>

definition sig_partial :: "pgp_signature \<Rightarrow> pgp_signature" where
  "sig_partial sig = sig\<lparr>sig_lbits := [0, 0], sig_material := Mat_none\<rparr>"

definition sig_body :: "pgp_signature \<Rightarrow> bytes" where
  "sig_body sig =
     to_byte (sig_version sig) # sig_fields sig @ sig_lbits sig @ material_enc (sig_material sig)"

lemma length_material_enc: "material_wf palg m \<Longrightarrow> length (material_enc m) \<le> 4100"
  by (cases m) (auto dest!: mpi_wf_length)

lemma read_v4_step:
  assumes "src_get s 5 = (s1, Some buf)" "unat (read_uint16 (drop 3 buf)) = k" "k + 7 \<le> n"
    and "src_get s1 k = (s2, Some sps)"
    and "signature_parse_subpackets (\<lambda>_. True) (sig\<lparr>sig_type := unat (buf ! 0), sig_palg := unat (buf ! 1),
      sig_halg := unat (buf ! 2), sig_hashed_data := to_byte (sig_version sig) # buf @ sps\<rparr>) sps True = (sig3, True)"
  shows "signature_read_v4 (\<lambda>_. True) s sig n = sig_v4_unhashed (\<lambda>_. True) s2 sig3 (n - 5 - k)"
  using assms by (auto simp: signature_read_v4_def Let_def)

context reliable_source
begin

lemma sig_read_mpi_holds:
  assumes "holds s (mpi_enc m @ r)" "mpi_wf m" "src_readb s + length m + 2 \<le> pktend"
  obtains s' where "sig_read_mpi s pktend = (s', Some m)" "holds s' r" "src_readb s' = src_readb s + length m + 2"
proof -
  define n where "n = sub64 pktend (src_readb s)"
  have n: "n = 0 \<or> length m + 2 \<le> n" using assms(3) by (simp add: n_def sub64_def)
  show thesis
    by (rule read_mpi_holds [OF assms(1,2) n], rule that) (simp_all add: sig_read_mpi_def n_def)
qed

lemma sig_read_mpi2_holds:
  assumes "holds s (mpi_enc a @ mpi_enc b @ r)" "mpi_wf a" "mpi_wf b"
    and "src_readb s + length a + length b + 4 \<le> pktend"
  obtains s' where "sig_read_mpi2 s pktend = (s', Some (a, b))" "holds s' r"
    "src_readb s' = src_readb s + length a + length b + 4"
proof -
  obtain s1 where s1: "sig_read_mpi s pktend = (s1, Some a)" "holds s1 (mpi_enc b @ r)"
    "src_readb s1 = src_readb s + length a + 2"
    by (rule sig_read_mpi_holds [OF assms(1,2), of pktend]) (use assms(4) in auto)
  obtain s2 where "sig_read_mpi s1 pktend = (s2, Some b)" "holds s2 r"
    "src_readb s2 = src_readb s1 + length b + 2"
    by (rule sig_read_mpi_holds [OF s1(2) assms(3), of pktend]) (use s1(3) assms(4) in auto)
  with that [of s2] s1 show thesis by (simp add: sig_read_mpi2_def)
qed

lemma sig_read_material_holds:
  assumes "holds s (material_enc m @ r)" "material_wf palg m"
    and "src_readb s + length (material_enc m) \<le> pktend"
  obtains s' where "sig_read_material s pktend palg = (s', Some m)" "holds s' r"
proof (cases m)
  case (Mat_rsa x)
  obtain s' where "sig_read_mpi s pktend = (s', Some x)" "holds s' r"
    by (rule sig_read_mpi_holds [of s x r pktend]) (use assms Mat_rsa in auto)
  with that [of s'] assms(2) Mat_rsa show thesis by (simp add: sig_read_material_def)
next
  case (Mat_dsa x y)
  obtain s' where "sig_read_mpi2 s pktend = (s', Some (x, y))" "holds s' r"
    by (rule sig_read_mpi2_holds [of s x y r pktend]) (use assms Mat_dsa in auto)
  with that [of s'] assms(2) Mat_dsa show thesis by (simp add: sig_read_material_def)
next
  case (Mat_ecc x y)
  obtain s' where "sig_read_mpi2 s pktend = (s', Some (x, y))" "holds s' r"
    by (rule sig_read_mpi2_holds [of s x y r pktend]) (use assms Mat_ecc in auto)
  with that [of s'] assms(2) Mat_ecc show thesis by (auto simp: sig_read_material_def)
next
  case (Mat_eg x y)
  obtain s' where "sig_read_mpi2 s pktend = (s', Some (x, y))" "holds s' r"
    by (rule sig_read_mpi2_holds [of s x y r pktend]) (use assms Mat_eg in auto)
  with that [of s'] assms(2) Mat_eg show thesis by (simp add: sig_read_material_def)
qed (use assms in simp)

lemma read_v3_holds:
  assumes "holds s (sig_v3_fields sig @ r)" "sig_v3_wf sig" "16 \<le> n" "al 5"
  obtains s' where "signature_read_v3 al s sig0 n = (s', Inr (sig0\<lparr>sig_hashed_data := sig_hashed_data sig,
      sig_type := sig_type sig, sig_creation_time := sig_creation_time sig, sig_signer := sig_signer sig,
      sig_palg := sig_palg sig, sig_halg := sig_halg sig\<rparr>))" "holds s' r" "src_readb s' = src_readb s + 16"
proof -
  have wf: "length (sig_signer sig) = 8" "sig_type sig < 256" "sig_palg sig < 256" "sig_halg sig < 256"
    "sig_hashed_data sig = to_byte (sig_type sig) # STORE32BE (sig_creation_time sig)"
    "sig_creation_time sig < 2 ^ 32"
    using assms(2) by (auto simp: sig_v3_wf_def PGP_KEY_ID_SIZE_def)
  have len: "length (sig_v3_fields sig) = 16" using wf(1) by (simp add: sig_v3_fields_def STORE32BE_def)
  obtain s' where s': "src_get s 16 = (s', Some (sig_v3_fields sig))" "holds s' r" "src_readb s' = src_readb s + 16"
    using get_exact [OF assms(1) len] by auto
  have "signature_read_v3 al s sig0 n = (s', Inr (sig0\<lparr>sig_hashed_data := sig_hashed_data sig,
      sig_type := sig_type sig, sig_creation_time := sig_creation_time sig, sig_signer := sig_signer sig,
      sig_palg := sig_palg sig, sig_halg := sig_halg sig\<rparr>))"
    using s'(1) assms(3,4) wf
    by (simp add: signature_read_v3_def sig_v3_fields_def nth_append PGP_KEY_ID_SIZE_def read_uint32_STORE32BE)
  with that s' show thesis by blast
qed

lemma v4_unhashed_holds:
  assumes "holds s (be16 (length us) @ us @ r)" "us = concat (map subpkt_enc sps)"
    and "list_all (subpkt_wf False) sps" "length us < 65536" "length us + 2 \<le> n"
  obtains s' where "sig_v4_unhashed (\<lambda>_. True) s sig n = (s', Inr (sig\<lparr>sig_subpkts := sig_subpkts sig @ sps\<rparr>))"
    "holds s' r" "src_readb s' = src_readb s + 2 + length us"
proof -
  obtain s1 where s1: "src_get s 2 = (s1, Some (be16 (length us)))" "holds s1 (us @ r)"
    "src_readb s1 = src_readb s + 2"
    using get_exact [OF assms(1), of 2] by auto
  obtain s2 where s2: "src_get s1 (length us) = (s2, Some us)" "holds s2 r"
    "src_readb s2 = src_readb s1 + length us"
    by (rule get_exact [OF s1(2) refl]) (use assms(4) in auto)
  have "sig_v4_unhashed (\<lambda>_. True) s sig n = (s2, Inr (sig\<lparr>sig_subpkts := sig_subpkts sig @ sps\<rparr>))"
    using s1(1) s2(1) assms(4,5) subpackets_loop_enc [OF assms(3), of sig]
    by (simp add: sig_v4_unhashed_def signature_parse_subpackets_def assms(2) Let_def)
  with that s1 s2 show thesis by simp
qed

lemma read_v4_holds:
  assumes "holds s (sig_v4_fields sig @ r)" "sig_v4_wf sig" "length (sig_v4_fields sig) \<le> n"
    and "sig_version sig0 = 4" "sig_subpkts sig0 = []" "sig_hashed_subpkts sig0 = 0"
  obtains s' where "signature_read_v4 (\<lambda>_. True) s sig0 n = (s', Inr (sig0\<lparr>sig_hashed_data := sig_hashed_data sig,
      sig_type := sig_type sig, sig_palg := sig_palg sig, sig_halg := sig_halg sig,
      sig_subpkts := sig_subpkts sig, sig_hashed_subpkts := sig_hashed_subpkts sig\<rparr>))" "holds s' r"
    "src_readb s' = src_readb s + length (sig_v4_fields sig)"
proof -
  note wf = assms(2) [unfolded sig_v4_wf_def]
  let ?hs = "sig_hashed_enc sig" and ?us = "sig_unhashed_enc sig"
  have head: "length (sig_v4_head sig) = 5" by (simp add: sig_v4_head_def)
  obtain s1 where s1: "src_get s 5 = (s1, Some (sig_v4_head sig))"
    "holds s1 (?hs @ be16 (length ?us) @ ?us @ r)" "src_readb s1 = src_readb s + 5"
    using get_exact [OF assms(1) [unfolded sig_v4_fields_def append_assoc] head] by auto
  obtain s2 where s2: "src_get s1 (length ?hs) = (s2, Some ?hs)" "holds s2 (be16 (length ?us) @ ?us @ r)"
    "src_readb s2 = src_readb s1 + length ?hs"
    by (rule get_exact [OF s1(2) refl]) (use wf in auto)
  have flds: "sig_v4_head sig ! 0 = to_byte (sig_type sig)" "sig_v4_head sig ! 1 = to_byte (sig_palg sig)"
    "sig_v4_head sig ! 2 = to_byte (sig_halg sig)" "drop 3 (sig_v4_head sig) = be16 (length ?hs)"
    by (simp_all add: sig_v4_head_def)
  define sig2 where "sig2 = sig0\<lparr>sig_type := unat (sig_v4_head sig ! 0), sig_palg := unat (sig_v4_head sig ! 1),
    sig_halg := unat (sig_v4_head sig ! 2), sig_hashed_data := to_byte (sig_version sig0) # sig_v4_head sig @ ?hs\<rparr>"
  define sig3 where "sig3 = sig2\<lparr>sig_subpkts := take (sig_hashed_subpkts sig) (sig_subpkts sig),
    sig_hashed_subpkts := sig_hashed_subpkts sig\<rparr>"
  have hs: "signature_parse_subpackets (\<lambda>_. True) sig2 ?hs True = (sig3, True)"
    using subpackets_loop_enc [of True "take (sig_hashed_subpkts sig) (sig_subpkts sig)" sig2] wf assms(5,6)
    by (simp add: signature_parse_subpackets_def sig_hashed_enc_def sig2_def sig3_def)
  have us: "list_all (subpkt_wf False) (drop (sig_hashed_subpkts sig) (sig_subpkts sig))"
    "length ?us < 65536" using wf by auto
  have n: "length ?us + 2 \<le> n - 5 - length ?hs" "length ?hs + 7 \<le> n"
    using assms(3) by (auto simp: sig_v4_fields_def head)
  obtain s3 where s3: "sig_v4_unhashed (\<lambda>_. True) s2 sig3 (n - 5 - length ?hs) =
      (s3, Inr (sig3\<lparr>sig_subpkts := sig_subpkts sig3 @ drop (sig_hashed_subpkts sig) (sig_subpkts sig)\<rparr>))"
    "holds s3 r" "src_readb s3 = src_readb s2 + 2 + length ?us"
    by (rule v4_unhashed_holds [OF s2(2) sig_unhashed_enc_def us n(1)])
  have "unat (read_uint16 (drop 3 (sig_v4_head sig))) = length ?hs" using flds(4) wf by simp
  from read_v4_step [OF s1(1) this n(2) s2(1) hs [unfolded sig2_def]] s3(1)
  have "signature_read_v4 (\<lambda>_. True) s sig0 n =
      (s3, Inr (sig3\<lparr>sig_subpkts := sig_subpkts sig3 @ drop (sig_hashed_subpkts sig) (sig_subpkts sig)\<rparr>))" by simp
  moreover have "sig3\<lparr>sig_subpkts := sig_subpkts sig3 @ drop (sig_hashed_subpkts sig) (sig_subpkts sig)\<rparr> =
      sig0\<lparr>sig_hashed_data := sig_hashed_data sig,
      sig_type := sig_type sig, sig_palg := sig_palg sig, sig_halg := sig_halg sig,
      sig_subpkts := sig_subpkts sig, sig_hashed_subpkts := sig_hashed_subpkts sig\<rparr>"
    using wf assms(4) by (cases sig0) (simp add: sig3_def sig2_def flds [simplified])
  ultimately have "signature_read_v4 (\<lambda>_. True) s sig0 n = (s3, Inr (sig0\<lparr>sig_hashed_data := sig_hashed_data sig,
      sig_type := sig_type sig, sig_palg := sig_palg sig, sig_halg := sig_halg sig,
      sig_subpkts := sig_subpkts sig, sig_hashed_subpkts := sig_hashed_subpkts sig\<rparr>))" by simp
  with that s1 s2 s3 show thesis by (simp add: sig_v4_fields_def head)
qed

lemma sig_fields_holds:
  fixes sig :: pgp_signature
  assumes "holds s (sig_fields sig @ r)" "sig_v3_wf sig \<or> sig_v4_wf sig" "length (sig_fields sig) \<le> n"
  defines "sig0 \<equiv> zero_signature\<lparr>sig_version := sig_version sig\<rparr>"
  obtains s' where
    "(if sig_version sig = 2 \<or> sig_version sig = 3 then signature_read_v3 (\<lambda>_. True) s sig0 n
      else if sig_version sig = 4 then signature_read_v4 (\<lambda>_. True) s sig0 n
      else (s, Inl RNP_ERROR_BAD_FORMAT)) = (s', Inr (sig_partial sig))"
    "holds s' r" "src_readb s' = src_readb s + length (sig_fields sig)"
  using assms(2)
proof
  assume wf: "sig_v3_wf sig"
  then have v: "sig_version sig = 2 \<or> sig_version sig = 3" and l: "length (sig_v3_fields sig) = 16"
    by (auto simp: sig_v3_wf_def sig_v3_fields_def PGP_KEY_ID_SIZE_def)
  then have f: "sig_fields sig = sig_v3_fields sig" by (auto simp: sig_fields_def)
  obtain s' where "signature_read_v3 (\<lambda>_. True) s sig0 n = (s', Inr (sig0\<lparr>sig_hashed_data := sig_hashed_data sig,
      sig_type := sig_type sig, sig_creation_time := sig_creation_time sig, sig_signer := sig_signer sig,
      sig_palg := sig_palg sig, sig_halg := sig_halg sig\<rparr>))" "holds s' r" "src_readb s' = src_readb s + 16"
    by (rule read_v3_holds [OF assms(1) [unfolded f] wf, of n "\<lambda>_. True" sig0]) (use assms(3) f l in auto)
  moreover have "sig0\<lparr>sig_hashed_data := sig_hashed_data sig, sig_type := sig_type sig,
      sig_creation_time := sig_creation_time sig, sig_signer := sig_signer sig,
      sig_palg := sig_palg sig, sig_halg := sig_halg sig\<rparr> = sig_partial sig"
    using wf by (simp add: sig0_def sig_partial_def zero_signature_def sig_v3_wf_def)
  ultimately show thesis using that [of s'] v by (simp add: f l)
next
  assume wf: "sig_v4_wf sig"
  then have v: "sig_version sig = 4" by (simp add: sig_v4_wf_def)
  then have f: "sig_fields sig = sig_v4_fields sig" by (simp add: sig_fields_def)
  obtain s' where "signature_read_v4 (\<lambda>_. True) s sig0 n = (s', Inr (sig0\<lparr>sig_hashed_data := sig_hashed_data sig,
      sig_type := sig_type sig, sig_palg := sig_palg sig, sig_halg := sig_halg sig,
      sig_subpkts := sig_subpkts sig, sig_hashed_subpkts := sig_hashed_subpkts sig\<rparr>))" "holds s' r"
    "src_readb s' = src_readb s + length (sig_v4_fields sig)"
    by (rule read_v4_holds [OF assms(1) [unfolded f] wf, of n sig0])
      (use assms(3) f v in \<open>auto simp: sig0_def zero_signature_def\<close>)
  moreover have "sig0\<lparr>sig_hashed_data := sig_hashed_data sig, sig_type := sig_type sig, sig_palg := sig_palg sig,
      sig_halg := sig_halg sig, sig_subpkts := sig_subpkts sig, sig_hashed_subpkts := sig_hashed_subpkts sig\<rparr> =
      sig_partial sig"
    using wf by (simp add: sig0_def sig_partial_def zero_signature_def sig_v4_wf_def)
  ultimately show thesis using that [of s'] v by (simp add: f)
qed

lemma length_sig_fields: "sig_v3_wf sig \<or> sig_v4_wf sig \<Longrightarrow> length (sig_fields sig) < 2 ^ 30"
  by (auto simp: sig_v3_wf_def sig_v4_wf_def sig_fields_def sig_v3_fields_def
      sig_v4_fields_def sig_v4_head_def PGP_KEY_ID_SIZE_def)

lemma parse_signature_fields:
  assumes "holds s (packet_bytes tag (to_byte (sig_version sig) # sig_fields sig @ x) @ r)"
    and "sig_v3_wf sig \<or> sig_v4_wf sig" "length (sig_fields sig) + length x < 2 ^ 31"
  obtains s' where
    "stream_parse_signature (\<lambda>_. True) s = sig_parse_rest (\<lambda>_. True) s' (src_readb s' + length x) (sig_partial sig)"
    "holds s' (x @ r)"
proof -
  define body where "body = to_byte (sig_version sig) # sig_fields sig @ x"
  have len: "length body = length (sig_fields sig) + length x + 1" "length body < 2 ^ 32"
    using assms(3) by (simp_all add: body_def)
  have v: "sig_version sig < 256" using assms(2) by (auto simp: sig_v3_wf_def sig_v4_wf_def)
  obtain s1 where s1: "stream_read_pkt_len s = (s1, Some (length body))" "holds s1 (body @ r)"
    using packet_len_holds [OF assms(1) [folded body_def] len(2)] by blast
  have pktend: "u64 (src_readb s1 + length body) = src_readb s1 + length body"
    using src_holds_readb [OF s1(2)] by (simp add: u64_def)
  obtain s2 where s2: "src_get s1 1 = (s2, Some [to_byte (sig_version sig)])" "holds s2 (sig_fields sig @ x @ r)"
    "src_readb s2 = src_readb s1 + 1"
    using get_exact [of s1 "[to_byte (sig_version sig)]" "sig_fields sig @ x @ r" 1] s1(2) by (auto simp: body_def)
  have n: "length (sig_fields sig) \<le> length body - 1" using len(1) by simp
  have nz: "(length body < 1) = False" and ver: "unat ([to_byte (sig_version sig)] ! 0) = sig_version sig"
    using v len(1) by auto
  from s2(2) assms(2) n obtain s3 where s3:
    "(if sig_version sig = 2 \<or> sig_version sig = 3
      then signature_read_v3 (\<lambda>_. True) s2 (zero_signature\<lparr>sig_version := sig_version sig\<rparr>) (length body - 1)
      else if sig_version sig = 4
      then signature_read_v4 (\<lambda>_. True) s2 (zero_signature\<lparr>sig_version := sig_version sig\<rparr>) (length body - 1)
      else (s2, Inl RNP_ERROR_BAD_FORMAT)) = (s3, Inr (sig_partial sig))"
    "holds s3 (x @ r)" "src_readb s3 = src_readb s2 + length (sig_fields sig)"
    by (rule sig_fields_holds)
  have "stream_parse_signature (\<lambda>_. True) s =
      sig_parse_rest (\<lambda>_. True) s3 (src_readb s1 + length body) (sig_partial sig)"
    by (simp only: stream_parse_signature_def s1(1) s2(1) prod.case option.case sum.case if_False Let_def
        pktend nz ver s3(1))
  with that [of s3] s3(2,3) s2(3) len(1) show thesis by (simp add: add.assoc)
qed

lemma parse_signature_holds:
  assumes "holds s (packet_bytes tag (sig_body sig) @ r)" "sig_wf sig"
  obtains s' where "stream_parse_signature (\<lambda>_. True) s = (s', Inr sig)" "holds s' r"
proof -
  define x where "x = sig_lbits sig @ material_enc (sig_material sig)"
  have wf: "sig_v3_wf sig \<or> sig_v4_wf sig" "length (sig_lbits sig) = 2"
    "material_wf (sig_palg sig) (sig_material sig)" using assms(2) by (auto simp: sig_wf_def)
  have len: "length (sig_fields sig) + length x < 2 ^ 31"
    using length_sig_fields [OF wf(1)] length_material_enc [OF wf(3)] wf(2) by (simp add: x_def)
  obtain s1 where s1: "stream_parse_signature (\<lambda>_. True) s =
      sig_parse_rest (\<lambda>_. True) s1 (src_readb s1 + length x) (sig_partial sig)" "holds s1 (x @ r)"
    using parse_signature_fields [OF assms(1) [unfolded sig_body_def, folded x_def] wf(1) len] by blast
  obtain s2 where s2: "src_get s1 2 = (s2, Some (sig_lbits sig))" "holds s2 (material_enc (sig_material sig) @ r)"
    "src_readb s2 = src_readb s1 + 2"
    using get_exact [OF s1(2) [unfolded x_def append_assoc] wf(2)] by auto
  obtain s3 where s3: "sig_read_material s2 (src_readb s1 + length x) (sig_palg sig) = (s3, Some (sig_material sig))"
    "holds s3 r"
    by (rule sig_read_material_holds [OF s2(2) wf(3), of "src_readb s1 + length x"])
      (use s2(3) wf(2) in \<open>auto simp: x_def\<close>)
  have "sig_parse_rest (\<lambda>_. True) s1 (src_readb s1 + length x) (sig_partial sig) = (s3, Inr sig)"
    using s2(1) s3(1) wf(2) by (simp add: sig_parse_rest_def sub64_def x_def sig_partial_def)
  with that s1(1) s3(2) show thesis by simp
qed

lemma parse_signature_truncated:
  assumes "holds s (packet_bytes tag (to_byte (sig_version sig) # sig_fields sig @ x) @ r)"
    and "sig_v3_wf sig \<or> sig_v4_wf sig" "length x < 2"
  obtains s' where "stream_parse_signature (\<lambda>_. True) s = (s', Inr (sig_partial sig))" "holds s' (x @ r)"
proof -
  have "length (sig_fields sig) + length x < 2 ^ 31"
    using length_sig_fields [OF assms(2)] assms(3) by simp
  from parse_signature_fields [OF assms(1,2) this] obtain s' where "stream_parse_signature (\<lambda>_. True) s =
      sig_parse_rest (\<lambda>_. True) s' (src_readb s' + length x) (sig_partial sig)" "holds s' (x @ r)" .
  with that assms(3) show thesis by (simp add: sig_parse_rest_def sub64_def)
qed

end

lemma src_get_length: "src_get s n = (s', Some bs) \<Longrightarrow> length bs = n"
  by (auto simp: src_get_def split: prod.splits option.splits if_splits)

lemma parse_subpackets_ok:
  "sig_inv sig \<Longrightarrow> signature_parse_subpackets al sig buf hashed = (sig', True) \<Longrightarrow> sig_inv sig'"
  using subpackets_loop_ok [of al sig buf hashed True sig'] by (simp add: signature_parse_subpackets_def)

lemma sig_inv_updates [simp]:
  "sig_inv (sig\<lparr>sig_type := a\<rparr>) = sig_inv sig"
  "sig_inv (sig\<lparr>sig_palg := a\<rparr>) = sig_inv sig"
  "sig_inv (sig\<lparr>sig_halg := a\<rparr>) = sig_inv sig"
  "sig_inv (sig\<lparr>sig_lbits := b\<rparr>) = sig_inv sig"
  "sig_inv (sig\<lparr>sig_hashed_data := b\<rparr>) = sig_inv sig"
  "sig_inv (sig\<lparr>sig_material := m\<rparr>) = sig_inv sig"
  "sig_inv (sig\<lparr>sig_creation_time := a\<rparr>) = sig_inv sig"
  "sig_inv sig \<Longrightarrow> length b = PGP_KEY_ID_SIZE \<Longrightarrow> sig_inv (sig\<lparr>sig_signer := b\<rparr>)"
  "sig_inv (zero_signature\<lparr>sig_version := a\<rparr>)"
  by (simp_all add: sig_inv_def zero_signature_def)

text \<open>Every signature that the parser returns has well-formed subpackets, from any source.\<close>

lemma read_v3_ok:
  "sig_inv sig \<Longrightarrow> signature_read_v3 al s sig n = (s', Inr sig') \<Longrightarrow> sig_inv sig'"
  by (auto simp: signature_read_v3_def PGP_KEY_ID_SIZE_def dest!: src_get_length
      split: if_splits prod.splits option.splits)

lemma v4_unhashed_ok:
  "sig_inv sig \<Longrightarrow> sig_v4_unhashed al s sig n = (s', Inr sig') \<Longrightarrow> sig_inv sig'"
  by (auto simp: sig_v4_unhashed_def Let_def dest: parse_subpackets_ok split: if_splits prod.splits option.splits)

lemma read_v4_ok:
  assumes "sig_inv sig" "signature_read_v4 al s sig n = (s', Inr sig')"
  shows "sig_inv sig'"
proof -
  from assms(2) obtain a b c d sps sig3 s2 m where
    p: "signature_parse_subpackets al (sig\<lparr>sig_type := a, sig_palg := b, sig_halg := c, sig_hashed_data := d\<rparr>) sps True =
      (sig3, True)" and rest: "sig_v4_unhashed al s2 sig3 m = (s', Inr sig')"
    by (auto simp: signature_read_v4_def Let_def split: if_splits prod.splits option.splits)
  from assms(1) have "sig_inv sig3" by (intro parse_subpackets_ok [OF _ p]) simp
  then show ?thesis using rest by (rule v4_unhashed_ok)
qed

lemma parse_rest_ok:
  "sig_inv sig \<Longrightarrow> sig_parse_rest al s pktend sig = (s', Inr sig') \<Longrightarrow> sig_inv sig'"
  by (auto simp: sig_parse_rest_def sig_fail_def split: if_splits prod.splits option.splits)

lemma parse_signature_ok:
  assumes "stream_parse_signature al s = (s', Inr sig)"
  shows "sig_inv sig"
proof -
  from assms obtain s2 v n s3 sig1 pktend where
    r: "signature_read_v3 al s2 (zero_signature\<lparr>sig_version := v\<rparr>) n = (s3, Inr sig1) \<or>
        signature_read_v4 al s2 (zero_signature\<lparr>sig_version := v\<rparr>) n = (s3, Inr sig1)"
    and rest: "sig_parse_rest al s3 pktend sig1 = (s', Inr sig)"
    unfolding stream_parse_signature_def Let_def
    by (simp add: sig_fail_def split: if_splits prod.splits option.splits sum.splits) blast+
  have "sig_inv sig1" using r read_v3_ok read_v4_ok sig_inv_updates(9) by blast
  with rest show ?thesis by (blast intro: parse_rest_ok)
qed

section \<open>Accessors of parsed signatures\<close>

lemma subpkt_find_Some:
  "subpkt_find t sps = Some sp \<Longrightarrow> sp \<in> set sps \<and> sp_type sp = t \<and> sp_parsed sp"
  by (induction sps) (auto split: if_splits)

lemma get_subpkt_fields:
  assumes "sig_inv sig" "signature_get_subpkt sig t = Some sp"
  shows "field_coding t (sp_fields sp) (sp_data sp)"
  using assms by (auto simp: signature_get_subpkt_def sig_inv_def subpkt_ok_def
      dest!: subpkt_find_Some split: if_splits)

lemma issuer_fields: "field_coding PGP_SIG_SUBPKT_ISSUER_KEY_ID f data \<Longrightarrow> length (fields_issuer f) = 8"
  by (erule issuer_codingE) auto

lemma issuer_fp_fields:
  "field_coding PGP_SIG_SUBPKT_ISSUER_FPR f data \<Longrightarrow>
   fields_issuer_fp f = drop 1 data \<and> 20 \<le> length (fields_issuer_fp f)"
  by (erule issuer_fp_codingE) auto

lemma get_keyid_length:
  assumes "sig_inv sig" "signature_get_keyid sig = Some kid"
  shows "length kid = PGP_KEY_ID_SIZE"
proof (cases "sig_version sig < 4")
  case True
  with assms show ?thesis by (auto simp: signature_get_keyid_def sig_inv_def)
next
  case False
  consider sp where "signature_get_subpkt sig PGP_SIG_SUBPKT_ISSUER_KEY_ID = Some sp" "kid = fields_issuer (sp_fields sp)"
    | sp where "signature_get_subpkt sig PGP_SIG_SUBPKT_ISSUER_FPR = Some sp"
        "kid = drop (length (fields_issuer_fp (sp_fields sp)) - PGP_KEY_ID_SIZE) (fields_issuer_fp (sp_fields sp))"
    using False assms(2) by (auto simp: signature_get_keyid_def Let_def split: option.splits)
  then show ?thesis
  proof cases
    case 1
    then show ?thesis using issuer_fields [OF get_subpkt_fields [OF assms(1)]] by (simp add: PGP_KEY_ID_SIZE_def)
  next
    case 2
    then show ?thesis
      using issuer_fp_fields [OF get_subpkt_fields [OF assms(1)]] by (auto simp: PGP_KEY_ID_SIZE_def)
  qed
qed

end
