(* ===== verification/Signed_Source.thy ===== *)
theory Signed_Source
  imports Signature Stream_Armor
begin

text \<open>
  Signed data of \<^verbatim>\<open>src/src/librepgp/stream-parse.c\<close>: the source of a signed message, of a
  detached signature and of a cleartext signed message, and the check of the signatures.
\<close>

section \<open>State\<close>

text \<open>
  \<^verbatim>\<open>pgp_signature_info_t\<close>.  A key is a value of the type \<open>'k\<close>; a pointer to a signature is the
  signature.
\<close>

record 'k siginfo =
  si_sig :: "pgp_signature option"
  si_signer :: "'k option"
  si_valid :: bool
  si_unknown :: bool
  si_no_signer :: bool
  si_expired :: bool

definition zero_siginfo :: "'k siginfo" where
  "zero_siginfo = \<lparr>si_sig = None, si_signer = None, si_valid = False, si_unknown = False,
     si_no_signer = False, si_expired = False\<rparr>"

text \<open>
  \<^verbatim>\<open>pgp_source_signed_param_t\<close>.  The used part of the output buffer is a list, so \<^verbatim>\<open>outlen\<close> is its
  length.
\<close>

record ('q, 'k) signed_param =
  sg_readsrc :: "'q pgp_source"
  sg_detached :: bool
  sg_cleartext :: bool
  sg_clr_eod :: bool
  sg_clr_fline :: bool
  sg_clr_mline :: bool
  sg_out :: bytes
  sg_outpos :: nat
  sg_onepasses :: "pgp_one_pass_sig list"
  sg_sigs :: "pgp_signature list"
  sg_hashes :: "pgp_hash list"
  sg_siginfos :: "'k siginfo list"

text \<open>
  The public-key operations of \<^verbatim>\<open>src/src/lib/crypto\<close>, which call the Botan library, the key provider of
  the handler and the clock.  The first three arguments of an operation are the digest and the
  two integers of the signature; RSA has one integer and the hash algorithm.
\<close>

record 'k verifier =
  vf_dsa :: "bytes \<Rightarrow> bytes \<Rightarrow> bytes \<Rightarrow> 'k \<Rightarrow> bool"
  vf_eddsa :: "bytes \<Rightarrow> bytes \<Rightarrow> bytes \<Rightarrow> 'k \<Rightarrow> bool"
  vf_sm2 :: "bytes \<Rightarrow> bytes \<Rightarrow> bytes \<Rightarrow> 'k \<Rightarrow> bool"
  vf_rsa :: "bytes \<Rightarrow> bytes \<Rightarrow> nat \<Rightarrow> 'k \<Rightarrow> bool"
  vf_ecdsa :: "bytes \<Rightarrow> bytes \<Rightarrow> bytes \<Rightarrow> 'k \<Rightarrow> bool"
  vf_request_key :: "bytes \<Rightarrow> 'k option"
  vf_time :: nat

text \<open>Whether \<^verbatim>\<open>list_append\<close> of an item of \<open>n\<close> bytes finds memory.\<close>

definition append_ok :: "alloc \<Rightarrow> 'a list \<Rightarrow> nat \<Rightarrow> bool" where
  "append_ok al xs n \<longleftrightarrow> (xs = [] \<longrightarrow> al 24) \<and> al (24 + n)"

section \<open>Validation\<close>

definition mat_r :: "sig_material \<Rightarrow> bytes" where
  "mat_r m = (case m of Mat_dsa r s \<Rightarrow> r | Mat_ecc r s \<Rightarrow> r | Mat_eg r s \<Rightarrow> r | _ \<Rightarrow> [])"

definition mat_s :: "sig_material \<Rightarrow> bytes" where
  "mat_s m = (case m of Mat_dsa r s \<Rightarrow> s | Mat_ecc r s \<Rightarrow> s | Mat_eg r s \<Rightarrow> s | Mat_rsa s \<Rightarrow> s | _ \<Rightarrow> [])"

text \<open>The fields and the trailer that are hashed after the data.\<close>

definition sig_trailer :: "pgp_signature \<Rightarrow> bytes" where
  "sig_trailer sig =
     (if 3 < sig_version sig
      then [to_byte (sig_version sig), 0xff] @ STORE32BE (length (sig_hashed_data sig)) else [])"

definition verify_switch :: "'k verifier \<Rightarrow> pgp_signature \<Rightarrow> bytes \<Rightarrow> 'k \<Rightarrow> bool" where
  "verify_switch vf sig hval key =
     (let r = mat_r (sig_material sig); s = mat_s (sig_material sig) in
      if sig_palg sig = PGP_PKA_DSA then vf_dsa vf hval r s key
      else if sig_palg sig = PGP_PKA_EDDSA then vf_eddsa vf hval r s key
      else if sig_palg sig = PGP_PKA_SM2 then vf_sm2 vf hval r s key
      else if sig_palg sig = PGP_PKA_RSA then vf_rsa vf hval s (sig_halg sig) key
      else if sig_palg sig = PGP_PKA_ECDSA then vf_ecdsa vf hval r s key
      else False)"

definition signed_validate_signature ::
    "botan \<Rightarrow> 'k verifier \<Rightarrow> pgp_hash list \<Rightarrow> pgp_signature \<Rightarrow> 'k \<Rightarrow> bool" where
  "signed_validate_signature bo vf hashes sig key =
     (case pgp_hash_list_get hashes (sig_halg sig) of
        None \<Rightarrow> False
      | Some h \<Rightarrow>
          (case pgp_hash_copy zero_hash h of
             (shash, ok) \<Rightarrow>
               if \<not> ok then False
               else
                 let shash1 = pgp_hash_add shash (sig_hashed_data sig);
                     shash2 = (if 3 < sig_version sig then pgp_hash_add shash1 (sig_trailer sig) else shash1)
                 in (case pgp_hash_finish bo shash2 of
                       (_, len, hval) \<Rightarrow> verify_switch vf sig (take len hval) key)))"

text \<open>The times are unsigned numbers of 32 bits, their sum too.\<close>

definition sig_expired :: "nat \<Rightarrow> pgp_signature \<Rightarrow> bool" where
  "sig_expired now sig =
     (let create = signature_get_creation sig; expiry = signature_get_expiration sig in
      0 < create \<and> (now < create \<or> 0 < expiry \<and> (create + expiry) mod 2 ^ 32 < now))"

definition check_siginfo :: "botan \<Rightarrow> 'k verifier \<Rightarrow> pgp_hash list \<Rightarrow> 'k siginfo \<Rightarrow> 'k siginfo" where
  "check_siginfo bo vf hashes sinfo =
     (case si_sig sinfo of
        None \<Rightarrow> sinfo
      | Some sig \<Rightarrow>
          (case signature_get_keyid sig of
             None \<Rightarrow> sinfo\<lparr>si_unknown := True\<rparr>
           | Some keyid \<Rightarrow>
               (case vf_request_key vf keyid of
                  None \<Rightarrow> sinfo\<lparr>si_no_signer := True\<rparr>
                | Some key \<Rightarrow>
                    sinfo\<lparr>si_signer := Some key, si_valid := signed_validate_signature bo vf hashes sig key,
                          si_expired := si_expired sinfo \<or> sig_expired (vf_time vf) sig\<rparr>)))"

section \<open>Reading signatures\<close>

text \<open>
  \<^verbatim>\<open>signed_read_single_signature\<close>, with the lists of the parameters and the variable that \<^verbatim>\<open>sig\<close>
  points to.
\<close>

definition signed_read_single_signature ::
    "alloc \<Rightarrow> 'p pgp_source \<Rightarrow> 'k siginfo list \<Rightarrow> pgp_signature list \<Rightarrow> pgp_signature option \<Rightarrow>
     'p pgp_source \<times> 'k siginfo list \<times> pgp_signature list \<times> pgp_signature option \<times> rnp_result" where
  "signed_read_single_signature al readsrc infos sigs sig =
     (case src_peek readsrc 1 of
        (src1, Some (ptag # _)) \<Rightarrow>
          if get_packet_type ptag \<noteq> PGP_PTAG_CT_SIGNATURE then (src1, infos, sigs, sig, RNP_ERROR_BAD_FORMAT)
          else if \<not> append_ok al infos 24 then (src1, infos, sigs, sig, RNP_ERROR_OUT_OF_MEMORY)
          else
            (case stream_parse_signature al src1 of
               (src2, Inl _) \<Rightarrow> (src2, infos @ [zero_siginfo\<lparr>si_unknown := True\<rparr>], sigs, None, RNP_SUCCESS)
             | (src2, Inr readsig) \<Rightarrow>
                 if \<not> append_ok al sigs 4176
                 then (src2, infos @ [zero_siginfo], sigs, sig, RNP_ERROR_OUT_OF_MEMORY)
                 else (src2, infos @ [zero_siginfo\<lparr>si_sig := Some readsig\<rparr>], sigs @ [readsig], Some readsig,
                       RNP_SUCCESS))
      | (src1, _) \<Rightarrow> (src1, infos, sigs, sig, RNP_ERROR_READ))"

text \<open>
  The signatures after the data, one for each one-pass signature, read through the signed source
  itself; the first argument has the one-pass signatures from the back.  A signature that could
  not be parsed leaves a null pointer, which \<^verbatim>\<open>signature_matches_onepass\<close> reads: there is no
  result then.
\<close>

fun signed_read_signatures ::
    "alloc \<Rightarrow> pgp_one_pass_sig list \<Rightarrow> 'p pgp_source \<Rightarrow> 'k siginfo list \<Rightarrow> pgp_signature list \<Rightarrow> pgp_signature option \<Rightarrow>
     ('p pgp_source \<times> 'k siginfo list \<times> pgp_signature list \<times> rnp_result) option" where
  "signed_read_signatures al [] src infos sigs sig = Some (src, infos, sigs, RNP_SUCCESS)"
| "signed_read_signatures al (op # ops) src infos sigs sig =
     (case signed_read_single_signature al src infos sigs sig of
        (src1, infos1, sigs1, sig1, ret) \<Rightarrow>
          if ret \<noteq> RNP_SUCCESS then Some (src1, infos1, sigs1, ret)
          else
            (case sig1 of
               None \<Rightarrow> None
             | Some s \<Rightarrow>
                 if \<not> signature_matches_onepass s op then Some (src1, infos1, sigs1, RNP_ERROR_BAD_FORMAT)
                 else signed_read_signatures al ops src1 infos1 sigs1 sig1))"

text \<open>The loop of \<^verbatim>\<open>signed_read_cleartext_signatures\<close>.\<close>

partial_function (option) cleartext_sigs_loop ::
    "alloc \<Rightarrow> 'p pgp_source \<Rightarrow> 'k siginfo list \<Rightarrow> pgp_signature list \<Rightarrow>
     ('p pgp_source \<times> 'k siginfo list \<times> pgp_signature list \<times> rnp_result) option" where
  "cleartext_sigs_loop al armor infos sigs =
     (case src_eof armor of
        (armor1, eof) \<Rightarrow>
          if eof then Some (armor1, infos, sigs, RNP_SUCCESS)
          else
            (case signed_read_single_signature al armor1 infos sigs None of
               (armor2, infos1, sigs1, _, ret) \<Rightarrow>
                 if ret \<noteq> RNP_SUCCESS then Some (armor2, infos1, sigs1, ret)
                 else cleartext_sigs_loop al armor2 infos1 sigs1))"

definition armor_readsrc :: "'q armored_src_param option pgp_source \<Rightarrow> 'q pgp_source \<Rightarrow> 'q pgp_source" where
  "armor_readsrc armor readsrc = (case src_param armor of None \<Rightarrow> readsrc | Some p \<Rightarrow> as_readsrc p)"

definition signed_read_cleartext_signatures ::
    "botan \<Rightarrow> alloc \<Rightarrow> ('q, 'k) signed_param \<Rightarrow> (('q, 'k) signed_param \<times> rnp_result) option" where
  "signed_read_cleartext_signatures bo al param =
     (case init_armored_src bo al (sg_readsrc param) of
        None \<Rightarrow> None
      | Some (armor, ret) \<Rightarrow>
          if ret \<noteq> RNP_SUCCESS then Some (param\<lparr>sg_readsrc := armor_readsrc armor (sg_readsrc param)\<rparr>, ret)
          else
            (case cleartext_sigs_loop al armor (sg_siginfos param) (sg_sigs param) of
               None \<Rightarrow> None
             | Some (armor1, infos, sigs, ret1) \<Rightarrow>
                 Some (param\<lparr>sg_readsrc := armor_readsrc armor1 (sg_readsrc param), sg_siginfos := infos,
                             sg_sigs := sigs\<rparr>, ret1)))"

text \<open>
  \<^verbatim>\<open>signed_src_finish\<close>, on the whole source, since the signatures of a one-pass signed message are
  read through it.  The last component is what the callback \<^verbatim>\<open>on_signatures\<close> is given, if it is
  called.
\<close>

definition signed_verdict :: "'k siginfo list \<Rightarrow> rnp_result" where
  "signed_verdict infos =
     (if list_ex (\<lambda>si. \<not> si_valid si \<or> si_expired si) infos then RNP_ERROR_SIGNATURE_INVALID else RNP_SUCCESS)"

definition signed_read_all ::
    "botan \<Rightarrow> alloc \<Rightarrow> ('q, 'k) signed_param option pgp_source \<Rightarrow> ('q, 'k) signed_param \<Rightarrow>
     (('q, 'k) signed_param option pgp_source \<times> rnp_result) option" where
  "signed_read_all bo al src param =
     (if sg_cleartext param then
        map_option (\<lambda>(param1, ret). (src\<lparr>src_param := Some param1\<rparr>, ret)) (signed_read_cleartext_signatures bo al param)
      else
        map_option (\<lambda>(src1, infos, sigs, ret).
            (src1\<lparr>src_param := map_option (\<lambda>p. p\<lparr>sg_siginfos := infos, sg_sigs := sigs\<rparr>) (src_param src1)\<rparr>, ret))
          (signed_read_signatures al (rev (sg_onepasses param)) src (sg_siginfos param) (sg_sigs param) None))"

definition signed_src_finish ::
    "botan \<Rightarrow> alloc \<Rightarrow> 'k verifier \<Rightarrow> ('q, 'k) signed_param option pgp_source \<Rightarrow>
     (('q, 'k) signed_param option pgp_source \<times> rnp_result \<times> 'k siginfo list option) option" where
  "signed_src_finish bo al vf src =
     (case src_param src of
        None \<Rightarrow> None
      | Some param \<Rightarrow>
          (case signed_read_all bo al src param of
             None \<Rightarrow> None
           | Some (src1, ret) \<Rightarrow>
               if ret \<noteq> RNP_SUCCESS then Some (src1, ret, None)
               else
                 let src2 = fst (src_eof src1) in
                 (case src_param src2 of
                    None \<Rightarrow> None
                  | Some param2 \<Rightarrow>
                      if \<not> al (24 * length (sg_siginfos param2)) then Some (src2, RNP_ERROR_OUT_OF_MEMORY, None)
                      else
                        let infos = map (check_siginfo bo vf (sg_hashes param2)) (sg_siginfos param2)
                        in Some (src2\<lparr>src_param := Some (param2\<lparr>sg_siginfos := infos\<rparr>)\<rparr>, signed_verdict infos,
                                 Some infos))))"

section \<open>Binary signed data\<close>

definition signed_src_update :: "('q, 'k) signed_param option pgp_source \<Rightarrow> bytes \<Rightarrow> ('q, 'k) signed_param option pgp_source" where
  "signed_src_update src buf =
     src\<lparr>src_param := map_option (\<lambda>p. p\<lparr>sg_hashes := pgp_hash_list_update (sg_hashes p) buf\<rparr>) (src_param src)\<rparr>"

definition signed_src_read :: "('q, 'k) signed_param option \<Rightarrow> nat \<Rightarrow> ('q, 'k) signed_param option \<times> bytes option" where
  "signed_src_read p len =
     (case p of
        None \<Rightarrow> (None, None)
      | Some param \<Rightarrow>
          (case src_read (sg_readsrc param) len of (s, r) \<Rightarrow> (Some (param\<lparr>sg_readsrc := s\<rparr>), r)))"

definition signed_src_close :: "('q, 'k) signed_param option \<Rightarrow> ('q, 'k) signed_param option" where
  "signed_src_close p = None"

text \<open>
  The loop of \<^verbatim>\<open>init_signed_src\<close> over one-pass signatures and signatures, one round at a time.  The
  result of adding a hash context is not used.
\<close>

datatype ('q, 'k) init_step =
    Init_stop "('q, 'k) signed_param" rnp_result
  | Init_again "('q, 'k) signed_param" pgp_one_pass_sig "pgp_signature option"

definition signed_init_next ::
    "('q, 'k) signed_param \<Rightarrow> pgp_one_pass_sig \<Rightarrow> pgp_signature option \<Rightarrow> ('q, 'k) init_step" where
  "signed_init_next param onepass sig =
     (case src_eof (sg_readsrc param) of
        (src, eof) \<Rightarrow>
          if eof then Init_stop (param\<lparr>sg_readsrc := src, sg_detached := True\<rparr>) RNP_SUCCESS
          else Init_again (param\<lparr>sg_readsrc := src\<rparr>) onepass sig)"

definition signed_init_step ::
    "botan \<Rightarrow> alloc \<Rightarrow> ('q, 'k) signed_param \<Rightarrow> pgp_one_pass_sig \<Rightarrow> pgp_signature option \<Rightarrow> ('q, 'k) init_step" where
  "signed_init_step bo al param onepass sig =
     (case src_peek (sg_readsrc param) 1 of
        (src1, Some (ptag # _)) \<Rightarrow>
          if get_packet_type ptag = PGP_PTAG_CT_1_PASS_SIG then
            (case stream_parse_one_pass al src1 onepass of
               (src2, Inl errcode) \<Rightarrow>
                 let param1 = param\<lparr>sg_readsrc := src2\<rparr> in
                 if errcode = RNP_ERROR_READ then Init_stop param1 errcode else Init_again param1 onepass sig
             | (src2, Inr op) \<Rightarrow>
                 let param1 = param\<lparr>sg_readsrc := src2\<rparr> in
                 if \<not> append_ok al (sg_onepasses param) 28 then Init_stop param1 RNP_ERROR_OUT_OF_MEMORY
                 else
                   let param2 = param1\<lparr>sg_onepasses := sg_onepasses param @ [op],
                                       sg_hashes := fst (pgp_hash_list_add bo al (sg_hashes param) (op_halg op))\<rparr>
                   in if op_nested op \<noteq> 0 then Init_stop param2 RNP_SUCCESS else signed_init_next param2 op sig)
          else if get_packet_type ptag = PGP_PTAG_CT_SIGNATURE then
            (case signed_read_single_signature al src1 (sg_siginfos param) (sg_sigs param) sig of
               (src2, infos, sigs, sig1, _) \<Rightarrow>
                 let param1 = param\<lparr>sg_readsrc := src2, sg_siginfos := infos, sg_sigs := sigs\<rparr>;
                     param2 = (case sig1 of
                                 None \<Rightarrow> param1
                               | Some s \<Rightarrow>
                                   param1\<lparr>sg_hashes := fst (pgp_hash_list_add bo al (sg_hashes param) (sig_halg s))\<rparr>)
                 in signed_init_next param2 onepass sig1)
          else Init_stop (param\<lparr>sg_readsrc := src1\<rparr>) RNP_SUCCESS
      | (src1, _) \<Rightarrow> Init_stop (param\<lparr>sg_readsrc := src1\<rparr>) RNP_ERROR_READ)"

partial_function (option) signed_init_loop ::
    "botan \<Rightarrow> alloc \<Rightarrow> ('q, 'k) signed_param \<Rightarrow> pgp_one_pass_sig \<Rightarrow> pgp_signature option \<Rightarrow>
     (('q, 'k) signed_param \<times> rnp_result) option" where
  "signed_init_loop bo al param onepass sig =
     (case signed_init_step bo al param onepass sig of
        Init_stop param1 errcode \<Rightarrow> Some (param1, errcode)
      | Init_again param1 onepass1 sig1 \<Rightarrow> signed_init_loop bo al param1 onepass1 sig1)"

section \<open>Cleartext\<close>

abbreviation (input) CH_SPACE :: byte where "CH_SPACE \<equiv> 32"
abbreviation (input) CH_TAB :: byte where "CH_TAB \<equiv> 9"

definition CT_BUF_LEN :: nat where "CT_BUF_LEN = 4096"

definition ST_CRLF :: bytes where "ST_CRLF = [CH_CR, CH_LF]"

text \<open>\<^verbatim>\<open>strsep\<close>: the fields between the delimiters.\<close>

fun strsep_all :: "byte set \<Rightarrow> bytes \<Rightarrow> bytes \<Rightarrow> bytes list" where
  "strsep_all delims fld [] = [fld]"
| "strsep_all delims fld (c # cs) =
     (if c \<in> delims then fld # strsep_all delims [] cs else strsep_all delims (fld @ [c]) cs)"

definition cleartext_hash_header :: "botan \<Rightarrow> alloc \<Rightarrow> bytes \<Rightarrow> pgp_hash list \<Rightarrow> pgp_hash list" where
  "cleartext_hash_header bo al hdr hashes =
     fold (\<lambda>hname hs.
         if hname = [] then hs
         else fst (pgp_hash_list_add bo al hs (pgp_str_to_hash_alg (Some (map (char_of \<circ> unat) hname)))))
       (strsep_all {44, CH_SPACE, CH_TAB} [] (cstr (drop 6 hdr))) hashes"

partial_function (option) cleartext_parse_headers ::
    "botan \<Rightarrow> alloc \<Rightarrow> ('q, 'k) signed_param \<Rightarrow> (('q, 'k) signed_param \<times> bool) option" where
  "cleartext_parse_headers bo al param =
     (case src_peek_line (sg_readsrc param) 1024 of
        (src1, None) \<Rightarrow> Some (param\<lparr>sg_readsrc := src1\<rparr>, False)
      | (src1, Some hdr) \<Rightarrow>
          if hdr = [] then
            (case src_skip_eol al src1 of (src2, ok) \<Rightarrow> Some (param\<lparr>sg_readsrc := src2\<rparr>, ok))
          else
            let param1 = (if strncmp_eq hdr ST_HEADER_HASH 6
                          then param\<lparr>sg_hashes := cleartext_hash_header bo al hdr (sg_hashes param)\<rparr> else param)
            in (case src_skip_eol al (fst (src_skip al src1 (length hdr))) of
                  (src2, ok) \<Rightarrow>
                    if \<not> ok then Some (param1\<lparr>sg_readsrc := src2\<rparr>, False)
                    else cleartext_parse_headers bo al (param1\<lparr>sg_readsrc := src2\<rparr>)))"

definition init_cleartext_signed_src ::
    "botan \<Rightarrow> alloc \<Rightarrow> ('q, 'k) signed_param \<Rightarrow> (('q, 'k) signed_param \<times> rnp_result) option" where
  "init_cleartext_signed_src bo al param =
     (case src_read (sg_readsrc param) (length ST_CLEAR_BEGIN) of
        (src1, r) \<Rightarrow>
          let param1 = param\<lparr>sg_readsrc := src1\<rparr>; buf = (case r of None \<Rightarrow> [] | Some b \<Rightarrow> b) in
          if length buf \<noteq> length ST_CLEAR_BEGIN then Some (param1, RNP_ERROR_READ)
          else if buf \<noteq> ST_CLEAR_BEGIN then Some (param1, RNP_ERROR_BAD_FORMAT)
          else
            (case src_skip_eol al src1 of
               (src2, eol) \<Rightarrow>
                 let param2 = param1\<lparr>sg_readsrc := src2\<rparr> in
                 if \<not> eol then Some (param2, RNP_ERROR_BAD_FORMAT)
                 else
                   (case cleartext_parse_headers bo al param2 of
                      None \<Rightarrow> None
                    | Some (param3, ok) \<Rightarrow>
                        if \<not> ok then Some (param3, RNP_ERROR_BAD_FORMAT)
                        else Some (param3\<lparr>sg_clr_fline := True\<rparr>, RNP_SUCCESS))))"

text \<open>
  \<^verbatim>\<open>cleartext_process_line\<close>.  When all of a line is stripped, the last comparison of the C loop reads the byte in
  front of the line, which has no effect on the result.
\<close>

definition cleartext_hash :: "bytes \<Rightarrow> ('q, 'k) signed_param \<Rightarrow> ('q, 'k) signed_param" where
  "cleartext_hash buf param = param\<lparr>sg_hashes := pgp_hash_list_update (sg_hashes param) buf\<rparr>"

definition strip_spaces :: "bytes \<Rightarrow> bytes" where
  "strip_spaces buf = rev (dropWhile (\<lambda>c. c = CH_SPACE \<or> c = CH_TAB) (rev buf))"

definition cleartext_process_text :: "('q, 'k) signed_param \<Rightarrow> bytes \<Rightarrow> bool \<Rightarrow> ('q, 'k) signed_param" where
  "cleartext_process_text param buf eol =
     (let param1 = (if \<not> sg_clr_fline param \<and> \<not> sg_clr_mline param then cleartext_hash ST_CRLF param else param) in
      if buf = [] \<or> CT_BUF_LEN < length buf + length (sg_out param1) then param1
      else
        let text = (if eol then strip_spaces buf else buf) in
        if text = [] then param1 else cleartext_hash text (param1\<lparr>sg_out := sg_out param1 @ text\<rparr>))"

definition cleartext_process_line :: "('q, 'k) signed_param \<Rightarrow> bytes \<Rightarrow> bool \<Rightarrow> ('q, 'k) signed_param" where
  "cleartext_process_line param buf eol =
     (if \<not> sg_clr_mline param \<and> take 1 buf = [CH_DASH] then
        if take 2 buf = [CH_DASH, CH_SPACE] then cleartext_process_text param (drop 2 buf) eol
        else if 5 < length buf \<and> take 5 buf = ST_DASHES then param\<lparr>sg_clr_eod := True\<rparr>
        else cleartext_process_text param buf eol
      else cleartext_process_text param buf eol)"

text \<open>
  The scan of a block for line ends: \<open>bg\<close> is the offset of the current line and \<open>line\<close> what was
  scanned of it.  The result has the offset of the line that was not processed.
\<close>

function ct_scan :: "('q, 'k) signed_param \<Rightarrow> nat \<Rightarrow> bytes \<Rightarrow> bytes \<Rightarrow> ('q, 'k) signed_param \<times> nat" where
  "ct_scan param bg line [] = (param, bg)"
| "ct_scan param bg line (c # cs) =
     (if c = CH_LF \<or> c = CH_CR \<and> take 1 cs = [CH_LF] then
        let param1 = cleartext_process_line param line True in
        if sg_clr_eod param1 then (param1, bg)
        else
          let param2 = param1\<lparr>sg_clr_fline := False, sg_clr_mline := False\<rparr> in
          if c = CH_CR
          then ct_scan (param2\<lparr>sg_out := sg_out param2 @ [c] @ take 1 cs\<rparr>) (bg + length line + 2) [] (drop 1 cs)
          else ct_scan (param2\<lparr>sg_out := sg_out param2 @ [c]\<rparr>) (bg + length line + 1) [] cs
      else ct_scan param bg (line @ [c]) cs)"
  by pat_completeness auto
termination
  by (relation "measure (\<lambda>(param, bg, line, cs). length cs)") auto

text \<open>
  The loop of \<^verbatim>\<open>cleartext_src_read\<close>.  A block without a line end is processed as a part of a
  line, but for a carriage return at its end.
\<close>

definition ct_block :: "alloc \<Rightarrow> ('q, 'k) signed_param \<Rightarrow> bytes \<Rightarrow> ('q, 'k) signed_param" where
  "ct_block al param srcb =
     (case ct_scan param 0 [] srcb of
        (param1, bg) \<Rightarrow>
          if bg = 0 \<and> \<not> sg_clr_eod param1 then
            let buf = (if last srcb = CH_CR then butlast srcb else srcb);
                param2 = (cleartext_process_line param1 buf False)\<lparr>sg_clr_mline := True\<rparr>
            in param2\<lparr>sg_readsrc := fst (src_skip al (sg_readsrc param2) (length buf))\<rparr>
          else param1\<lparr>sg_readsrc := fst (src_skip al (sg_readsrc param1) bg)\<rparr>)"

partial_function (option) ct_read_loop ::
    "alloc \<Rightarrow> ('q, 'k) signed_param \<Rightarrow> bytes \<Rightarrow> nat \<Rightarrow> (('q, 'k) signed_param \<times> bytes option) option" where
  "ct_read_loop al param buf len =
     (case src_peek (sg_readsrc param) CT_BUF_LEN of
        (src1, None) \<Rightarrow> Some (param\<lparr>sg_readsrc := src1\<rparr>, None)
      | (src1, Some srcb) \<Rightarrow>
          if srcb = [] then Some (param\<lparr>sg_readsrc := src1\<rparr>, Some buf)
          else
            let param1 = ct_block al (param\<lparr>sg_readsrc := src1\<rparr>) srcb;
                read = min len (length (sg_out param1));
                buf1 = buf @ take read (sg_out param1);
                param2 = (if read = length (sg_out param1) then param1\<lparr>sg_out := []\<rparr> else param1\<lparr>sg_outpos := read\<rparr>)
            in if sg_clr_eod param2 \<or> len - read = 0 then Some (param2, Some buf1)
               else ct_read_loop al param2 buf1 (len - read))"

text \<open>
  \<^verbatim>\<open>cleartext_src_read\<close>.  A call of the loop that never returns is answered like a failed one.
\<close>

definition cleartext_src_read ::
    "alloc \<Rightarrow> ('q, 'k) signed_param option \<Rightarrow> nat \<Rightarrow> ('q, 'k) signed_param option \<times> bytes option" where
  "cleartext_src_read al p len =
     (case p of
        None \<Rightarrow> (None, None)
      | Some param \<Rightarrow>
          let cached = drop (sg_outpos param) (sg_out param) in
          if len \<le> length cached then
            let pos = sg_outpos param + len in
            (Some (if pos = length (sg_out param) then param\<lparr>sg_out := [], sg_outpos := 0\<rparr>
                   else param\<lparr>sg_outpos := pos\<rparr>), Some (take len cached))
          else
            let param1 = (if cached \<noteq> [] then param\<lparr>sg_out := [], sg_outpos := 0\<rparr> else param) in
            if sg_clr_eod param1 then (Some param1, Some cached)
            else
              (case ct_read_loop al param1 cached (len - length cached) of
                 None \<Rightarrow> (Some param1, None)
               | Some (param2, r) \<Rightarrow> (Some param2, r)))"

section \<open>Initialisation\<close>

definition zero_onepass :: pgp_one_pass_sig where
  "zero_onepass = \<lparr>op_version = 0, op_type = 0, op_halg = 0, op_palg = 0, op_keyid = replicate 8 0, op_nested = 0\<rparr>"

definition signed_zero_param :: "'q pgp_source \<Rightarrow> bool \<Rightarrow> ('q, 'k) signed_param" where
  "signed_zero_param readsrc cleartext =
     \<lparr>sg_readsrc = readsrc, sg_detached = False, sg_cleartext = cleartext, sg_clr_eod = False, sg_clr_fline = False,
      sg_clr_mline = False, sg_out = [], sg_outpos = 0, sg_onepasses = [], sg_sigs = [], sg_hashes = [],
      sg_siginfos = []\<rparr>"

text \<open>
  \<^verbatim>\<open>init_signed_src\<close>; the flag says whether the handler has a key provider.  On failure the result has
  the source that holds the message.
\<close>

definition signed_init_body ::
    "botan \<Rightarrow> alloc \<Rightarrow> ('q, 'k) signed_param \<Rightarrow> (('q, 'k) signed_param \<times> rnp_result) option" where
  "signed_init_body bo al param =
     (if sg_cleartext param then init_cleartext_signed_src bo al param
      else
        (case signed_init_loop bo al param zero_onepass None of
           None \<Rightarrow> None
         | Some (param1, errcode) \<Rightarrow>
             Some (param1,
               if errcode \<noteq> RNP_SUCCESS then errcode
               else if sg_onepasses param1 = [] \<and> sg_sigs param1 = [] then RNP_ERROR_BAD_PARAMETERS
               else RNP_SUCCESS)))"

definition init_signed_src ::
    "botan \<Rightarrow> alloc \<Rightarrow> bool \<Rightarrow> 'q pgp_source \<Rightarrow>
     (('q pgp_source \<times> rnp_result) + ('q, 'k) signed_param option pgp_source) option" where
  "init_signed_src bo al key_provider readsrc =
     (case init_src_common al 4168 None None of
        (src, ok) \<Rightarrow>
          if \<not> ok then Some (Inl (readsrc, RNP_ERROR_OUT_OF_MEMORY))
          else
            (case is_cleartext_source readsrc of
               (readsrc1, cleartext) \<Rightarrow>
                 if \<not> key_provider then Some (Inl (readsrc1, RNP_ERROR_BAD_PARAMETERS))
                 else
                   (case signed_init_body bo al (signed_zero_param readsrc1 cleartext) of
                      None \<Rightarrow> None
                    | Some (param, errcode) \<Rightarrow>
                        if errcode \<noteq> RNP_SUCCESS then Some (Inl (sg_readsrc param, errcode))
                        else
                          Some (Inr (src\<lparr>src_param := Some param,
                            src_rdf := (if cleartext then cleartext_src_read al else signed_src_read),
                            src_closef := Some signed_src_close,
                            src_type := (if cleartext then PGP_STREAM_CLEARTEXT else PGP_STREAM_SIGNED)\<rparr>)))))"

end
