(* ===== verification/Cleartext.thy ===== *)
theory Cleartext
  imports Signed_Source Armor_Read
begin

text \<open>
  Cleartext signed messages: the text that the source of a cleartext message delivers and the
  bytes that it hashes, against a specification by lines.
\<close>

section \<open>The text of a cleartext signed message\<close>

text \<open>
  The first line of a text that has a line feed, its line end and what follows.
\<close>

definition line_of :: "bytes \<Rightarrow> bytes" where
  "line_of a = (let l = takeWhile (\<lambda>c. c \<noteq> CH_LF) a in if l \<noteq> [] \<and> last l = CH_CR then butlast l else l)"

definition eol_of :: "bytes \<Rightarrow> bytes" where
  "eol_of a = (let l = takeWhile (\<lambda>c. c \<noteq> CH_LF) a in if l \<noteq> [] \<and> last l = CH_CR then [CH_CR, CH_LF] else [CH_LF])"

definition after_line :: "bytes \<Rightarrow> bytes" where
  "after_line a = drop (length (line_of a @ eol_of a)) a"

lemma line_split:
  assumes "CH_LF \<in> set a"
  shows "a = line_of a @ eol_of a @ after_line a" "CH_LF \<notin> set (line_of a)"
    "eol_of a = [CH_CR, CH_LF] \<or> eol_of a = [CH_LF] \<and> (line_of a = [] \<or> last (line_of a) \<noteq> CH_CR)"
    "length (line_of a @ eol_of a) = length (takeWhile (\<lambda>c. c \<noteq> CH_LF) a) + 1"
proof -
  define l where "l = takeWhile (\<lambda>c. c \<noteq> CH_LF) a"
  obtain r where r: "a = l @ CH_LF # r"
  proof -
    have "dropWhile (\<lambda>c. c \<noteq> CH_LF) a \<noteq> []" using assms by (simp add: dropWhile_eq_Nil_conv) 
    moreover from this have "hd (dropWhile (\<lambda>c. c \<noteq> CH_LF) a) = CH_LF" using hd_dropWhile by blast
    ultimately obtain r where "dropWhile (\<lambda>c. c \<noteq> CH_LF) a = CH_LF # r" by (metis list.exhaust_sel)
    then show ?thesis using that [of r] takeWhile_dropWhile_id [of "\<lambda>c. c \<noteq> CH_LF" a] by (simp add: l_def)
  qed
  have l: "CH_LF \<notin> set l" using set_takeWhileD unfolding l_def by metis
  have eq: "line_of a @ eol_of a = l @ [CH_LF]"
  proof (cases "l \<noteq> [] \<and> last l = CH_CR")
    case True
    then have "line_of a @ eol_of a = (butlast l @ [last l]) @ [CH_LF]" by (simp add: line_of_def eol_of_def l_def [symmetric])
    then show ?thesis using append_butlast_last_id [of l] True by metis
  qed (auto simp: line_of_def eol_of_def l_def [symmetric])
  have "after_line a = drop (length (l @ [CH_LF])) a" unfolding after_line_def eq ..
  also have "\<dots> = r" by (subst r) simp
  finally show "a = line_of a @ eol_of a @ after_line a" using r eq by (simp flip: append_assoc)
  show "length (line_of a @ eol_of a) = length (takeWhile (\<lambda>c. c \<noteq> CH_LF) a) + 1" unfolding eq by (simp add: l_def)
  show "CH_LF \<notin> set (line_of a)"
    using l by (auto simp: line_of_def Let_def l_def [symmetric] dest: in_set_butlastD)
  show "eol_of a = [CH_CR, CH_LF] \<or> eol_of a = [CH_LF] \<and> (line_of a = [] \<or> last (line_of a) \<noteq> CH_CR)"
    by (auto simp: line_of_def eol_of_def Let_def)
qed

lemma after_line_shorter: "CH_LF \<in> set a \<Longrightarrow> length (after_line a) < length a"
  using line_split(1,3) [of a] by (metis length_append length_Cons add_less_cancel_right append_assoc
     length_greater_0_conv less_add_same_cancel2 append_is_Nil_conv list.distinct(1))

text \<open>
  A line that ends the text, and what the text of another line is: without the dash and the
  space in front of it and without the spaces at its end.
\<close>

definition sig_marker :: "bytes \<Rightarrow> bool" where
  "sig_marker l \<longleftrightarrow> 5 < length l \<and> take 5 l = ST_DASHES"

definition line_text :: "bytes \<Rightarrow> bytes" where
  "line_text l = strip_spaces (if take 2 l = [CH_DASH, CH_SPACE] then drop 2 l else l)"

text \<open>
  The specification: the text with its line ends, and the bytes to hash, the lines joined by
  carriage return and line feed.
\<close>

function ct_text :: "bytes \<Rightarrow> bytes" where
  "ct_text a =
     (if CH_LF \<notin> set a \<or> sig_marker (line_of a) then []
      else line_text (line_of a) @ eol_of a @ ct_text (after_line a))"
  by pat_completeness auto
termination by (relation "measure length") (auto intro: after_line_shorter)

function ct_hashed :: "bool \<Rightarrow> bytes \<Rightarrow> bytes" where
  "ct_hashed first a =
     (if CH_LF \<notin> set a \<or> sig_marker (line_of a) then []
      else (if first then [] else ST_CRLF) @ line_text (line_of a) @ ct_hashed False (after_line a))"
  by pat_completeness auto
termination by (relation "measure (\<lambda>(first, a). length a)") (auto intro: after_line_shorter)

text \<open>
  A text that is ended by a marker, with lines that fit the buffer.
\<close>

function ct_wf :: "bytes \<Rightarrow> bool" where
  "ct_wf a =
     (if CH_LF \<notin> set a \<or> CT_BUF_LEN < length (line_of a @ eol_of a) then False
      else if sig_marker (line_of a) then True
      else ct_wf (after_line a))"
  by pat_completeness auto
termination by (relation "measure length") (auto intro: after_line_shorter)

declare ct_text.simps [simp del] ct_hashed.simps [simp del] ct_wf.simps [simp del]

section \<open>The scan\<close>

lemma ct_scan_no_eol: "CH_LF \<notin> set cs \<Longrightarrow> ct_scan param bg line cs = (param, bg)"
proof (induction cs arbitrary: line)
  case (Cons c cs)
  have "\<not> (c = CH_LF \<or> c = CH_CR \<and> take 1 cs = [CH_LF])"
    using Cons.prems by (auto dest!: arg_cong [of _ _ set] dest: subsetD [OF set_take_subset])
  then have "ct_scan param bg line (c # cs) = ct_scan param bg (line @ [c]) cs"
    by (subst ct_scan.simps) (rule if_not_P)
  with Cons show ?case by simp
qed simp

text \<open>A line with its end is processed as a whole.\<close>

lemma ct_scan_line_aux:
  assumes "CH_LF \<notin> set l" "e = [CH_CR, CH_LF] \<or> e = [CH_LF] \<and> (l = [] \<or> last l \<noteq> CH_CR)"
  shows "ct_scan param bg pre (l @ e @ cs) =
    (let param1 = cleartext_process_line param (pre @ l) True in
     if sg_clr_eod param1 then (param1, bg)
     else ct_scan (param1\<lparr>sg_clr_fline := False, sg_clr_mline := False, sg_out := sg_out param1 @ e\<rparr>)
            (bg + length (pre @ l @ e)) [] cs)"
  using assms
proof (induction l arbitrary: pre)
  case Nil
  then show ?case by (auto simp: CH_CR_def CH_LF_def Let_def)
next
  case (Cons c l)
  have c: "c \<noteq> CH_LF" "CH_LF \<notin> set l" "e = [CH_CR, CH_LF] \<or> e = [CH_LF] \<and> (l = [] \<or> last l \<noteq> CH_CR)"
    using Cons.prems by (auto split: if_splits)
  have "\<not> (c = CH_CR \<and> take 1 (l @ e @ cs) = [CH_LF])"
    using c Cons.prems(2) by (cases l) (auto simp: CH_CR_def CH_LF_def)
  with c(1) have "ct_scan param bg pre (c # l @ e @ cs) = ct_scan param bg (pre @ [c]) (l @ e @ cs)"
    by (subst ct_scan.simps, intro if_not_P) blast
  with Cons.IH [OF c(2,3), of "pre @ [c]"] show ?case by (simp add: Let_def del: ct_scan.simps)
qed

lemmas ct_scan_line = ct_scan_line_aux [where pre = "[]", simplified append_Nil]

text \<open>
  What a line does to the state, when its text fits the buffer.
\<close>

definition ct_line_state :: "('q, 'k) signed_param \<Rightarrow> bytes \<Rightarrow> bytes \<Rightarrow> ('q, 'k) signed_param" where
  "ct_line_state param l e =
     param\<lparr>sg_clr_fline := False, sg_clr_mline := False, sg_out := sg_out param @ line_text l @ e,
           sg_hashes := pgp_hash_list_update (sg_hashes param)
             ((if sg_clr_fline param then [] else ST_CRLF) @ line_text l)\<rparr>"

lemma list_update_append:
  "pgp_hash_list_update (pgp_hash_list_update hs a) b = pgp_hash_list_update hs (a @ b)"
  by (auto simp: pgp_hash_list_update_def pgp_hash_add_def option.map_comp o_def split_def)

lemma list_update_Nil: "pgp_hash_list_update hs [] = hs"
proof -
  have "map_option (\<lambda>(name, bs). (name, bs @ [])) x = x" for x :: "(string \<times> bytes) option" by (cases x) auto
  then show ?thesis by (simp add: pgp_hash_list_update_def pgp_hash_add_def map_idI)
qed

lemma strip_spaces_Nil [simp]: "strip_spaces [] = []"
  by (simp add: strip_spaces_def)

lemma length_strip_spaces: "length (strip_spaces a) \<le> length a"
  by (simp add: strip_spaces_def) (metis length_dropWhile_le length_rev)

lemma length_line_text: "length (line_text l) \<le> length l"
  using length_strip_spaces [of l] length_strip_spaces [of "drop 2 l"] by (auto simp: line_text_def)

lemma process_text_state:
  assumes "\<not> sg_clr_mline param" "length buf + length (sg_out param) \<le> CT_BUF_LEN"
  shows "cleartext_process_text param buf True =
    param\<lparr>sg_out := sg_out param @ strip_spaces buf,
          sg_hashes := pgp_hash_list_update (sg_hashes param) ((if sg_clr_fline param then [] else ST_CRLF) @ strip_spaces buf)\<rparr>"
  using assms by (auto simp: cleartext_process_text_def cleartext_hash_def Let_def list_update_append list_update_Nil)

lemma process_line_state:
  assumes "\<not> sg_clr_mline param" "length l + length (sg_out param) \<le> CT_BUF_LEN" "\<not> sg_clr_eod param"
  shows "sig_marker l \<Longrightarrow> cleartext_process_line param l True = param\<lparr>sg_clr_eod := True\<rparr>"
    and "\<not> sig_marker l \<Longrightarrow> cleartext_process_line param l True =
      param\<lparr>sg_out := sg_out param @ line_text l,
            sg_hashes := pgp_hash_list_update (sg_hashes param) ((if sg_clr_fline param then [] else ST_CRLF) @ line_text l)\<rparr>"
proof -
  have dash: "take 2 l = [CH_DASH, CH_SPACE] \<Longrightarrow> take 1 l = [CH_DASH]" "take 5 l = ST_DASHES \<Longrightarrow> take 1 l = [CH_DASH]"
    "take 5 l = ST_DASHES \<Longrightarrow> take 2 l \<noteq> [CH_DASH, CH_SPACE]"
    by (cases l rule: list.exhaust; cases "tl l"; auto simp: ST_DASHES_def str_bytes_def CH_DASH_def)+
  have len: "length (drop 2 l) + length (sg_out param) \<le> CT_BUF_LEN" using assms(2) by simp
  show "sig_marker l \<Longrightarrow> cleartext_process_line param l True = param\<lparr>sg_clr_eod := True\<rparr>"
    using assms(1) dash by (auto simp: cleartext_process_line_def sig_marker_def)
  show "\<not> sig_marker l \<Longrightarrow> cleartext_process_line param l True =
      param\<lparr>sg_out := sg_out param @ line_text l,
            sg_hashes := pgp_hash_list_update (sg_hashes param) ((if sg_clr_fline param then [] else ST_CRLF) @ line_text l)\<rparr>"
    using assms(1) dash process_text_state [OF assms(1,2)] process_text_state [OF assms(1) len]
    by (auto simp: cleartext_process_line_def sig_marker_def line_text_def)
qed


lemma ct_scan_spec:
  assumes "ct_wf a" "\<not> sg_clr_mline p" "\<not> sg_clr_eod p" "length (sg_out p) + k \<le> CT_BUF_LEN"
  shows "\<exists>j e fl out hsh. ct_scan p bg [] (take k a) =
      (p\<lparr>sg_clr_eod := e, sg_clr_fline := fl, sg_out := sg_out p @ out, sg_hashes := pgp_hash_list_update (sg_hashes p) hsh\<rparr>,
       bg + j) \<and>
    j \<le> length a \<and> ct_wf (drop j a) \<and> ct_text a = out @ ct_text (drop j a) \<and> length out \<le> k \<and>
    ct_hashed (sg_clr_fline p) a = hsh @ ct_hashed fl (drop j a) \<and>
    (e \<longrightarrow> sig_marker (line_of (drop j a))) \<and> (length (line_of a @ eol_of a) \<le> k \<longrightarrow> e \<or> 0 < j)"
  using assms
proof (induction "length a" arbitrary: a p bg k rule: less_induct)
  case less
  have lf: "CH_LF \<in> set a" using less.prems(1) by (subst (asm) ct_wf.simps) (auto split: if_splits)
  define l where "l = line_of a"
  define e where "e = eol_of a"
  define n where "n = length (l @ e)"
  note split = line_split [OF lf, folded l_def e_def]
  show ?case
  proof (cases "n \<le> k")
    case False
    then have "k \<le> length (takeWhile (\<lambda>c. c \<noteq> CH_LF) a)" using line_split(4) [OF lf] by (simp add: l_def e_def n_def)
    then have "take k a = take k (takeWhile (\<lambda>c. c \<noteq> CH_LF) a)"
      by (metis append_take_drop_id takeWhile_eq_take take_take min.absorb1)
    then have "CH_LF \<notin> set (take k a)" by (metis in_set_takeD set_takeWhileD)
    then have "ct_scan p bg [] (take k a) = (p, bg)" by (rule ct_scan_no_eol)
    with False less.prems(1,3) show ?thesis
      by (intro exI [of _ 0] exI [of _ False] exI [of _ "sg_clr_fline p"] exI [of _ "[]"]) (simp add: list_update_Nil l_def e_def n_def)
  next
    case True
    define b where "b = after_line a"
    have a: "a = l @ e @ b" using split(1) by (simp add: b_def)
    have chunk: "take k a = l @ e @ take (k - n) b" using True by (simp add: a n_def)
    have room: "length l + length (sg_out p) \<le> CT_BUF_LEN" using True less.prems(4) by (simp add: n_def)
    note line = process_line_state [OF less.prems(2) room less.prems(3)]
    note scan = ct_scan_line [OF split(2,3), of p bg "take (k - n) b", folded chunk]
    show ?thesis
    proof (cases "sig_marker l")
      case m: True
      with scan line(1) have "ct_scan p bg [] (take k a) = (p\<lparr>sg_clr_eod := True\<rparr>, bg)" by simp
      with m less.prems(1) show ?thesis
        by (intro exI [of _ 0] exI [of _ True] exI [of _ "sg_clr_fline p"] exI [of _ "[]"]) (simp add: list_update_Nil l_def)
    next
      case m: False
      define h where "h = (if sg_clr_fline p then [] else ST_CRLF) @ line_text l"
      define p2 where "p2 = p\<lparr>sg_clr_fline := False, sg_out := sg_out p @ line_text l @ e,
        sg_hashes := pgp_hash_list_update (sg_hashes p) h\<rparr>"
      have out: "length (line_text l @ e) \<le> n" using length_line_text [of l] by (simp add: n_def)
      have wf: "ct_wf b" using less.prems(1) m lf by (subst (asm) ct_wf.simps) (simp add: l_def b_def split: if_splits)
      have p2: "\<not> sg_clr_mline p2" "\<not> sg_clr_eod p2" "sg_clr_fline p2 = False" "length (sg_out p2) + (k - n) \<le> CT_BUF_LEN"
        using less.prems(2-4) True out by (simp_all add: p2_def)
      have "length b < length a" using after_line_shorter [OF lf] by (simp add: b_def)
      from less.hyps [OF this wf p2(1,2,4), of "bg + n"] obtain j e' fl out' hsh where ih: "ct_scan p2 (bg + n) [] (take (k - n) b) =
        (p2\<lparr>sg_clr_eod := e', sg_clr_fline := fl, sg_out := sg_out p2 @ out', sg_hashes := pgp_hash_list_update (sg_hashes p2) hsh\<rparr>,
         bg + n + j)" "j \<le> length b" "ct_wf (drop j b)" "ct_text b = out' @ ct_text (drop j b)" "length out' \<le> k - n"
        "ct_hashed False b = hsh @ ct_hashed fl (drop j b)" "e' \<longrightarrow> sig_marker (line_of (drop j b))"
        unfolding p2(3) by blast
      have sc: "ct_scan p bg [] (take k a) = ct_scan p2 (bg + n) [] (take (k - n) b)"
      proof -
        let ?q = "cleartext_process_line p l True"
        have "?q\<lparr>sg_clr_fline := False, sg_clr_mline := False, sg_out := sg_out ?q @ e\<rparr> = p2"
          unfolding line(2) [OF m] p2_def h_def using less.prems(2) by (cases p) simp
        moreover have "\<not> sg_clr_eod ?q" using less.prems(3) by (simp add: line(2) [OF m])
        ultimately show ?thesis by (simp add: scan Let_def n_def)
      qed
      have tx: "ct_text a = line_text l @ e @ ct_text b"
        using lf m by (subst ct_text.simps) (simp add: l_def e_def b_def)
      have hs: "ct_hashed (sg_clr_fline p) a = h @ ct_hashed False b"
        using lf m by (subst ct_hashed.simps) (simp add: l_def b_def h_def)
      have d: "drop (n + j) a = drop j b" by (simp add: a n_def)
      have pos: "0 < n" using split(3) by (auto simp: n_def)
      have len: "n + j \<le> length a" "length (line_text l @ e @ out') \<le> k" using ih(2,5) out True by (simp_all add: a n_def)
      have st: "ct_scan p bg [] (take k a) = (p\<lparr>sg_clr_eod := e', sg_clr_fline := fl, sg_out := sg_out p @ line_text l @ e @ out',
        sg_hashes := pgp_hash_list_update (sg_hashes p) (h @ hsh)\<rparr>, bg + (n + j))"
        by (simp add: sc ih(1)) (simp add: p2_def list_update_append)
      show ?thesis
        by (rule exI [of _ "n + j"], rule exI [of _ e'], rule exI [of _ fl], rule exI [of _ "line_text l @ e @ out'"],
            rule exI [of _ "h @ hsh"])
          (use ih(3,4,6,7) st len pos in \<open>simp add: d tx hs\<close>)
    qed
  qed
qed


section \<open>What the cleartext source delivers and hashes\<close>

definition ct_rest :: "('q \<Rightarrow> bytes) \<Rightarrow> ('q, 'k) signed_param option \<Rightarrow> bytes" where
  "ct_rest rest p =
     (case p of
        None \<Rightarrow> []
      | Some q \<Rightarrow> drop (sg_outpos q) (sg_out q) @
          (if sg_clr_eod q then [] else ct_text (src_avail rest (sg_readsrc q))))"

text \<open>
  The invariant: what was hashed and what is still to be hashed together are \<open>hashed\<close>.
\<close>

definition ct_inv ::
    "('q \<Rightarrow> nat \<Rightarrow> 'q \<times> bytes option) \<Rightarrow> ('q \<Rightarrow> bytes) \<Rightarrow> ('q \<Rightarrow> bool) \<Rightarrow> botan \<Rightarrow> nat list \<Rightarrow> bytes \<Rightarrow>
     ('q, 'k) signed_param \<Rightarrow> bool" where
  "ct_inv rd rest ok bo algs hashed q \<longleftrightarrow>
     src_inv rd rest ok (sg_readsrc q) \<and> \<not> sg_clr_mline q \<and>
     (\<not> sg_clr_eod q \<longrightarrow> ct_wf (src_avail rest (sg_readsrc q))) \<and>
     (\<exists>h. hashes_fed bo (sg_hashes q) algs h \<and>
        hashed = h @ (if sg_clr_eod q then [] else ct_hashed (sg_clr_fline q) (src_avail rest (sg_readsrc q))))"

definition ct_ok ::
    "('q \<Rightarrow> nat \<Rightarrow> 'q \<times> bytes option) \<Rightarrow> ('q \<Rightarrow> bytes) \<Rightarrow> ('q \<Rightarrow> bool) \<Rightarrow> botan \<Rightarrow> nat list \<Rightarrow> bytes \<Rightarrow>
     ('q, 'k) signed_param option \<Rightarrow> bool" where
  "ct_ok rd rest ok bo algs hashed p \<longleftrightarrow>
     (\<exists>q. p = Some q \<and> ct_inv rd rest ok bo algs hashed q \<and>
        (sg_out q = [] \<and> sg_outpos q = 0 \<or> sg_outpos q < length (sg_out q)))"

lemma ct_inv_out [simp]:
  "ct_inv rd rest ok bo algs hashed (q\<lparr>sg_out := x\<rparr>) = ct_inv rd rest ok bo algs hashed q"
  "ct_inv rd rest ok bo algs hashed (q\<lparr>sg_outpos := n\<rparr>) = ct_inv rd rest ok bo algs hashed q"
  by (simp_all add: ct_inv_def)

lemma ct_wfD:
  assumes "ct_wf a"
  shows "CH_LF \<in> set a" "length (line_of a @ eol_of a) \<le> CT_BUF_LEN" "a \<noteq> []"
  using assms by (subst (asm) ct_wf.simps, auto split: if_splits)+

lemma ct_text_marker: "sig_marker (line_of a) \<Longrightarrow> ct_text a = []" "sig_marker (line_of a) \<Longrightarrow> ct_hashed f a = []"
  by (simp_all add: ct_text.simps ct_hashed.simps)

context reliable_source
begin

text \<open>One block.\<close>

lemma ct_block_step:
  assumes "ct_inv rd rest ok bo algs hashed q" "\<not> sg_clr_eod q" "sg_out q = []"
  defines "a \<equiv> src_avail rest (sg_readsrc q)"
  obtains s1 q' where "src_peek (sg_readsrc q) CT_BUF_LEN = (s1, Some (take CT_BUF_LEN a))" "take CT_BUF_LEN a \<noteq> []"
    "ct_block (\<lambda>_. True) (q\<lparr>sg_readsrc := s1\<rparr>) (take CT_BUF_LEN a) = q'" "ct_inv rd rest ok bo algs hashed q'"
    "sg_outpos q' = sg_outpos q"
    "ct_text a = sg_out q' @ (if sg_clr_eod q' then [] else ct_text (src_avail rest (sg_readsrc q')))"
    "\<not> sg_clr_eod q' \<Longrightarrow> length (src_avail rest (sg_readsrc q')) < length a"
proof -
  have inv: "src_inv rd rest ok (sg_readsrc q)" and wf: "ct_wf a" and ml: "\<not> sg_clr_mline q"
    using assms by (auto simp: ct_inv_def)
  obtain h where h: "hashes_fed bo (sg_hashes q) algs h" "hashed = h @ ct_hashed (sg_clr_fline q) a"
    using assms by (auto simp: ct_inv_def)
  have rb: "src_readb (sg_readsrc q) + length a < 2 ^ 63" using inv by (simp add: src_inv_def a_def)
  obtain s1 where s1: "src_peek (sg_readsrc q) CT_BUF_LEN = (s1, Some (take CT_BUF_LEN a))" "src_avail rest s1 = a"
    "src_inv rd rest ok s1" "src_readb s1 = src_readb (sg_readsrc q)"
    using src_peek_eq [OF inv, of CT_BUF_LEN] rb by (auto simp: CT_BUF_LEN_def PGP_INPUT_CACHE_SIZE_def a_def)
  obtain j e fl out hsh where sc: "ct_scan (q\<lparr>sg_readsrc := s1\<rparr>) 0 [] (take CT_BUF_LEN a) =
      (q\<lparr>sg_readsrc := s1, sg_clr_eod := e, sg_clr_fline := fl, sg_out := out,
         sg_hashes := pgp_hash_list_update (sg_hashes q) hsh\<rparr>, j)"
    "j \<le> length a" "ct_wf (drop j a)" "ct_text a = out @ ct_text (drop j a)"
    "ct_hashed (sg_clr_fline q) a = hsh @ ct_hashed fl (drop j a)" "e \<longrightarrow> sig_marker (line_of (drop j a))" "e \<or> 0 < j"
    using ct_scan_spec [OF wf, of "q\<lparr>sg_readsrc := s1\<rparr>" CT_BUF_LEN 0] ml assms(2,3) ct_wfD(2) [OF wf] by auto
  have "src_readb s1 + j < 2 ^ 64" using rb s1(4) sc(2) by simp
  then obtain s2 where s2: "src_skip (\<lambda>_. True) s1 j = (s2, Some (min j (length a)))" "src_avail rest s2 = drop j a"
    "src_inv rd rest ok s2"
    using src_skip_eq [OF s1(3), of j "\<lambda>_. True"] s1(2) by auto
  define q' where "q' = q\<lparr>sg_readsrc := s2, sg_clr_eod := e, sg_clr_fline := fl, sg_out := out,
    sg_hashes := pgp_hash_list_update (sg_hashes q) hsh\<rparr>"
  have blk: "ct_block (\<lambda>_. True) (q\<lparr>sg_readsrc := s1\<rparr>) (take CT_BUF_LEN a) = q'"
    using sc(1,7) s2(1) by (auto simp: ct_block_def q'_def)
  have fed: "hashes_fed bo (sg_hashes q') algs (h @ hsh)" using list_update_fed [OF h(1), of hsh] by (simp add: q'_def)
  have iq: "ct_inv rd rest ok bo algs hashed q'"
    using s2(2,3) ml sc(3,5,6) h(2) fed ct_text_marker(2) by (auto simp: ct_inv_def q'_def)
  show thesis
    by (rule that [OF s1(1) _ blk iq])
      (use sc s2(2) ct_wfD(3) [OF wf] ct_text_marker(1) in \<open>auto simp: q'_def CT_BUF_LEN_def\<close>)
qed


lemma ct_loop_spec:
  assumes "ct_inv rd rest ok bo algs hashed q" "\<not> sg_clr_eod q" "sg_out q = []" "sg_outpos q = 0" "0 < len"
  shows "\<exists>q' bs. ct_read_loop (\<lambda>_. True) q buf len = Some (q', Some (buf @ bs)) \<and>
    ct_ok rd rest ok bo algs hashed (Some q') \<and> ct_text (src_avail rest (sg_readsrc q)) = bs @ ct_rest rest (Some q') \<and>
    length bs \<le> len \<and> (bs = [] \<longrightarrow> ct_text (src_avail rest (sg_readsrc q)) = [])"
  using assms
proof (induction "length (src_avail rest (sg_readsrc q))" arbitrary: q buf len rule: less_induct)
  case less
  define a where "a = src_avail rest (sg_readsrc q)"
  obtain s1 q' where b: "src_peek (sg_readsrc q) CT_BUF_LEN = (s1, Some (take CT_BUF_LEN a))" "take CT_BUF_LEN a \<noteq> []"
    "ct_block (\<lambda>_. True) (q\<lparr>sg_readsrc := s1\<rparr>) (take CT_BUF_LEN a) = q'" "ct_inv rd rest ok bo algs hashed q'"
    "sg_outpos q' = 0" "ct_text a = sg_out q' @ (if sg_clr_eod q' then [] else ct_text (src_avail rest (sg_readsrc q')))"
    "\<not> sg_clr_eod q' \<Longrightarrow> length (src_avail rest (sg_readsrc q')) < length a"
    using ct_block_step [OF less.prems(1-3)] less.prems(4) unfolding a_def by metis
  define n where "n = min len (length (sg_out q'))"
  define q2 where "q2 = (if n = length (sg_out q') then q'\<lparr>sg_out := []\<rparr> else q'\<lparr>sg_outpos := n\<rparr>)"
  have unf: "ct_read_loop (\<lambda>_. True) q buf len =
      (if sg_clr_eod q2 \<or> len - n = 0 then Some (q2, Some (buf @ take n (sg_out q')))
       else ct_read_loop (\<lambda>_. True) q2 (buf @ take n (sg_out q')) (len - n))"
    by (subst ct_read_loop.simps) (use b(1-3) in \<open>simp add: Let_def n_def q2_def\<close>)
  have inv2: "ct_inv rd rest ok bo algs hashed q2" "sg_clr_eod q2 = sg_clr_eod q'" "sg_readsrc q2 = sg_readsrc q'"
    using b(4) by (simp_all add: q2_def)
  have ok2: "ct_ok rd rest ok bo algs hashed (Some q2)" using inv2(1) b(5) by (auto simp: ct_ok_def q2_def n_def)
  have tx: "ct_text a = take n (sg_out q') @ ct_rest rest (Some q2)"
    using b(5,6) by (auto simp: ct_rest_def q2_def n_def)
  show ?case
  proof (cases "sg_clr_eod q2 \<or> len - n = 0")
    case True
    have "take n (sg_out q') = [] \<longrightarrow> ct_text a = []"
      using True b(6) less.prems(5) inv2(2) by (auto simp: n_def min_def split: if_splits)
    with True unf ok2 tx show ?thesis
      by (intro exI [of _ q2] exI [of _ "take n (sg_out q')"]) (auto simp: a_def n_def)
  next
    case False
    then have more: "n = length (sg_out q')" "0 < len - n" "\<not> sg_clr_eod q'" by (auto simp: n_def inv2(2))
    have q2: "sg_out q2 = []" "sg_outpos q2 = 0" using more b(5) by (simp_all add: q2_def)
    have "length (src_avail rest (sg_readsrc q2)) < length (src_avail rest (sg_readsrc q))"
      using b(7) more inv2(3) by (simp add: a_def)
    from less.hyps [OF this inv2(1) _ q2 more(2), of "buf @ take n (sg_out q')"] False
    obtain q3 bs where r: "ct_read_loop (\<lambda>_. True) q2 (buf @ take n (sg_out q')) (len - n) =
        Some (q3, Some ((buf @ take n (sg_out q')) @ bs))" "ct_ok rd rest ok bo algs hashed (Some q3)"
      "ct_text (src_avail rest (sg_readsrc q2)) = bs @ ct_rest rest (Some q3)" "length bs \<le> len - n"
      "bs = [] \<longrightarrow> ct_text (src_avail rest (sg_readsrc q2)) = []" by blast
    have tx2: "ct_text a = sg_out q' @ ct_text (src_avail rest (sg_readsrc q2))" using b(6) more(3) inv2(3) by simp
    show ?thesis
      by (intro exI [of _ q3] exI [of _ "take n (sg_out q') @ bs"])
        (use False unf r tx2 more in \<open>auto simp: a_def [symmetric]\<close>)
  qed
qed

text \<open>The read callback satisfies the contract of a reliable source.\<close>

lemma ct_call:
  assumes "ct_ok rd rest ok bo algs hashed p"
  shows "\<exists>p' bs. cleartext_src_read (\<lambda>_. True) p n = (p', Some bs) \<and> ct_ok rd rest ok bo algs hashed p' \<and>
    ct_rest rest p = bs @ ct_rest rest p' \<and> length bs \<le> n \<and> (bs = [] \<longrightarrow> 0 < n \<longrightarrow> ct_rest rest p = [])"
proof -
  obtain q where q: "p = Some q" "ct_inv rd rest ok bo algs hashed q"
    "sg_out q = [] \<and> sg_outpos q = 0 \<or> sg_outpos q < length (sg_out q)" using assms by (auto simp: ct_ok_def)
  define c where "c = drop (sg_outpos q) (sg_out q)"
  consider "n \<le> length c" | "length c < n" "sg_clr_eod q" | "length c < n" "\<not> sg_clr_eod q" by linarith
  then show ?thesis
  proof cases
    case 1
    define q' where "q' = (if sg_outpos q + n = length (sg_out q) then q\<lparr>sg_out := [], sg_outpos := 0\<rparr>
      else q\<lparr>sg_outpos := sg_outpos q + n\<rparr>)"
    have "cleartext_src_read (\<lambda>_. True) p n = (Some q', Some (take n c))"
      using 1 by (simp add: cleartext_src_read_def q(1) c_def q'_def Let_def)
    moreover have "ct_ok rd rest ok bo algs hashed (Some q')"
      using q(2,3) 1 by (auto simp: ct_ok_def q'_def c_def)
    moreover have "ct_rest rest p = take n c @ ct_rest rest (Some q')"
      using 1 by (auto simp: ct_rest_def q(1) q'_def c_def add.commute simp flip: drop_drop)
    ultimately show ?thesis using 1 by (intro exI [of _ "Some q'"] exI [of _ "take n c"]) auto
  next
    case 2
    define q' where "q' = (if c \<noteq> [] then q\<lparr>sg_out := [], sg_outpos := 0\<rparr> else q)"
    have "cleartext_src_read (\<lambda>_. True) p n = (Some q', Some c)"
      using 2 by (simp add: cleartext_src_read_def q(1) c_def q'_def Let_def)
    moreover have "ct_ok rd rest ok bo algs hashed (Some q')"
      using q(2,3) by (auto simp: ct_ok_def q'_def c_def)
    moreover have "ct_rest rest p = c @ ct_rest rest (Some q')"
      using 2(2) q(3) by (auto simp: ct_rest_def q(1) q'_def c_def)
    ultimately show ?thesis using 2 by (intro exI [of _ "Some q'"] exI [of _ c]) (auto simp: ct_rest_def q(1) c_def)
  next
    case 3
    define q1 where "q1 = (if c \<noteq> [] then q\<lparr>sg_out := [], sg_outpos := 0\<rparr> else q)"
    have q1: "ct_inv rd rest ok bo algs hashed q1" "\<not> sg_clr_eod q1" "sg_out q1 = []" "sg_outpos q1 = 0"
      "sg_readsrc q1 = sg_readsrc q" using q(2,3) 3(2) by (auto simp: q1_def c_def)
    have "0 < n - length c" using 3(1) by simp
    from ct_loop_spec [OF q1(1-4) this, of c] obtain q' bs where r:
      "ct_read_loop (\<lambda>_. True) q1 c (n - length c) = Some (q', Some (c @ bs))" "ct_ok rd rest ok bo algs hashed (Some q')"
      "ct_text (src_avail rest (sg_readsrc q)) = bs @ ct_rest rest (Some q')" "length bs \<le> n - length c"
      "bs = [] \<longrightarrow> ct_text (src_avail rest (sg_readsrc q)) = []" unfolding q1(5) by blast
    have "cleartext_src_read (\<lambda>_. True) p n = (Some q', Some (c @ bs))"
      using 3(1) r(1) q1(2) by (simp add: cleartext_src_read_def q(1) c_def [symmetric] q1_def [symmetric] Let_def)
    moreover have "ct_rest rest p = (c @ bs) @ ct_rest rest (Some q')" using 3(2) r(3) by (simp add: ct_rest_def q(1) c_def)
    ultimately show ?thesis using r(2,4,5) 3 by (intro exI [of _ "Some q'"] exI [of _ "c @ bs"]) (auto simp: ct_rest_def q(1) c_def)
  qed
qed

lemma cleartext_reliable_source:
  "reliable_source (cleartext_src_read (\<lambda>_. True)) (ct_rest rest) (ct_ok rd rest ok bo algs hashed)"
proof unfold_locales
  fix p n p' r bs
  assume p: "ct_ok rd rest ok bo algs hashed p"
  obtain p1 bs1 where c: "cleartext_src_read (\<lambda>_. True) p n = (p1, Some bs1)" "ct_ok rd rest ok bo algs hashed p1"
    "ct_rest rest p = bs1 @ ct_rest rest p1" "length bs1 \<le> n" "bs1 = [] \<longrightarrow> 0 < n \<longrightarrow> ct_rest rest p = []"
    using ct_call [OF p, of n] by blast
  show "cleartext_src_read (\<lambda>_. True) p n = (p', r) \<Longrightarrow> ct_ok rd rest ok bo algs hashed p'"
    "cleartext_src_read (\<lambda>_. True) p n = (p', Some bs) \<Longrightarrow> ct_rest rest p = bs @ ct_rest rest p'"
    "cleartext_src_read (\<lambda>_. True) p n = (p', Some bs) \<Longrightarrow> length bs \<le> n"
    "cleartext_src_read (\<lambda>_. True) p n = (p', Some []) \<Longrightarrow> 0 < n \<Longrightarrow> ct_rest rest p = []"
    "snd (cleartext_src_read (\<lambda>_. True) p n) \<noteq> None"
    using c by auto
qed

text \<open>When everything was delivered, everything was hashed.\<close>

lemma ct_done:
  assumes "ct_ok rd rest ok bo algs hashed p" "ct_rest rest p = []"
  obtains q where "p = Some q" "hashes_fed bo (sg_hashes q) algs hashed"
proof -
  obtain q h where q: "p = Some q" "hashes_fed bo (sg_hashes q) algs h" "\<not> sg_clr_eod q \<longrightarrow> ct_wf (src_avail rest (sg_readsrc q))"
    "hashed = h @ (if sg_clr_eod q then [] else ct_hashed (sg_clr_fline q) (src_avail rest (sg_readsrc q)))"
    using assms(1) by (auto simp: ct_ok_def ct_inv_def)
  have "ct_hashed f a = []" if "ct_wf a" "ct_text a = []" for f a
  proof -
    have "eol_of a \<noteq> []" by (simp add: eol_of_def Let_def)
    then have "CH_LF \<notin> set a \<or> sig_marker (line_of a)"
      using that(2) by (subst (asm) ct_text.simps) (auto split: if_splits)
    then show ?thesis by (subst ct_hashed.simps) simp
  qed
  with q(1,3,4) assms(2) have "hashed = h" by (auto simp: ct_rest_def split: if_splits)
  then show thesis using that [OF q(1)] q(2) by simp
qed

end

section \<open>Cleartext messages of lines\<close>

text \<open>
  A message as a list of lines, with the dashes of RFC 4880, 7.1, and the two forms in which a
  reader sees its text.
\<close>

definition dash_escape :: "bytes \<Rightarrow> bytes" where
  "dash_escape l = (if take 1 l = [CH_DASH] then [CH_DASH, CH_SPACE] @ l else l)"

definition ct_encode :: "bytes list \<Rightarrow> bytes" where
  "ct_encode ls = concat (map (\<lambda>l. dash_escape l @ ST_CRLF) ls)"

definition ct_shown :: "bytes list \<Rightarrow> bytes" where
  "ct_shown ls = concat (map (\<lambda>l. strip_spaces l @ ST_CRLF) ls)"

fun crlf_join :: "bytes list \<Rightarrow> bytes" where
  "crlf_join [] = []"
| "crlf_join [l] = l"
| "crlf_join (l # k # ls) = l @ ST_CRLF @ crlf_join (k # ls)"

definition ct_line_ok :: "bytes \<Rightarrow> bool" where
  "ct_line_ok l \<longleftrightarrow> CH_LF \<notin> set l \<and> length l + 4 \<le> CT_BUF_LEN"

lemma line_crlf:
  assumes "CH_LF \<notin> set l"
  shows "line_of (l @ ST_CRLF @ r) = l" "eol_of (l @ ST_CRLF @ r) = ST_CRLF" "after_line (l @ ST_CRLF @ r) = r"
    "CH_LF \<in> set (l @ ST_CRLF @ r)"
proof -
  have "takeWhile (\<lambda>c. c \<noteq> CH_LF) (l @ ST_CRLF @ r) = l @ [CH_CR]"
    using assms by (subst takeWhile_append2) (auto simp: ST_CRLF_def CH_CR_def CH_LF_def)
  then show lo: "line_of (l @ ST_CRLF @ r) = l" and eo: "eol_of (l @ ST_CRLF @ r) = ST_CRLF"
    by (simp_all add: line_of_def eol_of_def ST_CRLF_def)
  show "after_line (l @ ST_CRLF @ r) = r" by (simp add: after_line_def lo eo)
  show "CH_LF \<in> set (l @ ST_CRLF @ r)" by (simp add: ST_CRLF_def)
qed

lemma dash_escape_line:
  assumes "ct_line_ok l"
  shows "CH_LF \<notin> set (dash_escape l)" "\<not> sig_marker (dash_escape l)" "line_text (dash_escape l) = strip_spaces l"
    "length (dash_escape l @ ST_CRLF) \<le> CT_BUF_LEN"
proof -
  show "CH_LF \<notin> set (dash_escape l)" "length (dash_escape l @ ST_CRLF) \<le> CT_BUF_LEN"
    using assms by (auto simp: dash_escape_def ct_line_ok_def CH_LF_def CH_DASH_def ST_CRLF_def)
  show "\<not> sig_marker (dash_escape l)" "line_text (dash_escape l) = strip_spaces l"
    by (cases l; simp add: dash_escape_def sig_marker_def line_text_def ST_DASHES_def str_bytes_def CH_DASH_def)+
qed

lemma ct_encoded:
  assumes "\<forall>l \<in> set ls. ct_line_ok l" "sig_marker m" "CH_LF \<notin> set m" "length m + 2 \<le> CT_BUF_LEN"
  shows "ct_wf (ct_encode ls @ m @ ST_CRLF @ r) \<and> ct_text (ct_encode ls @ m @ ST_CRLF @ r) = ct_shown ls \<and>
    ct_hashed f (ct_encode ls @ m @ ST_CRLF @ r) = (if f \<or> ls = [] then [] else ST_CRLF) @ crlf_join (map strip_spaces ls)"
  using assms(1)
proof (induction ls arbitrary: f)
  case Nil
  note l = line_crlf [OF assms(3), of r]
  show ?case using assms(2,4) l
    by (simp add: ct_encode_def ct_shown_def ct_wf.simps ct_text.simps ct_hashed.simps, simp add: ST_CRLF_def)
next
  case (Cons x ls)
  have x: "ct_line_ok x" using Cons.prems by simp
  note d = dash_escape_line [OF x]
  define b where "b = ct_encode ls @ m @ ST_CRLF @ r"
  have a: "ct_encode (x # ls) @ m @ ST_CRLF @ r = dash_escape x @ ST_CRLF @ b" by (simp add: ct_encode_def b_def)
  note l = line_crlf [OF d(1), of b]
  have b: "ct_wf b" "ct_text b = ct_shown ls"
    "ct_hashed False b = (if ls = [] then [] else ST_CRLF) @ crlf_join (map strip_spaces ls)"
    using Cons.IH [of False] Cons.prems by (auto simp: b_def)
  have "\<not> CT_BUF_LEN < length (dash_escape x @ ST_CRLF)" using d(4) by simp
  then have "ct_wf (dash_escape x @ ST_CRLF @ b)" using l(4) b(1) by (subst ct_wf.simps) (simp only: l d, simp)
  moreover have "ct_text (dash_escape x @ ST_CRLF @ b) = ct_shown (x # ls)"
    using l(4) by (subst ct_text.simps) (simp only: l d b, simp add: ct_shown_def)
  moreover have "ct_hashed f (dash_escape x @ ST_CRLF @ b) = (if f then [] else ST_CRLF) @ crlf_join (map strip_spaces (x # ls))"
    using l(4) by (subst ct_hashed.simps) (simp only: l d b, cases ls, simp_all)
  ultimately show ?case by (simp add: a)
qed

section \<open>Validation with the hash of the data\<close>

lemma validate_fed:
  assumes "hashes_fed bo hs algs a" "sig_halg sig \<in> set algs"
  obtains name n where "pgp_hash_name_botan (sig_halg sig) = Some name" "bo_hash_output_length bo name = Some n"
    "signed_validate_signature bo vf hs sig key =
       verify_switch vf sig (case bo_hash_final bo name (a @ sig_hashed_data sig @ sig_trailer sig) of None \<Rightarrow> [] | Some d \<Rightarrow> take n d) key"
proof -
  obtain h where h: "pgp_hash_list_get hs (sig_halg sig) = Some h" "hash_fed bo h (sig_halg sig) a"
    using list_get_fed [OF assms(1), of "sig_halg sig"] assms(2) by (auto split: option.splits)
  then obtain name n where n: "pgp_hash_name_botan (sig_halg sig) = Some name" "h_handle h = Some (name, a)"
    "bo_hash_output_length bo name = Some n" "h_output_len h = n" by (auto simp: hash_fed_def)
  show thesis
    by (rule that [OF n(1,3)])
      (simp add: signed_validate_signature_def h(1) pgp_hash_copy_def n(2,4) pgp_hash_add_def pgp_hash_finish_def
        sig_trailer_def Let_def split: option.split)
qed

section \<open>The header of a cleartext message\<close>

lemma hash_name_chars:
  assumes "pgp_show_hash_alg alg = Some name"
  shows "pgp_str_to_hash_alg (Some name) = alg" "length name \<le> 9" "name \<noteq> []"
    "\<forall>c \<in> set (str_bytes name). c \<noteq> 0 \<and> c \<notin> {44, CH_SPACE, CH_TAB} \<and> c \<noteq> CH_LF"
  using assms
  by (auto simp: pgp_show_hash_alg_def hash_alg_map_def pgp_str_to_hash_alg_def tolower_def str_bytes_def CH_LF_def
      split: if_splits)

lemma strsep_none: "\<forall>c \<in> set cs. c \<notin> delims \<Longrightarrow> strsep_all delims fld cs = [fld @ cs]"
  by (induction cs arbitrary: fld) auto

lemma unat_of_char: "unat (of_char c :: byte) = of_char c"
proof -
  have "of_char c < (256 :: nat)" by simp
  moreover have "(of_char c :: byte) = of_nat (of_char c)" by (simp add: of_nat_of_char)
  ultimately show ?thesis by (simp add: unsigned_of_nat take_bit_eq_mod)
qed

lemma char_of_str_bytes: "map (char_of \<circ> unat) (str_bytes s) = s"
  by (simp add: str_bytes_def o_def unat_of_char)

lemma hash_header_single:
  assumes "pgp_show_hash_alg alg = Some name"
  shows "cleartext_hash_header bo al (ST_HEADER_HASH @ str_bytes name) hs = fst (pgp_hash_list_add bo al hs alg)"
proof -
  note n = hash_name_chars [OF assms]
  have "cstr (str_bytes name) = str_bytes name" using n(4) by (simp add: cstr_def takeWhile_eq_all_conv)
  moreover have "length ST_HEADER_HASH = 6" by (simp add: ST_HEADER_HASH_def str_bytes_def)
  ultimately have "cstr (drop 6 (ST_HEADER_HASH @ str_bytes name)) = str_bytes name" by simp
  then show ?thesis
    unfolding cleartext_hash_header_def using n strsep_none [of "str_bytes name"]
    by (simp add: char_of_str_bytes [unfolded o_def] o_def) (auto simp: str_bytes_def)
qed


lemma length_ct_text: "length (ct_text a) \<le> length a"
proof (induction "length a" arbitrary: a rule: less_induct)
  case less
  show ?case
  proof (cases "CH_LF \<notin> set a \<or> sig_marker (line_of a)")
    case False
    then have lf: "CH_LF \<in> set a" by simp
    have "length (ct_text (after_line a)) \<le> length (after_line a)" by (rule less.hyps [OF after_line_shorter [OF lf]])
    moreover have "length a = length (line_of a) + length (eol_of a) + length (after_line a)"
      using arg_cong [OF line_split(1) [OF lf], of length] by simp
    ultimately show ?thesis using False length_line_text [of "line_of a"] by (subst ct_text.simps) simp
  qed (subst ct_text.simps, simp)
qed

definition clear_head :: "bytes \<Rightarrow> bytes" where
  "clear_head name = ST_CLEAR_BEGIN @ ST_CRLF @ ST_HEADER_HASH @ name @ ST_CRLF @ ST_CRLF"

context reliable_source
begin

lemma clear_headers_has:
  assumes "has (sg_readsrc q) (ST_HEADER_HASH @ str_bytes name @ ST_CRLF @ ST_CRLF @ z)" "pgp_show_hash_alg alg = Some name"
  obtains s where "cleartext_parse_headers bo (\<lambda>_. True) q =
      Some (q\<lparr>sg_hashes := fst (pgp_hash_list_add bo (\<lambda>_. True) (sg_hashes q) alg), sg_readsrc := s\<rparr>, True)" "has s z"
proof -
  let ?h = "ST_HEADER_HASH @ str_bytes name"
  note n = hash_name_chars [OF assms(2)]
  have h: "CH_LF \<notin> set ?h" "length ?h \<le> 15" "ST_HEADER_HASH \<noteq> []" "strncmp_eq ?h ST_HEADER_HASH 6"
    using n by (auto simp: ST_HEADER_HASH_def str_bytes_def CH_LF_def strncmp_eq_def cstr_def)
  have a: "has (sg_readsrc q) (?h @ CH_CR # CH_LF # CH_CR # CH_LF # z)" using assms(1) by (simp add: ST_CRLF_def)
  obtain s1 where s1: "src_peek_line (sg_readsrc q) 1024 = (s1, Some ?h)" "has s1 (?h @ CH_CR # CH_LF # CH_CR # CH_LF # z)"
    by (rule peek_line_has [OF a h(1), of 1024]) (use h(2) in auto)
  have "has (fst (src_skip (\<lambda>_. True) s1 (length ?h))) (CH_CR # CH_LF # CH_CR # CH_LF # z)"
    using skip_has [OF s1(2), of "length ?h"] by simp
  then obtain s2 where s2: "src_skip_eol (\<lambda>_. True) (fst (src_skip (\<lambda>_. True) s1 (length ?h))) = (s2, True)"
    "has s2 (CH_CR # CH_LF # z)" by (rule skip_eol_has)
  obtain s3 where s3: "src_peek_line s2 1024 = (s3, Some [])" "has s3 (CH_CR # CH_LF # z)"
    by (rule peek_line_has [of s2 "[]" z 1024]) (use s2(2) in auto)
  obtain s4 where s4: "src_skip_eol (\<lambda>_. True) s3 = (s4, True)" "has s4 z" by (rule skip_eol_has [OF s3(2)])
  define q1 where "q1 = q\<lparr>sg_hashes := fst (pgp_hash_list_add bo (\<lambda>_. True) (sg_hashes q) alg), sg_readsrc := s2\<rparr>"
  have "cleartext_parse_headers bo (\<lambda>_. True) q = cleartext_parse_headers bo (\<lambda>_. True) q1"
    using s1(1) s2(1) h(3,4) by (subst cleartext_parse_headers.simps) (simp add: Let_def q1_def hash_header_single [OF assms(2)])
  moreover have "cleartext_parse_headers bo (\<lambda>_. True) q1 = Some (q1\<lparr>sg_readsrc := s4\<rparr>, True)"
    using s3(1) s4(1) by (subst cleartext_parse_headers.simps) (simp add: q1_def)
  ultimately show thesis using s4(2) by (intro that [of s4]) (simp_all add: q1_def)
qed

lemma is_cleartext_has:
  assumes "has s (ST_CLEAR_BEGIN @ c # z)"
  obtains s' where "is_cleartext_source s = (s', True)" "has s' (ST_CLEAR_BEGIN @ c # z)"
proof -
  obtain s' where s': "src_peek s 128 = (s', Some (take 128 (ST_CLEAR_BEGIN @ c # z)))" "has s' (ST_CLEAR_BEGIN @ c # z)"
    by (rule peek_has [OF assms, of 128]) (auto simp: PGP_INPUT_CACHE_SIZE_def)
  have len: "length ST_CLEAR_BEGIN = 34" by (simp add: ST_CLEAR_BEGIN_def str_bytes_def)
  define y where "y = butlast (take 94 (c # z))"
  have "take 94 (c # z) \<noteq> []" by simp
  then have "butlast (take 128 (ST_CLEAR_BEGIN @ c # z)) = ST_CLEAR_BEGIN @ y"
    by (simp add: butlast_append len y_def del: take_Cons_numeral)
  moreover have "cstr (ST_CLEAR_BEGIN @ y) = ST_CLEAR_BEGIN @ cstr y"
    by (simp add: cstr_def ST_CLEAR_BEGIN_def str_bytes_def)
  moreover have "strstr (x @ u) x" for x u
    using append_eq_conv_conj [of x u "x @ u"] by (cases "x @ u") auto
  ultimately show thesis using that s' by (simp add: is_cleartext_source_def len)
qed

lemma init_cleartext_has:
  assumes "has s (clear_head (str_bytes name) @ z)" "pgp_show_hash_alg alg = Some name"
    and "pgp_hash_name_botan alg = Some bname" "bo_hash_init bo bname" "bo_hash_output_length bo bname = Some n"
    and "ct_wf z"
  obtains src :: "('a, 'k) signed_param option pgp_source" where "init_signed_src bo (\<lambda>_. True) True s = Some (Inr src)"
    "src_holds (cleartext_src_read (\<lambda>_. True)) (ct_rest rest) (ct_ok rd rest ok bo [alg] (ct_hashed True z)) src (ct_text z)"
proof -
  have "has s (ST_CLEAR_BEGIN @ CH_CR # CH_LF # ST_HEADER_HASH @ str_bytes name @ ST_CRLF @ ST_CRLF @ z)"
    using assms(1) by (simp add: clear_head_def ST_CRLF_def)
  then obtain s1 where s1: "is_cleartext_source s = (s1, True)"
    "has s1 (ST_CLEAR_BEGIN @ CH_CR # CH_LF # ST_HEADER_HASH @ str_bytes name @ ST_CRLF @ ST_CRLF @ z)"
    by (rule is_cleartext_has)
  define q0 where "q0 = (signed_zero_param s1 True :: ('a, 'k) signed_param)"
  have len: "length ST_CLEAR_BEGIN = 34" by (simp add: ST_CLEAR_BEGIN_def str_bytes_def)
  obtain s2 where s2: "src_read s1 34 = (s2, Some ST_CLEAR_BEGIN)"
    "has s2 (CH_CR # CH_LF # ST_HEADER_HASH @ str_bytes name @ ST_CRLF @ ST_CRLF @ z)"
    using src_read_any [of s1 34] s1(2) len by (auto simp: src_holds_def)
  obtain s3 where s3: "src_skip_eol (\<lambda>_. True) s2 = (s3, True)" "has s3 (ST_HEADER_HASH @ str_bytes name @ ST_CRLF @ ST_CRLF @ z)"
    by (rule skip_eol_has [OF s2(2)])
  define q1 where "q1 = q0\<lparr>sg_readsrc := s3\<rparr>"
  obtain s4 where s4: "cleartext_parse_headers bo (\<lambda>_. True) q1 =
      Some (q1\<lparr>sg_hashes := fst (pgp_hash_list_add bo (\<lambda>_. True) (sg_hashes q1) alg), sg_readsrc := s4\<rparr>, True)" "has s4 z"
    by (rule clear_headers_has [of q1 name z alg bo]) (use s3(2) assms(2) in \<open>auto simp: q1_def\<close>)
  define h where "h = \<lparr>h_handle = Some (bname, [] :: bytes), h_output_len = n, h_alg = alg\<rparr>"
  have h: "fst (pgp_hash_list_add bo (\<lambda>_. True) (sg_hashes q1) alg) = [h]" "hashes_fed bo [h] [alg] []"
    using assms(3-5) by (simp_all add: pgp_hash_list_add_def pgp_hash_create_def q1_def q0_def signed_zero_param_def h_def
        hashes_fed_def hash_fed_def)
  define q where "q = q1\<lparr>sg_hashes := [h], sg_readsrc := s4, sg_clr_fline := True\<rparr>"
  have body: "signed_init_body bo (\<lambda>_. True) q0 = Some (q, RNP_SUCCESS)"
    using s2(1) s3(1) s4(1) h(1)
    by (simp add: signed_init_body_def init_cleartext_signed_src_def q0_def signed_zero_param_def len q1_def q_def Let_def)
  define src where "src = (fst (init_src_common (\<lambda>_. True) 4168 None (None :: ('a, 'k) signed_param option)))
    \<lparr>src_param := Some q, src_rdf := cleartext_src_read (\<lambda>_. True), src_closef := Some signed_src_close,
     src_type := PGP_STREAM_CLEARTEXT\<rparr>"
  have init: "init_signed_src bo (\<lambda>_. True) True s = Some (Inr src)"
    using s1(1) body by (simp add: init_signed_src_def init_src_common_def src_def q0_def [symmetric])
  have "ct_ok rd rest ok bo [alg] (ct_hashed True z) (Some q)" "ct_rest rest (Some q) = ct_text z"
    using s4(2) h(2) assms(6)
    by (auto simp: ct_ok_def ct_inv_def ct_rest_def q_def q1_def q0_def signed_zero_param_def src_holds_def)
  moreover have "length (ct_text z) < 2 ^ 63" using length_ct_text [of z] src_holds_readb [OF s4(2)] by simp
  ultimately show thesis
    by (intro that [OF init]) (simp add: src_holds_def src_inv_def src_avail_def src_def init_src_common_def cached_def cache_ok_def)
qed


text \<open>
  A carriage return alone at the end is never consumed.
\<close>

lemma ct_block_cr:
  assumes "has s [CH_CR]" "\<not> sg_clr_eod q"
  shows "\<exists>hs s'. ct_block (\<lambda>_. True) (q\<lparr>sg_readsrc := s\<rparr>) [CH_CR] =
      q\<lparr>sg_readsrc := s', sg_hashes := hs, sg_clr_mline := True\<rparr> \<and> has s' [CH_CR]"
proof -
  have "has (fst (src_skip (\<lambda>_. True) s 0)) [CH_CR]" using skip_has [OF assms(1), of 0] by simp
  moreover have "CH_CR \<noteq> CH_LF" by (simp add: CH_CR_def CH_LF_def)
  ultimately show ?thesis using assms(2)
    by (cases q) (auto simp: ct_block_def cleartext_process_line_def cleartext_process_text_def cleartext_hash_def Let_def)
qed

lemma ct_loop_cr:
  assumes "ct_read_loop (\<lambda>_. True) q buf len = Some r"
  shows "has (sg_readsrc q) [CH_CR] \<Longrightarrow> sg_out q = [] \<Longrightarrow> \<not> sg_clr_eod q \<Longrightarrow> 0 < len \<Longrightarrow> False"
proof -
  have "al = (\<lambda>_. True) \<longrightarrow> has (sg_readsrc q) [CH_CR] \<longrightarrow> sg_out q = [] \<longrightarrow> \<not> sg_clr_eod q \<longrightarrow> 0 < len \<longrightarrow> False"
    if "ct_read_loop al q buf len = Some r" for al q buf len r
    using that
  proof (rule ct_read_loop.raw_induct [rotated], goal_cases)
    case (1 f al q buf len r)
    show ?case
    proof (intro impI)
      assume a: "al = (\<lambda>_. True)" "has (sg_readsrc q) [CH_CR]" "sg_out q = []" "\<not> sg_clr_eod q" "0 < len"
      obtain s1 where s1: "src_peek (sg_readsrc q) CT_BUF_LEN = (s1, Some [CH_CR])" "has s1 [CH_CR]"
        by (rule peek_has [OF a(2), of CT_BUF_LEN]) (auto simp: CT_BUF_LEN_def PGP_INPUT_CACHE_SIZE_def)
      obtain hs s2 where s2: "ct_block (\<lambda>_. True) (q\<lparr>sg_readsrc := s1\<rparr>) [CH_CR] =
          q\<lparr>sg_readsrc := s2, sg_hashes := hs, sg_clr_mline := True\<rparr>" "has s2 [CH_CR]"
        using ct_block_cr [OF s1(2) a(4)] by blast
      define q2 where "q2 = q\<lparr>sg_readsrc := s2, sg_hashes := hs, sg_clr_mline := True, sg_out := []\<rparr>"
      have "f al q2 buf len = Some r"
        using 1(2) s1(1) s2(1) a by (simp add: Let_def q2_def)
      from 1(1) [OF this] show False using s2(2) a by (simp add: q2_def)
    qed
  qed
  with assms show "has (sg_readsrc q) [CH_CR] \<Longrightarrow> sg_out q = [] \<Longrightarrow> \<not> sg_clr_eod q \<Longrightarrow> 0 < len \<Longrightarrow> False" by blast
qed

end

interpretation mem_cleartext: reliable_source "cleartext_src_read (\<lambda>_. True)" "ct_rest mem_rest"
  "ct_ok mem_src_read mem_rest mem_ok bo algs hashed" for bo algs hashed
  by (rule mem_source.cleartext_reliable_source)

end
