(* ===== verification/Detached_Signatures.thy ===== *)
theory Detached_Signatures
  imports Cleartext
begin

text \<open>
  Detached signatures: a source of signature packets is initialised, its hash contexts are given
  the signed data, and finishing it reports on every signature.
\<close>

section \<open>The source of signed data\<close>

definition sg_rest :: "('q \<Rightarrow> bytes) \<Rightarrow> ('q, 'k) signed_param option \<Rightarrow> bytes" where
  "sg_rest rest p = (case p of None \<Rightarrow> [] | Some q \<Rightarrow> src_avail rest (sg_readsrc q))"

text \<open>Reading changes nothing but the source underneath.\<close>

definition sg_ok ::
    "('q \<Rightarrow> nat \<Rightarrow> 'q \<times> bytes option) \<Rightarrow> ('q \<Rightarrow> bytes) \<Rightarrow> ('q \<Rightarrow> bool) \<Rightarrow> ('q, 'k) signed_param \<Rightarrow>
     ('q, 'k) signed_param option \<Rightarrow> bool" where
  "sg_ok rd rest ok q0 p \<longleftrightarrow> (\<exists>s. p = Some (q0\<lparr>sg_readsrc := s\<rparr>) \<and> src_inv rd rest ok s)"

context reliable_source
begin

lemma signed_reliable_source: "reliable_source signed_src_read (sg_rest rest) (sg_ok rd rest ok q0)"
proof -
  have call: "\<exists>p'. signed_src_read p n = (p', Some (take n (sg_rest rest p))) \<and>
      sg_rest rest p' = drop n (sg_rest rest p) \<and> sg_ok rd rest ok q0 p'"
    if pok: "sg_ok rd rest ok q0 p" for p n
  proof -
    obtain s where s: "p = Some (q0\<lparr>sg_readsrc := s\<rparr>)" "src_inv rd rest ok s" using pok by (auto simp: sg_ok_def)
    show ?thesis
      by (rule src_read_any [OF s(2), of n]) (auto simp: s(1) signed_src_read_def sg_rest_def sg_ok_def)
  qed
  show ?thesis
  proof unfold_locales
    fix p n p' r bs
    assume p: "sg_ok rd rest ok q0 p"
    obtain q where q: "signed_src_read p n = (q, Some (take n (sg_rest rest p)))"
      "sg_rest rest q = drop n (sg_rest rest p)" "sg_ok rd rest ok q0 q"
      using call [OF p] by blast
    show "signed_src_read p n = (p', r) \<Longrightarrow> sg_ok rd rest ok q0 p'"
      "signed_src_read p n = (p', Some bs) \<Longrightarrow> sg_rest rest p = bs @ sg_rest rest p'"
      "signed_src_read p n = (p', Some bs) \<Longrightarrow> length bs \<le> n"
      "signed_src_read p n = (p', Some []) \<Longrightarrow> 0 < n \<Longrightarrow> sg_rest rest p = []"
      "snd (signed_src_read p n) \<noteq> None"
      using q by auto
  qed
qed

end

section \<open>Detached signatures\<close>

definition sigs_bytes :: "pgp_signature list \<Rightarrow> bytes" where
  "sigs_bytes sigs = concat (map (\<lambda>s. packet_bytes 2 (sig_body s)) sigs)"

text \<open>A library that has the hash algorithm of a signature.\<close>

definition hash_known :: "botan \<Rightarrow> nat \<Rightarrow> bool" where
  "hash_known bo alg \<longleftrightarrow>
     (case pgp_hash_name_botan alg of None \<Rightarrow> False
      | Some name \<Rightarrow> bo_hash_init bo name \<and> bo_hash_output_length bo name \<noteq> None)"

lemma list_add_known:
  assumes "hashes_fed bo hs algs []" "hash_known bo alg"
  shows "hashes_fed bo (fst (pgp_hash_list_add bo (\<lambda>_. True) hs alg)) (if alg \<in> set algs then algs else algs @ [alg]) []"
proof (cases "pgp_hash_list_add bo (\<lambda>_. True) hs alg")
  case (Pair hs' ok)
  have "ok" using Pair assms(2)
    by (auto simp: pgp_hash_list_add_def pgp_hash_create_def hash_known_def split: if_splits option.splits prod.splits)
  then show ?thesis using Pair list_add_fed [OF assms(1), of "\<lambda>_. True" alg hs'] by simp
qed

text \<open>The state of the source after some signatures were read.\<close>

definition sigs_read :: "botan \<Rightarrow> ('q, 'k) signed_param \<Rightarrow> pgp_signature list \<Rightarrow> bool" where
  "sigs_read bo q sigs \<longleftrightarrow>
     sg_sigs q = sigs \<and> sg_siginfos q = map (\<lambda>s. zero_siginfo\<lparr>si_sig := Some s\<rparr>) sigs \<and>
     sg_onepasses q = [] \<and> \<not> sg_cleartext q \<and>
     (\<exists>algs. hashes_fed bo (sg_hashes q) algs [] \<and> set algs = sig_halg ` set sigs)"

context reliable_source
begin

lemma read_single_holds:
  assumes "has s (packet_bytes 2 (sig_body x) @ r)" "sig_wf x"
  obtains s' where "signed_read_single_signature (\<lambda>_. True) s infos sigs sig =
    (s', infos @ [zero_siginfo\<lparr>si_sig := Some x\<rparr>], sigs @ [x], Some x, RNP_SUCCESS)" "has s' r"
proof -
  obtain s1 where s1: "src_peek s 1 = (s1, Some (take 1 (packet_bytes 2 (sig_body x) @ r)))" "has s1 (packet_bytes 2 (sig_body x) @ r)"
    by (rule peek_has [OF assms(1), of 1]) (auto simp: PGP_INPUT_CACHE_SIZE_def)
  obtain s2 where s2: "stream_parse_signature (\<lambda>_. True) s1 = (s2, Inr x)" "has s2 r"
    by (rule parse_signature_holds [OF s1(2) assms(2)])
  have "take 1 (packet_bytes 2 (sig_body x) @ r) = [0xC2]" by (simp add: packet_bytes_def)
  moreover have "get_packet_type 0xC2 = 2" by (simp add: get_packet_type_def)
  ultimately show thesis using s1(1) s2
    by (intro that [of s2]) (simp_all add: signed_read_single_signature_def append_ok_def)
qed

lemma eof_has:
  assumes "has s a"
  obtains s' where "src_eof s = (s', a = [])" "has s' a"
proof -
  have inv: "src_inv rd rest ok s" and a: "src_avail rest s = a" using assms by (auto simp: src_holds_def)
  have lim: "src_readb s + 1 < 2 ^ 64" using src_holds_readb [OF assms] by simp
  show thesis by (rule src_eof_eq [OF inv lim]) (use that a in \<open>auto simp: src_holds_def\<close>)
qed

lemma init_step_sig:
  assumes "has (sg_readsrc q) (packet_bytes 2 (sig_body x) @ r)" "sig_wf x" "hash_known bo (sig_halg x)" "sigs_read bo q sigs"
  obtains q' where "signed_init_step bo (\<lambda>_. True) q op sig =
      (if r = [] then Init_stop (q'\<lparr>sg_detached := True\<rparr>) RNP_SUCCESS else Init_again q' op (Some x))"
    "has (sg_readsrc q') r" "sigs_read bo q' (sigs @ [x])"
proof -
  obtain s1 where s1: "src_peek (sg_readsrc q) 1 = (s1, Some (take 1 (packet_bytes 2 (sig_body x) @ r)))"
    "has s1 (packet_bytes 2 (sig_body x) @ r)"
    by (rule peek_has [OF assms(1), of 1]) (auto simp: PGP_INPUT_CACHE_SIZE_def)
  obtain s2 where s2: "signed_read_single_signature (\<lambda>_. True) s1 (sg_siginfos q) (sg_sigs q) sig =
    (s2, sg_siginfos q @ [zero_siginfo\<lparr>si_sig := Some x\<rparr>], sg_sigs q @ [x], Some x, RNP_SUCCESS)" "has s2 r"
    by (rule read_single_holds [OF s1(2) assms(2)])
  obtain s3 where s3: "src_eof s2 = (s3, r = [])" "has s3 r" by (rule eof_has [OF s2(2)])
  have tag: "take 1 (packet_bytes 2 (sig_body x) @ r) = [0xC2]" "get_packet_type 0xC2 = 2"
    by (simp_all add: packet_bytes_def get_packet_type_def)
  obtain algs where algs: "hashes_fed bo (sg_hashes q) algs []" "set algs = sig_halg ` set sigs"
    using assms(4) by (auto simp: sigs_read_def)
  define q' where "q' = q\<lparr>sg_readsrc := s3, sg_siginfos := sg_siginfos q @ [zero_siginfo\<lparr>si_sig := Some x\<rparr>],
    sg_sigs := sg_sigs q @ [x], sg_hashes := fst (pgp_hash_list_add bo (\<lambda>_. True) (sg_hashes q) (sig_halg x))\<rparr>"
  have "\<exists>algs'. hashes_fed bo (sg_hashes q') algs' [] \<and> set algs' = sig_halg ` set (sigs @ [x])"
    using list_add_known [OF algs(1) assms(3)] algs(2) by (auto simp: q'_def split: if_splits intro!: exI)
  then have "sigs_read bo q' (sigs @ [x])" using assms(4) by (simp add: sigs_read_def q'_def)
  moreover have "signed_init_step bo (\<lambda>_. True) q op sig =
      (if r = [] then Init_stop (q'\<lparr>sg_detached := True\<rparr>) RNP_SUCCESS else Init_again q' op (Some x))"
    using s1(1) s2(1) s3(1) tag by (simp add: signed_init_step_def signed_init_next_def q'_def)
  ultimately show thesis using s3(2) by (intro that [of q']) (simp_all add: q'_def)
qed

lemma init_loop_sigs:
  assumes "sigs \<noteq> []" "\<forall>x \<in> set sigs. sig_wf x \<and> hash_known bo (sig_halg x)"
    and "has (sg_readsrc q) (sigs_bytes sigs)" "sigs_read bo q pre"
  shows "\<exists>q'. signed_init_loop bo (\<lambda>_. True) q op sig = Some (q', RNP_SUCCESS) \<and> sg_detached q' \<and>
    has (sg_readsrc q') [] \<and> sigs_read bo q' (pre @ sigs)"
  using assms
proof (induction sigs arbitrary: q pre op sig)
  case (Cons x sigs)
  have "has (sg_readsrc q) (packet_bytes 2 (sig_body x) @ sigs_bytes sigs)" using Cons.prems(3) by (simp add: sigs_bytes_def)
  then obtain q' where q': "signed_init_step bo (\<lambda>_. True) q op sig =
      (if sigs_bytes sigs = [] then Init_stop (q'\<lparr>sg_detached := True\<rparr>) RNP_SUCCESS else Init_again q' op (Some x))"
    "has (sg_readsrc q') (sigs_bytes sigs)" "sigs_read bo q' (pre @ [x])"
    by (rule init_step_sig) (use Cons.prems in auto)
  have empty: "sigs_bytes sigs = [] \<longleftrightarrow> sigs = []" by (cases sigs) (auto simp: sigs_bytes_def packet_bytes_def)
  show ?case
  proof (cases "sigs = []")
    case True
    with q' show ?thesis
      by (subst signed_init_loop.simps) (auto simp: sigs_bytes_def sigs_read_def)
  next
    case False
    with Cons.IH [OF False _ q'(2,3), of op "Some x"] Cons.prems(2) show ?thesis
      by (subst signed_init_loop.simps) (simp add: q'(1) empty)
  qed
qed simp


lemma init_detached:
  assumes "sigs \<noteq> []" "\<forall>x \<in> set sigs. sig_wf x \<and> hash_known bo (sig_halg x)" "has s (sigs_bytes sigs)"
    and "\<not> strstr (cstr (butlast (take 128 (sigs_bytes sigs)))) ST_CLEAR_BEGIN"
  obtains src :: "('a, 'k) signed_param option pgp_source" and q where
    "init_signed_src bo (\<lambda>_. True) True s = Some (Inr src)" "src_param src = Some q" "sg_detached q"
    "sigs_read bo q sigs" "src_type src = PGP_STREAM_SIGNED"
    "src_holds signed_src_read (sg_rest rest) (sg_ok rd rest ok q) src []"
proof -
  obtain s1 where s1: "src_peek s 128 = (s1, Some (take 128 (sigs_bytes sigs)))" "has s1 (sigs_bytes sigs)"
    by (rule peek_has [OF assms(3), of 128]) (auto simp: PGP_INPUT_CACHE_SIZE_def)
  define q0 where "q0 = (signed_zero_param s1 False :: ('a, 'k) signed_param)"
  have clr: "is_cleartext_source s = (s1, False)" using s1(1) assms(4) by (simp add: is_cleartext_source_def)
  have "sigs_read bo q0 []" "has (sg_readsrc q0) (sigs_bytes sigs)"
    using s1(2) by (auto simp: sigs_read_def q0_def signed_zero_param_def hashes_fed_def)
  from init_loop_sigs [OF assms(1,2) this(2,1), of zero_onepass None] obtain q where q:
    "signed_init_loop bo (\<lambda>_. True) q0 zero_onepass None = Some (q, RNP_SUCCESS)" "sg_detached q" "has (sg_readsrc q) []"
    "sigs_read bo q sigs" by auto
  define src where "src = (fst (init_src_common (\<lambda>_. True) 4168 None (None :: ('a, 'k) signed_param option)))
    \<lparr>src_param := Some q, src_rdf := signed_src_read, src_closef := Some signed_src_close, src_type := PGP_STREAM_SIGNED\<rparr>"
  have "signed_init_body bo (\<lambda>_. True) q0 = Some (q, RNP_SUCCESS)"
    using q(1,4) assms(1) by (simp add: signed_init_body_def q0_def signed_zero_param_def sigs_read_def)
  then have init: "init_signed_src bo (\<lambda>_. True) True s = Some (Inr src)"
    using clr by (simp add: init_signed_src_def init_src_common_def src_def q0_def [symmetric])
  have "sg_ok rd rest ok q (Some q)" "sg_rest rest (Some q) = []"
    using q(3) by (auto simp: sg_ok_def sg_rest_def src_holds_def intro: exI [of _ "sg_readsrc q"])
  then show thesis
    by (intro that [OF init _ q(2,4)])
      (auto simp: src_def init_src_common_def src_holds_def src_inv_def src_avail_def cached_def cache_ok_def)
qed

end

text \<open>What the check of a signature over \<open>data\<close> reports.\<close>

definition sig_digest :: "botan \<Rightarrow> pgp_signature \<Rightarrow> bytes \<Rightarrow> bytes" where
  "sig_digest bo sig data =
     (case pgp_hash_name_botan (sig_halg sig) of
        None \<Rightarrow> []
      | Some name \<Rightarrow>
          (case bo_hash_final bo name (data @ sig_hashed_data sig @ sig_trailer sig) of
             None \<Rightarrow> [] | Some d \<Rightarrow> take (the (bo_hash_output_length bo name)) d))"

definition sig_report :: "botan \<Rightarrow> 'k verifier \<Rightarrow> bytes \<Rightarrow> pgp_signature \<Rightarrow> 'k siginfo" where
  "sig_report bo vf data sig =
     (let info = zero_siginfo\<lparr>si_sig := Some sig\<rparr> in
      case signature_get_keyid sig of
        None \<Rightarrow> info\<lparr>si_unknown := True\<rparr>
      | Some keyid \<Rightarrow>
          (case vf_request_key vf keyid of
             None \<Rightarrow> info\<lparr>si_no_signer := True\<rparr>
           | Some key \<Rightarrow>
               info\<lparr>si_signer := Some key, si_valid := verify_switch vf sig (sig_digest bo sig data) key,
                    si_expired := sig_expired (vf_time vf) sig\<rparr>))"

lemma validate_digest:
  assumes "hashes_fed bo hs algs data" "sig_halg sig \<in> set algs"
  shows "signed_validate_signature bo vf hs sig key = verify_switch vf sig (sig_digest bo sig data) key"
  by (rule validate_fed [OF assms, where vf = vf and key = key]) (simp add: sig_digest_def split: option.split)

lemma check_siginfo_report:
  assumes "hashes_fed bo hs algs data" "sig_halg sig \<in> set algs"
  shows "check_siginfo bo vf hs (zero_siginfo\<lparr>si_sig := Some sig\<rparr>) = sig_report bo vf data sig"
  using validate_digest [OF assms, of vf]
  by (auto simp: check_siginfo_def sig_report_def zero_siginfo_def Let_def split: option.splits)

lemma signed_updates:
  assumes "src_param src = Some q"
  shows "fold (\<lambda>bs s. signed_src_update s bs) bss src =
    src\<lparr>src_param := Some (q\<lparr>sg_hashes := fold (\<lambda>bs hs. pgp_hash_list_update hs bs) bss (sg_hashes q)\<rparr>)\<rparr>"
  using assms
proof (induction bss arbitrary: src q)
  case Nil
  then show ?case by (cases src) simp
next
  case (Cons bs bss)
  define src1 where "src1 = signed_src_update src bs"
  have 1: "src1 = src\<lparr>src_param := Some (q\<lparr>sg_hashes := pgp_hash_list_update (sg_hashes q) bs\<rparr>)\<rparr>"
    using Cons.prems by (simp add: src1_def signed_src_update_def)
  then have "src_param src1 = Some (q\<lparr>sg_hashes := pgp_hash_list_update (sg_hashes q) bs\<rparr>)" by simp
  from Cons.IH [OF this] show ?case by (simp add: src1_def [symmetric]) (simp add: 1)
qed

context reliable_source
begin

text \<open>
  Finishing a source whose signatures were all read, after its hash contexts were given data.
\<close>

lemma finish_detached:
  assumes "src_holds signed_src_read (sg_rest rest) (sg_ok rd rest ok q) src []" "src_param src = Some q" "sigs_read bo q sigs"
  obtains src' where "signed_src_finish bo (\<lambda>_. True) vf (fold (\<lambda>bs s. signed_src_update s bs) bss src) =
    Some (src', signed_verdict (map (sig_report bo vf (concat bss)) sigs), Some (map (sig_report bo vf (concat bss)) sigs))"
proof -
  define hs where "hs = fold (\<lambda>bs hs. pgp_hash_list_update hs bs) bss (sg_hashes q)"
  define q1 where "q1 = q\<lparr>sg_hashes := hs\<rparr>"
  define src1 where "src1 = src\<lparr>src_param := Some q1\<rparr>"
  have upd: "fold (\<lambda>bs s. signed_src_update s bs) bss src = src1"
    using signed_updates [OF assms(2)] by (simp add: src1_def q1_def hs_def)
  obtain algs where "hashes_fed bo (sg_hashes q) algs []" and algs: "set algs = sig_halg ` set sigs"
    using assms(3) by (auto simp: sigs_read_def)
  then have fed: "hashes_fed bo hs algs (concat bss)" using list_updates_fed [of bo "sg_hashes q" algs "[]" bss] by (simp add: hs_def)
  have st: "sg_siginfos q1 = map (\<lambda>s. zero_siginfo\<lparr>si_sig := Some s\<rparr>) sigs" "sg_onepasses q1 = []" "\<not> sg_cleartext q1"
    "sg_sigs q1 = sigs" "sg_hashes q1 = hs" using assms(3) by (auto simp: sigs_read_def q1_def)
  have "sg_ok rd rest ok q (Some q)" using assms(1,2) by (simp add: src_holds_def src_inv_def)
  then obtain s0 where "q = q\<lparr>sg_readsrc := s0\<rparr>" "src_inv rd rest ok s0" by (auto simp: sg_ok_def)
  then have "src_inv rd rest ok (sg_readsrc q)" by (metis signed_param.ext_inject signed_param.surjective signed_param.update_convs(1))
  then have "sg_ok rd rest ok q1 (Some q1)" unfolding sg_ok_def by (intro exI [of _ "sg_readsrc q"]) (cases q, simp add: q1_def)
  moreover have "src_avail (sg_rest rest) src1 = src_avail (sg_rest rest) src"
    using assms(2) by (simp add: src_avail_def src1_def sg_rest_def q1_def split: option.split)
  ultimately have "src_holds signed_src_read (sg_rest rest) (sg_ok rd rest ok q1) src1 []"
    using assms(1) by (auto simp: src_holds_def src_inv_def src1_def)
  then obtain src2 where src2: "src_eof src1 = (src2, True)" "src_holds signed_src_read (sg_rest rest) (sg_ok rd rest ok q1) src2 []"
    by (rule reliable_source.eof_has [OF signed_reliable_source]) simp
  then obtain s where s: "src_param src2 = Some (q1\<lparr>sg_readsrc := s\<rparr>)" by (auto simp: src_holds_def src_inv_def sg_ok_def)
  have all: "signed_read_all bo (\<lambda>_. True) src1 q1 = Some (src1, RNP_SUCCESS)"
    using st by (cases q1) (simp add: signed_read_all_def src1_def)
  have "map (check_siginfo bo vf hs) (sg_siginfos q1) = map (sig_report bo vf (concat bss)) sigs"
    unfolding st(1) map_map o_def by (rule map_cong [OF refl], rule check_siginfo_report [OF fed]) (simp add: algs)
  then have "\<exists>src'. signed_src_finish bo (\<lambda>_. True) vf src1 =
    Some (src', signed_verdict (map (sig_report bo vf (concat bss)) sigs), Some (map (sig_report bo vf (concat bss)) sigs))"
    using all src2(1) s st(5) by (simp add: signed_src_finish_def src1_def [symmetric] Let_def) (simp add: src1_def Let_def)
  then show thesis using that upd by auto
qed

end

interpretation mem_signed: reliable_source signed_src_read "sg_rest mem_rest" "sg_ok mem_src_read mem_rest mem_ok q" for q
  by (rule mem_source.signed_reliable_source)

end
