(* ===== verification/Symmetric.thy ===== *)
theory Symmetric
  imports Hash_Context
begin

text \<open>
  Symmetric ciphers, \<^verbatim>\<open>src/src/lib/symmetric.c\<close>: the tables of algorithms, the start and the end of
  a cipher, and encryption and decryption in cipher feedback mode.

  The block ciphers are those of the Botan library and a parameter: which of its
  \<^verbatim>\<open>BOTAN_HAS\<close> macros are defined, which names and keys it accepts, and the encryption of a block.
  The second half shows that the routine, which works on buffers of 64-bit words, agrees with
  cipher feedback one byte at a time.
\<close>

section \<open>Algorithms\<close>

abbreviation (input) PGP_SA_PLAINTEXT :: nat where "PGP_SA_PLAINTEXT \<equiv> 0"
abbreviation (input) PGP_SA_IDEA :: nat where "PGP_SA_IDEA \<equiv> 1"
abbreviation (input) PGP_SA_TRIPLEDES :: nat where "PGP_SA_TRIPLEDES \<equiv> 2"
abbreviation (input) PGP_SA_CAST5 :: nat where "PGP_SA_CAST5 \<equiv> 3"
abbreviation (input) PGP_SA_BLOWFISH :: nat where "PGP_SA_BLOWFISH \<equiv> 4"
abbreviation (input) PGP_SA_AES_128 :: nat where "PGP_SA_AES_128 \<equiv> 7"
abbreviation (input) PGP_SA_AES_192 :: nat where "PGP_SA_AES_192 \<equiv> 8"
abbreviation (input) PGP_SA_AES_256 :: nat where "PGP_SA_AES_256 \<equiv> 9"
abbreviation (input) PGP_SA_TWOFISH :: nat where "PGP_SA_TWOFISH \<equiv> 10"
abbreviation (input) PGP_SA_CAMELLIA_128 :: nat where "PGP_SA_CAMELLIA_128 \<equiv> 11"
abbreviation (input) PGP_SA_CAMELLIA_192 :: nat where "PGP_SA_CAMELLIA_192 \<equiv> 12"
abbreviation (input) PGP_SA_CAMELLIA_256 :: nat where "PGP_SA_CAMELLIA_256 \<equiv> 13"
abbreviation (input) PGP_SA_SM4 :: nat where "PGP_SA_SM4 \<equiv> 105"

abbreviation (input) PGP_SA_DEFAULT_CIPHER :: nat where "PGP_SA_DEFAULT_CIPHER \<equiv> PGP_SA_AES_256"

definition PGP_MAX_BLOCK_SIZE :: nat where "PGP_MAX_BLOCK_SIZE = 16"

record block_cipher =
  bc_has :: "string \<Rightarrow> bool"
  bc_init :: "string \<Rightarrow> bool"
  bc_set_key :: "string \<Rightarrow> bytes \<Rightarrow> bool"
  bc_encrypt :: "string \<Rightarrow> bytes \<Rightarrow> bytes \<Rightarrow> bytes"

text \<open>Each algorithm with the macro its case depends on.\<close>

definition sa_names :: "(nat \<times> string \<times> string) list" where
  "sa_names =
     [(PGP_SA_IDEA, ''IDEA'', ''IDEA''),
      (PGP_SA_TRIPLEDES, ''DES'', ''TripleDES''),
      (PGP_SA_CAST5, ''CAST'', ''CAST-128''),
      (PGP_SA_BLOWFISH, ''BLOWFISH'', ''Blowfish''),
      (PGP_SA_AES_128, ''AES'', ''AES-128''),
      (PGP_SA_AES_192, ''AES'', ''AES-192''),
      (PGP_SA_AES_256, ''AES'', ''AES-256''),
      (PGP_SA_SM4, ''SM4'', ''SM4''),
      (PGP_SA_TWOFISH, ''TWOFISH'', ''Twofish''),
      (PGP_SA_CAMELLIA_128, ''CAMELLIA'', ''Camellia-128''),
      (PGP_SA_CAMELLIA_192, ''CAMELLIA'', ''Camellia-192''),
      (PGP_SA_CAMELLIA_256, ''CAMELLIA'', ''Camellia-256'')]"

definition pgp_sa_to_botan_string :: "block_cipher \<Rightarrow> nat \<Rightarrow> string option" where
  "pgp_sa_to_botan_string bc alg =
     (case map_of sa_names alg of
        None \<Rightarrow> None
      | Some (macro, name) \<Rightarrow> if bc_has bc macro then Some name else None)"

definition pgp_is_sa_supported :: "block_cipher \<Rightarrow> nat \<Rightarrow> bool" where
  "pgp_is_sa_supported bc alg \<longleftrightarrow> pgp_sa_to_botan_string bc alg \<noteq> None"

definition pgp_block_size :: "nat \<Rightarrow> nat" where
  "pgp_block_size alg =
     (if alg \<in> {PGP_SA_IDEA, PGP_SA_TRIPLEDES, PGP_SA_CAST5, PGP_SA_BLOWFISH} then 8
      else if alg \<in> {PGP_SA_AES_128, PGP_SA_AES_192, PGP_SA_AES_256, PGP_SA_TWOFISH, PGP_SA_CAMELLIA_128,
                     PGP_SA_CAMELLIA_192, PGP_SA_CAMELLIA_256, PGP_SA_SM4} then 16
      else 0)"

definition pgp_key_size :: "nat \<Rightarrow> nat" where
  "pgp_key_size alg =
     (if alg \<in> {PGP_SA_IDEA, PGP_SA_CAST5, PGP_SA_BLOWFISH, PGP_SA_AES_128, PGP_SA_CAMELLIA_128, PGP_SA_SM4} then 16
      else if alg \<in> {PGP_SA_TRIPLEDES, PGP_SA_AES_192, PGP_SA_CAMELLIA_192} then 24
      else if alg \<in> {PGP_SA_TWOFISH, PGP_SA_AES_256, PGP_SA_CAMELLIA_256} then 32
      else 0)"

definition str2cipher :: "(string \<times> nat) list" where
  "str2cipher =
     [(''cast5'', PGP_SA_CAST5), (''idea'', PGP_SA_IDEA), (''blowfish'', PGP_SA_BLOWFISH),
      (''twofish'', PGP_SA_TWOFISH), (''sm4'', PGP_SA_SM4), (''aes128'', PGP_SA_AES_128),
      (''aes192'', PGP_SA_AES_192), (''aes256'', PGP_SA_AES_256), (''camellia128'', PGP_SA_CAMELLIA_128),
      (''camellia192'', PGP_SA_CAMELLIA_192), (''camellia256'', PGP_SA_CAMELLIA_256),
      (''tripledes'', PGP_SA_TRIPLEDES)]"

fun str_to_cipher_from :: "(string \<times> nat) list \<Rightarrow> string \<Rightarrow> nat" where
  "str_to_cipher_from [] s = PGP_SA_DEFAULT_CIPHER"
| "str_to_cipher_from ((name, alg) # es) s = (if rnp_strcasecmp s name = 0 then alg else str_to_cipher_from es s)"

definition pgp_str_to_cipher :: "string option \<Rightarrow> nat" where
  "pgp_str_to_cipher cipher =
     (case cipher of None \<Rightarrow> PGP_SA_DEFAULT_CIPHER | Some s \<Rightarrow> str_to_cipher_from str2cipher s)"

section \<open>Ciphers\<close>

text \<open>
  \<^verbatim>\<open>pgp_crypt_t\<close>.  A block cipher object is its name and its key, which is missing until it is set.
\<close>

record pgp_crypt =
  cr_alg :: nat
  cr_blocksize :: nat
  cr_remaining :: nat
  cr_obj :: "(string \<times> bytes option) option"
  cr_iv :: bytes

definition zero_crypt :: pgp_crypt where
  "zero_crypt = \<lparr>cr_alg = 0, cr_blocksize = 0, cr_remaining = 0, cr_obj = None, cr_iv = replicate PGP_MAX_BLOCK_SIZE 0\<rparr>"

definition pgp_cipher_start :: "block_cipher \<Rightarrow> nat \<Rightarrow> bytes \<Rightarrow> bytes option \<Rightarrow> pgp_crypt \<times> bool" where
  "pgp_cipher_start bc alg key iv =
     (case pgp_sa_to_botan_string bc alg of
        None \<Rightarrow> (zero_crypt, False)
      | Some name \<Rightarrow>
          let c1 = zero_crypt\<lparr>cr_alg := alg, cr_blocksize := pgp_block_size alg\<rparr> in
          if \<not> bc_init bc name then (c1, False)
          else
            let k = take (pgp_key_size alg) key in
            if \<not> bc_set_key bc name k then (c1\<lparr>cr_obj := Some (name, None)\<rparr>, False)
            else
              let c2 = c1\<lparr>cr_obj := Some (name, Some k)\<rparr>
              in ((case iv of
                     None \<Rightarrow> c2
                   | Some v \<Rightarrow> c2\<lparr>cr_iv := mem_write 0 (take (cr_blocksize c2) v) (cr_iv c2)\<rparr>)\<lparr>cr_remaining := 0\<rparr>,
                  True))"

definition pgp_cipher_cfb_resync :: "pgp_crypt \<Rightarrow> bytes \<Rightarrow> pgp_crypt" where
  "pgp_cipher_cfb_resync crypt buf =
     crypt\<lparr>cr_iv := mem_write 0 (take (cr_blocksize crypt) buf) (cr_iv crypt), cr_remaining := 0\<rparr>"

text \<open>
  \<^verbatim>\<open>sizeof(crypt)\<close> is the size of the pointer, so only the first eight bytes are overwritten: the
  algorithm and the padding behind it.
\<close>

definition pgp_cipher_finish :: "pgp_crypt \<Rightarrow> pgp_crypt" where
  "pgp_cipher_finish crypt = crypt\<lparr>cr_obj := None, cr_alg := 0\<rparr>"

definition pgp_cipher_alg_id :: "pgp_crypt \<Rightarrow> nat" where
  "pgp_cipher_alg_id crypt = cr_alg crypt"

definition pgp_cipher_block_size :: "pgp_crypt \<Rightarrow> nat" where
  "pgp_cipher_block_size crypt = cr_blocksize crypt"

text \<open>
  \<^verbatim>\<open>botan_block_cipher_encrypt_blocks\<close> on one block.  Without an object or a key it returns an error
  code, which is not looked at, and leaves the block as it is.
\<close>

definition encrypt_block :: "block_cipher \<Rightarrow> (string \<times> bytes option) option \<Rightarrow> bytes \<Rightarrow> bytes" where
  "encrypt_block bc obj block =
     (case obj of Some (name, Some key) \<Rightarrow> bc_encrypt bc name key block | _ \<Rightarrow> block)"

section \<open>Cipher feedback\<close>

text \<open>
  \<^verbatim>\<open>pgp_cipher_cfb_encrypt\<close> and \<^verbatim>\<open>pgp_cipher_cfb_decrypt\<close> have the same structure and differ in what is
  fed back into the register: the result of the exclusive-or when encrypting, its argument
  when decrypting (\<open>dec\<close>).  An access outside the register has no result.
\<close>

definition cfb_byte :: "bool \<Rightarrow> pgp_crypt \<Rightarrow> byte \<Rightarrow> (pgp_crypt \<times> byte) option" where
  "cfb_byte dec crypt x =
     (let i = sub64 (cr_blocksize crypt) (cr_remaining crypt) in
      if i < length (cr_iv crypt) then
        let y = x XOR cr_iv crypt ! i
        in Some (crypt\<lparr>cr_iv := (cr_iv crypt)[i := if dec then x else y],
                       cr_remaining := sub64 (cr_remaining crypt) 1\<rparr>, y)
      else None)"

text \<open>The bytes up to the block boundary; the result has the bytes behind it too.\<close>

fun cfb_head :: "bool \<Rightarrow> pgp_crypt \<Rightarrow> bytes \<Rightarrow> (pgp_crypt \<times> bytes \<times> bytes) option" where
  "cfb_head dec crypt [] = Some (crypt, [], [])"
| "cfb_head dec crypt (x # xs) =
     (if cr_remaining crypt = 0 then Some (crypt, [], x # xs)
      else
        do {
          (crypt1, y) \<leftarrow> cfb_byte dec crypt x;
          (crypt2, out, rest) \<leftarrow> cfb_head dec crypt1 xs;
          Some (crypt2, y # out, rest)
        })"

fun cfb_tail :: "bool \<Rightarrow> pgp_crypt \<Rightarrow> bytes \<Rightarrow> (pgp_crypt \<times> bytes) option" where
  "cfb_tail dec crypt [] = Some (crypt, [])"
| "cfb_tail dec crypt (x # xs) =
     do {
       (crypt1, y) \<leftarrow> cfb_byte dec crypt x;
       (crypt2, out) \<leftarrow> cfb_tail dec crypt1 xs;
       Some (crypt2, y # out)
     }"

text \<open>
  Eight bytes of memory as a 64-bit word, in the order of a little endian machine; copies
  to and from arrays of words.
\<close>

definition LOAD64 :: "bytes \<Rightarrow> 64 word" where
  "LOAD64 bs = foldr (\<lambda>b w. push_bit 8 w OR ucast b) bs 0"

definition STORE64 :: "64 word \<Rightarrow> bytes" where
  "STORE64 w = map (\<lambda>i. ucast (drop_bit (8 * i) w)) [0..<8]"

fun words64 :: "bytes \<Rightarrow> 64 word list" where
  "words64 (a # b # c # d # e # f # g # h # bs) = LOAD64 [a, b, c, d, e, f, g, h] # words64 bs"
| "words64 _ = []"

definition bytes64 :: "64 word list \<Rightarrow> bytes" where
  "bytes64 ws = concat (map STORE64 ws)"

text \<open>The inner loops, for blocks of two words and of one word.\<close>

fun cfb_words16 :: "bool \<Rightarrow> (bytes \<Rightarrow> bytes) \<Rightarrow> 64 word list \<Rightarrow> 64 word list \<Rightarrow> 64 word list \<times> 64 word list" where
  "cfb_words16 dec E iv64 (in0 # in1 # ws) =
     (let v = words64 (E (bytes64 iv64)); out0 = in0 XOR v ! 0; out1 = in1 XOR v ! 1 in
      case cfb_words16 dec E (if dec then [in0, in1] else [out0, out1]) ws of
        (iv', out) \<Rightarrow> (iv', out0 # out1 # out))"
| "cfb_words16 dec E iv64 ws = (iv64, [])"

fun cfb_words8 :: "bool \<Rightarrow> (bytes \<Rightarrow> bytes) \<Rightarrow> 64 word list \<Rightarrow> 64 word list \<Rightarrow> 64 word list \<times> 64 word list" where
  "cfb_words8 dec E iv64 (in0 # ws) =
     (let v = words64 (E (bytes64 iv64)); out0 = in0 XOR v ! 0 in
      case cfb_words8 dec E (if dec then [in0] else [out0]) ws of
        (iv', out) \<Rightarrow> (iv', out0 # out))"
| "cfb_words8 dec E iv64 [] = (iv64, [])"

text \<open>
  The loop over buffers of 4096 bytes.  The mask \<^verbatim>\<open>~(blsize - 1)\<close> is a number of 32 bits, so it
  clears the upper half of the number of bytes.
\<close>

definition full_blocks :: "nat \<Rightarrow> nat \<Rightarrow> nat" where
  "full_blocks blsize n = n AND unat (NOT (word_of_nat blsize - 1 :: 32 word))"

lemma full_blocks_le: "full_blocks blsize n \<le> n"
proof -
  have "int (full_blocks blsize n) \<le> int n" by (simp add: full_blocks_def of_nat_and_eq AND_upper1)
  then show ?thesis by simp
qed

function cfb_blocks ::
    "bool \<Rightarrow> (bytes \<Rightarrow> bytes) \<Rightarrow> nat \<Rightarrow> 64 word list \<Rightarrow> bytes \<Rightarrow> 64 word list \<times> bytes \<times> bytes" where
  "cfb_blocks dec E blsize iv64 xs =
     (let blocks = full_blocks blsize (length xs) in
      if blocks = 0 then (iv64, [], xs)
      else
        let blockb = min blocks 4096 in
        (case (if blsize = 16 then cfb_words16 else cfb_words8) dec E iv64 (words64 (take blockb xs)) of
           (iv', out) \<Rightarrow>
             (case cfb_blocks dec E blsize iv' (drop blockb xs) of
                (iv'', out', rest) \<Rightarrow> (iv'', bytes64 out @ out', rest))))"
  by pat_completeness auto
termination
proof (relation "measure (\<lambda>(_, _, _, _, xs). length xs)", goal_cases)
  case (2 dec E blsize iv64 xs blocks blockb)
  then have "0 < blocks" "blocks \<le> length xs" "0 < blockb" using full_blocks_le by simp_all
  then show ?case by simp
qed simp

declare cfb_blocks.simps [simp del]

definition cfb_middle ::
    "bool \<Rightarrow> (bytes \<Rightarrow> bytes) \<Rightarrow> nat \<Rightarrow> pgp_crypt \<Rightarrow> bytes \<Rightarrow> pgp_crypt \<times> bytes \<times> bytes" where
  "cfb_middle dec E blsize crypt xs =
     (if blsize < length xs
      then (case cfb_blocks dec E blsize (words64 (take blsize (cr_iv crypt))) xs of
              (iv64, out, rest) \<Rightarrow> (crypt\<lparr>cr_iv := mem_write 0 (bytes64 iv64) (cr_iv crypt)\<rparr>, out, rest))
      else (crypt, [], xs))"

definition cfb_refill :: "(bytes \<Rightarrow> bytes) \<Rightarrow> nat \<Rightarrow> pgp_crypt \<Rightarrow> pgp_crypt" where
  "cfb_refill E blsize crypt =
     crypt\<lparr>cr_iv := mem_write 0 (E (take blsize (cr_iv crypt))) (cr_iv crypt), cr_remaining := blsize\<rparr>"

definition cfb_crypt :: "bool \<Rightarrow> block_cipher \<Rightarrow> pgp_crypt \<Rightarrow> bytes \<Rightarrow> (pgp_crypt \<times> bytes) option" where
  "cfb_crypt dec bc crypt xs =
     (let blsize = cr_blocksize crypt; E = encrypt_block bc (cr_obj crypt) in
      do {
        (c1, out1, rest1) \<leftarrow> cfb_head dec crypt xs;
        (if rest1 = [] then Some (c1, out1)
         else
           (case cfb_middle dec E blsize c1 rest1 of
              (c2, out2, rest2) \<Rightarrow>
                if rest2 = [] then Some (c2, out1 @ out2)
                else
                  do {
                    (c3, out3) \<leftarrow> cfb_tail dec (cfb_refill E blsize c2) rest2;
                    Some (c3, out1 @ out2 @ out3)
                  }))
      })"

definition pgp_cipher_cfb_encrypt :: "block_cipher \<Rightarrow> pgp_crypt \<Rightarrow> bytes \<Rightarrow> (pgp_crypt \<times> bytes) option" where
  "pgp_cipher_cfb_encrypt bc crypt buf = cfb_crypt False bc crypt buf"

definition pgp_cipher_cfb_decrypt :: "block_cipher \<Rightarrow> pgp_crypt \<Rightarrow> bytes \<Rightarrow> (pgp_crypt \<times> bytes) option" where
  "pgp_cipher_cfb_decrypt bc crypt buf = cfb_crypt True bc crypt buf"

section \<open>The reference\<close>

text \<open>
  Cipher feedback one byte at a time: the register \<open>iv\<close> is encrypted when none of its
  keystream is left, and a byte is fed back in the place of the keystream byte it was combined with.
\<close>

definition cfb_next :: "(bytes \<Rightarrow> bytes) \<Rightarrow> bytes \<times> nat \<Rightarrow> bytes \<times> nat" where
  "cfb_next E st = (case st of (iv, left) \<Rightarrow> if left = 0 then (E iv, length iv) else (iv, left))"

fun cfb_run :: "bool \<Rightarrow> (bytes \<Rightarrow> bytes) \<Rightarrow> bytes \<times> nat \<Rightarrow> bytes \<Rightarrow> (bytes \<times> nat) \<times> bytes" where
  "cfb_run dec E st [] = (st, [])"
| "cfb_run dec E st (x # xs) =
     (case cfb_next E st of
        (iv, left) \<Rightarrow>
          let i = length iv - left; y = x XOR iv ! i in
          (case cfb_run dec E (iv[i := if dec then x else y], left - 1) xs of (st', ys) \<Rightarrow> (st', y # ys)))"

abbreviation xor_bytes :: "bytes \<Rightarrow> bytes \<Rightarrow> bytes" where
  "xor_bytes xs ys \<equiv> map2 (XOR) xs ys"

lemma cfb_run_append:
  "cfb_run dec E st (xs @ ys) =
     (case cfb_run dec E st xs of (st', us) \<Rightarrow> case cfb_run dec E st' ys of (st'', vs) \<Rightarrow> (st'', us @ vs))"
  by (induction xs arbitrary: st) (auto simp: Let_def split: prod.splits)

lemma length_cfb_run [simp]: "length (snd (cfb_run dec E st xs)) = length xs"
  by (induction xs arbitrary: st) (simp_all add: Let_def split_def)

text \<open>Decryption undoes encryption and leaves the same register.\<close>

lemma cfb_run_inverse:
  "cfb_run True E st (snd (cfb_run False E st xs)) = (fst (cfb_run False E st xs), xs)"
proof (induction xs arbitrary: st)
  case (Cons x xs)
  then show ?case by (cases "cfb_next E st") (auto simp: Let_def split_def xor.assoc)
qed simp

text \<open>Within a block: what is fed back replaces the keystream.\<close>

lemma cfb_run_within:
  assumes "length xs \<le> length ks"
  shows "cfb_run dec E (fb @ ks, length ks) xs =
    ((fb @ (if dec then xs else xor_bytes xs ks) @ drop (length xs) ks, length ks - length xs), xor_bytes xs ks)"
  using assms
proof (induction xs arbitrary: fb ks)
  case (Cons x xs)
  then obtain k ks' where ks: "ks = k # ks'" by (cases ks) auto
  have "cfb_run dec E ((fb @ [if dec then x else x XOR k]) @ ks', length ks') xs =
    (((fb @ [if dec then x else x XOR k]) @ (if dec then xs else xor_bytes xs ks') @ drop (length xs) ks',
      length ks' - length xs), xor_bytes xs ks')"
    by (rule Cons.IH) (use Cons.prems ks in simp)
  then show ?case by (cases dec) (simp_all add: ks cfb_next_def Let_def nth_append list_update_append)
qed simp

text \<open>A whole block is the exclusive-or with the encrypted register, and becomes the register.\<close>

lemma cfb_run_block:
  assumes "length x = length iv" "length (E iv) = length iv" "iv \<noteq> []"
  shows "cfb_run dec E (iv, 0) (x @ xs) =
    (case cfb_run dec E (if dec then x else xor_bytes x (E iv), 0) xs of (st, ys) \<Rightarrow> (st, xor_bytes x (E iv) @ ys))"
proof -
  obtain b bs where x: "x = b # bs" using assms by (cases x) auto
  have "cfb_run dec E (iv, 0) x = cfb_run dec E ([] @ E iv, length (E iv)) x"
    using assms by (cases "E iv") (auto simp: x cfb_next_def)
  also have "\<dots> = ((if dec then x else xor_bytes x (E iv), 0), xor_bytes x (E iv))"
    by (subst cfb_run_within) (use assms in auto)
  finally show ?thesis by (simp add: cfb_run_append)
qed

section \<open>Words and bytes\<close>

lemma length_STORE64 [simp]: "length (STORE64 w) = 8"
  by (simp add: STORE64_def)

lemma STORE64_xor: "STORE64 (v XOR w) = xor_bytes (STORE64 v) (STORE64 w)"
  by (simp add: STORE64_def drop_bit_xor unsigned_xor_eq upt_rec)

lemma byte_bit_ge: "8 \<le> n \<Longrightarrow> \<not> bit (b :: byte) n"
  by (auto dest: bit_imp_le_length)

lemma STORE64_LOAD64:
  assumes "length bs = 8"
  shows "STORE64 (LOAD64 bs) = bs"
proof -
  obtain a b c d e f g h where bs: "bs = [a, b, c, d, e, f, g, h]"
    using assms by (auto simp: numeral_eq_Suc length_Suc_conv)
  show ?thesis
    by (auto simp: bs STORE64_def LOAD64_def upt_rec bit_simps bit_unsigned_iff byte_bit_ge intro!: bit_word_eqI)
qed

lemma full_blocks_eq:
  "full_blocks 16 n = n div 16 mod 2 ^ 28 * 16" "full_blocks 8 n = n div 8 mod 2 ^ 29 * 8"
proof -
  have b: "full_blocks 16 n = n AND push_bit 4 (mask 28)" "full_blocks 8 n = n AND push_bit 3 (mask 29)"
    by (simp_all add: full_blocks_def push_bit_eq_mult mask_eq_exp_minus_1)
  have m: "n AND push_bit k (mask m) = n div 2 ^ k mod 2 ^ m * 2 ^ k" for k m
  proof -
    have "n AND push_bit k (mask m) = push_bit k (take_bit m (drop_bit k n))"
      by (rule bit_eqI) (auto simp: bit_simps)
    then show ?thesis by (simp add: push_bit_eq_mult take_bit_eq_mod drop_bit_eq_div)
  qed
  show "full_blocks 16 n = n div 16 mod 2 ^ 28 * 16" "full_blocks 8 n = n div 8 mod 2 ^ 29 * 8"
    unfolding b m by simp_all
qed

lemma bytes64_simps [simp]:
  "bytes64 [] = []" "bytes64 (w # ws) = STORE64 w @ bytes64 ws" "bytes64 (ws @ vs) = bytes64 ws @ bytes64 vs"
  by (simp_all add: bytes64_def)

lemma length_bytes64 [simp]: "length (bytes64 ws) = 8 * length ws"
  by (induction ws) simp_all

lemma bytes64_words64: "8 dvd length bs \<Longrightarrow> bytes64 (words64 bs) = bs"
proof (induction bs rule: words64.induct)
  case (1 a b c d e f g h bs)
  have "length bs = length (a # b # c # d # e # f # g # h # bs) - 8" by simp
  with 1 have "8 dvd length bs" by (metis dvd_diff_nat dvd_refl)
  with 1 show ?case by (simp add: STORE64_LOAD64)
qed (auto dest: dvd_imp_le)

lemma length_words64: "8 dvd length bs \<Longrightarrow> 8 * length (words64 bs) = length bs"
  by (metis bytes64_words64 length_bytes64)

lemma bytes64_xor:
  "length ws = length vs \<Longrightarrow> bytes64 (map2 (XOR) ws vs) = xor_bytes (bytes64 ws) (bytes64 vs)"
  by (induction ws vs rule: list_induct2) (simp_all add: STORE64_xor)

section \<open>The routine against the reference\<close>

definition block_map :: "nat \<Rightarrow> (bytes \<Rightarrow> bytes) \<Rightarrow> bool" where
  "block_map n E \<longleftrightarrow> (\<forall>b. length b = n \<longrightarrow> length (E b) = n)"

text \<open>One block, as words and as bytes.\<close>

lemma cfb_word_block:
  assumes "block_map (8 * n) E" "length iv64 = n" "length ins = n" "0 < n"
  defines "outs \<equiv> map2 (XOR) ins (words64 (E (bytes64 iv64)))"
  shows "length (words64 (E (bytes64 iv64))) = n"
    "cfb_run dec E (bytes64 iv64, 0) (bytes64 ins @ xs) =
       (case cfb_run dec E (bytes64 (if dec then ins else outs), 0) xs of (st, ys) \<Rightarrow> (st, bytes64 outs @ ys))"
proof -
  let ?v = "words64 (E (bytes64 iv64))"
  have len: "length (E (bytes64 iv64)) = 8 * n" using assms(1,2) by (simp add: block_map_def)
  have v: "bytes64 ?v = E (bytes64 iv64)" "length ?v = n"
    using len bytes64_words64 [of "E (bytes64 iv64)"] length_words64 [of "E (bytes64 iv64)"] by simp_all
  then have out: "bytes64 outs = xor_bytes (bytes64 ins) (E (bytes64 iv64))"
    unfolding outs_def using bytes64_xor [of ins ?v] assms(3) by simp
  have "bytes64 iv64 \<noteq> []" using assms(2,4) length_bytes64 [of iv64] by (metis list.size(3) mult_is_0 not_less_iff_gr_or_eq zero_neq_numeral)
  with cfb_run_block [of "bytes64 ins" "bytes64 iv64" E dec xs] len out assms(2,3)
  show "cfb_run dec E (bytes64 iv64, 0) (bytes64 ins @ xs) =
       (case cfb_run dec E (bytes64 (if dec then ins else outs), 0) xs of (st, ys) \<Rightarrow> (st, bytes64 outs @ ys))"
    by simp
  show "length ?v = n" by (rule v)
qed

lemma cfb_words16_run:
  assumes "block_map 16 E" "length iv64 = 2" "even (length ws)"
  shows "length (fst (cfb_words16 dec E iv64 ws)) = 2 \<and>
    cfb_run dec E (bytes64 iv64, 0) (bytes64 ws) =
      ((bytes64 (fst (cfb_words16 dec E iv64 ws)), 0), bytes64 (snd (cfb_words16 dec E iv64 ws)))"
  using assms
proof (induction dec E iv64 ws rule: cfb_words16.induct)
  case (1 dec E iv64 in0 in1 ws)
  define v where "v = words64 (E (bytes64 iv64))"
  note b = cfb_word_block(1) [of 2 E iv64 "[in0, in1]", folded v_def]
    cfb_word_block(2) [of 2 E iv64 "[in0, in1]" dec "bytes64 ws", folded v_def]
  obtain v0 v1 where v: "v = [v0, v1]" using b(1) "1.prems" by (auto simp: list_of_length_2)
  show ?case
    using "1.IH" [OF v_def refl refl] "1.prems" b(2)
    by (cases dec) (simp_all add: v Let_def split_def flip: v_def)
qed auto

lemma cfb_words8_run:
  assumes "block_map 8 E" "length iv64 = 1"
  shows "length (fst (cfb_words8 dec E iv64 ws)) = 1 \<and>
    cfb_run dec E (bytes64 iv64, 0) (bytes64 ws) =
      ((bytes64 (fst (cfb_words8 dec E iv64 ws)), 0), bytes64 (snd (cfb_words8 dec E iv64 ws)))"
  using assms
proof (induction dec E iv64 ws rule: cfb_words8.induct)
  case (1 dec E iv64 in0 ws)
  define v where "v = words64 (E (bytes64 iv64))"
  note b = cfb_word_block(1) [of 1 E iv64 "[in0]", folded v_def]
    cfb_word_block(2) [of 1 E iv64 "[in0]" dec "bytes64 ws", folded v_def]
  obtain v0 where v: "v = [v0]" using b(1) "1.prems" by (auto simp: list_of_length_1)
  show ?case
    using "1.IH" [OF v_def refl] "1.prems" b(2)
    by (cases dec) (simp_all add: v Let_def split_def flip: v_def)
qed auto

text \<open>
  The loop over the full blocks leaves less than a block, and what is lost of the number of bytes
  by the mask.
\<close>

lemma full_blocks_bounds:
  assumes "bl = 8 \<or> bl = 16"
  shows "bl dvd full_blocks bl n" "full_blocks bl n \<le> n mod 2 ^ 32" "n < 2 ^ 32 \<Longrightarrow> n - full_blocks bl n < bl"
    "full_blocks bl n = 0 \<Longrightarrow> n mod 2 ^ 32 < bl"
proof -
  have m: "full_blocks bl n = n mod 2 ^ 32 - n mod 2 ^ 32 mod bl"
  proof -
    have "n div a mod b * a = n mod (a * b) - n mod (a * b) mod a" for a b
      using mod_mult2_eq [of n a b] by (simp add: mod_mod_cancel)
    from this [of 16 "2 ^ 28"] this [of 8 "2 ^ 29"] show ?thesis using assms by (auto simp: full_blocks_eq)
  qed
  show "bl dvd full_blocks bl n" "full_blocks bl n \<le> n mod 2 ^ 32" unfolding m by (auto simp: minus_mod_eq_mult_div)
  show "n - full_blocks bl n < bl" if "n < 2 ^ 32" using that assms by (auto simp: m)
  show "n mod 2 ^ 32 < bl" if "full_blocks bl n = 0" using that assms unfolding m by auto
qed

lemma div_diff_le_mod: "n \<le> a mod m \<Longrightarrow> (a - n) div m = a div m" for a m n :: nat
proof (cases "m = 0")
  case False
  assume "n \<le> a mod m"
  then have "a - n = a mod m - n + a div m * m" using div_mult_mod_eq [of a m] by linarith
  with False show ?thesis by (simp add: less_imp_diff_less)
qed simp

lemma cfb_blocks_run:
  assumes "bl = 8 \<or> bl = 16" "block_map bl E" "length iv64 * 8 = bl"
  shows "\<exists>iv' out done rest. cfb_blocks dec E bl iv64 xs = (iv', out, rest) \<and> length iv' * 8 = bl \<and>
    xs = done @ rest \<and> cfb_run dec E (bytes64 iv64, 0) done = ((bytes64 iv', 0), out) \<and>
    full_blocks bl (length rest) = 0 \<and> length rest div 2 ^ 32 = length xs div 2 ^ 32"
  using assms
proof (induction dec E bl iv64 xs rule: cfb_blocks.induct)
  case (1 dec E bl iv64 xs)
  show ?case
  proof (cases "full_blocks bl (length xs) = 0")
    case True
    then have "cfb_blocks dec E bl iv64 xs = (iv64, [], xs)" by (simp add: cfb_blocks.simps [of dec])
    with True "1.prems" show ?thesis by (intro exI [of _ iv64] exI [of _ "[]"] exI [of _ xs]) simp
  next
    case False
    define n where "n = min (full_blocks bl (length xs)) 4096"
    note fb = full_blocks_bounds [OF "1.prems"(1), of "length xs"]
    have dvd: "bl dvd n" using fb(1) "1.prems"(1) unfolding n_def min_def by auto
    then have dvd8: "8 dvd n" using "1.prems"(1) by (auto elim: dvd_trans [rotated])
    have le: "n \<le> length xs mod 2 ^ 32" "n \<le> length xs" using fb(2) full_blocks_le [of bl "length xs"] by (simp_all add: n_def)
    obtain iv1 out1 where w: "(if bl = 16 then cfb_words16 else cfb_words8) dec E iv64 (words64 (take n xs)) = (iv1, out1)"
      by (cases "(if bl = 16 then cfb_words16 else cfb_words8) dec E iv64 (words64 (take n xs))")
    have len: "length (take n xs) = n" "8 * length (words64 (take n xs)) = n" "bytes64 (words64 (take n xs)) = take n xs"
      using le(2) dvd8 bytes64_words64 [of "take n xs"] length_words64 [of "take n xs"] by simp_all
    have run1: "length iv1 * 8 = bl" "cfb_run dec E (bytes64 iv64, 0) (take n xs) = ((bytes64 iv1, 0), bytes64 out1)"
    proof (atomize(full), cases "bl = 16")
      case True
      obtain k where "n = 16 * k" using dvd True by (auto elim: dvdE)
      then have "even (length (words64 (take n xs)))" using len(2) by simp
      with cfb_words16_run [of E iv64 "words64 (take n xs)" dec] "1.prems" w True len(3)
      show "length iv1 * 8 = bl \<and> cfb_run dec E (bytes64 iv64, 0) (take n xs) = ((bytes64 iv1, 0), bytes64 out1)" by simp
    next
      case False
      with cfb_words8_run [of E iv64 dec "words64 (take n xs)"] "1.prems" w len(3)
      show "length iv1 * 8 = bl \<and> cfb_run dec E (bytes64 iv64, 0) (take n xs) = ((bytes64 iv1, 0), bytes64 out1)" by simp
    qed
    obtain iv2 out2 d rest where r: "cfb_blocks dec E bl iv1 (drop n xs) = (iv2, out2, rest)" "length iv2 * 8 = bl"
      "drop n xs = d @ rest" "cfb_run dec E (bytes64 iv1, 0) d = ((bytes64 iv2, 0), out2)"
      "full_blocks bl (length rest) = 0" "length rest div 2 ^ 32 = length (drop n xs) div 2 ^ 32"
      using "1.IH" [OF refl False n_def w [symmetric] "1.prems"(1,2) run1(1)] by blast
    have "cfb_blocks dec E bl iv64 xs = (iv2, bytes64 out1 @ out2, rest)"
      using False w r(1) by (simp add: cfb_blocks.simps [of dec E bl iv64] n_def Let_def)
    moreover have "xs = (take n xs @ d) @ rest" using r(3) by (metis append_assoc append_take_drop_id)
    moreover have "cfb_run dec E (bytes64 iv64, 0) (take n xs @ d) = ((bytes64 iv2, 0), bytes64 out1 @ out2)"
      by (simp add: cfb_run_append run1(2) r(4))
    moreover have "length (drop n xs) div 2 ^ 32 = length xs div 2 ^ 32"
      using div_diff_le_mod [OF le(1)] by simp
    ultimately show ?thesis using r(2,5,6) by metis
  qed
qed

text \<open>
  The states that \<^const>\<open>pgp_cipher_start\<close> gives and the routine keeps, and their part that the reference
  works on: the register, as long as the block, and the number of keystream bytes left in it.
\<close>

definition crypt_ok :: "pgp_crypt \<Rightarrow> bool" where
  "crypt_ok crypt \<longleftrightarrow> length (cr_iv crypt) = PGP_MAX_BLOCK_SIZE \<and> (cr_blocksize crypt = 8 \<or> cr_blocksize crypt = 16) \<and>
     cr_remaining crypt \<le> cr_blocksize crypt"

definition cfb_state :: "pgp_crypt \<Rightarrow> bytes \<times> nat" where
  "cfb_state crypt = (take (cr_blocksize crypt) (cr_iv crypt), cr_remaining crypt)"

definition with_state :: "pgp_crypt \<Rightarrow> bytes \<times> nat \<Rightarrow> pgp_crypt" where
  "with_state crypt st = crypt\<lparr>cr_iv := fst st @ drop (cr_blocksize crypt) (cr_iv crypt), cr_remaining := snd st\<rparr>"

lemma with_state_fields [simp]:
  "cr_alg (with_state c st) = cr_alg c" "cr_blocksize (with_state c st) = cr_blocksize c"
  "cr_obj (with_state c st) = cr_obj c" "cr_remaining (with_state c st) = snd st"
  by (simp_all add: with_state_def)

lemma with_state_same [simp]: "with_state c (cfb_state c) = c"
  by (simp add: with_state_def cfb_state_def)

lemma with_state_twice [simp]:
  "length (fst st) = cr_blocksize c \<Longrightarrow> with_state (with_state c st) st' = with_state c st'"
  "length (fst st) = cr_blocksize c \<Longrightarrow> cfb_state (with_state c st) = st"
  by (simp_all add: with_state_def cfb_state_def)

lemma crypt_ok_with_state:
  "crypt_ok c \<Longrightarrow> length (fst st) = cr_blocksize c \<Longrightarrow> snd st \<le> cr_blocksize c \<Longrightarrow> crypt_ok (with_state c st)"
  by (auto simp: crypt_ok_def with_state_def PGP_MAX_BLOCK_SIZE_def)

text \<open>The reference keeps the length of the register.\<close>

lemma cfb_run_length:
  assumes "block_map n E" "length (fst st) = n" "snd st \<le> n"
  shows "length (fst (fst (cfb_run dec E st xs))) = n \<and> snd (fst (cfb_run dec E st xs)) \<le> n"
  using assms(2,3)
proof (induction xs arbitrary: st)
  case (Cons x xs)
  obtain iv left where nx: "cfb_next E st = (iv, left)" by (cases "cfb_next E st")
  then have "length iv = n" "left \<le> n"
    using Cons.prems assms(1) by (auto simp: cfb_next_def block_map_def split: prod.splits if_splits)
  with Cons.IH [of "(iv[length iv - left := if dec then x else x XOR iv ! (length iv - left)], left - 1)"]
  show ?case by (cases dec) (simp_all add: nx Let_def split_def)
qed simp

lemma cfb_byte_run:
  assumes "crypt_ok c" "0 < cr_remaining c"
  shows "cfb_byte dec c x = (case cfb_run dec E (cfb_state c) [x] of (st, ys) \<Rightarrow> Some (with_state c st, hd ys))"
proof -
  let ?i = "cr_blocksize c - cr_remaining c"
  have i: "?i < cr_blocksize c" "?i < length (cr_iv c)" "cr_blocksize c \<le> length (cr_iv c)"
    using assms by (auto simp: crypt_ok_def PGP_MAX_BLOCK_SIZE_def)
  have upd: "(cr_iv c)[?i := v] = (take (cr_blocksize c) (cr_iv c))[?i := v] @ drop (cr_blocksize c) (cr_iv c)" for v
    using i by (metis append_take_drop_id length_take list_update_append1 min.absorb2)
  show ?thesis using assms i
    by (simp add: cfb_byte_def cfb_state_def with_state_def cfb_next_def upd crypt_ok_def min_def Let_def)
qed

lemma cfb_state_length: "crypt_ok c \<Longrightarrow> length (fst (cfb_state c)) = cr_blocksize c"
  by (auto simp: crypt_ok_def cfb_state_def PGP_MAX_BLOCK_SIZE_def)

text \<open>What the routine does, for everything but sizes that its mask cannot represent.\<close>

lemma cfb_head_run:
  assumes "crypt_ok c" "block_map (cr_blocksize c) E"
  shows "cfb_head dec c xs =
    (case cfb_run dec E (cfb_state c) (take (cr_remaining c) xs) of
       (st, ys) \<Rightarrow> Some (with_state c st, ys, drop (cr_remaining c) xs))"
  using assms
proof (induction xs arbitrary: c)
  case (Cons x xs)
  show ?case
  proof (cases "cr_remaining c")
    case (Suc k)
    obtain st y where st: "cfb_run dec E (cfb_state c) [x] = (st, [y])" by (auto simp: Let_def split_def)
    have len: "length (fst st) = cr_blocksize c" "snd st = k"
      using cfb_run_length [OF Cons.prems(2), of "cfb_state c" dec "[x]"] cfb_state_length [OF Cons.prems(1)] Cons.prems(1) st Suc
      by (auto simp: crypt_ok_def cfb_state_def cfb_next_def Let_def)
    have "snd st \<le> cr_blocksize c" using Cons.prems(1) len(2) Suc by (simp add: crypt_ok_def)
    then have "crypt_ok (with_state c st)" by (rule crypt_ok_with_state [OF Cons.prems(1) len(1)])
    from Cons.IH [OF this] Cons.prems(2) cfb_byte_run [OF Cons.prems(1), of dec x E] Suc st len
      cfb_run_append [of dec E "cfb_state c" "[x]" "take k xs"]
    show ?thesis by (simp add: split_def del: cfb_run.simps)
  qed simp
qed simp

lemma cfb_tail_head:
  "length xs \<le> cr_remaining c \<Longrightarrow> cfb_tail dec c xs = map_option (\<lambda>(c', ys, rest). (c', ys)) (cfb_head dec c xs)"
proof (induction xs arbitrary: c)
  case (Cons x xs)
  have "cr_remaining c' = cr_remaining c - 1" if "cfb_byte dec c x = Some (c', y)" for c' y
    using that Cons.prems by (auto simp: cfb_byte_def Let_def split: if_splits)
  with Cons show ?case by (cases "cfb_byte dec c x") (auto simp: option.map_comp comp_def split_def split: Option.bind_split)
qed simp

lemma cfb_tail_run:
  assumes "crypt_ok c" "block_map (cr_blocksize c) E" "length xs \<le> cr_remaining c"
  shows "cfb_tail dec c xs = (case cfb_run dec E (cfb_state c) xs of (st, ys) \<Rightarrow> Some (with_state c st, ys))"
  using cfb_head_run [OF assms(1,2), of dec xs] cfb_tail_head [OF assms(3), of dec] assms(3) by (simp add: split_def)

lemma cfb_run_left: "length xs \<le> snd st \<Longrightarrow> snd (fst (cfb_run dec E st xs)) = snd st - length xs"
proof (induction xs arbitrary: st)
  case (Cons x xs)
  then have "cfb_next E st = st" by (cases st) (simp add: cfb_next_def)
  with Cons show ?case by (cases st) (simp add: Let_def split_def)
qed simp

lemma cfb_run_refill: "xs \<noteq> [] \<Longrightarrow> cfb_run dec E (iv, 0) xs = cfb_run dec E (E iv, length iv) xs" if "iv \<noteq> []" "length (E iv) = length iv"
  using that by (cases xs) (simp_all add: cfb_next_def)

lemma cfb_middle_run:
  assumes "crypt_ok c" "block_map (cr_blocksize c) E" "length iv = cr_blocksize c" "c1 = with_state c (iv, 0)"
  obtains iv' out d rest where "cfb_middle dec E (cr_blocksize c) c1 xs = (with_state c (iv', 0), out, rest)"
    "length iv' = cr_blocksize c" "xs = d @ rest" "cfb_run dec E (iv, 0) d = ((iv', 0), out)"
    "length rest \<le> cr_blocksize c \<or> 2 ^ 32 \<le> length rest" "length rest div 2 ^ 32 = length xs div 2 ^ 32"
proof (cases "cr_blocksize c < length xs")
  case False
  then have "cfb_middle dec E (cr_blocksize c) c1 xs = (with_state c (iv, 0), [], xs)"
    by (simp add: cfb_middle_def assms(4))
  with False show thesis using that [of iv "[]" xs "[]"] assms(3) by simp
next
  case True
  let ?bl = "cr_blocksize c"
  have bl: "?bl = 8 \<or> ?bl = 16" "8 dvd length iv" using assms(1,3) by (auto simp: crypt_ok_def)
  have iv64: "take ?bl (cr_iv c1) = iv" "bytes64 (words64 iv) = iv" "length (words64 iv) * 8 = ?bl"
    using assms(3,4) bytes64_words64 [OF bl(2)] length_words64 [OF bl(2)] by (simp_all add: with_state_def)
  obtain iv' out d rest where r: "cfb_blocks dec E ?bl (words64 iv) xs = (iv', out, rest)" "length iv' * 8 = ?bl"
    "xs = d @ rest" "cfb_run dec E (iv, 0) d = ((bytes64 iv', 0), out)"
    "full_blocks ?bl (length rest) = 0" "length rest div 2 ^ 32 = length xs div 2 ^ 32"
    using cfb_blocks_run [OF bl(1) assms(2) iv64(3), of dec xs] unfolding iv64(2) by blast
  have "cfb_middle dec E ?bl c1 xs = (with_state c (bytes64 iv', 0), out, rest)"
    using True r(1,2) assms(3,4) iv64(1) by (simp add: cfb_middle_def with_state_def)
  moreover have "length rest < ?bl \<or> 2 ^ 32 \<le> length rest"
    using full_blocks_bounds(4) [OF bl(1) r(5)] by (metis mod_less not_le)
  ultimately show thesis using that [of "bytes64 iv'" out rest d] r(2-4,6) by auto
qed

text \<open>The three steps together, whatever the number of bytes.\<close>

lemma cfb_crypt_steps:
  assumes "crypt_ok c" "block_map (cr_blocksize c) E" "E = encrypt_block bc (cr_obj c)"
    and "drop (cr_remaining c) xs \<noteq> []"
  obtains st iv2 ys1 out d rest where "cfb_run dec E (cfb_state c) (take (cr_remaining c) xs) = (st, ys1)"
    "drop (cr_remaining c) xs = d @ rest" "cfb_run dec E st d = ((iv2, 0), out)"
    "length rest \<le> cr_blocksize c \<or> 2 ^ 32 \<le> length rest"
    "length rest div 2 ^ 32 = (length xs - cr_remaining c) div 2 ^ 32" "length iv2 = cr_blocksize c" "length (E iv2) = cr_blocksize c"
    "cfb_crypt dec bc c xs =
        (if rest = [] then Some (with_state c (iv2, 0), ys1 @ out)
         else do { (c3, out3) \<leftarrow> cfb_tail dec (with_state c (E iv2, cr_blocksize c)) rest; Some (c3, ys1 @ out @ out3) })"
proof -
  let ?bl = "cr_blocksize c" and ?x1 = "take (cr_remaining c) xs" and ?x2 = "drop (cr_remaining c) xs"
  obtain st1 ys1 where st1: "cfb_run dec E (cfb_state c) ?x1 = (st1, ys1)" by (cases "cfb_run dec E (cfb_state c) ?x1")
  note head = cfb_head_run [OF assms(1,2), of dec xs, unfolded st1, simplified]
  have len1: "length (fst st1) = ?bl"
    using cfb_run_length [OF assms(2) cfb_state_length [OF assms(1)], of dec ?x1] assms(1) st1
    by (simp add: cfb_state_def crypt_ok_def)
  have "snd st1 = 0" using cfb_run_left [of ?x1 "cfb_state c" dec E] st1 assms(4) by (simp add: cfb_state_def)
  then obtain iv1 where iv1: "st1 = (iv1, 0)" "length iv1 = ?bl" using len1 by (cases st1) auto
  obtain iv2 out d rest where m: "cfb_middle dec E ?bl (with_state c st1) ?x2 = (with_state c (iv2, 0), out, rest)"
    "length iv2 = ?bl" "?x2 = d @ rest" "cfb_run dec E (iv1, 0) d = ((iv2, 0), out)"
    "length rest \<le> ?bl \<or> 2 ^ 32 \<le> length rest" "length rest div 2 ^ 32 = length ?x2 div 2 ^ 32"
    by (rule cfb_middle_run [OF assms(1,2) iv1(2), of "with_state c st1" dec ?x2]) (simp add: iv1(1))
  have Eiv: "length (E iv2) = ?bl" using assms(2) m(2) by (simp add: block_map_def)
  have refill: "cfb_refill E ?bl (with_state c (iv2, 0)) = with_state c (E iv2, ?bl)"
    using m(2) Eiv by (simp add: with_state_def cfb_refill_def)
  have "cfb_crypt dec bc c xs =
      (if rest = [] then Some (with_state c (iv2, 0), ys1 @ out)
       else do { (c3, out3) \<leftarrow> cfb_tail dec (with_state c (E iv2, ?bl)) rest; Some (c3, ys1 @ out @ out3) })"
    using assms(4) head m(1) refill unfolding cfb_crypt_def Let_def assms(3) [symmetric] by simp
  from that [OF st1 m(3) m(4) [folded iv1(1)] m(5) _ m(2) Eiv this] m(6) show thesis by simp
qed

lemma cfb_crypt_run:
  assumes "crypt_ok c" "block_map (cr_blocksize c) (encrypt_block bc (cr_obj c))" "length xs < 2 ^ 32 + cr_remaining c"
  shows "cfb_crypt dec bc c xs =
    (case cfb_run dec (encrypt_block bc (cr_obj c)) (cfb_state c) xs of (st, ys) \<Rightarrow> Some (with_state c st, ys))"
proof (cases "drop (cr_remaining c) xs = []")
  case True
  with cfb_head_run [OF assms(1,2), of dec xs] show ?thesis by (simp add: cfb_crypt_def split_def)
next
  case False
  define E where "E = encrypt_block bc (cr_obj c)"
  note E = assms(2) [folded E_def]
  let ?bl = "cr_blocksize c"
  obtain st iv2 ys1 out d rest where s: "cfb_run dec E (cfb_state c) (take (cr_remaining c) xs) = (st, ys1)"
    "drop (cr_remaining c) xs = d @ rest" "cfb_run dec E st d = ((iv2, 0), out)"
    "length rest \<le> ?bl \<or> 2 ^ 32 \<le> length rest" "length iv2 = ?bl" "length (E iv2) = ?bl"
    "cfb_crypt dec bc c xs =
        (if rest = [] then Some (with_state c (iv2, 0), ys1 @ out)
         else do { (c3, out3) \<leftarrow> cfb_tail dec (with_state c (E iv2, ?bl)) rest; Some (c3, ys1 @ out @ out3) })"
    by (rule cfb_crypt_steps [OF assms(1) E E_def False])
  have "length d + length rest = length xs - cr_remaining c" using s(2) by (metis length_append length_drop)
  with s(4) assms(3) have rest: "length rest \<le> ?bl" by linarith
  have ok: "crypt_ok (with_state c (E iv2, ?bl))" by (rule crypt_ok_with_state [OF assms(1)]) (simp_all add: s(6))
  have tail: "cfb_tail dec (with_state c (E iv2, ?bl)) rest =
      (case cfb_run dec E (E iv2, ?bl) rest of (st, ys) \<Rightarrow> Some (with_state c st, ys))"
    using cfb_tail_run [OF ok, of E rest dec] E rest s(6) by simp
  have iv2: "iv2 \<noteq> []" using s(5) assms(1) by (auto simp: crypt_ok_def)
  have "cfb_run dec E (cfb_state c) (take (cr_remaining c) xs @ d @ rest) =
      (case cfb_run dec E (iv2, 0) rest of (st, ys) \<Rightarrow> (st, ys1 @ out @ ys))"
    by (simp add: cfb_run_append s(1,3) split_def)
  then have run: "cfb_run dec E (cfb_state c) xs = (case cfb_run dec E (iv2, 0) rest of (st, ys) \<Rightarrow> (st, ys1 @ out @ ys))"
    by (simp flip: s(2))
  show ?thesis unfolding E_def [symmetric] run s(7) tail
    using cfb_run_refill [OF iv2, of E rest dec] s(5,6) by (simp add: split_def)
qed

text \<open>
  With more than four gigabytes behind the block boundary, the last loop leaves the register.
\<close>

lemma cfb_tail_overrun:
  assumes "length (cr_iv c) = PGP_MAX_BLOCK_SIZE" "cr_blocksize c \<le> 16" "cr_remaining c < 2 ^ 64"
    and "PGP_MAX_BLOCK_SIZE < sub64 (cr_blocksize c) (cr_remaining c) + length xs"
    and "sub64 (cr_blocksize c) (cr_remaining c) \<le> PGP_MAX_BLOCK_SIZE"
  shows "cfb_tail dec c xs = None"
  using assms
proof (induction xs arbitrary: c)
  case (Cons x xs)
  let ?i = "sub64 (cr_blocksize c) (cr_remaining c)"
  show ?case
  proof (cases "?i < PGP_MAX_BLOCK_SIZE")
    case True
    have "sub64 (cr_blocksize c) (sub64 (cr_remaining c) 1) = Suc ?i" "sub64 (cr_remaining c) 1 < 2 ^ 64"
      using True Cons.prems(2,3) by (auto simp: sub64_def PGP_MAX_BLOCK_SIZE_def split: if_splits)
    with Cons True show ?thesis by (simp add: cfb_byte_def Let_def)
  qed (simp add: cfb_byte_def Cons.prems(1) Let_def)
qed simp

lemma cfb_crypt_overrun:
  assumes "crypt_ok c" "block_map (cr_blocksize c) (encrypt_block bc (cr_obj c))" "2 ^ 32 + cr_remaining c \<le> length xs"
  shows "cfb_crypt dec bc c xs = None"
proof -
  define E where "E = encrypt_block bc (cr_obj c)"
  note E = assms(2) [folded E_def]
  let ?bl = "cr_blocksize c"
  have False: "drop (cr_remaining c) xs \<noteq> []" using assms(3) by auto
  obtain iv2 ys1 out rest where s:
    "length rest div 2 ^ 32 = (length xs - cr_remaining c) div 2 ^ 32" "length (E iv2) = ?bl"
    "cfb_crypt dec bc c xs =
        (if rest = [] then Some (with_state c (iv2, 0), ys1 @ out)
         else do { (c3, out3) \<leftarrow> cfb_tail dec (with_state c (E iv2, ?bl)) rest; Some (c3, ys1 @ out @ out3) })"
    by (rule cfb_crypt_steps [OF assms(1) E E_def False])
  have "1 \<le> length rest div 2 ^ 32" unfolding s(1) using assms(3) by (simp add: Suc_le_eq div_greater_zero_iff)
  then have long: "2 ^ 32 \<le> length rest" by (simp add: Suc_le_eq div_greater_zero_iff)
  have ok: "crypt_ok (with_state c (E iv2, ?bl))" by (rule crypt_ok_with_state [OF assms(1)]) (simp_all add: s(2))
  have "cfb_tail dec (with_state c (E iv2, ?bl)) rest = None"
    by (rule cfb_tail_overrun) (use ok long in \<open>auto simp: crypt_ok_def PGP_MAX_BLOCK_SIZE_def\<close>)
  with s(3) long show ?thesis by auto
qed

end
