(* ===== verification/Encrypted_Streams.thy ===== *)
theory Encrypted_Streams
  imports Symmetric Literal_Packets Signed_Source
begin

text \<open>
  Encrypted data: the destination of \<^verbatim>\<open>src/src/librepgp/stream-write.c\<close>, which writes session key
  packets and a packet of partial length with the data and its modification detection code
  encrypted, and the source of \<^verbatim>\<open>src/src/librepgp/stream-parse.c\<close>.  This theory has the operations.

  Where \<^const>\<open>pgp_cipher_cfb_encrypt\<close> or its inverse has no result, which needs more than four gigabytes at
  once, the caller is given the answer of a failed call.
\<close>

abbreviation (input) PGP_PTAG_CT_SE_DATA :: int where "PGP_PTAG_CT_SE_DATA \<equiv> 9"
abbreviation (input) PGP_PTAG_CT_SE_IP_DATA :: int where "PGP_PTAG_CT_SE_IP_DATA \<equiv> 18"
abbreviation (input) PGP_S2KU_ENCRYPTED_AND_HASHED :: nat where "PGP_S2KU_ENCRYPTED_AND_HASHED \<equiv> 254"
abbreviation (input) PGP_SKSK_V4 :: nat where "PGP_SKSK_V4 \<equiv> 4"
abbreviation (input) PGP_PKSK_V3 :: nat where "PGP_PKSK_V3 \<equiv> 3"
abbreviation (input) MDC_PKT_TAG :: byte where "MDC_PKT_TAG \<equiv> 0xd3"

definition MDC_V1_SIZE :: nat where "MDC_V1_SIZE = 22"

definition PGP_SHA1_HASH_SIZE :: nat where "PGP_SHA1_HASH_SIZE = 20"

section \<open>Writing\<close>

record 'q encrypted_dst_param =
  ed_pkt :: "'q streamed_dst"
  ed_has_mdc :: bool
  ed_encrypt :: pgp_crypt
  ed_ealg :: nat
  ed_mdc :: pgp_hash

text \<open>The loop of \<^verbatim>\<open>encrypted_dst_write\<close> over pieces of the size of its cache.\<close>

function encrypted_write_loop ::
    "block_cipher \<Rightarrow> pgp_crypt \<Rightarrow> 'q streamed_dst \<Rightarrow> bytes \<Rightarrow> (pgp_crypt \<times> 'q streamed_dst) option" where
  "encrypted_write_loop bc crypt sd buf =
     (if buf = [] then Some (crypt, sd)
      else
        (case pgp_cipher_cfb_encrypt bc crypt (take PGP_INPUT_CACHE_SIZE buf) of
           None \<Rightarrow> None
         | Some (crypt', cache) \<Rightarrow>
             encrypted_write_loop bc crypt' (streamed_write sd cache) (drop PGP_INPUT_CACHE_SIZE buf)))"
  by pat_completeness auto
termination
  by (relation "measure (\<lambda>(_, _, _, buf). length buf)") (auto simp: PGP_INPUT_CACHE_SIZE_def)

declare encrypted_write_loop.simps [simp del]

definition encrypted_dst_write ::
    "block_cipher \<Rightarrow> 'q encrypted_dst_param option \<Rightarrow> nat \<Rightarrow> bytes \<Rightarrow> 'q encrypted_dst_param option \<times> rnp_result" where
  "encrypted_dst_write bc p writeb buf =
     (case p of
        None \<Rightarrow> (None, RNP_ERROR_BAD_PARAMETERS)
      | Some param \<Rightarrow>
          let param1 = (if ed_has_mdc param then param\<lparr>ed_mdc := pgp_hash_add (ed_mdc param) buf\<rparr> else param) in
          (case encrypted_write_loop bc (ed_encrypt param1) (ed_pkt param1) buf of
             None \<Rightarrow> (Some param1, RNP_ERROR_GENERIC)
           | Some (crypt, sd) \<Rightarrow> (Some (param1\<lparr>ed_encrypt := crypt, ed_pkt := sd\<rparr>), RNP_SUCCESS)))"

text \<open>
  The code and its digest.  Where \<^verbatim>\<open>pgp_hash_finish\<close> stores no digest, the rest of the buffer is not
  initialised; the model writes zeros.
\<close>

definition mdc_packet :: "bytes \<Rightarrow> bytes" where
  "mdc_packet digest =
     take MDC_V1_SIZE ([MDC_PKT_TAG, to_byte (MDC_V1_SIZE - 2)] @ digest @ replicate PGP_SHA1_HASH_SIZE 0)"

text \<open>The code does not test the pointer to its parameters, which is set from initialisation to close; \<^const>\<open>None\<close> is an error here.\<close>

definition encrypted_dst_finish ::
    "botan \<Rightarrow> block_cipher \<Rightarrow> 'q encrypted_dst_param option \<Rightarrow> 'q encrypted_dst_param option \<times> rnp_result" where
  "encrypted_dst_finish bo bc p =
     (case p of
        None \<Rightarrow> (None, RNP_ERROR_BAD_PARAMETERS)
      | Some param \<Rightarrow>
          (case (if ed_has_mdc param then
                   (case pgp_hash_finish bo (pgp_hash_add (ed_mdc param) [MDC_PKT_TAG, to_byte (MDC_V1_SIZE - 2)]) of
                      (mdc, _, digest) \<Rightarrow>
                        (case pgp_cipher_cfb_encrypt bc (ed_encrypt param) (mdc_packet digest) of
                           None \<Rightarrow> None
                         | Some (crypt, buf) \<Rightarrow>
                             Some (param\<lparr>ed_mdc := mdc, ed_encrypt := crypt,
                                         ed_pkt := streamed_write (ed_pkt param) buf\<rparr>)))
                 else Some param) of
             None \<Rightarrow> (p, RNP_ERROR_GENERIC)
           | Some param1 \<Rightarrow>
               (case finish_streamed_packet (ed_pkt param1) of
                  (sd, res) \<Rightarrow> (Some (param1\<lparr>ed_pkt := sd\<rparr>), res))))"

definition encrypted_dst_close :: "'q encrypted_dst_param option \<Rightarrow> bool \<Rightarrow> 'q encrypted_dst_param option" where
  "encrypted_dst_close p discard = None"

text \<open>\<^verbatim>\<open>rnp_symmetric_pass_info_t\<close>.\<close>

record rnp_symmetric_pass_info =
  pi_s2k :: pgp_s2k
  pi_s2k_cipher :: nat
  pi_key :: bytes

definition zero_s2k :: pgp_s2k where
  "zero_s2k = \<lparr>s2k_usage = 0, s2k_specifier = 0, s2k_hash_alg = 0, s2k_salt = replicate PGP_SALT_SIZE 0, s2k_iterations = 0\<rparr>"

text \<open>
  \<^verbatim>\<open>rnp_encrypt_set_pass_info\<close> and \<^verbatim>\<open>rnp_encrypt_add_password\<close> of \<^verbatim>\<open>src/src/lib/rnp.c\<close>: the key for a password, of the
  largest size since the cipher is not known yet.  The salt is what the random generator gives
  and the password what the provider gives, if they succeed.
\<close>

definition rnp_encrypt_set_pass_info ::
    "pbkdf \<Rightarrow> bytes option \<Rightarrow> string \<Rightarrow> nat \<Rightarrow> nat \<Rightarrow> nat \<Rightarrow> rnp_result + rnp_symmetric_pass_info" where
  "rnp_encrypt_set_pass_info pbkdf salt password hash_alg iterations s2k_cipher =
     (case salt of
        None \<Rightarrow> Inl RNP_ERROR_GENERIC
      | Some bs \<Rightarrow>
          let s2k = \<lparr>s2k_usage = PGP_S2KU_ENCRYPTED_AND_HASHED, s2k_specifier = PGP_S2KS_ITERATED_AND_SALTED,
                     s2k_hash_alg = hash_alg, s2k_salt = bs, s2k_iterations = pgp_s2k_encode_iterations iterations\<rparr>
          in (case pgp_s2k_derive_key pbkdf s2k password PGP_MAX_KEY_SIZE of
                None \<Rightarrow> Inl RNP_ERROR_GENERIC
              | Some key \<Rightarrow> Inr \<lparr>pi_s2k = s2k, pi_s2k_cipher = s2k_cipher, pi_key = key\<rparr>))"

definition PGP_S2K_DEFAULT_ITERATIONS :: nat where "PGP_S2K_DEFAULT_ITERATIONS = 524288"

definition rnp_encrypt_add_password ::
    "alloc \<Rightarrow> pbkdf \<Rightarrow> string option \<Rightarrow> bytes option \<Rightarrow> nat \<Rightarrow> nat \<Rightarrow> rnp_symmetric_pass_info list \<Rightarrow>
     rnp_symmetric_pass_info list \<times> rnp_result" where
  "rnp_encrypt_add_password al pbkdf password salt halg ealg passwords =
     (case password of
        None \<Rightarrow> (passwords, RNP_ERROR_BAD_PASSWORD)
      | Some pw \<Rightarrow>
          (case rnp_encrypt_set_pass_info pbkdf salt pw halg PGP_S2K_DEFAULT_ITERATIONS ealg of
             Inl ret \<Rightarrow> (passwords, ret)
           | Inr info \<Rightarrow>
               if \<not> append_ok al passwords 60 then (passwords, RNP_ERROR_OUT_OF_MEMORY)
               else (passwords @ [info], RNP_SUCCESS)))"

text \<open>
  \<^verbatim>\<open>encrypted_add_password\<close>, which writes to the destination of the packet and may set the key.
\<close>

definition encrypted_add_password ::
    "alloc \<Rightarrow> block_cipher \<Rightarrow> rnp_symmetric_pass_info \<Rightarrow> nat \<Rightarrow> bytes \<Rightarrow> nat \<Rightarrow> bool \<Rightarrow> 'q pgp_dest \<Rightarrow>
     'q pgp_dest \<times> bytes \<times> rnp_result" where
  "encrypted_add_password al bc pass ealg key keylen singlepass origdst =
     (if \<not> singlepass \<and> pgp_key_size ealg = 0 then (origdst, key, RNP_ERROR_BAD_PARAMETERS)
      else
        let skey = \<lparr>sk_version = PGP_SKSK_V4, sk_alg = ealg, sk_s2k = pi_s2k pass, sk_enckey = []\<rparr> in
        (case (if singlepass then Some (skey, mem_write 0 (take keylen (pi_key pass)) key)
               else
                 (case pgp_cipher_start bc (pi_s2k_cipher pass) (pi_key pass) None of
                    (kcrypt, ok) \<Rightarrow>
                      if \<not> ok then None
                      else
                        map_option (\<lambda>(_, enckey). (skey\<lparr>sk_alg := pi_s2k_cipher pass, sk_enckey := enckey\<rparr>, key))
                          (pgp_cipher_cfb_encrypt bc kcrypt (to_byte ealg # take keylen key)))) of
           None \<Rightarrow> (origdst, key, RNP_ERROR_BAD_PARAMETERS)
         | Some (skey', key') \<Rightarrow>
             (case stream_write_sk_sesskey al skey' origdst of
                (d, ok) \<Rightarrow> (d, key', if ok then RNP_SUCCESS else RNP_ERROR_WRITE))))"

text \<open>
  What is needed to encrypt a session key for recipients: the key provider (if there is one), the
  choice of a key or subkey that can encrypt, its algorithm and key identifier, and the
  public-key operations of \<^verbatim>\<open>src/src/lib/crypto\<close>, which call the Botan library.
\<close>

record 'k encryptor =
  en_request_key :: "(string \<Rightarrow> 'k option) option"
  en_suitable :: "'k \<Rightarrow> 'k option"
  en_alg :: "'k \<Rightarrow> nat"
  en_keyid :: "'k \<Rightarrow> bytes option"
  en_rsa :: "bytes \<Rightarrow> 'k \<Rightarrow> bytes option"
  en_sm2 :: "bytes \<Rightarrow> 'k \<Rightarrow> rnp_result + bytes"
  en_ecdh :: "bytes \<Rightarrow> 'k \<Rightarrow> rnp_result + bytes \<times> bytes"
  en_elgamal :: "bytes \<Rightarrow> 'k \<Rightarrow> (bytes \<times> bytes) option"

definition zero_pk_sesskey :: pgp_pk_sesskey_pkt where
  "zero_pk_sesskey = \<lparr>pk_version = 0, pk_key_id = replicate PGP_KEY_ID_SIZE 0, pk_alg = 0, pk_rsa_m = [], pk_eg_g = [],
     pk_eg_m = [], pk_sm2_m = [], pk_ecdh_p = [], pk_ecdh_m = []\<rparr>"

text \<open>The session key with its algorithm in front of it and the sum of its bytes behind it.\<close>

definition key_checksum :: "bytes \<Rightarrow> nat" where
  "key_checksum key = sum_list (map unat key)"

definition checked_key :: "nat \<Rightarrow> bytes \<Rightarrow> bytes" where
  "checked_key ealg key =
     [to_byte ealg] @ key @ [to_byte (drop_bit 8 (key_checksum key)), to_byte (key_checksum key)]"

definition encrypt_sesskey ::
    "'k encryptor \<Rightarrow> 'k \<Rightarrow> bytes \<Rightarrow> pgp_pk_sesskey_pkt \<Rightarrow> rnp_result + pgp_pk_sesskey_pkt" where
  "encrypt_sesskey en pubkey enckey pkey =
     (if en_alg en pubkey = PGP_PKA_RSA \<or> en_alg en pubkey = PGP_PKA_RSA_ENCRYPT_ONLY then
        (case en_rsa en enckey pubkey of None \<Rightarrow> Inl RNP_ERROR_GENERIC | Some m \<Rightarrow> Inr (pkey\<lparr>pk_rsa_m := m\<rparr>))
      else if en_alg en pubkey = PGP_PKA_SM2 then
        (case en_sm2 en enckey pubkey of Inl ret \<Rightarrow> Inl ret | Inr m \<Rightarrow> Inr (pkey\<lparr>pk_sm2_m := m\<rparr>))
      else if en_alg en pubkey = PGP_PKA_ECDH then
        (case en_ecdh en enckey pubkey of Inl ret \<Rightarrow> Inl ret | Inr (p, m) \<Rightarrow> Inr (pkey\<lparr>pk_ecdh_p := p, pk_ecdh_m := m\<rparr>))
      else if en_alg en pubkey = PGP_PKA_ELGAMAL \<or> en_alg en pubkey = PGP_PKA_ELGAMAL_ENCRYPT_OR_SIGN then
        (case en_elgamal en enckey pubkey of
           None \<Rightarrow> Inl RNP_ERROR_GENERIC
         | Some (g, m) \<Rightarrow> Inr (pkey\<lparr>pk_eg_g := g, pk_eg_m := m\<rparr>))
      else Inl RNP_ERROR_GENERIC)"

definition encrypted_add_recipient ::
    "alloc \<Rightarrow> 'k encryptor \<Rightarrow> string \<Rightarrow> nat \<Rightarrow> bytes \<Rightarrow> nat \<Rightarrow> 'q pgp_dest \<Rightarrow> 'q pgp_dest \<times> rnp_result" where
  "encrypted_add_recipient al en userid ealg key keylen origdst =
     (case en_request_key en of
        None \<Rightarrow> (origdst, RNP_ERROR_BAD_PARAMETERS)
      | Some provider \<Rightarrow>
          (case provider userid of
             None \<Rightarrow> (origdst, RNP_ERROR_BAD_PARAMETERS)
           | Some userkey \<Rightarrow>
               (case en_suitable en userkey of
                  None \<Rightarrow> (origdst, RNP_ERROR_NO_SUITABLE_KEY)
                | Some pubkey \<Rightarrow>
                    (case en_keyid en pubkey of
                       None \<Rightarrow> (origdst, RNP_ERROR_BAD_PARAMETERS)
                     | Some keyid \<Rightarrow>
                         (case encrypt_sesskey en pubkey (checked_key ealg (take keylen key))
                                 (zero_pk_sesskey\<lparr>pk_version := PGP_PKSK_V3, pk_alg := en_alg en pubkey, pk_key_id := keyid\<rparr>) of
                            Inl ret \<Rightarrow> (origdst, ret)
                          | Inr pkey \<Rightarrow>
                              (case stream_write_pk_sesskey al pkey origdst of
                                 (d, ok) \<Rightarrow> (d, if ok then RNP_SUCCESS else RNP_ERROR_WRITE)))))))"

fun encrypted_add_recipients ::
    "alloc \<Rightarrow> 'k encryptor \<Rightarrow> string list \<Rightarrow> nat \<Rightarrow> bytes \<Rightarrow> nat \<Rightarrow> 'q pgp_dest \<Rightarrow> 'q pgp_dest \<times> rnp_result" where
  "encrypted_add_recipients al en [] ealg key keylen d = (d, RNP_SUCCESS)"
| "encrypted_add_recipients al en (userid # ids) ealg key keylen d =
     (case encrypted_add_recipient al en userid ealg key keylen d of
        (d', ret) \<Rightarrow> if ret \<noteq> RNP_SUCCESS then (d', ret) else encrypted_add_recipients al en ids ealg key keylen d')"

text \<open>The results of adding passwords are not used.\<close>

fun encrypted_add_passwords ::
    "alloc \<Rightarrow> block_cipher \<Rightarrow> rnp_symmetric_pass_info list \<Rightarrow> nat \<Rightarrow> bytes \<Rightarrow> nat \<Rightarrow> bool \<Rightarrow> 'q pgp_dest \<Rightarrow>
     'q pgp_dest \<times> bytes" where
  "encrypted_add_passwords al bc [] ealg key keylen singlepass d = (d, key)"
| "encrypted_add_passwords al bc (pass # passes) ealg key keylen singlepass d =
     (case encrypted_add_password al bc pass ealg key keylen singlepass d of
        (d', key', _) \<Rightarrow> encrypted_add_passwords al bc passes ealg key' keylen singlepass d')"

text \<open>
  The operation's context: the algorithm, the recipients, the passwords with the keys
  derived from them, and the random bytes of the two calls of the generator.
\<close>

record encrypt_ctx =
  ec_ealg :: nat
  ec_recipients :: "string list"
  ec_passwords :: "rnp_symmetric_pass_info list"
  ec_rng_key :: "nat \<Rightarrow> bytes option"
  ec_rng_hdr :: "nat \<Rightarrow> bytes option"

text \<open>The random block with its last two bytes repeated.\<close>

definition check_bytes :: "bytes \<Rightarrow> bytes" where
  "check_bytes block = block @ [block ! (length block - 2), block ! (length block - 1)]"

text \<open>
  The second half of \<^verbatim>\<open>init_encrypted_dst\<close>: the packet, the code, the cipher and the check bytes.
  On failure the partial length destination is closed and discarded.
\<close>

definition init_encrypted_packet ::
    "alloc \<Rightarrow> botan \<Rightarrow> block_cipher \<Rightarrow> encrypt_ctx \<Rightarrow> bytes \<Rightarrow> 'q pgp_dest \<Rightarrow>
     ('q pgp_dest option \<times> rnp_result) + 'q encrypted_dst_param" where
  "init_encrypted_packet al bo bc ctx enckey d =
     (case init_streamed_packet al
             \<lparr>pkt_partial = True, pkt_indeterminate = False, pkt_tag = nat PGP_PTAG_CT_SE_IP_DATA\<rparr> d of
        Inl d1 \<Rightarrow> Inl (Some d1, RNP_ERROR_BAD_PARAMETERS)
      | Inr sd \<Rightarrow>
          let sd1 = streamed_write sd [1] in
          (case pgp_hash_create bo zero_hash PGP_HASH_SHA1 of
             (mdc, ok) \<Rightarrow>
               if \<not> ok then Inl (close_streamed_packet sd1 True, RNP_ERROR_GENERIC)
               else
                 (case pgp_cipher_start bc (ec_ealg ctx) enckey None of
                    (crypt, ok) \<Rightarrow>
                      if \<not> ok then Inl (close_streamed_packet sd1 True, RNP_ERROR_BAD_PARAMETERS)
                      else
                        (case ec_rng_hdr ctx (pgp_block_size (ec_ealg ctx)) of
                           None \<Rightarrow> Inl (close_streamed_packet sd1 True, RNP_ERROR_RNG)
                         | Some block \<Rightarrow>
                             let enchdr = check_bytes block in
                             (case pgp_cipher_cfb_encrypt bc crypt enchdr of
                                None \<Rightarrow> Inl (close_streamed_packet sd1 True, RNP_ERROR_GENERIC)
                              | Some (crypt1, buf) \<Rightarrow>
                                  Inr \<lparr>ed_pkt = streamed_write sd1 buf, ed_has_mdc = True, ed_encrypt = crypt1,
                                       ed_ealg = ec_ealg ctx, ed_mdc = pgp_hash_add mdc enchdr\<rparr>)))))"

definition init_encrypted_dst ::
    "alloc \<Rightarrow> botan \<Rightarrow> block_cipher \<Rightarrow> 'k encryptor \<Rightarrow> encrypt_ctx \<Rightarrow> 'q pgp_dest \<Rightarrow>
     ('q pgp_dest option \<times> rnp_result) + 'q encrypted_dst_param option pgp_dest" where
  "init_encrypted_dst al bo bc en ctx writedst =
     (let keylen = pgp_key_size (ec_ealg ctx) in
      if keylen = 0 then Inl (Some writedst, RNP_ERROR_BAD_PARAMETERS)
      else
        (case init_dst_common al 32888 None None of
           (dst, ok) \<Rightarrow>
             if \<not> ok then Inl (Some writedst, RNP_ERROR_OUT_OF_MEMORY)
             else
               let singlepass = (ec_recipients ctx = [] \<and> length (ec_passwords ctx) \<le> 1);
                   zeros = replicate PGP_MAX_KEY_SIZE 0
               in (case (if singlepass then Some zeros
                         else map_option (\<lambda>k. mem_write 0 k zeros) (ec_rng_key ctx keylen)) of
                     None \<Rightarrow> Inl (Some writedst, RNP_ERROR_RNG)
                   | Some enckey \<Rightarrow>
                       (case encrypted_add_recipients al en (ec_recipients ctx) (ec_ealg ctx) enckey keylen writedst of
                          (d1, ret) \<Rightarrow>
                            if ret \<noteq> RNP_SUCCESS then Inl (Some d1, ret)
                            else
                              (case encrypted_add_passwords al bc (ec_passwords ctx) (ec_ealg ctx) enckey keylen singlepass d1 of
                                 (d2, enckey1) \<Rightarrow>
                                   (case init_encrypted_packet al bo bc ctx enckey1 d2 of
                                      Inl e \<Rightarrow> Inl e
                                    | Inr param \<Rightarrow>
                                        Inr (dst\<lparr>dst_param := Some param, dst_wrf := Some (encrypted_dst_write bc),
                                                 dst_finishf := Some (encrypted_dst_finish bo bc),
                                                 dst_closef := Some encrypted_dst_close,
                                                 dst_type := PGP_STREAM_ENCRYPTED\<rparr>)))))))"

section \<open>Reading\<close>

definition packet_peek :: "'q packet_src \<Rightarrow> nat \<Rightarrow> 'q packet_src \<times> bytes option" where
  "packet_peek ps len =
     (case ps of
        Whole_src s \<Rightarrow> (case src_peek s len of (s', r) \<Rightarrow> (Whole_src s', r))
      | Parts_src s \<Rightarrow> (case src_peek s len of (s', r) \<Rightarrow> (Parts_src s', r)))"

definition packet_skip :: "alloc \<Rightarrow> 'q packet_src \<Rightarrow> nat \<Rightarrow> 'q packet_src" where
  "packet_skip al ps len =
     (case ps of
        Whole_src s \<Rightarrow> Whole_src (fst (src_skip al s len))
      | Parts_src s \<Rightarrow> Parts_src (fst (src_skip al s len)))"

definition packet_readb :: "'q packet_src \<Rightarrow> nat" where
  "packet_readb ps = (case ps of Whole_src s \<Rightarrow> src_readb s | Parts_src s \<Rightarrow> src_readb s)"

record 'q encrypted_src_param =
  es_pkt :: "'q pgp_source_packet_param"
  es_symencs :: "pgp_sk_sesskey list"
  es_pubencs :: "pgp_pk_sesskey_pkt list"
  es_has_mdc :: bool
  es_mdc_validated :: bool
  es_decrypt :: pgp_crypt
  es_mdc :: pgp_hash

definition es_src :: "'q encrypted_src_param \<Rightarrow> 'q packet_src" where
  "es_src param = ps_readsrc (es_pkt param)"

definition es_with_src :: "'q encrypted_src_param \<Rightarrow> 'q packet_src \<Rightarrow> 'q encrypted_src_param" where
  "es_with_src param ps = param\<lparr>es_pkt := (es_pkt param)\<lparr>ps_readsrc := ps\<rparr>\<rparr>"

text \<open>
  The check of the code at the end, with the data already hashed: the result says whether it is valid.
\<close>

definition encrypted_check_mdc ::
    "botan \<Rightarrow> block_cipher \<Rightarrow> 'q encrypted_src_param \<Rightarrow> bytes \<Rightarrow> 'q encrypted_src_param \<times> bool" where
  "encrypted_check_mdc bo bc param mdcbuf =
     (case pgp_cipher_cfb_decrypt bc (es_decrypt param) mdcbuf of
        None \<Rightarrow> (param, False)
      | Some (crypt, buf) \<Rightarrow>
          (case pgp_hash_finish bo (pgp_hash_add (es_mdc param) (take 2 buf)) of
             (mdc, _, hash) \<Rightarrow>
               let param1 = param\<lparr>es_decrypt := pgp_cipher_finish crypt, es_mdc := mdc\<rparr> in
               if buf ! 0 \<noteq> MDC_PKT_TAG \<or> buf ! 1 \<noteq> to_byte (MDC_V1_SIZE - 2) then (param1, False)
               else if drop 2 buf \<noteq> take PGP_SHA1_HASH_SIZE hash then (param1, False)
               else (param1\<lparr>es_mdc_validated := True\<rparr>, True)))"

text \<open>
  The end of \<^verbatim>\<open>encrypted_src_read\<close>: \<open>buf\<close> is decrypted and hashed, and \<open>mdcbuf\<close> is the code when the end was
  reached.
\<close>

definition encrypted_decrypt ::
    "botan \<Rightarrow> block_cipher \<Rightarrow> 'q encrypted_src_param \<Rightarrow> bytes \<Rightarrow> bytes option \<Rightarrow> 'q encrypted_src_param \<times> bytes option" where
  "encrypted_decrypt bo bc param buf mdcbuf =
     (case pgp_cipher_cfb_decrypt bc (es_decrypt param) buf of
        None \<Rightarrow> (param, None)
      | Some (crypt, plain) \<Rightarrow>
          let param1 = param\<lparr>es_decrypt := crypt\<rparr> in
          if \<not> es_has_mdc param then (param1, Some plain)
          else
            let param2 = param1\<lparr>es_mdc := pgp_hash_add (es_mdc param1) plain\<rparr> in
            (case mdcbuf of
               None \<Rightarrow> (param2, Some plain)
             | Some m \<Rightarrow>
                 (case encrypted_check_mdc bo bc param2 m of
                    (param3, ok) \<Rightarrow> (param3, if ok then Some plain else None))))"

text \<open>
  \<^verbatim>\<open>encrypted_src_read\<close>.  The test of \<^verbatim>\<open>src->eof\<close> is never true here: the callers of the callback
  test it too.
\<close>

definition encrypted_src_read ::
    "botan \<Rightarrow> block_cipher \<Rightarrow> 'q encrypted_src_param option \<Rightarrow> nat \<Rightarrow> 'q encrypted_src_param option \<times> bytes option" where
  "encrypted_src_read bo bc p len =
     (case p of
        None \<Rightarrow> (None, None)
      | Some param \<Rightarrow>
          (case packet_read (es_src param) len of
             (ps1, None) \<Rightarrow> (Some (es_with_src param ps1), None)
           | (ps1, Some []) \<Rightarrow> (Some (es_with_src param ps1), Some [])
           | (ps1, Some buf) \<Rightarrow>
               if \<not> es_has_mdc param then map_prod Some id (encrypted_decrypt bo bc (es_with_src param ps1) buf None)
               else
                 (case packet_peek ps1 MDC_V1_SIZE of
                    (ps2, None) \<Rightarrow> (Some (es_with_src param ps2), None)
                  | (ps2, Some m) \<Rightarrow>
                      let param1 = es_with_src param ps2 in
                      if MDC_V1_SIZE \<le> length m then map_prod Some id (encrypted_decrypt bo bc param1 buf None)
                      else if length m + length buf < MDC_V1_SIZE then (Some param1, None)
                      else
                        let read = length buf - (MDC_V1_SIZE - length m)
                        in map_prod Some id (encrypted_decrypt bo bc param1 (take read buf) (Some (drop read buf @ m))))))"

definition encrypted_src_finish :: "'q encrypted_src_param option \<Rightarrow> 'q encrypted_src_param option \<times> rnp_result" where
  "encrypted_src_finish p =
     (case p of
        None \<Rightarrow> (None, RNP_ERROR_NULL_POINTER)
      | Some param \<Rightarrow>
          (p, if es_has_mdc param \<and> \<not> es_mdc_validated param then RNP_ERROR_BAD_STATE else RNP_SUCCESS))"

definition encrypted_src_close :: "'q encrypted_src_param option \<Rightarrow> 'q encrypted_src_param option" where
  "encrypted_src_close p = None"

text \<open>
  \<^verbatim>\<open>encrypted_decrypt_header\<close>.  When the hash cannot be created, \<^verbatim>\<open>param->decrypt\<close> keeps the pointer to the object
  that was destroyed; it is not used before the next assignment.
\<close>

definition encrypted_decrypt_header ::
    "alloc \<Rightarrow> botan \<Rightarrow> block_cipher \<Rightarrow> 'q encrypted_src_param \<Rightarrow> nat \<Rightarrow> bytes \<Rightarrow> 'q encrypted_src_param \<times> bool" where
  "encrypted_decrypt_header al bo bc param alg key =
     (let blsize = pgp_block_size alg in
      if blsize = 0 then (param, False)
      else
        (case packet_peek (es_src param) (blsize + 2) of
           (ps1, r) \<Rightarrow>
             let param1 = es_with_src param ps1; enchdr = (case r of None \<Rightarrow> [] | Some bs \<Rightarrow> bs) in
             if length enchdr < blsize + 2 then (param1, False)
             else
               (case pgp_cipher_start bc alg key None of
                  (crypt0, ok) \<Rightarrow>
                    if \<not> ok then (param1, False)
                    else
                      (case pgp_cipher_cfb_decrypt bc crypt0 enchdr of
                         None \<Rightarrow> (param1, False)
                       | Some (crypt, dechdr) \<Rightarrow>
                           if dechdr ! blsize = dechdr ! (blsize - 2) \<and> dechdr ! (blsize + 1) = dechdr ! (blsize - 1) then
                             let param2 = (es_with_src param1 (packet_skip al ps1 (blsize + 2)))\<lparr>es_decrypt := crypt\<rparr> in
                             if \<not> es_has_mdc param
                             then (param2\<lparr>es_decrypt := pgp_cipher_cfb_resync crypt (drop 2 enchdr)\<rparr>, True)
                             else
                               (case pgp_hash_create bo (es_mdc param2) PGP_HASH_SHA1 of
                                  (mdc, ok) \<Rightarrow>
                                    if \<not> ok then (param2\<lparr>es_decrypt := pgp_cipher_finish crypt\<rparr>, False)
                                    else (param2\<lparr>es_mdc := pgp_hash_add mdc dechdr\<rparr>, True))
                           else (param1, False)))))"

text \<open>
  What is needed to decrypt: the key provider, the passwords that the password provider gives one
  after the other, the unlocking of secret keys, and the public-key operations.
\<close>

record 'k decryptor =
  de_request_key :: "(bytes \<Rightarrow> 'k option) option"
  de_passwords :: "(nat \<Rightarrow> string option) option"
  de_unlock :: "'k \<Rightarrow> 'k option"
  de_rsa :: "bytes \<Rightarrow> 'k \<Rightarrow> bytes option"
  de_sm2 :: "bytes \<Rightarrow> 'k \<Rightarrow> bytes option"
  de_elgamal :: "bytes \<Rightarrow> bytes \<Rightarrow> 'k \<Rightarrow> bytes option"
  de_ecdh :: "bytes \<Rightarrow> bytes \<Rightarrow> 'k \<Rightarrow> bytes option"

definition decrypt_sesskey :: "'k decryptor \<Rightarrow> pgp_pk_sesskey_pkt \<Rightarrow> 'k \<Rightarrow> bytes option" where
  "decrypt_sesskey de sesskey seckey =
     (if pk_alg sesskey = PGP_PKA_RSA then de_rsa de (pk_rsa_m sesskey) seckey
      else if pk_alg sesskey = PGP_PKA_SM2 then de_sm2 de (pk_sm2_m sesskey) seckey
      else if pk_alg sesskey = PGP_PKA_ELGAMAL then de_elgamal de (pk_eg_g sesskey) (pk_eg_m sesskey) seckey
      else if pk_alg sesskey = PGP_PKA_ECDH then de_ecdh de (pk_ecdh_p sesskey) (pk_ecdh_m sesskey) seckey
      else None)"

text \<open>
  \<^verbatim>\<open>encrypted_try_key\<close>.  A failed decryption is not always recognised by the test of its length, but
  then by the one of the key length.
\<close>

definition encrypted_try_key ::
    "alloc \<Rightarrow> botan \<Rightarrow> block_cipher \<Rightarrow> 'k decryptor \<Rightarrow> 'q encrypted_src_param \<Rightarrow> pgp_pk_sesskey_pkt \<Rightarrow> 'k \<Rightarrow>
     'q encrypted_src_param \<times> bool" where
  "encrypted_try_key al bo bc de param sesskey seckey =
     (case decrypt_sesskey de sesskey seckey of
        None \<Rightarrow> (param, False)
      | Some [] \<Rightarrow> (param, False)
      | Some (salg # decbuf) \<Rightarrow>
          let keylen = pgp_key_size (unat salg) in
          if \<not> pgp_is_sa_supported bc (unat salg) then (param, False)
          else if length decbuf + 1 \<noteq> keylen + 3 then (param, False)
          else if key_checksum (take keylen decbuf) mod 2 ^ 16 \<noteq>
                  unat (decbuf ! (keylen + 1)) OR push_bit 8 (unat (decbuf ! keylen)) then (param, False)
          else encrypted_decrypt_header al bo bc param (unat salg) (take keylen decbuf))"

text \<open>\<^verbatim>\<open>encrypted_try_password\<close>: the result is positive, zero or negative like the one of the C function.\<close>

fun try_password_loop ::
    "alloc \<Rightarrow> botan \<Rightarrow> block_cipher \<Rightarrow> pbkdf \<Rightarrow> string \<Rightarrow> pgp_sk_sesskey list \<Rightarrow> bool \<Rightarrow> 'q encrypted_src_param \<Rightarrow>
     'q encrypted_src_param \<times> int" where
  "try_password_loop al bo bc pbkdf password [] keyavail param = (param, if \<not> keyavail then -1 else 0)"
| "try_password_loop al bo bc pbkdf password (symkey # symencs) keyavail param =
     (let keysize = pgp_key_size (sk_alg symkey);
          derived = (if keysize = 0 then None else pgp_s2k_derive_key pbkdf (sk_s2k symkey) password keysize)
      in
      (case derived of
         None \<Rightarrow> try_password_loop al bo bc pbkdf password symencs keyavail param
       | Some keybuf \<Rightarrow>
           (case (if sk_enckey symkey \<noteq> [] then
                    (case pgp_cipher_start bc (sk_alg symkey) keybuf None of
                       (crypt, ok) \<Rightarrow>
                         if \<not> ok then (keyavail, None)
                         else
                           (case pgp_cipher_cfb_decrypt bc crypt (sk_enckey symkey) of
                              None \<Rightarrow> (keyavail, None)
                            | Some (_, buf) \<Rightarrow>
                                let alg = unat (buf ! 0) in
                                if pgp_key_size alg = 0 \<or> pgp_key_size alg + 1 \<noteq> length (sk_enckey symkey) \<or> pgp_block_size alg = 0
                                then (True, None)
                                else (True, Some (alg, drop 1 buf))))
                  else if pgp_block_size (sk_alg symkey) = 0 then (keyavail, None)
                  else (True, Some (sk_alg symkey, keybuf))) of
              (keyavail1, None) \<Rightarrow> try_password_loop al bo bc pbkdf password symencs keyavail1 param
            | (keyavail1, Some (alg, key)) \<Rightarrow>
                (case encrypted_decrypt_header al bo bc param alg key of
                   (param1, ok) \<Rightarrow>
                     if ok then (param1, 1)
                     else try_password_loop al bo bc pbkdf password symencs keyavail1 param1))))"

definition encrypted_try_password ::
    "alloc \<Rightarrow> botan \<Rightarrow> block_cipher \<Rightarrow> pbkdf \<Rightarrow> 'q encrypted_src_param \<Rightarrow> string \<Rightarrow> 'q encrypted_src_param \<times> int" where
  "encrypted_try_password al bo bc pbkdf param password =
     try_password_loop al bo bc pbkdf password (es_symencs param) False param"

text \<open>The loop over the session key packets; the structures are reused from one round to the next.\<close>

partial_function (option) encrypted_read_keys ::
    "alloc \<Rightarrow> 'q pgp_source \<Rightarrow> pgp_sk_sesskey \<Rightarrow> pgp_pk_sesskey_pkt \<Rightarrow> pgp_sk_sesskey list \<Rightarrow> pgp_pk_sesskey_pkt list \<Rightarrow>
     ('q pgp_source \<times> (rnp_result + int \<times> pgp_sk_sesskey list \<times> pgp_pk_sesskey_pkt list)) option" where
  "encrypted_read_keys al src skey pkey symencs pubencs =
     (case src_peek src 1 of
        (src1, Some (ptag # _)) \<Rightarrow>
          if get_packet_type ptag = PGP_PTAG_CT_SK_SESSION_KEY then
            (case stream_parse_sk_sesskey src1 skey of
               (src2, Inl errcode) \<Rightarrow> Some (src2, Inl errcode)
             | (src2, Inr skey1) \<Rightarrow>
                 if \<not> append_ok al symencs 72 then Some (src2, Inl RNP_ERROR_OUT_OF_MEMORY)
                 else encrypted_read_keys al src2 skey1 pkey (symencs @ [skey1]) pubencs)
          else if get_packet_type ptag = PGP_PTAG_CT_PK_SESSION_KEY then
            (case stream_parse_pk_sesskey src1 pkey of
               (src2, Inl errcode) \<Rightarrow> Some (src2, Inl errcode)
             | (src2, Inr pkey1) \<Rightarrow>
                 if \<not> append_ok al pubencs 4120 then Some (src2, Inl RNP_ERROR_OUT_OF_MEMORY)
                 else encrypted_read_keys al src2 skey pkey1 symencs (pubencs @ [pkey1]))
          else if get_packet_type ptag = PGP_PTAG_CT_SE_DATA \<or> get_packet_type ptag = PGP_PTAG_CT_SE_IP_DATA
          then Some (src1, Inr (get_packet_type ptag, symencs, pubencs))
          else Some (src1, Inl RNP_ERROR_BAD_FORMAT)
      | (src1, _) \<Rightarrow> Some (src1, Inl RNP_ERROR_READ))"

text \<open>The loop over the public-key encrypted session keys.\<close>

fun encrypted_try_keys ::
    "alloc \<Rightarrow> botan \<Rightarrow> block_cipher \<Rightarrow> 'k decryptor \<Rightarrow> (bytes \<Rightarrow> 'k option) \<Rightarrow> pgp_pk_sesskey_pkt list \<Rightarrow>
     'q encrypted_src_param \<Rightarrow> 'q encrypted_src_param \<times> bool" where
  "encrypted_try_keys al bo bc de provider [] param = (param, False)"
| "encrypted_try_keys al bo bc de provider (pe # pes) param =
     (case Option.bind (provider (pk_key_id pe)) (de_unlock de) of
        None \<Rightarrow> encrypted_try_keys al bo bc de provider pes param
      | Some seckey \<Rightarrow>
          (case encrypted_try_key al bo bc de param pe seckey of
             (param1, have_key) \<Rightarrow>
               if have_key then (param1, True) else encrypted_try_keys al bo bc de provider pes param1))"

text \<open>
  The loop over passwords: the \<open>n\<close>-th answer of the provider is tried until one fits.  A provider that never stops
  giving wrong passwords keeps it running.
\<close>

partial_function (option) encrypted_ask_passwords ::
    "alloc \<Rightarrow> botan \<Rightarrow> block_cipher \<Rightarrow> pbkdf \<Rightarrow> (nat \<Rightarrow> string option) \<Rightarrow> nat \<Rightarrow> 'q encrypted_src_param \<Rightarrow>
     ('q encrypted_src_param \<times> rnp_result) option" where
  "encrypted_ask_passwords al bo bc pbkdf provider n param =
     (case provider n of
        None \<Rightarrow> Some (param, RNP_ERROR_BAD_PASSWORD)
      | Some password \<Rightarrow>
          (case encrypted_try_password al bo bc pbkdf param password of
             (param1, intres) \<Rightarrow>
               if 0 < intres then Some (param1, RNP_SUCCESS)
               else if intres < 0 then Some (param1, RNP_ERROR_NOT_SUPPORTED)
               else if password = [] then Some (param1, RNP_ERROR_BAD_PASSWORD)
               else encrypted_ask_passwords al bo bc pbkdf provider (Suc n) param1))"

definition encrypted_get_key ::
    "alloc \<Rightarrow> botan \<Rightarrow> block_cipher \<Rightarrow> pbkdf \<Rightarrow> 'k decryptor \<Rightarrow> 'q encrypted_src_param \<Rightarrow>
     ('q encrypted_src_param \<times> rnp_result) option" where
  "encrypted_get_key al bo bc pbkdf de param =
     (case de_passwords de of
        None \<Rightarrow> Some (param, RNP_ERROR_BAD_PARAMETERS)
      | Some passwords \<Rightarrow>
          if es_pubencs param \<noteq> [] \<and> de_request_key de = None then Some (param, RNP_ERROR_BAD_PARAMETERS)
          else
            (case (case de_request_key de of
                     None \<Rightarrow> (param, False)
                   | Some provider \<Rightarrow> encrypted_try_keys al bo bc de provider (es_pubencs param) param) of
               (param1, have_key) \<Rightarrow>
                 if have_key then Some (param1, RNP_SUCCESS)
                 else if es_symencs param = [] then Some (param1, RNP_ERROR_NO_SUITABLE_KEY)
                 else encrypted_ask_passwords al bo bc pbkdf passwords 0 param1))"

text \<open>The version byte of data with a modification detection code.\<close>

definition encrypted_read_mdcver :: "int \<Rightarrow> 'q packet_src \<Rightarrow> 'q packet_src \<times> (rnp_result + bool)" where
  "encrypted_read_mdcver ptype ps =
     (if ptype \<noteq> PGP_PTAG_CT_SE_IP_DATA then (ps, Inr False)
      else
        (case packet_get ps 1 of
           (ps1, None) \<Rightarrow> (ps1, Inl RNP_ERROR_READ)
         | (ps1, Some ver) \<Rightarrow> (ps1, if ver ! 0 \<noteq> 1 then Inl RNP_ERROR_BAD_FORMAT else Inr True)))"

text \<open>
  \<^verbatim>\<open>init_encrypted_src\<close>.  On failure the source is closed; the result has the source underneath.
\<close>

definition init_encrypted_src ::
    "alloc \<Rightarrow> botan \<Rightarrow> block_cipher \<Rightarrow> pbkdf \<Rightarrow> 'k decryptor \<Rightarrow> 'q pgp_source \<Rightarrow>
     (('q pgp_source option \<times> rnp_result) + 'q encrypted_src_param option pgp_source) option" where
  "init_encrypted_src al bo bc pbkdf de readsrc =
     (case init_src_common al 144 None None of
        (src, ok) \<Rightarrow>
          if \<not> ok then Some (Inl (Some readsrc, RNP_ERROR_OUT_OF_MEMORY))
          else
            (case encrypted_read_keys al readsrc \<lparr>sk_version = 0, sk_alg = 0, sk_s2k = zero_s2k, sk_enckey = []\<rparr>
                    zero_pk_sesskey [] [] of
               None \<Rightarrow> None
             | Some (src1, Inl errcode) \<Rightarrow> Some (Inl (Some src1, errcode))
             | Some (src1, Inr (ptype, symencs, pubencs)) \<Rightarrow>
                 (case init_packet_params al src1 of
                    (pkt, errcode) \<Rightarrow>
                      if errcode \<noteq> RNP_SUCCESS then Some (Inl (packet_orig (ps_readsrc pkt), errcode))
                      else
                        let readb = packet_readb (ps_readsrc pkt) in
                        (case encrypted_read_mdcver ptype (ps_readsrc pkt) of
                           (ps, Inl errcode) \<Rightarrow> Some (Inl (packet_orig ps, errcode))
                         | (ps, Inr has_mdc) \<Rightarrow>
                             (case encrypted_get_key al bo bc pbkdf de
                                     \<lparr>es_pkt = pkt\<lparr>ps_readsrc := ps\<rparr>, es_symencs = symencs, es_pubencs = pubencs,
                                      es_has_mdc = has_mdc, es_mdc_validated = False, es_decrypt = zero_crypt,
                                      es_mdc = zero_hash\<rparr> of
                                None \<Rightarrow> None
                              | Some (param, errcode) \<Rightarrow>
                                  if errcode \<noteq> RNP_SUCCESS then Some (Inl (packet_orig (es_src param), errcode))
                                  else
                                    let src2 = src\<lparr>src_param := Some param, src_rdf := encrypted_src_read bo bc,
                                                   src_closef := Some encrypted_src_close,
                                                   src_finishf := Some encrypted_src_finish,
                                                   src_type := PGP_STREAM_ENCRYPTED\<rparr>
                                    in Some (Inr (if \<not> ps_partial pkt \<and> \<not> ps_indeterminate pkt
                                                  then src2\<lparr>src_knownsize := True,
                                                            src_size := sub64 (ps_len pkt)
                                                              (sub64 (packet_readb (es_src param)) readb)\<rparr>
                                                  else src2)))))))"

end
