(* ===== verification/Encrypted_Write.thy ===== *)
theory Encrypted_Write
  imports Encrypted_Streams
begin

text \<open>
  What an encrypted destination writes: what is assumed of the ciphers and of SHA-1, ciphers that were started
  and the states they go through, the destination as a receiver on top of a partial length
  destination, and the session key packets for passwords.
\<close>

section \<open>What is assumed of the Botan library\<close>

definition cipher_ok :: "block_cipher \<Rightarrow> bool" where
  "cipher_ok bc \<longleftrightarrow> (\<forall>name key block. length (bc_encrypt bc name key block) = length block)"

definition cipher_usable :: "block_cipher \<Rightarrow> nat \<Rightarrow> bool" where
  "cipher_usable bc alg \<longleftrightarrow>
     (case pgp_sa_to_botan_string bc alg of
        None \<Rightarrow> False
      | Some name \<Rightarrow> bc_init bc name \<and> (\<forall>key. length key = pgp_key_size alg \<longrightarrow> bc_set_key bc name key))"

definition sha1_ok :: "botan \<Rightarrow> bool" where
  "sha1_ok bo \<longleftrightarrow> bo_hash_init bo ''SHA-1'' \<and> bo_hash_output_length bo ''SHA-1'' = Some PGP_SHA1_HASH_SIZE \<and>
     (\<forall>bs. \<exists>d. bo_hash_final bo ''SHA-1'' bs = Some d \<and> length d = PGP_SHA1_HASH_SIZE)"

definition sha1 :: "botan \<Rightarrow> bytes \<Rightarrow> bytes" where
  "sha1 bo bs = the (bo_hash_final bo ''SHA-1'' bs)"

lemma sha1: "sha1_ok bo \<Longrightarrow> bo_hash_final bo ''SHA-1'' bs = Some (sha1 bo bs) \<and> length (sha1 bo bs) = PGP_SHA1_HASH_SIZE"
  by (metis sha1_def sha1_ok_def option.sel)

definition sha1_ctx :: "bytes \<Rightarrow> pgp_hash" where
  "sha1_ctx bs = \<lparr>h_handle = Some (''SHA-1'', bs), h_output_len = PGP_SHA1_HASH_SIZE, h_alg = PGP_HASH_SHA1\<rparr>"

lemma sha1_create: "sha1_ok bo \<Longrightarrow> pgp_hash_create bo h PGP_HASH_SHA1 = (sha1_ctx [], True)"
  by (simp add: pgp_hash_create_def sha1_ok_def pgp_hash_name_botan_def hash_alg_map_def sha1_ctx_def)

lemma sha1_add [simp]: "pgp_hash_add (sha1_ctx bs) cs = sha1_ctx (bs @ cs)"
  by (simp add: pgp_hash_add_def sha1_ctx_def)

lemma sha1_finish: "sha1_ok bo \<Longrightarrow> \<exists>h n. pgp_hash_finish bo (sha1_ctx bs) = (h, n, sha1 bo bs)"
  using sha1 [of bo bs] by (simp add: pgp_hash_finish_def sha1_ctx_def)

section \<open>Ciphers that were started\<close>

lemma sa_sizes: "pgp_sa_to_botan_string bc alg = Some name \<Longrightarrow>
    (pgp_block_size alg = 8 \<or> pgp_block_size alg = 16) \<and> pgp_key_size alg \<in> {16, 24, 32} \<and> alg < 256"
  by (auto simp: pgp_sa_to_botan_string_def sa_names_def pgp_block_size_def pgp_key_size_def split: if_splits option.splits)

lemma usable_sizes:
  assumes "cipher_usable bc alg"
  shows "pgp_block_size alg = 8 \<or> pgp_block_size alg = 16" "pgp_key_size alg \<in> {16, 24, 32}" "alg < 256"
    "0 < pgp_block_size alg" "0 < pgp_key_size alg" "pgp_key_size alg \<le> 32" "pgp_is_sa_supported bc alg"
  using assms sa_sizes [of bc alg] by (auto simp: cipher_usable_def pgp_is_sa_supported_def split: option.splits)

text \<open>The cipher after its start with a key, and what it makes of a string of bytes.\<close>

definition started :: "block_cipher \<Rightarrow> nat \<Rightarrow> bytes \<Rightarrow> pgp_crypt" where
  "started bc alg key = fst (pgp_cipher_start bc alg key None)"

definition crypt_fun :: "block_cipher \<Rightarrow> nat \<Rightarrow> bytes \<Rightarrow> bytes \<Rightarrow> bytes" where
  "crypt_fun bc alg key = encrypt_block bc (cr_obj (started bc alg key))"

definition cfb_zero :: "nat \<Rightarrow> bytes \<times> nat" where
  "cfb_zero alg = (replicate (pgp_block_size alg) 0, 0)"

definition cfb_cipher :: "block_cipher \<Rightarrow> nat \<Rightarrow> bytes \<Rightarrow> bytes \<Rightarrow> bytes" where
  "cfb_cipher bc alg key xs = snd (cfb_run False (crypt_fun bc alg key) (cfb_zero alg) xs)"

lemma started_take: "started bc alg (take (pgp_key_size alg) key) = started bc alg key"
  by (simp add: started_def pgp_cipher_start_def Let_def split: option.split)

lemma crypt_fun_take [simp]: "crypt_fun bc alg (take (pgp_key_size alg) key) = crypt_fun bc alg key"
  by (simp add: crypt_fun_def started_take)

lemma cipher_ok_block_map: "cipher_ok bc \<Longrightarrow> block_map n (encrypt_block bc obj)"
  by (auto simp: cipher_ok_def block_map_def encrypt_block_def split: option.splits)

text \<open>A cipher that was started, with or without an initialisation vector.\<close>

lemma start_crypt_ok:
  assumes "pgp_cipher_start bc alg key iv = (c, True)" "case iv of None \<Rightarrow> True | Some v \<Rightarrow> pgp_block_size alg \<le> length v"
  shows "crypt_ok c"
proof -
  obtain name where n: "pgp_sa_to_botan_string bc alg = Some name"
    using assms by (auto simp: pgp_cipher_start_def split: option.splits)
  have "pgp_block_size alg = 8 \<or> pgp_block_size alg = 16" using sa_sizes [OF n] by blast
  then show ?thesis using assms n
    by (auto simp: pgp_cipher_start_def crypt_ok_def zero_crypt_def PGP_MAX_BLOCK_SIZE_def Let_def split: if_splits option.splits)
qed

text \<open>A routine called on one piece of the data after the other.\<close>

fun cfb_pieces :: "(pgp_crypt \<Rightarrow> bytes \<Rightarrow> (pgp_crypt \<times> bytes) option) \<Rightarrow> pgp_crypt \<Rightarrow> bytes list \<Rightarrow> (pgp_crypt \<times> bytes) option" where
  "cfb_pieces f c [] = Some (c, [])"
| "cfb_pieces f c (x # xs) =
     (case f c x of
        None \<Rightarrow> None
      | Some (c1, y) \<Rightarrow> map_option (\<lambda>(c2, ys). (c2, y @ ys)) (cfb_pieces f c1 xs))"

lemma cfb_pieces_run:
  assumes "crypt_ok c" "cipher_ok bc" "list_all (\<lambda>x. length x < 2 ^ 32) xss"
  shows "cfb_pieces (cfb_crypt dec bc) c xss =
    (case cfb_run dec (encrypt_block bc (cr_obj c)) (cfb_state c) (concat xss) of (st, ys) \<Rightarrow> Some (with_state c st, ys))"
  using assms(1,3)
proof (induction xss arbitrary: c)
  case (Cons x xss)
  let ?E = "encrypt_block bc (cr_obj c)"
  have E: "block_map (cr_blocksize c) ?E" by (rule cipher_ok_block_map [OF assms(2)])
  obtain st ys where r: "cfb_run dec ?E (cfb_state c) x = (st, ys)" by (cases "cfb_run dec ?E (cfb_state c) x")
  have len: "length (fst st) = cr_blocksize c" "snd st \<le> cr_blocksize c"
    using cfb_run_length [OF E cfb_state_length [OF Cons.prems(1)], of dec x] Cons.prems(1) r
    by (auto simp: crypt_ok_def cfb_state_def)
  from Cons.IH [OF crypt_ok_with_state [OF Cons.prems(1) len]] cfb_crypt_run [OF Cons.prems(1) E, of x dec] Cons.prems(2) r len
  show ?case by (simp add: cfb_run_append split_def)
qed simp

text \<open>The state of a cipher that has encrypted or decrypted \<open>xs\<close>.\<close>

definition crypt_after :: "bool \<Rightarrow> block_cipher \<Rightarrow> nat \<Rightarrow> bytes \<Rightarrow> bytes \<Rightarrow> pgp_crypt" where
  "crypt_after dec bc alg key xs =
     with_state (started bc alg key) (fst (cfb_run dec (crypt_fun bc alg key) (cfb_zero alg) xs))"

lemma start_facts:
  assumes "snd (pgp_cipher_start bc alg key None)"
  shows "pgp_cipher_start bc alg key None = (started bc alg key, True)" "crypt_ok (started bc alg key)"
    "cr_blocksize (started bc alg key) = pgp_block_size alg" "cfb_state (started bc alg key) = cfb_zero alg"
    "pgp_block_size alg = 8 \<or> pgp_block_size alg = 16"
proof -
  obtain name where n: "pgp_sa_to_botan_string bc alg = Some name"
    using assms by (auto simp: pgp_cipher_start_def split: option.splits)
  have s: "pgp_cipher_start bc alg key None =
      (zero_crypt\<lparr>cr_alg := alg, cr_blocksize := pgp_block_size alg,
        cr_obj := Some (name, Some (take (pgp_key_size alg) key)), cr_remaining := 0\<rparr>, True)"
    using assms n by (auto simp: pgp_cipher_start_def Let_def split: if_splits)
  show "pgp_cipher_start bc alg key None = (started bc alg key, True)" by (simp add: started_def s)
  show bl: "pgp_block_size alg = 8 \<or> pgp_block_size alg = 16" using sa_sizes [OF n] by blast
  show "crypt_ok (started bc alg key)" "cr_blocksize (started bc alg key) = pgp_block_size alg"
    "cfb_state (started bc alg key) = cfb_zero alg"
    using bl by (auto simp: started_def s crypt_ok_def zero_crypt_def cfb_state_def cfb_zero_def PGP_MAX_BLOCK_SIZE_def)
qed

lemma start_usable:
  assumes "cipher_usable bc alg" "pgp_key_size alg \<le> length key"
  shows "pgp_cipher_start bc alg key None = (started bc alg key, True)" "crypt_ok (started bc alg key)"
    "cr_blocksize (started bc alg key) = pgp_block_size alg" "cfb_state (started bc alg key) = cfb_zero alg"
proof -
  have "snd (pgp_cipher_start bc alg key None)"
    using assms by (auto simp: cipher_usable_def pgp_cipher_start_def Let_def split: option.splits)
  then show "pgp_cipher_start bc alg key None = (started bc alg key, True)" "crypt_ok (started bc alg key)"
    "cr_blocksize (started bc alg key) = pgp_block_size alg" "cfb_state (started bc alg key) = cfb_zero alg"
    by (rule start_facts)+
qed

text \<open>A routine call from such a state: it succeeds exactly for sizes that fit, and then continues.\<close>

lemma crypt_after_cases:
  assumes "snd (pgp_cipher_start bc alg key None)" "cipher_ok bc"
  shows "length ys < 2 ^ 32 \<Longrightarrow> cfb_crypt dec bc (crypt_after dec bc alg key xs) ys \<noteq> None"
    "cfb_crypt dec bc (crypt_after dec bc alg key xs) ys = Some (c, out) \<Longrightarrow>
       c = crypt_after dec bc alg key (xs @ ys) \<and>
       snd (cfb_run dec (crypt_fun bc alg key) (cfb_zero alg) (xs @ ys)) =
         snd (cfb_run dec (crypt_fun bc alg key) (cfb_zero alg) xs) @ out"
proof -
  note s = start_facts [OF assms(1)]
  let ?E = "crypt_fun bc alg key" and ?c = "started bc alg key"
  obtain st us where r: "cfb_run dec ?E (cfb_zero alg) xs = (st, us)" by (cases "cfb_run dec ?E (cfb_zero alg) xs")
  have len: "length (fst st) = pgp_block_size alg" "snd st \<le> pgp_block_size alg"
    using cfb_run_length [of "pgp_block_size alg" ?E "cfb_zero alg" dec xs] cipher_ok_block_map [OF assms(2)] r
    by (simp_all add: crypt_fun_def cfb_zero_def)
  have ok: "crypt_ok (with_state ?c st)" by (rule crypt_ok_with_state [OF s(2)]) (simp_all add: s(3) len)
  have fits: "cfb_crypt dec bc (with_state ?c st) ys =
      (case cfb_run dec ?E st ys of (st', vs) \<Rightarrow> Some (with_state ?c st', vs))" if "length ys < 2 ^ 32 + snd st"
    using cfb_crypt_run [OF ok, of bc ys dec] cipher_ok_block_map [OF assms(2)] that len s(3) by (simp add: crypt_fun_def split_def)
  have big: "cfb_crypt dec bc (with_state ?c st) ys = None" if "\<not> length ys < 2 ^ 32 + snd st"
    using cfb_crypt_overrun [OF ok, of bc ys dec] cipher_ok_block_map [OF assms(2)] that by simp
  have a: "crypt_after dec bc alg key xs = with_state ?c st" by (simp add: crypt_after_def r)
  show "cfb_crypt dec bc (crypt_after dec bc alg key xs) ys \<noteq> None" if "length ys < 2 ^ 32"
    using fits that by (simp add: a split_def)
  assume "cfb_crypt dec bc (crypt_after dec bc alg key xs) ys = Some (c, out)"
  then show "c = crypt_after dec bc alg key (xs @ ys) \<and>
      snd (cfb_run dec ?E (cfb_zero alg) (xs @ ys)) = snd (cfb_run dec ?E (cfb_zero alg) xs) @ out"
    using fits big r by (cases "length ys < 2 ^ 32 + snd st") (auto simp: a crypt_after_def cfb_run_append split_def)
qed

lemma crypt_after_step:
  assumes "cipher_usable bc alg" "pgp_key_size alg \<le> length key" "cipher_ok bc" "length ys < 2 ^ 32"
  shows "cfb_crypt dec bc (crypt_after dec bc alg key xs) ys =
    Some (crypt_after dec bc alg key (xs @ ys),
          drop (length xs) (snd (cfb_run dec (crypt_fun bc alg key) (cfb_zero alg) (xs @ ys))))"
proof -
  have s: "snd (pgp_cipher_start bc alg key None)" using start_usable(1) [OF assms(1,2)] by simp
  obtain c out where r: "cfb_crypt dec bc (crypt_after dec bc alg key xs) ys = Some (c, out)"
    using crypt_after_cases(1) [OF s assms(3,4), of dec xs] by auto
  from crypt_after_cases(2) [OF s assms(3) r] r show ?thesis by simp
qed

lemma crypt_after_Nil: "cipher_usable bc alg \<Longrightarrow> pgp_key_size alg \<le> length key \<Longrightarrow>
    crypt_after dec bc alg key [] = started bc alg key"
  using start_usable(4) [of bc alg key] by (simp add: crypt_after_def flip: start_usable(4))

lemma cfb_cipher_append:
  "cfb_cipher bc alg key (xs @ ys) = cfb_cipher bc alg key xs @ drop (length xs) (cfb_cipher bc alg key (xs @ ys))"
  by (simp add: cfb_cipher_def cfb_run_append split_def)

lemma length_cfb_cipher [simp]: "length (cfb_cipher bc alg key xs) = length xs"
  by (simp add: cfb_cipher_def)

lemma encrypt_step:
  assumes "cipher_usable bc alg" "pgp_key_size alg \<le> length key" "cipher_ok bc" "length ys < 2 ^ 32"
  shows "pgp_cipher_cfb_encrypt bc (crypt_after False bc alg key xs) ys =
    Some (crypt_after False bc alg key (xs @ ys), drop (length xs) (cfb_cipher bc alg key (xs @ ys)))"
  using crypt_after_step [OF assms] by (simp add: pgp_cipher_cfb_encrypt_def cfb_cipher_def)

text \<open>Decryption goes through the same states.\<close>

lemma decrypt_step:
  assumes "cipher_usable bc alg" "pgp_key_size alg \<le> length key" "cipher_ok bc" "length ys < 2 ^ 32"
  shows "pgp_cipher_cfb_decrypt bc (crypt_after False bc alg key xs) (drop (length xs) (cfb_cipher bc alg key (xs @ ys))) =
    Some (crypt_after False bc alg key (xs @ ys), ys)"
proof -
  let ?E = "crypt_fun bc alg key"
  have same: "crypt_after True bc alg key (cfb_cipher bc alg key zs) = crypt_after False bc alg key zs" for zs
    by (simp add: crypt_after_def cfb_cipher_def cfb_run_inverse)
  let ?c = "cfb_cipher bc alg key xs" and ?d = "drop (length xs) (cfb_cipher bc alg key (xs @ ys))"
  have cd: "?c @ ?d = cfb_cipher bc alg key (xs @ ys)" by (rule cfb_cipher_append [symmetric])
  have "length ?d < 2 ^ 32" using assms(4) by simp
  from crypt_after_step [OF assms(1-3) this, of True ?c]
  have "cfb_crypt True bc (crypt_after False bc alg key xs) ?d =
      Some (crypt_after False bc alg key (xs @ ys), drop (length xs) (snd (cfb_run True ?E (cfb_zero alg) (cfb_cipher bc alg key (xs @ ys)))))"
    by (simp only: cd same length_cfb_cipher)
  then show ?thesis by (simp add: pgp_cipher_cfb_decrypt_def cfb_cipher_def cfb_run_inverse)
qed

section \<open>What an encrypted destination writes\<close>

definition enc_accepted ::
    "('q pgp_dest \<Rightarrow> bytes \<Rightarrow> bool) \<Rightarrow> bytes \<Rightarrow> block_cipher \<Rightarrow> nat \<Rightarrow> bytes \<Rightarrow> bytes \<Rightarrow> 'q encrypted_dst_param option \<Rightarrow> bytes \<Rightarrow> bool" where
  "enc_accepted recv base bc alg key hdr p data \<longleftrightarrow>
     (\<exists>param pd. p = Some param \<and> ed_has_mdc param \<and> ed_pkt param = Partial_dst pd \<and>
        ed_encrypt param = crypt_after False bc alg key (hdr @ data) \<and> ed_mdc param = sha1_ctx (hdr @ data) \<and>
        partial_recv recv base pd ([1] @ cfb_cipher bc alg key (hdr @ data)))"

definition enc_recv ::
    "('q pgp_dest \<Rightarrow> bytes \<Rightarrow> bool) \<Rightarrow> bytes \<Rightarrow> botan \<Rightarrow> block_cipher \<Rightarrow> nat \<Rightarrow> bytes \<Rightarrow> bytes \<Rightarrow>
     'q encrypted_dst_param option pgp_dest \<Rightarrow> bytes \<Rightarrow> bool" where
  "enc_recv recv base bo bc alg key hdr =
     recv_accepted (encrypted_dst_write bc) (Some (encrypted_dst_finish bo bc)) (enc_accepted recv base bc alg key hdr)"

text \<open>The code that ends the data.\<close>

definition mdc_of :: "botan \<Rightarrow> bytes \<Rightarrow> bytes" where
  "mdc_of bo xs = [MDC_PKT_TAG, 20] @ sha1 bo (xs @ [MDC_PKT_TAG, 20])"

lemma mdc_of_packet: "sha1_ok bo \<Longrightarrow> mdc_packet (sha1 bo (xs @ [MDC_PKT_TAG, 20])) = mdc_of bo xs"
  using sha1 [of bo "xs @ [MDC_PKT_TAG, 20]"] by (simp add: mdc_packet_def mdc_of_def MDC_V1_SIZE_def PGP_SHA1_HASH_SIZE_def)

lemma length_mdc_of: "sha1_ok bo \<Longrightarrow> length (mdc_of bo xs) = 22"
  using sha1 [of bo "xs @ [MDC_PKT_TAG, 20]"] by (simp add: mdc_of_def PGP_SHA1_HASH_SIZE_def)

context receiver
begin

lemma encrypted_write_loop_recv:
  assumes "cipher_usable bc alg" "pgp_key_size alg \<le> length key" "cipher_ok bc"
    and "partial_recv recv base pd ([1] @ cfb_cipher bc alg key xs)"
  shows "\<exists>pd'. encrypted_write_loop bc (crypt_after False bc alg key xs) (Partial_dst pd) buf =
      Some (crypt_after False bc alg key (xs @ buf), Partial_dst pd') \<and>
    partial_recv recv base pd' ([1] @ cfb_cipher bc alg key (xs @ buf))"
  using assms(4)
proof (induction "length buf" arbitrary: buf xs pd rule: less_induct)
  case less
  show ?case
  proof (cases "buf = []")
    case True
    with less.prems show ?thesis by (subst encrypted_write_loop.simps) simp
  next
    case False
    let ?b = "take PGP_INPUT_CACHE_SIZE buf" and ?r = "drop PGP_INPUT_CACHE_SIZE buf"
    have b: "length ?b < 2 ^ 32" "length ?r < length buf" using False by (simp_all add: PGP_INPUT_CACHE_SIZE_def)
    let ?out = "drop (length xs) (cfb_cipher bc alg key (xs @ ?b))"
    have "partial_recv recv base (dst_write pd ?out) ([1] @ cfb_cipher bc alg key (xs @ ?b))"
      using receiver.recv_write [OF partial_receiver less.prems, of ?out] cfb_cipher_append [of bc alg key xs ?b] by simp
    from less.hyps [OF b(2) this] encrypt_step [OF assms(1-3) b(1), of xs] False show ?thesis
      by (subst encrypted_write_loop.simps) (simp add: streamed_write_def)
  qed
qed

lemma enc_acceptor:
  assumes "cipher_usable bc alg" "pgp_key_size alg \<le> length key" "cipher_ok bc"
  shows "acceptor (encrypted_dst_write bc) (enc_accepted recv base bc alg key hdr)"
proof
  fix p a n bs
  assume "enc_accepted recv base bc alg key hdr p a"
  then obtain param pd where p: "p = Some param" "ed_has_mdc param" "ed_pkt param = Partial_dst pd"
    "ed_encrypt param = crypt_after False bc alg key (hdr @ a)" "ed_mdc param = sha1_ctx (hdr @ a)"
    "partial_recv recv base pd ([1] @ cfb_cipher bc alg key (hdr @ a))"
    by (auto simp: enc_accepted_def)
  from encrypted_write_loop_recv [OF assms p(6), of bs] p(1-5)
  show "\<exists>p'. encrypted_dst_write bc p n bs = (p', RNP_SUCCESS) \<and> enc_accepted recv base bc alg key hdr p' (a @ bs)"
    by (auto simp: encrypted_dst_write_def enc_accepted_def)
qed

lemma enc_receiver:
  assumes "cipher_usable bc alg" "pgp_key_size alg \<le> length key" "cipher_ok bc"
  shows "receiver (enc_recv recv base bo bc alg key hdr)"
  unfolding enc_recv_def by (rule acceptor.accepted_receiver [OF enc_acceptor [OF assms]])

text \<open>Finishing: the packet has the data and the code, encrypted.\<close>

lemma enc_finish_recv:
  assumes "cipher_usable bc alg" "pgp_key_size alg \<le> length key" "cipher_ok bc" "sha1_ok bo"
    and "enc_recv recv base bo bc alg key hdr dst data"
  obtains dst' param pd p parts lastpart where "dst_finish dst = (dst', dst_werr (pd_writedst p))"
    "dst_param dst' = Some param" "ed_pkt param = Partial_dst pd" "dst_param pd = Some p" "dst_finished pd"
    "\<forall>x \<in> set parts. length x = PARTIAL_PKT_BLOCK_SIZE" "length lastpart \<le> PARTIAL_PKT_BLOCK_SIZE"
    "concat parts @ lastpart = [1] @ cfb_cipher bc alg key (hdr @ data @ mdc_of bo (hdr @ data))"
    "recv (pd_writedst p) (base @ parts_enc 0xED parts @ write_packet_len (length lastpart) @ lastpart)"
proof -
  note f = acceptor.accepted_flush [OF enc_acceptor [OF assms(1-3)] assms(5) [unfolded enc_recv_def]]
  obtain param pd where p: "dst_param (dst_flush dst) = Some param" "ed_has_mdc param" "ed_pkt param = Partial_dst pd"
    "ed_encrypt param = crypt_after False bc alg key (hdr @ data)" "ed_mdc param = sha1_ctx (hdr @ data)"
    "partial_recv recv base pd ([1] @ cfb_cipher bc alg key (hdr @ data))"
    "dst_finishf (dst_flush dst) = Some (encrypted_dst_finish bo bc)"
    using f by (auto simp: recv_accepted_def enc_accepted_def)
  let ?m = "mdc_of bo (hdr @ data)"
  let ?out = "drop (length (hdr @ data)) (cfb_cipher bc alg key ((hdr @ data) @ ?m))"
  obtain h n where h: "pgp_hash_finish bo (sha1_ctx ((hdr @ data) @ [MDC_PKT_TAG, 20])) = (h, n, sha1 bo ((hdr @ data) @ [MDC_PKT_TAG, 20]))"
    using sha1_finish [OF assms(4)] by blast
  have enc: "pgp_cipher_cfb_encrypt bc (ed_encrypt param) ?m = Some (crypt_after False bc alg key ((hdr @ data) @ ?m), ?out)"
    using encrypt_step [OF assms(1-3), of ?m "hdr @ data"] length_mdc_of [OF assms(4)] p(4) by simp
  have "partial_recv recv base (dst_write pd ?out) ([1] @ cfb_cipher bc alg key ((hdr @ data) @ ?m))"
    using receiver.recv_write [OF partial_receiver p(6), of ?out] cfb_cipher_append [of bc alg key "hdr @ data" ?m] by simp
  then obtain pd' q parts y where q: "dst_finish (dst_write pd ?out) = (pd', dst_werr (pd_writedst q))" "dst_param pd' = Some q"
    "\<forall>x \<in> set parts. length x = PARTIAL_PKT_BLOCK_SIZE" "length y \<le> PARTIAL_PKT_BLOCK_SIZE"
    "concat parts @ y = [1] @ cfb_cipher bc alg key ((hdr @ data) @ ?m)"
    "recv (pd_writedst q) (base @ parts_enc 0xED parts @ write_packet_len (length y) @ y)"
    by (rule partial_finish_recv)
  define param' where "param' = param\<lparr>ed_mdc := h, ed_encrypt := crypt_after False bc alg key ((hdr @ data) @ ?m), ed_pkt := Partial_dst pd'\<rparr>"
  have "encrypted_dst_finish bo bc (Some param) = (Some param', dst_werr (pd_writedst q))"
    using p(2,3,5) h mdc_of_packet [OF assms(4), of "hdr @ data"] enc q(1)
    by (simp add: encrypted_dst_finish_def MDC_V1_SIZE_def streamed_write_def finish_streamed_packet_def param'_def)
  then have fin: "dst_finish dst = ((dst_flush dst)\<lparr>dst_param := Some param', dst_finished := True\<rparr>, dst_werr (pd_writedst q))"
    using p(1,7) by (simp add: dst_finish_def)
  from that [OF this _ _ q(2) dst_finish_finished [OF q(1)] q(3,4) _ q(6)] q(5) show thesis by (simp add: param'_def)
qed

end

text \<open>A password that a session key can be encrypted for.\<close>

definition pass_ok :: "block_cipher \<Rightarrow> rnp_symmetric_pass_info \<Rightarrow> bool" where
  "pass_ok bc pass \<longleftrightarrow> s2k_wf (pi_s2k pass) \<and> length (pi_key pass) = PGP_MAX_KEY_SIZE \<and> cipher_usable bc (pi_s2k_cipher pass)"

text \<open>The content key: with one password its own key, with several a random one that is encrypted for each.\<close>

definition content_key :: "nat \<Rightarrow> rnp_symmetric_pass_info list \<Rightarrow> bytes \<Rightarrow> bytes" where
  "content_key ealg passes rk = (if length passes \<le> 1 then take (pgp_key_size ealg) (pi_key (hd passes)) else rk)"

definition pass_sesskey :: "block_cipher \<Rightarrow> nat \<Rightarrow> bytes \<Rightarrow> bool \<Rightarrow> rnp_symmetric_pass_info \<Rightarrow> pgp_sk_sesskey" where
  "pass_sesskey bc ealg key single pass =
     (if single then \<lparr>sk_version = PGP_SKSK_V4, sk_alg = ealg, sk_s2k = pi_s2k pass, sk_enckey = []\<rparr>
      else \<lparr>sk_version = PGP_SKSK_V4, sk_alg = pi_s2k_cipher pass, sk_s2k = pi_s2k pass,
            sk_enckey = cfb_cipher bc (pi_s2k_cipher pass) (pi_key pass) (to_byte ealg # key)\<rparr>)"

definition sesskeys_enc :: "pgp_sk_sesskey list \<Rightarrow> bytes" where
  "sesskeys_enc ks = concat (map (\<lambda>k. packet_bytes 3 (sk_body k)) ks)"

definition key_buf :: "bytes \<Rightarrow> bytes" where
  "key_buf key = mem_write 0 key (replicate PGP_MAX_KEY_SIZE 0)"

lemma length_key_buf: "length key \<le> PGP_MAX_KEY_SIZE \<Longrightarrow> length (key_buf key) = PGP_MAX_KEY_SIZE"
  by (simp add: key_buf_def)

lemma take_key_buf: "length key = n \<Longrightarrow> take n (key_buf key) = key"
  by (simp add: key_buf_def)

lemma pass_sesskey_wf:
  assumes "pass_ok bc pass" "cipher_usable bc ealg" "length key = pgp_key_size ealg"
  shows "sk_wf (pass_sesskey bc ealg key single pass)"
  using assms usable_sizes [OF assms(2)] usable_sizes(3) [of bc "pi_s2k_cipher pass"]
  by (auto simp: pass_sesskey_def sk_wf_def pass_ok_def PGP_MAX_KEY_SIZE_def)

context receiver
begin

lemma put_packet_recv: "recv d a \<Longrightarrow> recv (put_packet tag body d) (a @ packet_bytes (word_of_int tag) body)"
  using recv_write [OF recv_write [of d a "(word_of_int tag OR PGP_PTAG_ALWAYS_SET OR PGP_PTAG_NEW_FORMAT)
                               # write_packet_len (length body)"], of body]
  by (simp add: put_packet_def packet_bytes_def)

lemma add_password_recv:
  assumes "recv d a" "pass_ok bc pass" "cipher_ok bc" "cipher_usable bc ealg" "length key = pgp_key_size ealg"
  obtains d' ret where "encrypted_add_password (\<lambda>_. True) bc pass ealg (key_buf key) (pgp_key_size ealg) False d =
      (d', key_buf key, ret)"
    "recv d' (a @ packet_bytes 3 (sk_body (pass_sesskey bc ealg key False pass)))"
proof -
  have p: "cipher_usable bc (pi_s2k_cipher pass)" "pgp_key_size (pi_s2k_cipher pass) \<le> length (pi_key pass)"
    using assms(2) usable_sizes(6) [of bc "pi_s2k_cipher pass"] by (auto simp: pass_ok_def PGP_MAX_KEY_SIZE_def)
  have key: "length (to_byte ealg # key) < 2 ^ 32" using assms(5) usable_sizes(6) [OF assms(4)] by simp
  have "pgp_cipher_cfb_encrypt bc (started bc (pi_s2k_cipher pass) (pi_key pass)) (to_byte ealg # key) =
      Some (crypt_after False bc (pi_s2k_cipher pass) (pi_key pass) (to_byte ealg # key),
        cfb_cipher bc (pi_s2k_cipher pass) (pi_key pass) (to_byte ealg # key))"
    using encrypt_step [OF p assms(3) key, of "[]"] crypt_after_Nil [OF p] by simp
  then have "encrypted_add_password (\<lambda>_. True) bc pass ealg (key_buf key) (pgp_key_size ealg) False d =
      (put_packet PGP_PTAG_CT_SK_SESSION_KEY (sk_body (pass_sesskey bc ealg key False pass)) d, key_buf key, RNP_SUCCESS)"
    using usable_sizes(5) [OF assms(4)] start_usable(1) [OF p] take_key_buf [OF assms(5)]
    by (simp add: encrypted_add_password_def write_sk_sesskey_eq pass_sesskey_def Let_def)
  with put_packet_recv [OF assms(1), of PGP_PTAG_CT_SK_SESSION_KEY "sk_body (pass_sesskey bc ealg key False pass)"] that
  show thesis by simp
qed

lemma add_passwords_recv:
  assumes "recv d a" "\<forall>p \<in> set passes. pass_ok bc p" "cipher_ok bc" "cipher_usable bc ealg" "length key = pgp_key_size ealg"
  obtains d' where "encrypted_add_passwords (\<lambda>_. True) bc passes ealg (key_buf key) (pgp_key_size ealg) False d = (d', key_buf key)"
    "recv d' (a @ sesskeys_enc (map (pass_sesskey bc ealg key False) passes))"
proof -
  have "\<exists>d'. encrypted_add_passwords (\<lambda>_. True) bc passes ealg (key_buf key) (pgp_key_size ealg) False d = (d', key_buf key) \<and>
    recv d' (a @ sesskeys_enc (map (pass_sesskey bc ealg key False) passes))"
    using assms(1,2)
  proof (induction passes arbitrary: d a)
    case (Cons p ps)
    then have p: "pass_ok bc p" by simp
    obtain d1 ret where "encrypted_add_password (\<lambda>_. True) bc p ealg (key_buf key) (pgp_key_size ealg) False d = (d1, key_buf key, ret)"
      "recv d1 (a @ packet_bytes 3 (sk_body (pass_sesskey bc ealg key False p)))"
      by (rule add_password_recv [OF Cons.prems(1) p assms(3-5)])
    with Cons.IH [OF this(2)] Cons.prems(2) show ?case by (auto simp: sesskeys_enc_def)
  qed (simp add: sesskeys_enc_def)
  with that show thesis by blast
qed

text \<open>One password: its key becomes the content key.\<close>

lemma add_single_password_recv:
  assumes "recv d a" "length (pi_key pass) = PGP_MAX_KEY_SIZE" "cipher_usable bc ealg"
  shows "\<exists>d'. encrypted_add_passwords (\<lambda>_. True) bc [pass] ealg (replicate PGP_MAX_KEY_SIZE 0) (pgp_key_size ealg) True d =
      (d', key_buf (take (pgp_key_size ealg) (pi_key pass))) \<and>
    recv d' (a @ sesskeys_enc [pass_sesskey bc ealg key True pass])"
  using put_packet_recv [OF assms(1), of PGP_PTAG_CT_SK_SESSION_KEY "sk_body (pass_sesskey bc ealg key True pass)"]
  by (simp add: encrypted_add_password_def write_sk_sesskey_eq pass_sesskey_def Let_def key_buf_def sesskeys_enc_def)

lemma init_encrypted_packet_recv:
  assumes "recv d a" "cipher_ok bc" "sha1_ok bo" "cipher_usable bc (ec_ealg ctx)" "pgp_key_size (ec_ealg ctx) \<le> length key"
    and "ec_rng_hdr ctx (pgp_block_size (ec_ealg ctx)) = Some block" "length block = pgp_block_size (ec_ealg ctx)"
  obtains param where "init_encrypted_packet (\<lambda>_. True) bo bc ctx key d = Inr param"
    "enc_accepted recv (a @ [0xD2]) bc (ec_ealg ctx) key (check_bytes block) (Some param) []"
proof -
  let ?alg = "ec_ealg ctx" and ?hdr = "check_bytes block"
  have tag: "to_byte (nat PGP_PTAG_CT_SE_IP_DATA) OR PGP_PTAG_ALWAYS_SET OR PGP_PTAG_NEW_FORMAT = 0xD2" by simp
  obtain pd where pd: "init_partial_pkt_dst (\<lambda>_. True) (dst_write d [0xD2]) = (pd, RNP_SUCCESS)"
    "partial_recv recv (a @ [0xD2]) pd []"
    using init_partial_recv [OF recv_write [OF assms(1), of "[0xD2]"]] by blast
  have len: "length ?hdr < 2 ^ 32" using assms(7) usable_sizes(1) [OF assms(4)] by (auto simp: check_bytes_def)
  have enc: "pgp_cipher_cfb_encrypt bc (started bc ?alg key) ?hdr =
      Some (crypt_after False bc ?alg key ?hdr, cfb_cipher bc ?alg key ?hdr)"
    using encrypt_step [OF assms(4,5,2) len, of "[]"] crypt_after_Nil [OF assms(4,5)] by simp
  define pd' where "pd' = dst_write (dst_write pd [1]) (cfb_cipher bc ?alg key ?hdr)"
  have recv': "partial_recv recv (a @ [0xD2]) pd' ([1] @ cfb_cipher bc ?alg key ?hdr)"
    using receiver.recv_writes [OF partial_receiver pd(2), of "[[1], cfb_cipher bc ?alg key ?hdr]"] by (simp add: pd'_def)
  have "init_encrypted_packet (\<lambda>_. True) bo bc ctx key d =
      Inr \<lparr>ed_pkt = Partial_dst pd', ed_has_mdc = True, ed_encrypt = crypt_after False bc ?alg key ?hdr,
           ed_ealg = ?alg, ed_mdc = sha1_ctx ?hdr\<rparr>"
    using pd(1) enc assms(6) start_usable(1) [OF assms(4,5)] sha1_create [OF assms(3)]
    by (simp add: init_encrypted_packet_def init_streamed_packet_def tag streamed_write_def pd'_def Let_def)
  with recv' that show thesis by (auto simp: enc_accepted_def)
qed

lemma init_encrypted_recv:
  assumes "recv d a" "cipher_ok bc" "sha1_ok bo" "cipher_usable bc ealg" "passes \<noteq> []" "\<forall>p \<in> set passes. pass_ok bc p"
    and "length rk = pgp_key_size ealg" "length block = pgp_block_size ealg"
  defines "key \<equiv> content_key ealg passes rk"
    and "ctx \<equiv> \<lparr>ec_ealg = ealg, ec_recipients = [], ec_passwords = passes, ec_rng_key = \<lambda>_. Some rk, ec_rng_hdr = \<lambda>_. Some block\<rparr>"
  obtains dst where "init_encrypted_dst (\<lambda>_. True) bo bc en ctx d = Inr dst"
    "enc_recv recv (a @ sesskeys_enc (map (pass_sesskey bc ealg key (length passes \<le> 1)) passes) @ [0xD2]) bo bc ealg (key_buf key)
       (check_bytes block) dst []"
proof -
  let ?base = "a @ sesskeys_enc (map (pass_sesskey bc ealg key (length passes \<le> 1)) passes)"
  have len: "length key = pgp_key_size ealg"
    using assms(4-7) usable_sizes(6) [OF assms(4)]
    by (cases passes) (auto simp: key_def content_key_def pass_ok_def PGP_MAX_KEY_SIZE_def)
  have kb: "pgp_key_size ealg \<le> length (key_buf key)"
    using length_key_buf [of key] len usable_sizes(6) [OF assms(4)] by (simp add: PGP_MAX_KEY_SIZE_def)
  have "\<exists>d'. encrypted_add_passwords (\<lambda>_. True) bc passes ealg
      (if length passes \<le> 1 then replicate PGP_MAX_KEY_SIZE 0 else key_buf rk) (pgp_key_size ealg) (length passes \<le> 1) d = (d', key_buf key) \<and>
    recv d' ?base"
  proof (cases "length passes \<le> 1")
    case True
    then obtain pass where pass: "passes = [pass]" using assms(5) by (cases passes) auto
    then have "length (pi_key pass) = PGP_MAX_KEY_SIZE" using assms(6) by (simp add: pass_ok_def)
    from add_single_password_recv [OF assms(1) this assms(4), of key] show ?thesis
      by (simp add: pass key_def content_key_def)
  next
    case False
    then have key: "key = rk" by (simp add: key_def content_key_def)
    show ?thesis
      by (rule add_passwords_recv [OF assms(1,6,2,4,7)]) (use False key in auto)
  qed
  then obtain d' where d': "encrypted_add_passwords (\<lambda>_. True) bc passes ealg
      (if length passes \<le> 1 then replicate PGP_MAX_KEY_SIZE 0 else key_buf rk) (pgp_key_size ealg) (length passes \<le> 1) d = (d', key_buf key)"
    "recv d' ?base" by blast
  obtain param where param: "init_encrypted_packet (\<lambda>_. True) bo bc ctx (key_buf key) d' = Inr param"
    "enc_accepted recv (?base @ [0xD2]) bc ealg (key_buf key) (check_bytes block) (Some param) []"
    by (rule init_encrypted_packet_recv [OF d'(2) assms(2,3), of ctx "key_buf key" block]) (use assms(4,8) kb in \<open>simp_all add: ctx_def\<close>)
  have f: "ec_ealg ctx = ealg" "ec_recipients ctx = []" "ec_passwords ctx = passes" "\<And>n. ec_rng_key ctx n = Some rk"
    by (simp_all add: ctx_def)
  have "\<exists>dst. init_encrypted_dst (\<lambda>_. True) bo bc en ctx d = Inr dst \<and>
      recv_accepted (encrypted_dst_write bc) (Some (encrypted_dst_finish bo bc)) (\<lambda>p a. p = Some param \<and> a = []) dst []"
    using usable_sizes(5) [OF assms(4)] d'(1) param(1)
    by (cases "length passes \<le> 1")
      (simp_all add: init_encrypted_dst_def init_dst_common_def f Let_def recv_accepted_def key_buf_def [symmetric] del: mem_write_0)
  with param(2) that show thesis by (auto simp: enc_recv_def recv_accepted_def)
qed

end

end
