(* ===== verification/Encrypted_Read.thy ===== *)
theory Encrypted_Read
  imports Encrypted_Write
begin

text \<open>
  What an encrypted source delivers: the state of a source in the middle of the data and behind its code, how the
  key is found with a password, and reading a whole message.
\<close>

section \<open>What an encrypted source delivers\<close>

lemma started_cong:
  "take (pgp_key_size alg) k1 = take (pgp_key_size alg) k2 \<Longrightarrow> started bc alg k1 = started bc alg k2"
  by (metis started_take)

lemma crypt_cong:
  assumes "take (pgp_key_size alg) k1 = take (pgp_key_size alg) k2"
  shows "crypt_after dec bc alg k1 = crypt_after dec bc alg k2" "cfb_cipher bc alg k1 = cfb_cipher bc alg k2"
  using started_cong [OF assms, of bc] by (auto simp: crypt_after_def cfb_cipher_def crypt_fun_def)

text \<open>
  The source has delivered and hashed \<open>xs\<close>, check bytes included, and \<open>todo\<close> is still encrypted in the packet.
\<close>

definition enc_pending ::
    "('q \<Rightarrow> nat \<Rightarrow> 'q \<times> bytes option) \<Rightarrow> ('q \<Rightarrow> bytes) \<Rightarrow> ('q \<Rightarrow> bool) \<Rightarrow> block_cipher \<Rightarrow> nat \<Rightarrow> bytes \<Rightarrow>
     'q encrypted_src_param \<Rightarrow> bytes \<Rightarrow> bytes \<Rightarrow> bool" where
  "enc_pending rd rest ok bc alg key param xs todo \<longleftrightarrow>
     es_has_mdc param \<and> packet_ok rd rest ok (es_src param) \<and>
     packet_rest rest (es_src param) = drop (length xs) (cfb_cipher bc alg key (xs @ todo)) \<and>
     es_decrypt param = crypt_after False bc alg key xs \<and> es_mdc param = sha1_ctx xs"

text \<open>The source has checked the code; \<open>left\<close> bytes of the packet were not read.\<close>

definition enc_checked ::
    "('q \<Rightarrow> nat \<Rightarrow> 'q \<times> bytes option) \<Rightarrow> ('q \<Rightarrow> bytes) \<Rightarrow> ('q \<Rightarrow> bool) \<Rightarrow> 'q encrypted_src_param \<Rightarrow> nat \<Rightarrow> bool" where
  "enc_checked rd rest ok param left \<longleftrightarrow>
     es_has_mdc param \<and> es_mdc_validated param \<and> packet_ok rd rest ok (es_src param) \<and>
     length (packet_rest rest (es_src param)) = left"

lemma es_src_simps [simp]:
  "es_src (es_with_src param ps) = ps" "es_has_mdc (es_with_src param ps) = es_has_mdc param"
  "es_decrypt (es_with_src param ps) = es_decrypt param" "es_mdc (es_with_src param ps) = es_mdc param"
  "es_mdc_validated (es_with_src param ps) = es_mdc_validated param"
  "es_src (param\<lparr>es_decrypt := c\<rparr>) = es_src param" "es_src (param\<lparr>es_mdc := h\<rparr>) = es_src param"
  "es_src (param\<lparr>es_mdc_validated := b\<rparr>) = es_src param"
  "es_symencs (es_with_src param ps) = es_symencs param"
  by (simp_all add: es_src_def es_with_src_def)

lemma mdc_of_nth: "mdc_of bo xs ! 0 = MDC_PKT_TAG" "mdc_of bo xs ! Suc 0 = 20" "take 2 (mdc_of bo xs) = [MDC_PKT_TAG, 20]"
  "drop 2 (mdc_of bo xs) = sha1 bo (xs @ [MDC_PKT_TAG, 20])"
  by (simp_all add: mdc_of_def)

text \<open>Decrypting the end of the data and its code.\<close>

lemma encrypted_decrypt_last:
  assumes "cipher_usable bc alg" "pgp_key_size alg \<le> length key" "cipher_ok bc" "sha1_ok bo" "length data < 2 ^ 32"
    and "es_has_mdc param" "es_decrypt param = crypt_after False bc alg key xs" "es_mdc param = sha1_ctx xs"
  defines "c \<equiv> drop (length xs) (cfb_cipher bc alg key (xs @ data @ mdc_of bo (xs @ data)))"
  obtains param' where "encrypted_decrypt bo bc param (take (length data) c) (Some (drop (length data) c)) = (param', Some data)"
    "es_has_mdc param'" "es_mdc_validated param'" "es_src param' = es_src param"
proof -
  let ?m = "mdc_of bo (xs @ data)" and ?all = "cfb_cipher bc alg key (xs @ data @ mdc_of bo (xs @ data))"
  have pre: "cfb_cipher bc alg key (xs @ data) = take (length xs + length data) ?all"
    using cfb_cipher_append [of bc alg key "xs @ data" ?m] by (metis append_assoc append_eq_conv_conj length_append length_cfb_cipher)
  have c1: "take (length data) c = drop (length xs) (cfb_cipher bc alg key (xs @ data))"
    by (simp add: c_def pre take_drop add.commute)
  have c2: "drop (length data) c = drop (length (xs @ data)) (cfb_cipher bc alg key ((xs @ data) @ ?m))"
    by (simp add: c_def add.commute)
  have m: "length ?m < 2 ^ 32" using length_mdc_of [OF assms(4)] by simp
  note d1 = decrypt_step [OF assms(1-3,5), of xs, folded c1]
  note d2 = decrypt_step [OF assms(1-3) m, of "xs @ data", folded c2]
  obtain h n where h: "pgp_hash_finish bo (sha1_ctx ((xs @ data) @ [MDC_PKT_TAG, 20])) = (h, n, sha1 bo ((xs @ data) @ [MDC_PKT_TAG, 20]))"
    using sha1_finish [OF assms(4)] by blast
  have "take PGP_SHA1_HASH_SIZE (sha1 bo ((xs @ data) @ [MDC_PKT_TAG, 20])) = sha1 bo ((xs @ data) @ [MDC_PKT_TAG, 20])"
    using sha1 [OF assms(4)] by simp
  with that show thesis using d1 d2 h assms(6-8)
    by (simp add: encrypted_decrypt_def encrypted_check_mdc_def mdc_of_nth MDC_V1_SIZE_def Let_def)
qed

lemma encrypted_src_read_mdc:
  assumes "packet_read (es_src param) n = (ps1, Some buf)" "buf \<noteq> []" "es_has_mdc param"
    and "packet_peek ps1 MDC_V1_SIZE = (ps2, Some m)"
  shows "encrypted_src_read bo bc (Some param) n =
    (let read = length buf - (MDC_V1_SIZE - length m); param1 = es_with_src param ps2 in
     if MDC_V1_SIZE \<le> length m then map_prod Some id (encrypted_decrypt bo bc param1 buf None)
     else if length m + length buf < MDC_V1_SIZE then (Some param1, None)
     else map_prod Some id (encrypted_decrypt bo bc param1 (take read buf) (Some (drop read buf @ m))))"
  using assms by (cases buf) (simp_all add: encrypted_src_read_def Let_def)

lemma encrypted_src_read_short:
  assumes "packet_read (es_src param) n = (ps1, Some buf)" "buf \<noteq> []" "es_has_mdc param"
    and "packet_peek ps1 MDC_V1_SIZE = (ps2, Some m)" "length m + length buf < MDC_V1_SIZE"
  shows "snd (encrypted_src_read bo bc (Some param) n) = None"
  using encrypted_src_read_mdc [OF assms(1-4), of bo bc] assms(5) by (simp add: Let_def)

context reliable_source
begin

lemma packet_read_full:
  assumes "packet_ok rd rest ok ps"
  obtains ps' where "packet_read ps n = (ps', Some (take n (packet_rest rest ps)))"
    "packet_rest rest ps' = drop n (packet_rest rest ps)" "packet_ok rd rest ok ps'"
    "packet_readb ps' = packet_readb ps + min n (length (packet_rest rest ps))"
proof (cases ps)
  case (Whole_src s)
  then have "src_inv rd rest ok s" using assms by (simp add: packet_ok_def)
  then show thesis
    by (rule src_read_any [of s n]) (simp add: that Whole_src packet_read_def packet_rest_def packet_ok_def packet_readb_def)
next
  case (Parts_src s)
  then have "src_inv partial_pkt_src_read (partial_rest rest) (\<lambda>p. partial_ok rd rest ok p \<and> partial_whole rest p) s"
    using assms by (simp add: packet_ok_def)
  then show thesis
    by (rule reliable_source.src_read_any [OF partial_reliable_source, of s n])
      (simp add: that Parts_src packet_read_def packet_rest_def packet_ok_def packet_readb_def)
qed

lemma packet_peek_full:
  assumes "packet_ok rd rest ok ps" "n \<le> PGP_INPUT_CACHE_SIZE"
  obtains ps' where "packet_peek ps n = (ps', Some (take n (packet_rest rest ps)))"
    "packet_rest rest ps' = packet_rest rest ps" "packet_ok rd rest ok ps'" "packet_readb ps' = packet_readb ps"
proof (cases ps)
  case (Whole_src s)
  then have inv: "src_inv rd rest ok s" using assms(1) by (simp add: packet_ok_def)
  then have "src_readb s + n < 2 ^ 64" using assms(2) by (simp add: src_inv_def PGP_INPUT_CACHE_SIZE_def)
  with inv assms(2) show thesis
    by (rule src_peek_eq) (simp add: that Whole_src packet_peek_def packet_rest_def packet_ok_def packet_readb_def)
next
  case (Parts_src s)
  then have inv: "src_inv partial_pkt_src_read (partial_rest rest) (\<lambda>p. partial_ok rd rest ok p \<and> partial_whole rest p) s"
    using assms(1) by (simp add: packet_ok_def)
  then have "src_readb s + n < 2 ^ 64" using assms(2) by (simp add: src_inv_def PGP_INPUT_CACHE_SIZE_def)
  with inv assms(2) show thesis
    by (rule reliable_source.src_peek_eq [OF partial_reliable_source])
      (simp add: that Parts_src packet_peek_def packet_rest_def packet_ok_def packet_readb_def)
qed

lemma packet_skip_full:
  assumes "packet_ok rd rest ok ps" "n \<le> PGP_INPUT_CACHE_SIZE"
  defines "ps' \<equiv> packet_skip (\<lambda>_. True) ps n"
  shows "packet_rest rest ps' = drop n (packet_rest rest ps) \<and> packet_ok rd rest ok ps' \<and>
    packet_readb ps' = packet_readb ps + min n (length (packet_rest rest ps))"
proof (cases ps)
  case (Whole_src s)
  then have inv: "src_inv rd rest ok s" using assms(1) by (simp add: packet_ok_def)
  then have "src_readb s + n < 2 ^ 64" using assms(2) by (simp add: src_inv_def PGP_INPUT_CACHE_SIZE_def)
  with inv show ?thesis
    by (rule src_skip_eq [where al = "\<lambda>_. True"])
      (simp_all add: ps'_def Whole_src packet_skip_def packet_rest_def packet_ok_def packet_readb_def)
next
  case (Parts_src s)
  then have inv: "src_inv partial_pkt_src_read (partial_rest rest) (\<lambda>p. partial_ok rd rest ok p \<and> partial_whole rest p) s"
    using assms(1) by (simp add: packet_ok_def)
  then have "src_readb s + n < 2 ^ 64" using assms(2) by (simp add: src_inv_def PGP_INPUT_CACHE_SIZE_def)
  with inv show ?thesis
    by (rule reliable_source.src_skip_eq [OF partial_reliable_source, where al = "\<lambda>_. True"])
      (simp_all add: ps'_def Parts_src packet_skip_def packet_rest_def packet_ok_def packet_readb_def)
qed

text \<open>The read that reaches the code delivers the rest of the data, and only if the code is right.\<close>

lemma enc_read_last:
  assumes "cipher_usable bc alg" "pgp_key_size alg \<le> length key" "cipher_ok bc" "sha1_ok bo" "length data < 2 ^ 32"
    and "enc_pending rd rest ok bc alg key param xs (data @ mdc_of bo (xs @ data))" "length data < n"
  obtains param' where "encrypted_src_read bo bc (Some param) n = (Some param', Some data)"
    "enc_checked rd rest ok param' (length data + 22 - n)"
proof -
  define c where "c = drop (length xs) (cfb_cipher bc alg key (xs @ data @ mdc_of bo (xs @ data)))"
  have p: "es_has_mdc param" "packet_ok rd rest ok (es_src param)" "packet_rest rest (es_src param) = c"
    "es_decrypt param = crypt_after False bc alg key xs" "es_mdc param = sha1_ctx xs"
    using assms(6) by (simp_all add: enc_pending_def c_def)
  have lc: "length c = length data + 22" using length_mdc_of [OF assms(4)] by (simp add: c_def)
  obtain ps1 where 1: "packet_read (es_src param) n = (ps1, Some (take n c))" "packet_rest rest ps1 = drop n c" "packet_ok rd rest ok ps1"
    by (rule packet_read_full [OF p(2), of n]) (simp add: p(3))
  obtain ps2 where 2: "packet_peek ps1 MDC_V1_SIZE = (ps2, Some (take MDC_V1_SIZE (drop n c)))" "packet_rest rest ps2 = drop n c"
    "packet_ok rd rest ok ps2"
    by (rule packet_peek_full [OF 1(3), of MDC_V1_SIZE]) (simp_all add: 1(2) MDC_V1_SIZE_def PGP_INPUT_CACHE_SIZE_def)
  have m: "take MDC_V1_SIZE (drop n c) = drop n c" using lc assms(7) by (simp add: MDC_V1_SIZE_def)
  define k where "k = length (take n c) - (MDC_V1_SIZE - length (drop n c))"
  have k: "k = length data" using lc assms(7) by (simp add: k_def MDC_V1_SIZE_def)
  have parts: "take k (take n c) = take (length data) c" "drop k (take n c) @ drop n c = drop (length data) c"
  proof -
    show "take k (take n c) = take (length data) c" using assms(7) k by (simp add: min_def)
    have "drop k (take n c @ drop n c) = drop k (take n c) @ drop n c" using assms(7) k lc by (simp del: append_take_drop_id)
    then show "drop k (take n c) @ drop n c = drop (length data) c" by (simp add: k)
  qed
  have ne: "take n c \<noteq> []" using lc assms(7) by auto
  obtain param' where d: "encrypted_decrypt bo bc (es_with_src param ps2) (take (length data) c) (Some (drop (length data) c)) = (param', Some data)"
    "es_has_mdc param'" "es_mdc_validated param'" "es_src param' = ps2"
    by (rule encrypted_decrypt_last [OF assms(1-5), of "es_with_src param ps2" xs]) (use p in \<open>simp_all add: c_def\<close>)
  have "encrypted_src_read bo bc (Some param) n = (Some param', Some data)"
  proof -
    have "\<not> MDC_V1_SIZE \<le> length (drop n c)" "\<not> length (drop n c) + length (take n c) < MDC_V1_SIZE"
      using lc assms(7) by (simp_all add: MDC_V1_SIZE_def)
    then show ?thesis
      using encrypted_src_read_mdc [OF 1(1) ne p(1) 2(1) [unfolded m], of bo bc] d(1) parts
      unfolding Let_def k_def [symmetric] by simp
  qed
  moreover have "enc_checked rd rest ok param' (length data + 22 - n)"
    using d(2-4) 2(2,3) lc by (simp add: enc_checked_def)
  ultimately show thesis by (rule that)
qed

text \<open>
  Behind the code: nothing more is delivered when all of the packet was read, but a few bytes of the code that
  were only looked at make the next call fail.
\<close>

lemma enc_read_after:
  assumes "enc_checked rd rest ok param 0"
  obtains param' where "encrypted_src_read bo bc (Some param) n = (Some param', Some [])" "enc_checked rd rest ok param' 0"
proof -
  obtain ps1 where "packet_read (es_src param) n = (ps1, Some [])" "packet_rest rest ps1 = []" "packet_ok rd rest ok ps1"
    by (rule packet_read_full [of "es_src param" n]) (use assms in \<open>auto simp: enc_checked_def\<close>)
  with that [of "es_with_src param ps1"] assms show thesis by (simp add: encrypted_src_read_def enc_checked_def)
qed

lemma enc_read_after_error:
  assumes "enc_checked rd rest ok param left" "0 < left" "left < 22" "0 < n"
  shows "snd (encrypted_src_read bo bc (Some param) n) = None"
proof -
  let ?z = "packet_rest rest (es_src param)"
  have p: "es_has_mdc param" "packet_ok rd rest ok (es_src param)" "length ?z = left" using assms(1) by (auto simp: enc_checked_def)
  obtain ps1 where 1: "packet_read (es_src param) n = (ps1, Some (take n ?z))" "packet_rest rest ps1 = drop n ?z" "packet_ok rd rest ok ps1"
    by (rule packet_read_full [OF p(2)])
  obtain ps2 where 2: "packet_peek ps1 MDC_V1_SIZE = (ps2, Some (take MDC_V1_SIZE (drop n ?z)))"
    by (rule packet_peek_full [OF 1(3), of MDC_V1_SIZE]) (simp_all add: 1(2) MDC_V1_SIZE_def PGP_INPUT_CACHE_SIZE_def)
  have "take n ?z \<noteq> []" using p(3) assms(2,4) by auto
  moreover have "length (take MDC_V1_SIZE (drop n ?z)) + length (take n ?z) < MDC_V1_SIZE"
    using p(3) assms(3) by (cases "n \<le> left") (simp_all add: MDC_V1_SIZE_def)
  ultimately show ?thesis by (rule encrypted_src_read_short [OF 1(1) _ p(1) 2])
qed

text \<open>The check bytes are accepted and the source is at the start of the data.\<close>

lemma decrypt_header_pending:
  assumes "cipher_usable bc alg" "pgp_key_size alg \<le> length key" "cipher_ok bc" "sha1_ok bo" "length block = pgp_block_size alg"
    and "es_has_mdc param" "packet_ok rd rest ok (es_src param)"
    and "packet_rest rest (es_src param) = cfb_cipher bc alg key (check_bytes block @ todo)"
  obtains param' where "encrypted_decrypt_header (\<lambda>_. True) bo bc param alg key = (param', True)"
    "enc_pending rd rest ok bc alg key param' (check_bytes block) todo"
    "packet_readb (es_src param') = packet_readb (es_src param) + (pgp_block_size alg + 2)"
    "es_mdc_validated param' = es_mdc_validated param"
proof -
  let ?n = "pgp_block_size alg + 2" and ?h = "check_bytes block"
  let ?c = "cfb_cipher bc alg key (?h @ todo)"
  have n: "?n \<le> PGP_INPUT_CACHE_SIZE" "length ?h = ?n" "?n < 2 ^ 32"
    using usable_sizes(1) [OF assms(1)] assms(5) by (auto simp: PGP_INPUT_CACHE_SIZE_def check_bytes_def)
  obtain ps1 where 1: "packet_peek (es_src param) ?n = (ps1, Some (take ?n ?c))" "packet_rest rest ps1 = ?c" "packet_ok rd rest ok ps1"
    "packet_readb ps1 = packet_readb (es_src param)"
    by (rule packet_peek_full [OF assms(7) n(1)]) (simp add: assms(8))
  have pre: "take ?n ?c = cfb_cipher bc alg key ?h"
    using cfb_cipher_append [of bc alg key ?h todo] n(2) by (metis append_eq_conv_conj length_cfb_cipher)
  note 2 = packet_skip_full [OF 1(3) n(1), unfolded 1(2)]
  have dec: "pgp_cipher_cfb_decrypt bc (started bc alg key) (take ?n ?c) = Some (crypt_after False bc alg key ?h, ?h)"
    unfolding pre using decrypt_step [OF assms(1-3), of ?h "[]"] n(2,3) crypt_after_Nil [OF assms(1,2)] by simp
  have chk: "?h ! pgp_block_size alg = ?h ! (pgp_block_size alg - 2) \<and> ?h ! Suc (pgp_block_size alg) = ?h ! (pgp_block_size alg - Suc 0)"
    using assms(5) usable_sizes(1) [OF assms(1)] by (auto simp: check_bytes_def nth_append)
  define param' where "param' = (es_with_src (es_with_src param ps1) (packet_skip (\<lambda>_. True) ps1 ?n))
    \<lparr>es_decrypt := crypt_after False bc alg key ?h, es_mdc := sha1_ctx ?h\<rparr>"
  have "encrypted_decrypt_header (\<lambda>_. True) bo bc param alg key = (param', True)"
    using usable_sizes(4) [OF assms(1)] 1(1) n(2) start_usable(1) [OF assms(1,2)] dec chk assms(6) sha1_create [OF assms(4)] pre
    by (simp add: encrypted_decrypt_header_def Let_def param'_def)
  moreover have "enc_pending rd rest ok bc alg key param' ?h todo"
    using 2 assms(6) n(2) by (simp add: enc_pending_def param'_def)
  ultimately show thesis by (rule that) (use 1(4) 2 n(2) in \<open>simp_all add: param'_def\<close>)
qed

end

section \<open>Finding the key\<close>

fun sk_fills :: "pgp_sk_sesskey \<Rightarrow> pgp_sk_sesskey list \<Rightarrow> pgp_sk_sesskey list" where
  "sk_fills k0 [] = []"
| "sk_fills k0 (k # ks) = sk_filled k0 k # sk_fills (sk_filled k0 k) ks"

lemma derive_filled: "s2k_wf (sk_s2k k) \<Longrightarrow>
    pgp_s2k_derive_key pbkdf (sk_s2k (sk_filled k0 k)) = pgp_s2k_derive_key pbkdf (sk_s2k k)"
  by (auto simp: pgp_s2k_derive_key_def sk_filled_def s2k_wf_def fun_eq_iff)

lemma sk_filled_fields [simp]: "sk_alg (sk_filled k0 k) = sk_alg k" "sk_enckey (sk_filled k0 k) = sk_enckey k"
  by (simp_all add: sk_filled_def)

text \<open>
  The key derivation function gives the first bytes of the same key for a smaller size, on which
  \<^const>\<open>rnp_encrypt_set_pass_info\<close> relies.
\<close>

definition pbkdf_ok :: "pbkdf \<Rightarrow> bool" where
  "pbkdf_ok pbkdf \<longleftrightarrow>
     (\<forall>name m password salt iterations key n. pbkdf name m password salt iterations = Some key \<longrightarrow>
        length key = m \<and> (n \<le> m \<longrightarrow> pbkdf name n password salt iterations = Some (take n key)))"

definition password_of :: "pbkdf \<Rightarrow> string \<Rightarrow> rnp_symmetric_pass_info \<Rightarrow> bool" where
  "password_of pbkdf password pass \<longleftrightarrow>
     (\<forall>n \<le> PGP_MAX_KEY_SIZE. pgp_s2k_derive_key pbkdf (pi_s2k pass) password n = Some (take n (pi_key pass)))"

lemma set_pass_info_ok:
  assumes "rnp_encrypt_set_pass_info pbkdf (Some salt) password halg iterations s2k_cipher = Inr pass"
    and "pbkdf_ok pbkdf" "length salt = PGP_SALT_SIZE" "halg < 256" "cipher_usable bc s2k_cipher"
  shows "pass_ok bc pass" "password_of pbkdf password pass"
proof -
  define s2k where "s2k = \<lparr>s2k_usage = PGP_S2KU_ENCRYPTED_AND_HASHED, s2k_specifier = PGP_S2KS_ITERATED_AND_SALTED,
    s2k_hash_alg = halg, s2k_salt = salt, s2k_iterations = pgp_s2k_encode_iterations iterations\<rparr>"
  obtain key where key: "pgp_s2k_derive_key pbkdf s2k password PGP_MAX_KEY_SIZE = Some key"
    "pass = \<lparr>pi_s2k = s2k, pi_s2k_cipher = s2k_cipher, pi_key = key\<rparr>"
    using assms(1) by (auto simp: rnp_encrypt_set_pass_info_def s2k_def Let_def split: option.splits)
  have it: "pgp_s2k_encode_iterations iterations < 256"
    using encode_from_spec [of 0 iterations] by (simp add: pgp_s2k_encode_iterations_def less_Suc_eq_le)
  obtain name it' where k: "\<And>n. pgp_s2k_derive_key pbkdf s2k password n = pbkdf name n password (take PGP_SALT_SIZE salt) it'"
    by (auto simp: pgp_s2k_derive_key_def s2k_def pgp_s2k_iterated_def)
  have len: "length key = PGP_MAX_KEY_SIZE" using assms(2) key(1) unfolding k pbkdf_ok_def by blast
  show "pass_ok bc pass" using it len assms(3-5) by (simp add: pass_ok_def key(2) s2k_wf_def s2k_def)
  show "password_of pbkdf password pass"
    using assms(2) key(1) unfolding password_of_def key(2) rnp_symmetric_pass_info.simps k pbkdf_ok_def by blast
qed

context reliable_source
begin

lemma try_password_pending:
  assumes "cipher_usable bc ealg" "cipher_ok bc" "sha1_ok bo" "length block = pgp_block_size ealg" "length key = pgp_key_size ealg"
    and "pass_ok bc pass" "password_of pbkdf password pass" "single \<Longrightarrow> key = take (pgp_key_size ealg) (pi_key pass)"
    and "es_symencs param = sk_filled k0 (pass_sesskey bc ealg key single pass) # ks"
    and "es_has_mdc param" "packet_ok rd rest ok (es_src param)"
    and "packet_rest rest (es_src param) = cfb_cipher bc ealg key (check_bytes block @ todo)"
  obtains param' where "encrypted_try_password (\<lambda>_. True) bo bc pbkdf param password = (param', 1)"
    "enc_pending rd rest ok bc ealg key param' (check_bytes block) todo"
    "packet_readb (es_src param') = packet_readb (es_src param) + (pgp_block_size ealg + 2)"
    "es_mdc_validated param' = es_mdc_validated param"
proof -
  let ?k = "pass_sesskey bc ealg key single pass"
  have wf: "s2k_wf (sk_s2k ?k)" "sk_s2k ?k = pi_s2k pass" using assms(6) by (simp_all add: pass_sesskey_def pass_ok_def)
  note e = usable_sizes [OF assms(1)]
  obtain param' where h: "encrypted_decrypt_header (\<lambda>_. True) bo bc param ealg key = (param', True)"
    "enc_pending rd rest ok bc ealg key param' (check_bytes block) todo"
    "packet_readb (es_src param') = packet_readb (es_src param) + (pgp_block_size ealg + 2)"
    "es_mdc_validated param' = es_mdc_validated param"
    by (rule decrypt_header_pending [OF assms(1) _ assms(2-4,10-12)]) (simp add: assms(5))
  have "encrypted_try_password (\<lambda>_. True) bo bc pbkdf param password = (param', 1)"
  proof (cases single)
    case True
    have "pgp_s2k_derive_key pbkdf (sk_s2k (sk_filled k0 ?k)) password (pgp_key_size ealg) = Some key"
      unfolding derive_filled [OF wf(1)] wf(2) using assms(7,8) e(6) True by (simp add: password_of_def PGP_MAX_KEY_SIZE_def)
    with h(1) e(4,5) show ?thesis
      by (simp add: encrypted_try_password_def assms(9) pass_sesskey_def True)
  next
    case False
    let ?a = "pi_s2k_cipher pass"
    have a: "cipher_usable bc ?a" using assms(6) by (simp add: pass_ok_def)
    note s = usable_sizes [OF a]
    let ?kb = "take (pgp_key_size ?a) (pi_key pass)"
    have kb: "length ?kb = pgp_key_size ?a" using s(6) assms(6) by (simp add: pass_ok_def PGP_MAX_KEY_SIZE_def)
    have derive: "pgp_s2k_derive_key pbkdf (sk_s2k (sk_filled k0 ?k)) password (pgp_key_size ?a) = Some ?kb"
      unfolding derive_filled [OF wf(1)] wf(2) using assms(7) s(6) by (simp add: password_of_def PGP_MAX_KEY_SIZE_def)
    have len: "length (to_byte ealg # key) < 2 ^ 32" using assms(5) e(6) by simp
    have ck: "cfb_cipher bc ?a ?kb = cfb_cipher bc ?a (pi_key pass)" by (rule crypt_cong) simp
    have dec: "pgp_cipher_cfb_decrypt bc (started bc ?a ?kb) (cfb_cipher bc ?a (pi_key pass) (to_byte ealg # key)) =
        Some (crypt_after False bc ?a ?kb (to_byte ealg # key), to_byte ealg # key)"
      using decrypt_step [OF a _ assms(2) len, of ?kb "[]"] crypt_after_Nil [OF a, of ?kb] kb by (simp add: ck)
    have alg: "unat (to_byte ealg) = ealg" using e(3) by simp
    have enckey: "sk_enckey ?k = cfb_cipher bc ?a (pi_key pass) (to_byte ealg # key)" "sk_alg ?k = ?a"
      using False by (simp_all add: pass_sesskey_def)
    have ne: "sk_enckey ?k \<noteq> []" "length (sk_enckey ?k) = pgp_key_size ealg + 1"
      unfolding enckey(1) using assms(5) length_cfb_cipher [of bc ?a "pi_key pass" "to_byte ealg # key"]
      by (auto simp del: length_cfb_cipher)
    show ?thesis
      using derive dec alg ne h(1) e(4,5) s(5) start_usable(1) [OF a, of ?kb] kb
      by (simp add: encrypted_try_password_def assms(9) enckey(2) flip: enckey(1))
  qed
  with h(2-4) that show thesis by blast
qed

lemma get_key_pending:
  assumes "cipher_usable bc ealg" "cipher_ok bc" "sha1_ok bo" "length block = pgp_block_size ealg" "length key = pgp_key_size ealg"
    and "pass_ok bc pass" "password_of pbkdf password pass" "single \<Longrightarrow> key = take (pgp_key_size ealg) (pi_key pass)"
    and "es_symencs param = sk_filled k0 (pass_sesskey bc ealg key single pass) # ks" "es_pubencs param = []"
    and "es_has_mdc param" "packet_ok rd rest ok (es_src param)"
    and "packet_rest rest (es_src param) = cfb_cipher bc ealg key (check_bytes block @ todo)"
    and "de_passwords de = Some pws" "pws 0 = Some password"
  obtains param' where "encrypted_get_key (\<lambda>_. True) bo bc pbkdf de param = Some (param', RNP_SUCCESS)"
    "enc_pending rd rest ok bc ealg key param' (check_bytes block) todo"
    "packet_readb (es_src param') = packet_readb (es_src param) + (pgp_block_size ealg + 2)"
    "es_mdc_validated param' = es_mdc_validated param"
proof -
  obtain param' where p: "encrypted_try_password (\<lambda>_. True) bo bc pbkdf param password = (param', 1)"
    "enc_pending rd rest ok bc ealg key param' (check_bytes block) todo"
    "packet_readb (es_src param') = packet_readb (es_src param) + (pgp_block_size ealg + 2)"
    "es_mdc_validated param' = es_mdc_validated param"
    using assms(1-9,11-13) by (rule try_password_pending)
  have "encrypted_ask_passwords (\<lambda>_. True) bo bc pbkdf pws 0 param = Some (param', RNP_SUCCESS)"
    using p(1) assms(15) by (simp add: encrypted_ask_passwords.simps)
  then have "encrypted_get_key (\<lambda>_. True) bo bc pbkdf de param = Some (param', RNP_SUCCESS)"
    using assms(9,10,14) by (simp add: encrypted_get_key_def split: option.split)
  with p(2-4) that show thesis by blast
qed

text \<open>The session key packets in front of the encrypted data.\<close>

lemma read_keys_holds:
  assumes "holds s (sesskeys_enc ks @ 0xD2 # r)" "\<forall>k \<in> set ks. sk_wf k"
  obtains s' where "encrypted_read_keys (\<lambda>_. True) s k0 pk symencs [] = Some (s', Inr (18, symencs @ sk_fills k0 ks, []))"
    "holds s' (0xD2 # r)"
proof -
  have peek: "\<exists>s'. src_peek t 1 = (s', Some [b]) \<and> holds s' (b # x)" if t: "holds t (b # x)" for t b x
  proof -
    have inv: "src_inv rd rest ok t" "src_avail rest t = b # x" using t by (auto simp: src_holds_def)
    have "src_readb t + 1 < 2 ^ 64" using src_holds_readb [OF t] by simp
    then show ?thesis
      by (rule src_peek_eq [OF inv(1), of 1, rotated]) (use inv(2) in \<open>auto simp: src_holds_def PGP_INPUT_CACHE_SIZE_def\<close>)
  qed
  have "\<exists>s'. encrypted_read_keys (\<lambda>_. True) s k0 pk symencs [] = Some (s', Inr (18, symencs @ sk_fills k0 ks, [])) \<and>
      holds s' (0xD2 # r)"
    using assms
  proof (induction ks arbitrary: s k0 symencs)
    case Nil
    then have "holds s (0xD2 # r)" by (simp add: sesskeys_enc_def)
    then obtain s' where "src_peek s 1 = (s', Some [0xD2])" "holds s' (0xD2 # r)" using peek by blast
    then show ?case by (simp add: encrypted_read_keys.simps get_packet_type_def)
  next
    case (Cons k ks)
    let ?x = "packet_bytes 3 (sk_body k) @ sesskeys_enc ks @ 0xD2 # r"
    obtain y where y: "?x = 0xC3 # y" by (simp add: packet_bytes_def)
    have "holds s (0xC3 # y)" using Cons.prems(1) y by (simp add: sesskeys_enc_def)
    then obtain s1 where s1: "src_peek s 1 = (s1, Some [0xC3])" "holds s1 ?x" unfolding y using peek by blast
    obtain s2 where s2: "stream_parse_sk_sesskey s1 k0 = (s2, Inr (sk_filled k0 k))" "holds s2 (sesskeys_enc ks @ 0xD2 # r)"
      using parse_sk_sesskey_holds [OF s1(2)] Cons.prems(2) by auto
    from Cons.IH [OF s2(2), of "sk_filled k0 k" "symencs @ [sk_filled k0 k]"] Cons.prems(2) s1(1) s2(1)
    show ?case by (subst encrypted_read_keys.simps) (auto simp: get_packet_type_def append_ok_def)
  qed
  with that show thesis by blast
qed

text \<open>The parameters of a packet as \<^const>\<open>init_streamed_packet\<close> writes it.\<close>

lemma init_params_streamed:
  assumes "holds s (t # parts_enc 0xED parts @ write_packet_len (length y) @ y)"
    and "t = tag OR PGP_PTAG_ALWAYS_SET OR PGP_PTAG_NEW_FORMAT"
    and "\<forall>x \<in> set parts. length x = PARTIAL_PKT_BLOCK_SIZE" "length y \<le> PARTIAL_PKT_BLOCK_SIZE"
  obtains pkt where "init_packet_params (\<lambda>_. True) s = (pkt, RNP_SUCCESS)" "packet_ok rd rest ok (ps_readsrc pkt)"
    "packet_rest rest (ps_readsrc pkt) = concat parts @ y" "ps_partial pkt \<longleftrightarrow> parts \<noteq> []"
    "parts = [] \<Longrightarrow> \<not> ps_indeterminate pkt \<and> ps_len pkt = length (concat parts @ y)"
proof (cases parts)
  case Nil
  have h: "holds s (packet_bytes tag y @ [])" using assms(1,2) by (simp add: Nil parts_enc_def packet_bytes_def)
  have y: "length y < 2 ^ 32" using assms(4) by (simp add: block_size)
  show thesis
    by (rule init_params_whole [OF h y, where al = "\<lambda>_. True"]) (rule that, use Nil in auto)
next
  case (Cons x xs)
  define a where "a = x @ parts_enc 0xED xs @ write_packet_len (length y) @ y"
  have h: "holds s (t # 0xED # a)" using assms(1) by (simp add: a_def Cons parts_enc_def)
  have x: "length x = PARTIAL_PKT_BLOCK_SIZE" and xs: "\<forall>z \<in> set xs. length z = PARTIAL_PKT_BLOCK_SIZE"
    using assms(3) Cons by auto
  have t: "t AND PGP_PTAG_NEW_FORMAT \<noteq> 0" by (simp add: assms(2) bit.conj_disj_distrib2)
  have data: "partial_data (get_part_len 0xED) False a = concat parts @ y" "partial_readable (get_part_len 0xED) False a"
    using partial_data_parts [OF xs assms(4), of "[]"] partial_full_part [OF x] Cons
    by (simp_all add: a_def get_part_len_def block_size push_bit_eq_mult)
  show thesis by (rule init_params_parts [OF h t _ _ data(2)]) (auto simp: data(1) Cons intro: that)
qed

end

section \<open>Reading a whole message\<close>

text \<open>
  A callback that delivers everything when it is asked for enough, and then nothing: one read gets all of it, with
  every kind of read-ahead.
\<close>

lemma read_loop_all:
  assumes "\<And>m. N \<le> m \<Longrightarrow> \<exists>p1. rd p m = (p1, Some data) \<and> Q p1" "\<And>p m. Q p \<Longrightarrow> \<exists>p'. rd p m = (p', Some []) \<and> Q p'"
    and "length data < N" "N \<le> left"
  shows "\<exists>p' c'. src_read_loop rd p c [] left ra = (p', c', data, AtEof) \<and> Q p'"
proof -
  have last: "\<exists>p' c'. src_read_loop rd p1 c1 data (left - length data) ra = (p', c', data, AtEof) \<and> Q p'" if "Q p1" for p1 c1
    using assms(2) [OF that, of "left - length data"] assms(2) [OF that, of PGP_INPUT_CACHE_SIZE] assms(3,4)
    by (auto simp: src_read_loop.simps [of rd p1])
  show ?thesis
  proof (cases "PGP_INPUT_CACHE_SIZE < left \<or> \<not> ra")
    case True
    obtain p1 where "rd p left = (p1, Some data)" "Q p1" using assms(1,4) by blast
    with True assms(3,4) last [of p1 c] show ?thesis by (auto simp: src_read_loop.simps [of rd p])
  next
    case False
    obtain p1 where "rd p PGP_INPUT_CACHE_SIZE = (p1, Some data)" "Q p1"
      using assms(1) [of PGP_INPUT_CACHE_SIZE] assms(4) False by auto
    with False assms(3,4) last [of p1 "c\<lparr>cbuf := mem_write 0 data (cbuf c)\<rparr>"] show ?thesis
      by (auto simp: src_read_loop.simps [of rd p] Let_def)
  qed
qed

definition fresh_src :: "'q pgp_source \<Rightarrow> bool" where
  "fresh_src s \<longleftrightarrow> src_cache s = Some \<lparr>cbuf = [], cpos = 0, clen = 0, readahead = True\<rparr> \<and> src_readb s = 0 \<and> \<not> src_eofb s"

lemma src_read_all:
  assumes "fresh_src s" "src_knownsize s \<Longrightarrow> src_size s = N"
    and "\<And>m. N \<le> m \<Longrightarrow> \<exists>p1. src_rdf s (src_param s) m = (p1, Some data) \<and> Q p1"
    and "\<And>p m. Q p \<Longrightarrow> \<exists>p'. src_rdf s p m = (p', Some []) \<and> Q p'"
    and "length data < N" "N \<le> n" "n < 2 ^ 64"
  obtains s' where "src_read s n = (s', Some data)" "src_eofb s'" "Q (src_param s')" "src_finishf s' = src_finishf s"
proof -
  define clamp where "clamp = (src_knownsize s \<and> src_size s < n)"
  define left where "left = (if clamp then N else n)"
  let ?c = "\<lparr>cbuf = [], cpos = 0, clen = 0, readahead = True\<rparr>"
  have left: "N \<le> left" using assms(6) by (simp add: left_def)
  obtain p' c' where l: "src_read_loop (src_rdf s) (src_param s) ?c [] left (\<not> clamp) = (p', c', data, AtEof)" "Q p'"
    using read_loop_all [where rd = "src_rdf s" and p = "src_param s" and Q = Q, OF assms(3,4,5) left] by blast
  have "0 < n" using assms(5,6) by simp
  moreover have "(if clamp then sub64 (src_size s) (src_readb s) else n) = left"
    using assms(1,2) by (auto simp: left_def clamp_def fresh_src_def)
  ultimately have "src_read s n = src_read_finish (s\<lparr>src_param := p', src_cache := Some c', src_eofb := True\<rparr>) data"
    using assms(1,7) l(1) unfolding src_read_def
    by (simp add: fresh_src_def cached_def clamp_def [symmetric] Let_def)
  with that l(2) show thesis by (simp add: src_read_finish_def Let_def)
qed

lemma src_read_fails:
  assumes "fresh_src s" "\<not> src_knownsize s" "src_rdf s (src_param s) PGP_INPUT_CACHE_SIZE = (p1, Some data)"
    and "data \<noteq> []" "length data < PGP_INPUT_CACHE_SIZE" "snd (src_rdf s p1 PGP_INPUT_CACHE_SIZE) = None"
  shows "snd (src_read s PGP_INPUT_CACHE_SIZE) = None"
proof -
  obtain p2 where p2: "src_rdf s p1 PGP_INPUT_CACHE_SIZE = (p2, None)" using assms(6) by (metis prod.collapse)
  have "src_read_loop (src_rdf s) p1 c data (PGP_INPUT_CACHE_SIZE - length data) True = (p2, c, data, ReadError)" for c
    using assms(5) p2 by (auto simp: src_read_loop.simps [of _ p1])
  then have "\<exists>c p. src_read_loop (src_rdf s) (src_param s) \<lparr>cbuf = [], cpos = 0, clen = 0, readahead = True\<rparr> [] PGP_INPUT_CACHE_SIZE True =
      (p, c, data, ReadError)"
    using assms(3-5) by (simp add: src_read_loop.simps [of _ "src_param s"] Let_def)
  with assms(1,2,5) show ?thesis by (auto simp: src_read_def fresh_src_def cached_def Let_def)
qed

context reliable_source
begin

lemma init_encrypted_pending:
  assumes "cipher_usable bc ealg" "cipher_ok bc" "sha1_ok bo" "length block = pgp_block_size ealg" "length key = pgp_key_size ealg"
    and "\<forall>p \<in> set (pass # passes). pass_ok bc p" "password_of pbkdf password pass" "single \<Longrightarrow> key = take (pgp_key_size ealg) (pi_key pass)"
    and "de_passwords de = Some pws" "pws 0 = Some password"
    and "holds s (sesskeys_enc (map (pass_sesskey bc ealg key single) (pass # passes)) @
                  0xD2 # parts_enc 0xED parts @ write_packet_len (length y) @ y)"
    and "\<forall>x \<in> set parts. length x = PARTIAL_PKT_BLOCK_SIZE" "length y \<le> PARTIAL_PKT_BLOCK_SIZE"
    and "concat parts @ y = [1] @ cfb_cipher bc ealg key (check_bytes block @ todo)" "length todo < 2 ^ 63"
  obtains src param where "init_encrypted_src (\<lambda>_. True) bo bc pbkdf de s = Some (Inr src)" "src_param src = Some param"
    "enc_pending rd rest ok bc ealg key param (check_bytes block) todo" "fresh_src src"
    "src_rdf src = encrypted_src_read bo bc" "src_finishf src = Some encrypted_src_finish"
    "src_knownsize src \<longleftrightarrow> parts = []" "src_knownsize src \<Longrightarrow> src_size src = length todo"
proof -
  define ks where "ks = map (pass_sesskey bc ealg key single) (pass # passes)"
  define k0 where "k0 = \<lparr>sk_version = 0, sk_alg = 0, sk_s2k = zero_s2k, sk_enckey = []\<rparr>"
  have wf: "\<forall>k \<in> set ks. sk_wf k" using assms(1,5,6) pass_sesskey_wf by (auto simp: ks_def)
  obtain s1 where s1: "encrypted_read_keys (\<lambda>_. True) s k0 zero_pk_sesskey [] [] = Some (s1, Inr (18, sk_fills k0 ks, []))"
    "holds s1 (0xD2 # parts_enc 0xED parts @ write_packet_len (length y) @ y)"
    using read_keys_holds [OF assms(11) [folded ks_def] wf, of k0 zero_pk_sesskey "[]"] by auto
  have tag: "0xD2 = (18 :: byte) OR PGP_PTAG_ALWAYS_SET OR PGP_PTAG_NEW_FORMAT" by simp
  obtain pkt where pkt: "init_packet_params (\<lambda>_. True) s1 = (pkt, RNP_SUCCESS)" "packet_ok rd rest ok (ps_readsrc pkt)"
    "packet_rest rest (ps_readsrc pkt) = [1] @ cfb_cipher bc ealg key (check_bytes block @ todo)" "ps_partial pkt \<longleftrightarrow> parts \<noteq> []"
    "parts = [] \<Longrightarrow> \<not> ps_indeterminate pkt \<and> ps_len pkt = length (concat parts @ y)"
    by (rule init_params_streamed [OF s1(2) tag assms(12,13)]) (simp add: assms(14))
  obtain ps where ps: "packet_get (ps_readsrc pkt) 1 = (ps, Some [1])" "packet_ok rd rest ok ps"
    "packet_rest rest ps = cfb_cipher bc ealg key (check_bytes block @ todo)" "packet_readb ps = packet_readb (ps_readsrc pkt) + 1"
    by (rule packet_read_full [OF pkt(2), of 1]) (use pkt(3) in \<open>simp add: packet_get_def\<close>)
  define param0 where "param0 = \<lparr>es_pkt = pkt\<lparr>ps_readsrc := ps\<rparr>, es_symencs = sk_fills k0 ks, es_pubencs = [], es_has_mdc = True,
    es_mdc_validated = False, es_decrypt = zero_crypt, es_mdc = zero_hash\<rparr>"
  have p0: "es_symencs param0 = sk_filled k0 (pass_sesskey bc ealg key single pass) # sk_fills (sk_filled k0 (pass_sesskey bc ealg key single pass)) (tl ks)"
    "es_pubencs param0 = []" "es_has_mdc param0" "es_src param0 = ps"
    by (simp_all add: param0_def ks_def es_src_def)
  have p1: "pass_ok bc pass" using assms(6) by simp
  obtain param where p: "encrypted_get_key (\<lambda>_. True) bo bc pbkdf de param0 = Some (param, RNP_SUCCESS)"
    "enc_pending rd rest ok bc ealg key param (check_bytes block) todo"
    "packet_readb (es_src param) = packet_readb (es_src param0) + (pgp_block_size ealg + 2)"
    by (rule get_key_pending [OF assms(1-5) p1 assms(7,8) p0(1-3), where todo = todo and pws = pws]) (use ps p0(4) assms(9,10) in auto)
  define known where "known = (\<not> ps_partial pkt \<and> \<not> ps_indeterminate pkt)"
  define src where "src = \<lparr>src_rdf = encrypted_src_read bo bc, src_finishf = Some encrypted_src_finish,
    src_closef = Some encrypted_src_close, src_type = PGP_STREAM_ENCRYPTED,
    src_size = (if known then sub64 (ps_len pkt) (sub64 (packet_readb (es_src param)) (packet_readb (ps_readsrc pkt))) else 0), src_readb = 0,
    src_cache = Some \<lparr>cbuf = [], cpos = 0, clen = 0, readahead = True\<rparr>,
    src_param = Some param, src_eofb = False, src_knownsize = known\<rparr>"
  have init: "init_encrypted_src (\<lambda>_. True) bo bc pbkdf de s = Some (Inr src)"
    using s1(1) pkt(1) ps(1) p(1)
    by (simp add: init_encrypted_src_def init_src_common_def k0_def [symmetric] encrypted_read_mdcver_def
        param0_def [symmetric] src_def known_def Let_def)
  have "length (concat parts @ y) = pgp_block_size ealg + 3 + length todo"
    unfolding assms(14) using assms(4) by (simp add: check_bytes_def)
  then have size: "src_size src = length todo" if "parts = []"
    using pkt(4,5) that ps(4) p(3) p0(4) by (simp add: src_def known_def)
  show thesis
    by (rule that [OF init _ p(2)]) (use pkt(4,5) size in \<open>auto simp: src_def known_def fresh_src_def\<close>)
qed

end

end
