(* ===== verification/Encrypted_Roundtrip.thy ===== *)
theory Encrypted_Roundtrip
  imports Encrypted_Read
begin

text \<open>
  Encrypted messages through memory streams, and what the modification detection code protects.
\<close>

section \<open>Encrypted messages through memory streams\<close>

lemma length_sesskeys:
  assumes "\<forall>k \<in> set ks. sk_wf k"
  shows "length (sesskeys_enc ks) \<le> 64 * length ks"
  using assms
proof (induction ks)
  case (Cons k ks)
  have "length (sk_body k) \<le> 46"
    using Cons.prems by (auto simp: sk_body_def sk_head_def sk_tail_def sk_wf_def s2k_wf_def PGP_SALT_SIZE_def PGP_MAX_KEY_SIZE_def)
  then have "length (packet_bytes 3 (sk_body k)) \<le> 64" using length_packet_bytes [of 3 "sk_body k"] by simp
  with Cons show ?case by (simp add: sesskeys_enc_def)
qed (simp add: sesskeys_enc_def)

text \<open>
  A message that is encrypted for some passwords, and the source that the first password opens.
\<close>

lemma encrypted_message:
  assumes "cipher_usable bc ealg" "cipher_ok bc" "sha1_ok bo" "\<forall>p \<in> set (pass # passes). pass_ok bc p"
    and "password_of pbkdf password pass" "length rk = pgp_key_size ealg" "length block = pgp_block_size ealg"
    and "de_passwords de = Some pws" "pws 0 = Some password"
    and "2 * length (concat bss) + 64 * length passes + 200 \<le> c" "c < 2 ^ 63"
  defines "ctx \<equiv> \<lparr>ec_ealg = ealg, ec_recipients = [], ec_passwords = pass # passes, ec_rng_key = \<lambda>_. Some rk, ec_rng_hdr = \<lambda>_. Some block\<rparr>"
    and "hdr \<equiv> check_bytes block"
  obtains dst dst' dparam d mem src param key where
    "init_encrypted_dst (\<lambda>_. True) bo bc en ctx (fst (init_mem_dest (\<lambda>_. True) c)) = Inr dst"
    "dst_finish (fold (\<lambda>bs d. dst_write d bs) bss dst) = (dst', RNP_SUCCESS)" "dst_param dst' = Some dparam"
    "close_streamed_packet (ed_pkt dparam) False = Some d" "mem_dest_get_memory d = Some mem"
    "init_encrypted_src (\<lambda>_. True) bo bc pbkdf de (fst (init_mem_src (\<lambda>_. True) mem)) = Some (Inr src)" "src_param src = Some param"
    "pgp_key_size ealg \<le> length key"
    "enc_pending mem_src_read mem_rest mem_ok bc ealg key param hdr (concat bss @ mdc_of bo (hdr @ concat bss))" "fresh_src src"
    "src_rdf src = encrypted_src_read bo bc" "src_finishf src = Some encrypted_src_finish"
    "src_knownsize src \<Longrightarrow> length (concat bss) \<le> PARTIAL_PKT_BLOCK_SIZE"
    "src_knownsize src \<Longrightarrow> src_size src = length (concat bss) + 22"
proof -
  define key where "key = content_key ealg (pass # passes) rk"
  let ?passes = "pass # passes" and ?single = "length (pass # passes) \<le> 1" and ?data = "concat bss"
  let ?sk = "sesskeys_enc (map (pass_sesskey bc ealg key ?single) ?passes)"
  let ?todo = "?data @ mdc_of bo (hdr @ ?data)"
  note e = usable_sizes [OF assms(1)]
  have key: "length key = pgp_key_size ealg" "?single \<Longrightarrow> key = take (pgp_key_size ealg) (pi_key pass)"
    using assms(4,6) e(6) by (auto simp: key_def content_key_def pass_ok_def PGP_MAX_KEY_SIZE_def)
  have kb: "pgp_key_size ealg \<le> length (key_buf key)" "take (pgp_key_size ealg) (key_buf key) = take (pgp_key_size ealg) key"
    using length_key_buf [of key] key(1) e(6) take_key_buf [OF key(1)] by (simp_all add: PGP_MAX_KEY_SIZE_def)
  obtain dst where dst: "init_encrypted_dst (\<lambda>_. True) bo bc en ctx (fst (init_mem_dest (\<lambda>_. True) c)) = Inr dst"
    "enc_recv (mem_recv c) (?sk @ [0xD2]) bo bc ealg (key_buf key) hdr dst []"
    using mem_receiver.init_encrypted_recv [OF init_mem_dest_recv assms(2,3,1) _ assms(4,6,7), where en = en]
    unfolding ctx_def key_def hdr_def by auto
  have all: "enc_recv (mem_recv c) (?sk @ [0xD2]) bo bc ealg (key_buf key) hdr (fold (\<lambda>bs d. dst_write d bs) bss dst) ?data"
    using receiver.recv_writes [OF mem_receiver.enc_receiver [OF assms(1) kb(1) assms(2)] dst(2), of bss] by simp
  obtain dst' dparam pd p parts y where f: "dst_finish (fold (\<lambda>bs d. dst_write d bs) bss dst) = (dst', dst_werr (pd_writedst p))"
    "dst_param dst' = Some dparam" "ed_pkt dparam = Partial_dst pd" "dst_param pd = Some p" "dst_finished pd"
    "\<forall>x \<in> set parts. length x = PARTIAL_PKT_BLOCK_SIZE" "length y \<le> PARTIAL_PKT_BLOCK_SIZE"
    "concat parts @ y = [1] @ cfb_cipher bc ealg (key_buf key) (hdr @ ?todo)"
    "mem_recv c (pd_writedst p) ((?sk @ [0xD2]) @ parts_enc 0xED parts @ write_packet_len (length y) @ y)"
    by (rule mem_receiver.enc_finish_recv [OF assms(1) kb(1) assms(2,3) all]) simp
  define mem where "mem = ?sk @ 0xD2 # parts_enc 0xED parts @ write_packet_len (length y) @ y"
  have hl: "length hdr \<le> 18" using e(1) assms(7) by (auto simp: hdr_def check_bytes_def)
  have tl: "length ?todo = length ?data + 22" using length_mdc_of [OF assms(3)] by simp
  have total: "length (concat parts) + length y = 1 + length hdr + length ?data + 22"
  proof -
    have "length (concat parts @ y) = length ([1] @ cfb_cipher bc ealg (key_buf key) (hdr @ ?todo))" by (simp only: f(8))
    then show ?thesis using tl by simp
  qed
  have wf: "\<forall>k \<in> set (map (pass_sesskey bc ealg key ?single) ?passes). sk_wf k"
    using assms(1,4) key(1) pass_sesskey_wf by auto
  have "length mem \<le> c"
    using length_parts_enc [OF f(6), of "0xED"] length_write_packet_len [of "length y"] length_sesskeys [OF wf] total hl assms(10)
    by (simp add: mem_def)
  moreover have m0: "mem_recv c (pd_writedst p) mem" using f(9) by (simp add: mem_def)
  ultimately have m: "dst_werr (pd_writedst p) = RNP_SUCCESS" "mem_dest_get_memory (pd_writedst p) = Some mem" "length mem < 2 ^ 63"
    using mem_recv_memory [OF m0] assms(11) by auto
  have cl: "close_streamed_packet (ed_pkt dparam) False = Some (pd_writedst p)"
    using f(3-5) by (simp add: close_streamed_packet_def)
  obtain s where s: "init_mem_src (\<lambda>_. True) mem = (s, RNP_SUCCESS)" "src_holds mem_src_read mem_rest mem_ok s mem"
    using init_mem_src_holds [OF m(3)] by blast
  have todo: "concat parts @ y = [1] @ cfb_cipher bc ealg key (hdr @ ?todo)" "length ?todo < 2 ^ 63"
    using f(8) crypt_cong(2) [OF kb(2)] tl assms(10,11) by simp_all
  obtain src param where src: "init_encrypted_src (\<lambda>_. True) bo bc pbkdf de s = Some (Inr src)" "src_param src = Some param"
    "enc_pending mem_src_read mem_rest mem_ok bc ealg key param hdr ?todo" "fresh_src src"
    "src_rdf src = encrypted_src_read bo bc" "src_finishf src = Some encrypted_src_finish"
    "src_knownsize src \<longleftrightarrow> parts = []" "src_knownsize src \<Longrightarrow> src_size src = length ?todo"
    using mem_source.init_encrypted_pending [OF assms(1-3,7) key(1) assms(4,5) key(2) assms(8,9) s(2) [unfolded mem_def] f(6,7) todo [unfolded hdr_def]]
    unfolding hdr_def by blast
  have small: "length ?data \<le> PARTIAL_PKT_BLOCK_SIZE" if "src_knownsize src"
    using that src(7) total f(7) by simp
  show thesis
    by (rule that [OF dst(1) _ f(2) cl m(2) _ src(2) _ src(3-6)]) (use f(1) m(1) s(1) src(1,8) small tl key(1) in auto)
qed

section \<open>What the modification detection code protects\<close>

text \<open>The results of calling a read callback again and again, if no call fails.\<close>

fun read_calls :: "('q \<Rightarrow> nat \<Rightarrow> 'q \<times> bytes option) \<Rightarrow> 'q \<Rightarrow> nat list \<Rightarrow> ('q \<times> bytes) option" where
  "read_calls rd p [] = Some (p, [])"
| "read_calls rd p (n # ns) =
     (case rd p n of
        (_, None) \<Rightarrow> None
      | (p1, Some bs) \<Rightarrow> map_option (\<lambda>(p2, cs). (p2, bs @ cs)) (read_calls rd p1 ns))"

definition cfb_plain :: "block_cipher \<Rightarrow> nat \<Rightarrow> bytes \<Rightarrow> bytes \<Rightarrow> bytes" where
  "cfb_plain bc alg key cs = snd (cfb_run True (crypt_fun bc alg key) (cfb_zero alg) cs)"

lemma decrypt_some:
  assumes "snd (pgp_cipher_start bc alg key None)" "cipher_ok bc"
    and "pgp_cipher_cfb_decrypt bc (crypt_after True bc alg key cs) buf = Some (c, out)"
  shows "c = crypt_after True bc alg key (cs @ buf)" "cfb_plain bc alg key (cs @ buf) = cfb_plain bc alg key cs @ out"
  using crypt_after_cases(2) [OF assms(1,2), of True cs buf c out] assms(3) by (simp_all add: pgp_cipher_cfb_decrypt_def cfb_plain_def)

text \<open>The source has decrypted \<open>cs\<close> and hashed the result; \<open>t\<close> is left of the packet.\<close>

definition enc_decrypted ::
    "('q \<Rightarrow> nat \<Rightarrow> 'q \<times> bytes option) \<Rightarrow> ('q \<Rightarrow> bytes) \<Rightarrow> ('q \<Rightarrow> bool) \<Rightarrow> block_cipher \<Rightarrow> nat \<Rightarrow> bytes \<Rightarrow>
     'q encrypted_src_param \<Rightarrow> bytes \<Rightarrow> bytes \<Rightarrow> bool" where
  "enc_decrypted rd rest ok bc alg key param cs t \<longleftrightarrow>
     es_has_mdc param \<and> \<not> es_mdc_validated param \<and> packet_ok rd rest ok (es_src param) \<and> packet_rest rest (es_src param) = t \<and>
     es_decrypt param = crypt_after True bc alg key cs \<and> es_mdc param = sha1_ctx (cfb_plain bc alg key cs)"

lemma check_mdc_ok:
  assumes "snd (pgp_cipher_start bc alg key None)" "cipher_ok bc" "sha1_ok bo" "length mdcbuf = 22"
    and "es_decrypt param = crypt_after True bc alg key cs" "es_mdc param = sha1_ctx xs"
    and "encrypted_check_mdc bo bc param mdcbuf = (param', True)"
  shows "cfb_plain bc alg key (cs @ mdcbuf) = cfb_plain bc alg key cs @ mdc_of bo xs"
    "es_src param' = es_src param" "es_has_mdc param' = es_has_mdc param" "es_mdc_validated param'"
proof -
  obtain c buf where d: "pgp_cipher_cfb_decrypt bc (crypt_after True bc alg key cs) mdcbuf = Some (c, buf)"
    using assms(5,7) by (auto simp: encrypted_check_mdc_def split: option.splits)
  note p = decrypt_some [OF assms(1,2) d]
  have len: "length buf = 22" using arg_cong [OF p(2), of length] assms(4) by (simp add: cfb_plain_def)
  then obtain a b bs where buf: "buf = a # b # bs" by (cases buf; cases "tl buf") auto
  obtain h n where h: "pgp_hash_finish bo (sha1_ctx (xs @ [a, b])) = (h, n, sha1 bo (xs @ [a, b]))"
    using sha1_finish [OF assms(3)] by blast
  have "a = MDC_PKT_TAG" "b = 20" "bs = take PGP_SHA1_HASH_SIZE (sha1 bo (xs @ [a, b]))"
    and "es_src param' = es_src param \<and> es_has_mdc param' = es_has_mdc param \<and> es_mdc_validated param'"
    using assms(5-7) d h buf by (auto simp: encrypted_check_mdc_def Let_def MDC_V1_SIZE_def split: if_splits)
  with p(2) sha1 [OF assms(3)] buf
  show "cfb_plain bc alg key (cs @ mdcbuf) = cfb_plain bc alg key cs @ mdc_of bo xs"
    "es_src param' = es_src param" "es_has_mdc param' = es_has_mdc param" "es_mdc_validated param'"
    by (simp_all add: mdc_of_def)
qed

context reliable_source
begin

text \<open>One call: it delivers decrypted bytes, or it reaches the end and the code is right.\<close>

lemma enc_call_cases:
  assumes "snd (pgp_cipher_start bc alg key None)" "cipher_ok bc" "sha1_ok bo"
    and "enc_decrypted rd rest ok bc alg key param cs t" "encrypted_src_read bo bc (Some param) n = (p1, Some bs)"
  obtains (more) param1 where "p1 = Some param1" "enc_decrypted rd rest ok bc alg key param1 (cs @ take n t) (drop n t)"
      "cfb_plain bc alg key (cs @ take n t) = cfb_plain bc alg key cs @ bs"
  | (last) param1 left where "p1 = Some param1" "enc_checked rd rest ok param1 left" "left < 22"
      "cfb_plain bc alg key (cs @ t) = cfb_plain bc alg key cs @ bs @ mdc_of bo (cfb_plain bc alg key cs @ bs)"
proof -
  let ?P = "cfb_plain bc alg key"
  have p: "es_has_mdc param" "\<not> es_mdc_validated param" "packet_ok rd rest ok (es_src param)" "packet_rest rest (es_src param) = t"
    "es_decrypt param = crypt_after True bc alg key cs" "es_mdc param = sha1_ctx (?P cs)"
    using assms(4) by (auto simp: enc_decrypted_def)
  obtain ps1 where 1: "packet_read (es_src param) n = (ps1, Some (take n t))" "packet_rest rest ps1 = drop n t" "packet_ok rd rest ok ps1"
    by (rule packet_read_full [OF p(3), of n]) (simp add: p(4))
  show thesis
  proof (cases "take n t = []")
    case True
    then have "p1 = Some (es_with_src param ps1)" "bs = []" using assms(5) 1(1) by (auto simp: encrypted_src_read_def)
    with True 1(2,3) p show thesis by (intro more [of "es_with_src param ps1"]) (auto simp: enc_decrypted_def)
  next
    case False
    let ?m = "take MDC_V1_SIZE (drop n t)"
    obtain ps2 where 2: "packet_peek ps1 MDC_V1_SIZE = (ps2, Some ?m)" "packet_rest rest ps2 = drop n t" "packet_ok rd rest ok ps2"
      by (rule packet_peek_full [OF 1(3), of MDC_V1_SIZE]) (simp_all add: 1(2) MDC_V1_SIZE_def PGP_INPUT_CACHE_SIZE_def)
    note call = encrypted_src_read_mdc [OF 1(1) False p(1) 2(1), of bo bc]
    show thesis
    proof (cases "MDC_V1_SIZE \<le> length ?m")
      case True
      then have e: "map_prod Some id (encrypted_decrypt bo bc (es_with_src param ps2) (take n t) None) = (p1, Some bs)"
        using call assms(5) by (simp only: Let_def if_True)
      then obtain c where c: "pgp_cipher_cfb_decrypt bc (crypt_after True bc alg key cs) (take n t) = Some (c, bs)"
        "p1 = Some ((es_with_src param ps2)\<lparr>es_decrypt := c, es_mdc := sha1_ctx (?P cs @ bs)\<rparr>)"
        using p(1,5,6) by (auto simp: encrypted_decrypt_def Let_def split: option.splits)
      note d = decrypt_some [OF assms(1,2) c(1)]
      show thesis
        by (rule more [OF c(2) _ d(2)]) (use 2(2,3) p(1,2) d in \<open>simp add: enc_decrypted_def\<close>)
    next
      case short: False
      then have all: "?m = drop n t" and dl: "length (drop n t) < 22" by (simp_all add: MDC_V1_SIZE_def)
      have ge: "\<not> length ?m + length (take n t) < MDC_V1_SIZE"
        using call short assms(5) by (auto simp: Let_def split: if_splits)
      define k where "k = length (take n t) - (MDC_V1_SIZE - length ?m)"
      let ?b = "take k (take n t)" and ?r = "drop k (take n t) @ ?m"
      have e: "map_prod Some id (encrypted_decrypt bo bc (es_with_src param ps2) ?b (Some ?r)) = (p1, Some bs)"
        using call short ge assms(5) by (simp only: Let_def if_False k_def)
      have br: "?b @ ?r = t" by (simp only: all append_take_drop_id append_assoc [symmetric])
      have lr: "length ?r = 22" using ge short unfolding k_def length_append length_drop by (simp add: MDC_V1_SIZE_def)
      obtain c q where c: "pgp_cipher_cfb_decrypt bc (crypt_after True bc alg key cs) ?b = Some (c, bs)"
        "encrypted_check_mdc bo bc ((es_with_src param ps2)\<lparr>es_decrypt := c, es_mdc := sha1_ctx (?P cs @ bs)\<rparr>) ?r = (q, True)"
        "p1 = Some q"
        using e p(1,5,6) by (auto simp: encrypted_decrypt_def Let_def split: option.splits prod.splits if_splits)
      note d = decrypt_some [OF assms(1,2) c(1)]
      note m = check_mdc_ok [OF assms(1-3) lr _ _ c(2), of "cs @ ?b" "?P cs @ bs"]
      have "enc_checked rd rest ok q (length (drop n t))"
        using m(2-4) d(1) 2(2,3) p(1) by (simp add: enc_checked_def)
      moreover have "?P (cs @ t) = ?P cs @ bs @ mdc_of bo (?P cs @ bs)"
        using m(1) d unfolding append_assoc br by simp
      ultimately show thesis using last [OF c(3) _ dl] by blast
    qed
  qed
qed

text \<open>Behind the code no call delivers anything.\<close>

lemma enc_calls_after:
  assumes "enc_checked rd rest ok param left" "left < 22" "read_calls (encrypted_src_read bo bc) (Some param) ns = Some (p', data)"
  shows "data = []"
  using assms(1,3)
proof (induction ns arbitrary: param data)
  case (Cons n ns)
  let ?z = "packet_rest rest (es_src param)"
  have p: "packet_ok rd rest ok (es_src param)" "length ?z = left" using Cons.prems(1) by (auto simp: enc_checked_def)
  obtain ps1 where 1: "packet_read (es_src param) n = (ps1, Some (take n ?z))" "packet_rest rest ps1 = drop n ?z" "packet_ok rd rest ok ps1"
    by (rule packet_read_full [OF p(1)])
  have "n = 0 \<or> left = 0"
    using enc_read_after_error [OF Cons.prems(1) _ assms(2), of n bo bc] Cons.prems(2) by (auto split: prod.splits option.splits)
  then have e: "take n ?z = []" "drop n ?z = ?z" using p(2) by auto
  have "encrypted_src_read bo bc (Some param) n = (Some (es_with_src param ps1), Some [])"
    using 1(1) unfolding e(1) by (simp add: encrypted_src_read_def)
  moreover have "enc_checked rd rest ok (es_with_src param ps1) left" using Cons.prems(1) 1 e(2) by (auto simp: enc_checked_def)
  ultimately show ?case using Cons.IH [of "es_with_src param ps1"] Cons.prems(2) by (auto split: option.splits)
qed simp

lemma enc_calls_protected:
  assumes "snd (pgp_cipher_start bc alg key None)" "cipher_ok bc" "sha1_ok bo"
    and "enc_decrypted rd rest ok bc alg key param cs t"
    and "read_calls (encrypted_src_read bo bc) (Some param) ns = Some (p', data)" "snd (encrypted_src_finish p') = RNP_SUCCESS"
  shows "cfb_plain bc alg key (cs @ t) = cfb_plain bc alg key cs @ data @ mdc_of bo (cfb_plain bc alg key cs @ data)"
  using assms(4,5)
proof (induction ns arbitrary: param cs t data)
  case Nil
  with assms(6) show ?case by (auto simp: enc_decrypted_def encrypted_src_finish_def)
next
  case (Cons n ns)
  obtain p1 bs ds where c: "encrypted_src_read bo bc (Some param) n = (p1, Some bs)"
    "read_calls (encrypted_src_read bo bc) p1 ns = Some (p', ds)" "data = bs @ ds"
    using Cons.prems(2) by (auto split: prod.splits option.splits)
  from assms(1-3) Cons.prems(1) c(1) show ?case
  proof (cases rule: enc_call_cases)
    case (more param1)
    have "cfb_plain bc alg key ((cs @ take n t) @ drop n t) =
        cfb_plain bc alg key (cs @ take n t) @ ds @ mdc_of bo (cfb_plain bc alg key (cs @ take n t) @ ds)"
      by (rule Cons.IH [OF more(2)]) (use c(2) more(1) in simp)
    then show ?thesis using more(3) c(3) by simp
  next
    case (last param1 left)
    have "ds = []" by (rule enc_calls_after [OF last(2,3)]) (use c(2) last(1) in auto)
    with last(4) c(3) show ?thesis by simp
  qed
qed

text \<open>What an accepted header leaves behind.\<close>

lemma decrypt_header_accepted:
  assumes "cipher_ok bc" "sha1_ok bo" "es_has_mdc param0" "\<not> es_mdc_validated param0" "packet_ok rd rest ok (es_src param0)"
    and "encrypted_decrypt_header (\<lambda>_. True) bo bc param0 alg key = (param, True)"
  defines "n \<equiv> pgp_block_size alg + 2" and "text \<equiv> packet_rest rest (es_src param0)"
  shows "snd (pgp_cipher_start bc alg key None)" "enc_decrypted rd rest ok bc alg key param (take n text) (drop n text)"
    "length (take n text) = n"
proof -
  have n: "n \<le> PGP_INPUT_CACHE_SIZE" by (simp add: n_def pgp_block_size_def PGP_INPUT_CACHE_SIZE_def)
  obtain ps1 where 1: "packet_peek (es_src param0) n = (ps1, Some (take n text))" "packet_rest rest ps1 = text" "packet_ok rd rest ok ps1"
    by (rule packet_peek_full [OF assms(5) n]) (simp add: text_def)
  have len: "\<not> length (take n text) < n" "pgp_block_size alg \<noteq> 0" and st: "snd (pgp_cipher_start bc alg key None)"
    using assms(6) 1(1) by (auto simp: encrypted_decrypt_header_def Let_def n_def split: if_splits prod.splits)
  then show "snd (pgp_cipher_start bc alg key None)" "length (take n text) = n" by simp_all
  note s = start_facts [OF st]
  have z: "crypt_after True bc alg key [] = started bc alg key" using s(4) by (simp add: crypt_after_def flip: s(4))
  obtain c dechdr where c: "pgp_cipher_cfb_decrypt bc (started bc alg key) (take n text) = Some (c, dechdr)"
    "param = ((es_with_src (es_with_src param0 ps1) (packet_skip (\<lambda>_. True) ps1 n))\<lparr>es_decrypt := c\<rparr>)\<lparr>es_mdc := sha1_ctx dechdr\<rparr>"
    using assms(3,6) 1(1) s(1) sha1_create [OF assms(2)] len
    by (auto simp: encrypted_decrypt_header_def Let_def n_def split: if_splits prod.splits option.splits)
  have "cfb_plain bc alg key [] = []" by (simp add: cfb_plain_def)
  with decrypt_some [OF st assms(1), of "[]" "take n text" c dechdr] c(1) z
  have "c = crypt_after True bc alg key (take n text)" "cfb_plain bc alg key (take n text) = dechdr" by simp_all
  with packet_skip_full [OF 1(3) n] 1(2) assms(3,4) c(2)
  show "enc_decrypted rd rest ok bc alg key param (take n text) (drop n text)" by (simp add: enc_decrypted_def)
qed

end

end
