(* ===== verification/Memory_Buffers.thy ===== *)
theory Memory_Buffers
  imports Stream_Packet
begin

text \<open>
  The growing memory buffers of \<^verbatim>\<open>src/src/lib/misc.c\<close>, in which the key stores are written.

  A buffer keeps the bytes that were stored in it (\<^const>\<open>None\<close> is a null pointer), the number of bytes that are
  in use and the number of bytes that were asked for.  Mapping files to memory is left out.
\<close>

section \<open>Operations\<close>

record pgp_memory =
  m_buf :: "bytes option"
  m_length :: nat
  m_allocated :: nat

definition pgp_memory_new :: pgp_memory where
  "pgp_memory_new = \<lparr>m_buf = None, m_length = 0, m_allocated = 0\<rparr>"

definition pgp_memory_init :: "alloc \<Rightarrow> pgp_memory \<Rightarrow> nat \<Rightarrow> pgp_memory" where
  "pgp_memory_init al mem needed =
     (case m_buf mem of
        Some buf \<Rightarrow>
          if m_allocated mem < needed \<and> al needed then mem\<lparr>m_length := 0, m_allocated := needed\<rparr>
          else mem\<lparr>m_length := 0\<rparr>
      | None \<Rightarrow>
          if al needed then \<lparr>m_buf = Some (replicate needed 0), m_length = 0, m_allocated = needed\<rparr>
          else mem\<lparr>m_length := 0\<rparr>)"

definition pgp_memory_ref :: "pgp_memory \<Rightarrow> bytes \<Rightarrow> pgp_memory" where
  "pgp_memory_ref mem data = \<lparr>m_buf = Some data, m_length = length data, m_allocated = 0\<rparr>"

text \<open>The contents of the buffer as a list, also of the null pointer.\<close>

definition mem_data :: "pgp_memory \<Rightarrow> bytes" where
  "mem_data mem = (case m_buf mem of None \<Rightarrow> [] | Some buf \<Rightarrow> buf)"

text \<open>The field for the size is set before the reallocation, also when that fails.\<close>

definition pgp_memory_pad :: "alloc \<Rightarrow> pgp_memory \<Rightarrow> nat \<Rightarrow> pgp_memory \<times> bool" where
  "pgp_memory_pad al mem len =
     (if m_allocated mem < m_length mem then (mem, False)
      else
        let grow = m_allocated mem < u64 (m_length mem + len);
            size = u64 (m_allocated mem * 2 + len);
            mem1 = (if grow then mem\<lparr>m_allocated := size\<rparr> else mem) in
        if grow \<and> \<not> al size then (mem1, False)
        else
          let mem2 = (if grow then mem1\<lparr>m_buf := Some (take size (mem_data mem))\<rparr> else mem1) in
          (mem2, \<not> m_allocated mem2 < u64 (m_length mem2 + len)))"

definition pgp_memory_add :: "alloc \<Rightarrow> pgp_memory \<Rightarrow> bytes \<Rightarrow> pgp_memory \<times> bool" where
  "pgp_memory_add al mem src =
     (case pgp_memory_pad al mem (length src) of
        (mem1, False) \<Rightarrow> (mem1, False)
      | (mem1, True) \<Rightarrow>
          (mem1\<lparr>m_buf := Some (mem_write (m_length mem1) src (mem_data mem1)),
                m_length := u64 (m_length mem1 + length src)\<rparr>, True))"

text \<open>The loop of \<^verbatim>\<open>pgp_memory_place_int\<close> stores the bytes of a number of 32 bits, the highest first.\<close>

definition int_bytes :: "32 word \<Rightarrow> nat \<Rightarrow> bytes" where
  "int_bytes n len = map (\<lambda>i. ucast (drop_bit (i * 8) n)) (rev [0..<len])"

definition pgp_memory_place_int :: "pgp_memory \<Rightarrow> nat \<Rightarrow> 32 word \<Rightarrow> nat \<Rightarrow> pgp_memory" where
  "pgp_memory_place_int mem offset n len =
     (if m_allocated mem < u64 (offset + len) then mem
      else mem\<lparr>m_buf := Some (mem_write offset (int_bytes n len) (mem_data mem))\<rparr>)"

definition pgp_memory_clear :: "pgp_memory \<Rightarrow> pgp_memory" where
  "pgp_memory_clear mem = mem\<lparr>m_length := 0\<rparr>"

definition pgp_memory_release :: "pgp_memory \<Rightarrow> pgp_memory" where
  "pgp_memory_release mem = mem\<lparr>m_buf := None, m_length := 0\<rparr>"

definition pgp_memory_make_packet :: "alloc \<Rightarrow> pgp_memory \<Rightarrow> nat \<Rightarrow> pgp_memory" where
  "pgp_memory_make_packet al out tag =
     (let n = m_length out;
          extra = (if n < 192 then 1 else if n < 8192 + 192 then 2 else 5) in
      case pgp_memory_pad al out (extra + 1) of
        (out1, False) \<Rightarrow> out1
      | (out1, True) \<Rightarrow>
          let hdr = (PGP_PTAG_ALWAYS_SET OR PGP_PTAG_NEW_FORMAT OR to_byte tag) #
                (if n < 192 then [to_byte n]
                 else if n < 8192 + 192 then [to_byte ((n - 192) div 256) + 192, to_byte (n - 192)]
                 else 0xff # STORE32BE n) in
          out1\<lparr>m_buf := Some (mem_write 0 (hdr @ take n (mem_data out1)) (mem_data out1)),
               m_length := u64 (n + extra + 1)\<rparr>)"

definition pgp_mem_len :: "pgp_memory \<Rightarrow> nat" where
  "pgp_mem_len mem = m_length mem"

section \<open>The contents\<close>

text \<open>
  The bytes in use, and the states in which operations can go on: \<open>B\<close> bounds what was allocated beyond three times the
  bytes in use.
\<close>

definition mem_contents :: "pgp_memory \<Rightarrow> bytes" where
  "mem_contents mem = take (m_length mem) (mem_data mem)"

definition buf_ok :: "nat \<Rightarrow> pgp_memory \<Rightarrow> bool" where
  "buf_ok B mem \<longleftrightarrow> m_length mem \<le> length (mem_data mem) \<and> length (mem_data mem) \<le> m_allocated mem \<and>
     m_allocated mem \<le> 3 * m_length mem + B"

lemma buf_ok_new [simp]: "buf_ok B pgp_memory_new" "mem_contents pgp_memory_new = []" "m_length pgp_memory_new = 0"
  by (simp_all add: buf_ok_def pgp_memory_new_def mem_contents_def mem_data_def)

lemma length_mem_contents: "buf_ok B mem \<Longrightarrow> length (mem_contents mem) = m_length mem"
  by (simp add: buf_ok_def mem_contents_def)

lemma pad_ok:
  assumes "buf_ok B mem" "3 * (m_length mem + len) + 2 * B < 2 ^ 64" "3 * len \<le> B \<or> len \<le> n"
  obtains mem' where "pgp_memory_pad (\<lambda>_. True) mem len = (mem', True)" "mem_contents mem' = mem_contents mem"
    "m_length mem' = m_length mem" "m_length mem + len \<le> m_allocated mem'" "length (mem_data mem') \<le> m_allocated mem'"
    "m_length mem \<le> length (mem_data mem')" "m_allocated mem' \<le> 3 * (m_length mem + n) + B"
proof -
  have m: "m_length mem \<le> length (mem_data mem)" "length (mem_data mem) \<le> m_allocated mem" "m_allocated mem \<le> 3 * m_length mem + B"
    using assms(1) by (simp_all add: buf_ok_def)
  show thesis
  proof (cases "m_allocated mem < m_length mem + len")
    case False
    then show thesis
      using m assms(2) by (intro that [of mem]) (simp_all add: pgp_memory_pad_def Let_def)
  next
    case True
    define size where "size = m_allocated mem * 2 + len"
    have size: "size < 2 ^ 64" "length (mem_data mem) \<le> size" "m_length mem + len \<le> size" "size \<le> 3 * (m_length mem + n) + B"
      using True m assms(2,3) by (auto simp: size_def)
    define mem' where "mem' = mem\<lparr>m_allocated := size, m_buf := Some (mem_data mem)\<rparr>"
    have d: "mem_data mem' = mem_data mem" by (simp add: mem'_def mem_data_def)
    show thesis
    proof (rule that [of mem'])
      show "pgp_memory_pad (\<lambda>_. True) mem len = (mem', True)"
        using True m assms(2) size by (simp add: pgp_memory_pad_def Let_def mem'_def size_def)
      show "mem_contents mem' = mem_contents mem" "m_length mem' = m_length mem"
        by (simp_all add: mem_contents_def d) (simp_all add: mem'_def)
    qed (use m size in \<open>simp_all add: d, simp_all add: mem'_def\<close>)
  qed
qed

lemma add_ok:
  assumes "buf_ok B mem" "3 * (m_length mem + length src) + 2 * B < 2 ^ 64"
  obtains mem' where "pgp_memory_add (\<lambda>_. True) mem src = (mem', True)" "buf_ok B mem'"
    "mem_contents mem' = mem_contents mem @ src" "m_length mem' = m_length mem + length src"
proof -
  obtain mem1 where p: "pgp_memory_pad (\<lambda>_. True) mem (length src) = (mem1, True)" "mem_contents mem1 = mem_contents mem"
    "m_length mem1 = m_length mem" "m_length mem + length src \<le> m_allocated mem1" "length (mem_data mem1) \<le> m_allocated mem1"
    "m_length mem \<le> length (mem_data mem1)" "m_allocated mem1 \<le> 3 * (m_length mem + length src) + B"
    by (rule pad_ok [OF assms, of "length src"]) simp_all
  define mem' where "mem' = mem1\<lparr>m_buf := Some (mem_write (m_length mem1) src (mem_data mem1)), m_length := m_length mem1 + length src\<rparr>"
  have d: "mem_data mem' = mem_write (m_length mem1) src (mem_data mem1)" "m_length mem' = m_length mem + length src"
    "m_allocated mem' = m_allocated mem1"
    using p(3) by (simp_all add: mem'_def mem_data_def)
  show thesis
  proof (rule that [of mem'])
    show "pgp_memory_add (\<lambda>_. True) mem src = (mem', True)"
      using p(1,3) assms(2) by (simp add: pgp_memory_add_def mem'_def)
    show "buf_ok B mem'" using p(4-7) unfolding buf_ok_def d p(3) by auto
    show "mem_contents mem' = mem_contents mem @ src"
      using p(6) p(2) [symmetric] by (simp add: mem_contents_def d mem_write_def p(3))
  qed (rule d)
qed

end
