(* ===== verification/S_Expressions.thy ===== *)
theory S_Expressions
  imports Memory_Buffers Stream_Armor
begin

text \<open>
  The S-expressions of G10 key files, first part of \<^verbatim>\<open>src/src/librekey/key_store_g10.c\<close>: building, looking up,
  parsing and writing.

  Parsing works on the memory from the pointer on and on the length that the caller gives; the two may differ,
  because \<^verbatim>\<open>strtol\<close> knows nothing of the length.  A read behind the memory has no result (\<^const>\<open>None\<close>), a parser that
  returns false has the result \<open>Some None\<close>.  The array of elements is a list that can always grow.
\<close>

section \<open>Building\<close>

datatype sub_element = Block bytes | Sub "sub_element list"

type_synonym s_exp = "sub_element list"

abbreviation is_block :: "sub_element \<Rightarrow> bool" where
  "is_block e \<equiv> \<exists>bs. e = Block bs"

text \<open>A block that is there already is not added again; \<^const>\<open>None\<close> is the result false.\<close>

definition add_block_to_sexp :: "alloc \<Rightarrow> s_exp \<Rightarrow> bytes \<Rightarrow> s_exp option" where
  "add_block_to_sexp al s_exp bs =
     (if Block bs \<in> set s_exp then Some s_exp
      else if al (length bs) then Some (s_exp @ [Block bs])
      else None)"

definition add_string_block_to_sexp :: "alloc \<Rightarrow> s_exp \<Rightarrow> string \<Rightarrow> s_exp option" where
  "add_string_block_to_sexp al s_exp s = add_block_to_sexp al s_exp (str_bytes s)"

text \<open>The pointer to the new element is the caller's way to fill it, here the filled element is passed.\<close>

definition add_sub_sexp_to_sexp :: "s_exp \<Rightarrow> s_exp \<Rightarrow> s_exp" where
  "add_sub_sexp_to_sexp s_exp sub = s_exp @ [Sub sub]"

text \<open>\<^verbatim>\<open>snprintf\<close> with the formats \<^verbatim>\<open>%zu\<close> and \<^verbatim>\<open>%u\<close>.\<close>

fun print_unsigned :: "nat \<Rightarrow> bytes" where
  "print_unsigned n = (if n < 10 then [to_byte (48 + n)] else print_unsigned (n div 10) @ [to_byte (48 + n mod 10)])"

declare print_unsigned.simps [simp del]

definition add_unsigned_block_to_sexp :: "alloc \<Rightarrow> s_exp \<Rightarrow> nat \<Rightarrow> s_exp option" where
  "add_unsigned_block_to_sexp al s_exp u = add_block_to_sexp al s_exp (print_unsigned u)"

section \<open>Parsing\<close>

definition is_space :: "byte \<Rightarrow> bool" where
  "is_space b \<longleftrightarrow> b = 32 \<or> 9 \<le> unat b \<and> unat b \<le> 13"

definition is_digit :: "byte \<Rightarrow> bool" where
  "is_digit b \<longleftrightarrow> 48 \<le> unat b \<and> unat b \<le> 57"

definition digits_value :: "bytes \<Rightarrow> nat" where
  "digits_value ds = foldl (\<lambda>n d. 10 * n + (unat d - 48)) 0 ds"

definition LONG_MAX :: int where "LONG_MAX = 2 ^ 63 - 1"

definition LONG_MIN :: int where "LONG_MIN = - (2 ^ 63)"

text \<open>\<^verbatim>\<open>strtol\<close> to the base 10, with the position behind the number.\<close>

definition strtol10 :: "bytes \<Rightarrow> (int \<times> bytes) option" where
  "strtol10 mem =
     (case dropWhile is_space mem of
        [] \<Rightarrow> None
      | c # cs \<Rightarrow>
          let neg = (c = 45); t = (if c = 45 \<or> c = 43 then cs else c # cs);
              ds = takeWhile is_digit t; next = dropWhile is_digit t;
              v = int (digits_value ds) in
          if next = [] then None
          else if ds = [] then Some (0, mem)
          else Some (if neg then max LONG_MIN (- v) else min LONG_MAX v, next))"

text \<open>A block in the loop of \<^verbatim>\<open>parse_sexp\<close>: the new expression, the position and the length behind it.\<close>

definition parse_block :: "alloc \<Rightarrow> s_exp \<Rightarrow> bytes \<Rightarrow> nat \<Rightarrow> ((s_exp \<times> bytes \<times> nat) option) option" where
  "parse_block al s_exp mem len =
     (case strtol10 mem of
        None \<Rightarrow> None
      | Some (n, next) \<Rightarrow>
          if hd next \<noteq> 58 then Some None
          else
            let mem1 = tl next; len1 = sub64 len (length mem - length mem1) in
            if n = LONG_MIN \<or> n = LONG_MAX \<or> n \<le> 0 \<or> len1 \<le> nat n then Some None
            else if length mem1 < nat n then None
            else
              (case add_block_to_sexp al s_exp (take (nat n) mem1) of
                 None \<Rightarrow> Some None
               | Some s_exp1 \<Rightarrow> Some (Some (s_exp1, drop (nat n) mem1, len1 - nat n))))"

lemma length_dropWhile_le': "length (dropWhile P xs) \<le> length xs"
  by (induction xs) auto

lemma strtol10_le:
  assumes "strtol10 mem = Some (n, next)"
  shows "length next \<le> length mem" "next \<noteq> []"
proof -
  obtain c cs where c: "dropWhile is_space mem = c # cs" using assms by (auto simp: strtol10_def split: list.splits)
  have "length (c # cs) \<le> length mem" using length_dropWhile_le' [of is_space mem] c by simp
  moreover have "length (dropWhile is_digit (if c = 45 \<or> c = 43 then cs else c # cs)) \<le> length (c # cs)"
    using length_dropWhile_le' [of is_digit cs] length_dropWhile_le' [of is_digit "c # cs"] by auto
  ultimately show "length next \<le> length mem" "next \<noteq> []"
    using assms c by (auto simp: strtol10_def Let_def split: if_splits)
qed

lemma parse_block_shorter:
  assumes "parse_block al s_exp mem len = Some (Some (s_exp1, mem1, len1))"
  shows "length mem1 < length mem"
proof -
  obtain n nx where n: "strtol10 mem = Some (n, nx)" "mem1 = drop (nat n) (tl nx)"
    using assms by (auto simp: parse_block_def Let_def split: option.splits if_splits)
  then show ?thesis using strtol10_le [OF n(1)] by (cases nx) auto
qed

text \<open>
  The loop of \<^verbatim>\<open>parse_sexp\<close> behind the opening parenthesis.  A nested expression starts with a parenthesis where the
  length is not zero, so the call of \<^verbatim>\<open>parse_sexp\<close> goes on with the loop.  The position advances with every element,
  which ends the loop.
\<close>

function parse_loop :: "alloc \<Rightarrow> s_exp \<Rightarrow> bytes \<Rightarrow> nat \<Rightarrow> ((s_exp \<times> bytes \<times> nat) option) option" where
  "parse_loop al s_exp mem len =
     (if len = 0 then Some None
      else
        (case mem of
           [] \<Rightarrow> None
         | b # bs \<Rightarrow>
             (case (if b = 40
                    then map_option (map_option (\<lambda>(sub, mem1, len1). (add_sub_sexp_to_sexp s_exp sub, mem1, len1)))
                           (parse_loop al [] bs (len - 1))
                    else parse_block al s_exp mem len) of
                None \<Rightarrow> None
              | Some None \<Rightarrow> Some None
              | Some (Some (s_exp1, mem1, len1)) \<Rightarrow>
                  (case mem1 of
                     [] \<Rightarrow> None
                   | c # cs \<Rightarrow>
                       if c = 41 then Some (Some (s_exp1, cs, sub64 len1 1))
                       else parse_loop al s_exp1 mem1 len1))))"
  by pat_completeness auto

termination
proof -
  have shorter: "length mem' < length mem"
    if "parse_loop_dom (al, s_exp, mem, len)" "parse_loop al s_exp mem len = Some (Some (e, mem', len'))" for al s_exp mem len e mem' len'
    using that
  proof (induction arbitrary: e mem' len' rule: parse_loop.pinduct)
    case (1 al s_exp mem len)
    note u = 1(4) [unfolded parse_loop.psimps [OF 1(1)]]
    obtain b bs where mem: "mem = b # bs" "len \<noteq> 0" using u by (auto split: if_splits list.splits)
    let ?r = "if b = 40
          then map_option (map_option (\<lambda>(sub, mem1, len1). (add_sub_sexp_to_sexp s_exp sub, mem1, len1))) (parse_loop al [] bs (len - 1))
          else parse_block al s_exp mem len"
    obtain e1 mem1 len1 where r: "?r = Some (Some (e1, mem1, len1))"
      and t: "(case mem1 of [] \<Rightarrow> None | c # cs \<Rightarrow> if c = 41 then Some (Some (e1, cs, sub64 len1 1)) else parse_loop al e1 mem1 len1) =
          Some (Some (e, mem', len'))"
      using u mem by (simp split: option.splits prod.splits)
    have m1: "length mem1 < length mem"
      by (cases "b = 40") (use r 1(2) [OF mem(2,1)] mem parse_block_shorter in force)+
    obtain c cs where c: "mem1 = c # cs" using t by (cases mem1) auto
    show ?case
    proof (cases "c = 41")
      case False
      then have "parse_loop al e1 mem1 len1 = Some (Some (e, mem', len'))" using t c by simp
      then show ?thesis using 1(3) [OF mem(2,1) r refl refl refl c False] m1 by force
    qed (use t c m1 in auto)
  qed
  show ?thesis
  proof (relation "measure (\<lambda>(_, _, mem, _). length mem)", goal_cases)
    case (3 al s_exp mem len b bs a p e1 q mem1 len1 c cs)
    have "length mem1 < length mem"
    proof (cases "b = 40")
      case True
      then obtain sub where "parse_loop al [] bs (len - 1) = Some (Some (sub, mem1, len1))" using 3 by auto
      with shorter [OF 3(9)] True 3(2) show ?thesis by force
    qed (use 3 parse_block_shorter [of al s_exp mem len e1 mem1 len1] in auto)
    then show ?case by simp
  qed simp_all
qed

declare parse_loop.simps [simp del]

definition parse_sexp :: "alloc \<Rightarrow> bytes \<Rightarrow> nat \<Rightarrow> ((s_exp \<times> bytes \<times> nat) option) option" where
  "parse_sexp al mem len =
     (if len = 0 then Some (Some ([], mem, len))
      else
        (case mem of
           [] \<Rightarrow> None
         | b # bs \<Rightarrow> if b \<noteq> 40 then Some None else parse_loop al [] bs (len - 1)))"

section \<open>Looking up\<close>

text \<open>
  \<^verbatim>\<open>block_to_unsigned\<close> copies the block to the start of an array and reads a number from there: behind the block is
  what was on the stack before.  The array is as long as the text of the macro \<^verbatim>\<open>UINT_MAX\<close>, which the compiler writes as
  \<^verbatim>\<open>(0x7fffffff * 2U + 1U)\<close>, and two characters.
\<close>

definition UINT_MAX :: nat where "UINT_MAX = 2 ^ 32 - 1"

definition UINT_BUF_SIZE :: nat where "UINT_BUF_SIZE = 24"

definition block_to_unsigned :: "bytes \<Rightarrow> bytes \<Rightarrow> nat option" where
  "block_to_unsigned stack bs =
     (if UINT_BUF_SIZE \<le> length bs then Some UINT_MAX
      else map_option (\<lambda>(n, _). nat (n mod 2 ^ 32)) (strtol10 (bs @ drop (length bs) (take UINT_BUF_SIZE stack))))"

fun lookup_variable :: "s_exp \<Rightarrow> string \<Rightarrow> s_exp option" where
  "lookup_variable [] name = None"
| "lookup_variable (Block _ # es) name = lookup_variable es name"
| "lookup_variable (Sub sub # es) name =
     (case sub of
        Block b # _ # _ \<Rightarrow> if b = str_bytes name then Some sub else lookup_variable es name
      | _ \<Rightarrow> None)"

section \<open>Writing\<close>

definition MAX_SIZE_T_LEN :: nat where "MAX_SIZE_T_LEN = 26"

text \<open>\<^verbatim>\<open>snprintf\<close> writes a terminating null byte behind the number, which the next addition overwrites.\<close>

definition write_block :: "alloc \<Rightarrow> bytes \<Rightarrow> pgp_memory \<Rightarrow> pgp_memory \<times> bool" where
  "write_block al block mem =
     (case pgp_memory_pad al mem MAX_SIZE_T_LEN of
        (mem1, False) \<Rightarrow> (mem1, False)
      | (mem1, True) \<Rightarrow>
          let s = print_unsigned (length block);
              mem2 = mem1\<lparr>m_buf := Some (mem_write (m_length mem1) (s @ [0]) (mem_data mem1)),
                          m_length := m_length mem1 + length s\<rparr> in
          (case pgp_memory_add al mem2 (str_bytes '':'') of
             (mem3, False) \<Rightarrow> (mem3, False)
           | (mem3, True) \<Rightarrow> pgp_memory_add al mem3 block))"

fun write_element :: "alloc \<Rightarrow> sub_element \<Rightarrow> pgp_memory \<Rightarrow> pgp_memory \<times> bool"
  and write_elements :: "alloc \<Rightarrow> sub_element list \<Rightarrow> pgp_memory \<Rightarrow> pgp_memory \<times> bool" where
  "write_element al (Block block) mem = write_block al block mem"
| "write_element al (Sub sub) mem =
     (case pgp_memory_add al mem (str_bytes ''('') of
        (mem1, False) \<Rightarrow> (mem1, False)
      | (mem1, True) \<Rightarrow>
          (case write_elements al sub mem1 of
             (mem2, False) \<Rightarrow> (mem2, False)
           | (mem2, True) \<Rightarrow> pgp_memory_add al mem2 (str_bytes '')'')))"
| "write_elements al [] mem = (mem, True)"
| "write_elements al (e # es) mem =
     (case write_element al e mem of
        (mem1, False) \<Rightarrow> (mem1, False)
      | (mem1, True) \<Rightarrow> write_elements al es mem1)"

definition write_sexp :: "alloc \<Rightarrow> s_exp \<Rightarrow> pgp_memory \<Rightarrow> pgp_memory \<times> bool" where
  "write_sexp al s_exp mem = write_element al (Sub s_exp) mem"

section \<open>The text of an expression\<close>

fun elem_enc :: "sub_element \<Rightarrow> bytes" where
  "elem_enc (Block bs) = print_unsigned (length bs) @ 58 # bs"
| "elem_enc (Sub sub) = 40 # concat (map elem_enc sub) @ [41]"

text \<open>
  The expressions that survive being written and parsed: no list is empty, no block is empty or longer than a \<^verbatim>\<open>long\<close> can
  say, and the blocks of a list are distinct.
\<close>

fun elem_wf :: "sub_element \<Rightarrow> bool" where
  "elem_wf (Block bs) \<longleftrightarrow> bs \<noteq> [] \<and> int (length bs) < LONG_MAX"
| "elem_wf (Sub sub) \<longleftrightarrow> sub \<noteq> [] \<and> distinct (filter is_block sub) \<and> (\<forall>e \<in> set sub. elem_wf e)"

lemma print_unsigned_digits: "\<forall>d \<in> set (print_unsigned n). is_digit d" "print_unsigned n \<noteq> []"
proof -
  have "\<forall>d \<in> set (print_unsigned n). is_digit d"
    by (induction n rule: print_unsigned.induct) (subst print_unsigned.simps, auto simp: is_digit_def)
  then show "\<forall>d \<in> set (print_unsigned n). is_digit d" .
  show "print_unsigned n \<noteq> []" by (subst print_unsigned.simps) simp
qed

lemma digits_value_snoc: "digits_value (ds @ [d]) = 10 * digits_value ds + (unat d - 48)"
  by (simp add: digits_value_def)

lemma digits_value_print [simp]: "digits_value (print_unsigned n) = n"
proof (induction n rule: print_unsigned.induct)
  case (1 n)
  then show ?case
    by (subst print_unsigned.simps) (auto simp: digits_value_snoc, simp add: digits_value_def)
qed

lemma strtol10_print:
  assumes "int n < LONG_MAX" "\<not> is_digit c"
  shows "strtol10 (print_unsigned n @ c # rest) = Some (int n, c # rest)"
proof -
  obtain d ds where d: "print_unsigned n = d # ds" using print_unsigned_digits(2) by (cases "print_unsigned n") auto
  have dig: "\<forall>x \<in> set (d # ds). is_digit x" using print_unsigned_digits(1) [of n] d by simp
  then have "\<not> is_space d" "d \<noteq> 45" "d \<noteq> 43" by (auto simp: is_digit_def is_space_def)
  moreover have "takeWhile is_digit (d # ds @ c # rest) = d # ds" "dropWhile is_digit (d # ds @ c # rest) = c # rest"
    using dig assms(2) takeWhile_append2 [of "d # ds" is_digit "c # rest"] dropWhile_append2 [of "d # ds" is_digit "c # rest"] by auto
  moreover have "digits_value (d # ds) = n" using digits_value_print [of n] d by simp
  moreover have "dropWhile is_space (d # ds @ c # rest) = d # ds @ c # rest" using calculation(1) by simp
  ultimately show ?thesis using assms(1) by (simp add: strtol10_def d Let_def del: takeWhile.simps dropWhile.simps dropWhile_eq_Nil_conv)
qed

text \<open>A block is read back, with anything behind it as long as one byte is left.\<close>

lemma parse_block_enc:
  assumes "bs \<noteq> []" "int (length bs) < LONG_MAX" "Block bs \<notin> set s_exp"
    and "len = length (elem_enc (Block bs)) + k" "0 < k" "len < 2 ^ 64"
  shows "parse_block (\<lambda>_. True) s_exp (elem_enc (Block bs) @ rest) len = Some (Some (s_exp @ [Block bs], rest, k))"
proof -
  have "strtol10 (elem_enc (Block bs) @ rest) = Some (int (length bs), 58 # bs @ rest)"
    using strtol10_print [OF assms(2), of 58 "bs @ rest"] by (simp add: is_digit_def)
  moreover have "length (elem_enc (Block bs) @ rest) - length (bs @ rest) = length (print_unsigned (length bs)) + 1" by simp
  moreover have "int (length bs) \<noteq> LONG_MIN" "0 < length bs" using assms(1) by (simp_all add: LONG_MIN_def)
  ultimately show ?thesis
    using assms by (simp add: parse_block_def Let_def add_block_to_sexp_def)
qed

text \<open>The loop reads the elements that are left and the closing parenthesis.\<close>

lemma elem_enc_start: "\<exists>b bs. elem_enc e = b # bs \<and> b \<noteq> 41 \<and> (b = 40 \<longleftrightarrow> \<not> is_block e)"
proof (cases e)
  case (Block bs)
  obtain d ds where d: "print_unsigned (length bs) = d # ds"
    using print_unsigned_digits(2) by (cases "print_unsigned (length bs)") auto
  then have "is_digit d" using print_unsigned_digits(1) [of "length bs"] by simp
  then have "d \<noteq> 40 \<and> d \<noteq> 41" by (auto simp: is_digit_def)
  then show ?thesis using Block d by simp
qed simp

lemma parse_loop_step:
  assumes "mem = b # bs" "0 < len"
    and "(if b = 40 then map_option (map_option (\<lambda>(sub, mem1, len1). (add_sub_sexp_to_sexp s_exp sub, mem1, len1))) (parse_loop al [] bs (len - 1))
          else parse_block al s_exp mem len) = Some (Some (s_exp1, c # cs, len1))"
  shows "parse_loop al s_exp mem len = (if c = 41 then Some (Some (s_exp1, cs, sub64 len1 1)) else parse_loop al s_exp1 (c # cs) len1)"
  using assms(2) by (simp only: assms(1) parse_loop.simps [of al s_exp "b # bs" len] assms(3) [unfolded assms(1)] list.case option.case prod.case)
      simp

lemma parse_loop_enc:
  assumes "es \<noteq> []" "distinct (filter is_block (s_exp @ es))" "\<forall>e \<in> set es. elem_wf e"
    and "len = length (concat (map elem_enc es)) + 1 + k" "len < 2 ^ 64"
  shows "parse_loop (\<lambda>_. True) s_exp (concat (map elem_enc es) @ 41 # rest) len = Some (Some (s_exp @ es, rest, k))"
  using assms
proof (induction "size_list size es" arbitrary: es s_exp len k rest rule: less_induct)
  case less
  obtain e es' where es: "es = e # es'" using less.prems(1) by (cases es) auto
  obtain b bs where b: "elem_enc e = b # bs" "b \<noteq> 41" "b = 40 \<longleftrightarrow> \<not> is_block e" using elem_enc_start [of e] by (elim exE conjE) (rule that)
  let ?tl = "concat (map elem_enc es') @ 41 # rest"
  define k1 where "k1 = length (concat (map elem_enc es')) + 1 + k"
  have len: "len = length (elem_enc e) + k1" "0 < k1" "0 < len" using less.prems(4) es by (auto simp: k1_def)
  obtain c cs where c: "?tl = c # cs" "c = 41 \<longleftrightarrow> es' = []"
  proof (cases es')
    case (Cons f fs)
    obtain x xs where "elem_enc f = x # xs" "x \<noteq> 41" using elem_enc_start [of f] by (elim exE conjE) (rule that)
    with Cons show thesis by (intro that [of x "xs @ concat (map elem_enc fs) @ 41 # rest"]) simp_all
  qed simp
  have step: "(if b = 40 then map_option (map_option (\<lambda>(sub, mem1, len1). (add_sub_sexp_to_sexp s_exp sub, mem1, len1)))
        (parse_loop (\<lambda>_. True) [] (bs @ ?tl) (len - 1))
      else parse_block (\<lambda>_. True) s_exp (elem_enc e @ ?tl) len) = Some (Some (s_exp @ [e], c # cs, k1))"
  proof (cases e)
    case (Block x)
    have "Block x \<notin> set s_exp" using less.prems(2) es Block by auto
    moreover have "x \<noteq> []" "int (length x) < LONG_MAX" using less.prems(3) es Block by auto
    ultimately show ?thesis
      using parse_block_enc [of x s_exp len k1 ?tl] len less.prems(5) b(3) Block c(1) by simp
  next
    case (Sub sub)
    have wf: "sub \<noteq> []" "distinct (filter is_block sub)" "\<forall>x \<in> set sub. elem_wf x" using less.prems(3) es Sub by auto
    have "parse_loop (\<lambda>_. True) [] (concat (map elem_enc sub) @ 41 # ?tl) (len - 1) = Some (Some ([] @ sub, ?tl, k1))"
      by (rule less.hyps) (use wf len(1) less.prems(5) es Sub in simp_all)
    moreover have "bs @ ?tl = concat (map elem_enc sub) @ 41 # ?tl" "b = 40" using b(1) Sub by auto
    ultimately show ?thesis using c(1) Sub by (simp add: add_sub_sexp_to_sexp_def)
  qed
  have mem: "concat (map elem_enc es) @ 41 # rest = b # (bs @ ?tl)" using es b(1) by simp
  have go: "parse_loop (\<lambda>_. True) s_exp (b # (bs @ ?tl)) len =
      (if c = 41 then Some (Some (s_exp @ [e], cs, sub64 k1 1)) else parse_loop (\<lambda>_. True) (s_exp @ [e]) (c # cs) k1)"
    by (rule parse_loop_step [OF refl len(3) step [unfolded b(1) append_Cons]])
  show ?case
  proof (cases "es' = []")
    case True
    then show ?thesis using go mem c es by (simp add: k1_def)
  next
    case False
    have "parse_loop (\<lambda>_. True) (s_exp @ [e]) ?tl k1 = Some (Some ((s_exp @ [e]) @ es', rest, k))"
      by (rule less.hyps) (use less.prems es False len in \<open>auto simp: k1_def\<close>)
    then show ?thesis using go mem c False es by simp
  qed
qed

lemma parse_sexp_enc:
  assumes "elem_wf (Sub e)" "len = length (elem_enc (Sub e)) + k" "len < 2 ^ 64"
  shows "parse_sexp (\<lambda>_. True) (elem_enc (Sub e) @ rest) len = Some (Some (e, rest, k))"
  using parse_loop_enc [of e "[]" "len - 1" k rest] assms by (auto simp: parse_sexp_def)

section \<open>What is written\<close>

lemma length_print_unsigned: "n < 2 ^ 64 \<Longrightarrow> length (print_unsigned n) \<le> 20"
proof -
  have "n < 10 ^ Suc m \<Longrightarrow> length (print_unsigned n) \<le> Suc m" for m
  proof (induction m arbitrary: n)
    case (Suc m)
    then show ?case by (subst print_unsigned.simps) (auto simp: less_mult_imp_div_less)
  qed (simp add: print_unsigned.simps)
  from this [of 19] show "n < 2 ^ 64 \<Longrightarrow> length (print_unsigned n) \<le> 20" by simp
qed

lemma write_block_ok:
  assumes "buf_ok B mem" "78 \<le> B" "3 * (m_length mem + length (elem_enc (Block bs)) + 26) + 2 * B < 2 ^ 64"
  obtains mem' where "write_block (\<lambda>_. True) bs mem = (mem', True)" "buf_ok B mem'"
    "mem_contents mem' = mem_contents mem @ elem_enc (Block bs)" "m_length mem' = m_length mem + length (elem_enc (Block bs))"
proof -
  let ?s = "print_unsigned (length bs)"
  have sl: "length ?s \<le> 20" by (rule length_print_unsigned) (use assms(3) in simp)
  obtain mem1 where p: "pgp_memory_pad (\<lambda>_. True) mem 26 = (mem1, True)" "mem_contents mem1 = mem_contents mem"
    "m_length mem1 = m_length mem" "m_length mem + 26 \<le> m_allocated mem1" "length (mem_data mem1) \<le> m_allocated mem1"
    "m_length mem \<le> length (mem_data mem1)" "m_allocated mem1 \<le> 3 * (m_length mem + 0) + B"
    by (rule pad_ok [OF assms(1), of 26 0]) (use assms(2,3) in simp_all)
  define mem2 where "mem2 = mem1\<lparr>m_buf := Some (mem_write (m_length mem1) (?s @ [0]) (mem_data mem1)), m_length := m_length mem1 + length ?s\<rparr>"
  have d: "mem_data mem2 = mem_write (m_length mem) (?s @ [0]) (mem_data mem1)" "m_length mem2 = m_length mem + length ?s"
    "m_allocated mem2 = m_allocated mem1"
    by (simp_all add: mem2_def mem_data_def p(3))
  have 2: "buf_ok B mem2" "mem_contents mem2 = mem_contents mem @ ?s"
  proof -
    show "buf_ok B mem2" using p(4-7) sl unfolding buf_ok_def d by auto
    show "mem_contents mem2 = mem_contents mem @ ?s"
      using p(6) p(2) [symmetric] by (simp add: mem_contents_def d mem_write_def p(3))
  qed
  obtain mem3 where 3: "pgp_memory_add (\<lambda>_. True) mem2 (str_bytes '':'') = (mem3, True)" "buf_ok B mem3"
    "mem_contents mem3 = mem_contents mem2 @ [58]" "m_length mem3 = m_length mem2 + 1"
    by (rule add_ok [OF 2(1), of "str_bytes '':''"]) (use assms(3) in \<open>simp_all add: d str_bytes_def\<close>)
  obtain mem' where 4: "pgp_memory_add (\<lambda>_. True) mem3 bs = (mem', True)" "buf_ok B mem'"
    "mem_contents mem' = mem_contents mem3 @ bs" "m_length mem' = m_length mem3 + length bs"
    by (rule add_ok [OF 3(2), of bs]) (use assms(3) in \<open>simp_all add: 3 d\<close>)
  show thesis
  proof (rule that [of mem'])
    show "write_block (\<lambda>_. True) bs mem = (mem', True)"
      using p(1) 3(1) 4(1) by (simp add: write_block_def MAX_SIZE_T_LEN_def mem2_def Let_def)
  qed (use 2 3 4 d in simp_all)
qed

lemma write_elements_ok:
  fixes e es
  shows "\<lbrakk>buf_ok B mem; 78 \<le> B; 3 * (m_length mem + length (elem_enc e) + 26) + 2 * B < 2 ^ 64\<rbrakk> \<Longrightarrow>
      \<exists>mem'. write_element (\<lambda>_. True) e mem = (mem', True) \<and> buf_ok B mem' \<and>
        mem_contents mem' = mem_contents mem @ elem_enc e \<and> m_length mem' = m_length mem + length (elem_enc e)"
    and "\<lbrakk>buf_ok B mem; 78 \<le> B; 3 * (m_length mem + length (concat (map elem_enc es)) + 26) + 2 * B < 2 ^ 64\<rbrakk> \<Longrightarrow>
      \<exists>mem'. write_elements (\<lambda>_. True) es mem = (mem', True) \<and> buf_ok B mem' \<and>
        mem_contents mem' = mem_contents mem @ concat (map elem_enc es) \<and> m_length mem' = m_length mem + length (concat (map elem_enc es))"
proof (induction al\<equiv>"\<lambda>_ :: nat. True" e mem and al\<equiv>"\<lambda>_ :: nat. True" es mem rule: write_element_write_elements.induct)
  case (1 block mem)
  then show ?case using write_block_ok [of B mem block] by (auto simp del: elem_enc.simps)
next
  case (2 sub mem)
  obtain mem1 where 1: "pgp_memory_add (\<lambda>_. True) mem (str_bytes ''('') = (mem1, True)" "buf_ok B mem1"
    "mem_contents mem1 = mem_contents mem @ [40]" "m_length mem1 = m_length mem + 1"
    by (rule add_ok [OF 2(2), of "str_bytes ''(''"]) (use 2(4) in \<open>simp_all add: str_bytes_def\<close>)
  obtain mem2 where m2: "write_elements (\<lambda>_. True) sub mem1 = (mem2, True)" "buf_ok B mem2"
    "mem_contents mem2 = mem_contents mem1 @ concat (map elem_enc sub)" "m_length mem2 = m_length mem1 + length (concat (map elem_enc sub))"
    using 2(1) [OF 1(1) [symmetric] _ 1(2) 2(3)] 2(4) 1(4) by auto
  obtain mem3 where 3: "pgp_memory_add (\<lambda>_. True) mem2 (str_bytes '')'') = (mem3, True)" "buf_ok B mem3"
    "mem_contents mem3 = mem_contents mem2 @ [41]" "m_length mem3 = m_length mem2 + 1"
    by (rule add_ok [OF m2(2), of "str_bytes '')''"]) (use 2(4) m2(4) 1(4) in \<open>simp_all add: str_bytes_def\<close>)
  show ?case using 1 m2 3 by (intro exI [of _ mem3]) simp
next
  case (3 mem)
  then show ?case by simp
next
  case (4 e es mem)
  obtain mem1 where 1: "write_element (\<lambda>_. True) e mem = (mem1, True)" "buf_ok B mem1"
    "mem_contents mem1 = mem_contents mem @ elem_enc e" "m_length mem1 = m_length mem + length (elem_enc e)"
    using 4(1) [OF 4(3,4)] 4(5) by auto
  show ?case using 4(2) [OF 1(1) [symmetric] _ 1(2) 4(4)] 4(5) 1 by auto
qed

lemma write_sexp_ok:
  assumes "buf_ok 78 mem" "m_length mem + length (elem_enc (Sub e)) < 2 ^ 60"
  obtains mem' where "write_sexp (\<lambda>_. True) e mem = (mem', True)" "mem_contents mem' = mem_contents mem @ elem_enc (Sub e)"
    "buf_ok 78 mem'"
proof -
  have "3 * (m_length mem + length (elem_enc (Sub e)) + 26) + 2 * 78 < 2 ^ 64" using assms(2) by simp
  from write_elements_ok(1) [OF assms(1) _ this] that show thesis unfolding write_sexp_def by blast
qed

end
