(* ===== verification/Key_Data.thy ===== *)
theory Key_Data
  imports Memory_Buffers Symmetric Stream_Armor
begin

text \<open>
  Keys and what is computed of a public key: \<^verbatim>\<open>src/src/lib/crypto/bn.c\<close> and \<^verbatim>\<open>ec.c\<close>, the structures of
  \<^verbatim>\<open>src/src/lib/types.h\<close>, the public key packets of \<^verbatim>\<open>packet-create.c\<close> with the functions of \<^verbatim>\<open>writer.c\<close> that write
  them to memory, the fingerprints and key identifiers of \<^verbatim>\<open>fingerprint.c\<close> and the grips of \<^verbatim>\<open>rnp_key_store.c\<close>.

  Big numbers are those of the Botan library and a parameter.  The union in a key is a datatype; a function that
  finds another member than its algorithm asks for fails.
\<close>

section \<open>Big numbers\<close>

record 'n botan_mp =
  mp_init :: 'n
  mp_from_bin :: "bytes \<Rightarrow> 'n option"
  mp_to_bin :: "'n \<Rightarrow> bytes option"
  mp_num_bits :: "'n \<Rightarrow> nat option"
  mp_is_zero :: "'n \<Rightarrow> bool"

definition bn_new :: "'n botan_mp \<Rightarrow> alloc \<Rightarrow> 'n option" where
  "bn_new mp al = (if al 8 then Some (mp_init mp) else None)"

definition bn_bin2bn :: "'n botan_mp \<Rightarrow> alloc \<Rightarrow> bytes option \<Rightarrow> 'n option" where
  "bn_bin2bn mp al data =
     (case data of
        None \<Rightarrow> bn_new mp al
      | Some bs \<Rightarrow> if al 8 then mp_from_bin mp bs else None)"

definition bn_bn2bin :: "'n botan_mp \<Rightarrow> 'n \<Rightarrow> bytes option" where
  "bn_bn2bin mp a = mp_to_bin mp a"

definition bn_num_bits :: "'n botan_mp \<Rightarrow> 'n \<Rightarrow> nat option" where
  "bn_num_bits mp a = mp_num_bits mp a"

definition BITS_TO_BYTES :: "nat \<Rightarrow> nat" where
  "BITS_TO_BYTES b = (b + 7) div 8"

definition bn_num_bytes :: "'n botan_mp \<Rightarrow> 'n \<Rightarrow> nat option" where
  "bn_num_bytes mp a = map_option BITS_TO_BYTES (bn_num_bits mp a)"

definition bn_is_zero :: "'n botan_mp \<Rightarrow> 'n \<Rightarrow> bool" where
  "bn_is_zero mp n = mp_is_zero mp n"

text \<open>
  The first bytes of an array that a number was stored in with one byte before it: \<^verbatim>\<open>bnbuf\<close> and \<^verbatim>\<open>bn\<close> in the functions
  below.  The test of the highest bit reads the first byte of the number; the number zero has none.
\<close>

definition high_bit :: "bytes \<Rightarrow> bool" where
  "high_bit bs \<longleftrightarrow> bs \<noteq> [] \<and> bit (bs ! 0) 7"

definition bn_hash :: "'n botan_mp \<Rightarrow> alloc \<Rightarrow> 'n \<Rightarrow> pgp_hash \<Rightarrow> pgp_hash" where
  "bn_hash mp al bignum hash =
     (case bn_num_bytes mp bignum of
        None \<Rightarrow> hash
      | Some len \<Rightarrow>
          if 2 ^ 32 - 1 < len then hash
          else if len = 0 then fst (pgp_hash_uint32 hash 0)
          else if \<not> al (len + 1) then hash
          else
            let b = (case bn_bn2bin mp bignum of None \<Rightarrow> replicate len 0 | Some b \<Rightarrow> b);
                bn = (if high_bit b then 0 # b else b) in
            pgp_hash_add (fst (pgp_hash_uint32 hash (word_of_nat (length bn)))) bn)"

section \<open>Keys\<close>

datatype 'n pubkey_material =
    Pub_none
  | Pub_rsa 'n 'n
  | Pub_dsa 'n 'n 'n 'n
  | Pub_elgamal 'n 'n 'n
  | Pub_ecc nat 'n
  | Pub_ecdh nat 'n nat nat

datatype 'n seckey_material =
    Sec_none
  | Sec_rsa 'n 'n 'n 'n
  | Sec_dsa 'n
  | Sec_elgamal 'n
  | Sec_ecc 'n

record 'n pgp_pubkey =
  pub_version :: nat
  pub_birthtime :: nat
  pub_duration :: nat
  pub_days_valid :: nat
  pub_alg :: nat
  pub_key :: "'n pubkey_material"

record pgp_key_protection =
  kp_s2k :: pgp_s2k
  kp_symm_alg :: nat
  kp_cipher_mode :: nat
  kp_iv :: bytes

record 'n pgp_seckey =
  sec_pubkey :: "'n pgp_pubkey"
  sec_protection :: pgp_key_protection
  sec_encrypted :: bool
  sec_key :: "'n seckey_material"
  sec_checksum :: nat
  sec_checkhash :: bytes

abbreviation (input) PGP_PKA_NOTHING :: nat where "PGP_PKA_NOTHING \<equiv> 0"
abbreviation (input) PGP_PKA_RSA_SIGN_ONLY :: nat where "PGP_PKA_RSA_SIGN_ONLY \<equiv> 3"
abbreviation (input) PGP_V2 :: nat where "PGP_V2 \<equiv> 2"
abbreviation (input) PGP_V3 :: nat where "PGP_V3 \<equiv> 3"
abbreviation (input) PGP_V4 :: nat where "PGP_V4 \<equiv> 4"

definition is_rsa_alg :: "nat \<Rightarrow> bool" where
  "is_rsa_alg alg \<longleftrightarrow> alg = PGP_PKA_RSA \<or> alg = PGP_PKA_RSA_ENCRYPT_ONLY \<or> alg = PGP_PKA_RSA_SIGN_ONLY"

section \<open>Curves\<close>

text \<open>The table has for every curve its size, identifier and names; a curve is its index.\<close>

definition ec_curves :: "(nat \<times> bytes \<times> string \<times> string) list" where
  "ec_curves =
     [(0, [], '''', ''''),
      (256, [0x2A, 0x86, 0x48, 0xCE, 0x3D, 0x03, 0x01, 0x07], ''secp256r1'', ''NIST P-256''),
      (384, [0x2B, 0x81, 0x04, 0x00, 0x22], ''secp384r1'', ''NIST P-384''),
      (521, [0x2B, 0x81, 0x04, 0x00, 0x23], ''secp521r1'', ''NIST P-521''),
      (255, [0x2b, 0x06, 0x01, 0x04, 0x01, 0xda, 0x47, 0x0f, 0x01], ''Ed25519'', ''Ed25519''),
      (256, [0x2A, 0x81, 0x1C, 0xCF, 0x55, 0x01, 0x82, 0x2D], ''sm2p256v1'', ''SM2 P-256'')]"

definition PGP_CURVE_MAX :: nat where "PGP_CURVE_MAX = 6"

fun find_curve_from :: "(nat \<times> bytes \<times> string \<times> string) list \<Rightarrow> nat \<Rightarrow> bytes \<Rightarrow> nat" where
  "find_curve_from [] i oid = PGP_CURVE_MAX"
| "find_curve_from ((_, hex, _) # cs) i oid = (if oid = hex then i else find_curve_from cs (Suc i) oid)"

definition find_curve_by_OID :: "bytes \<Rightarrow> nat" where
  "find_curve_by_OID oid = find_curve_from ec_curves 0 oid"

fun find_curve_name_from :: "(nat \<times> bytes \<times> string \<times> string) list \<Rightarrow> nat \<Rightarrow> string \<Rightarrow> nat" where
  "find_curve_name_from [] i name = PGP_CURVE_MAX"
| "find_curve_name_from ((_, _, _, pgp_name) # cs) i name =
     (if pgp_name = name then i else find_curve_name_from cs (Suc i) name)"

definition find_curve_by_name :: "string \<Rightarrow> nat" where
  "find_curve_by_name name = find_curve_name_from (tl ec_curves) 1 name"

definition get_curve_desc :: "nat \<Rightarrow> (nat \<times> bytes \<times> string \<times> string) option" where
  "get_curve_desc curve_id = (if curve_id < PGP_CURVE_MAX \<and> 0 < curve_id then Some (ec_curves ! curve_id) else None)"

section \<open>Writing public keys\<close>

text \<open>
  The writer of \<^verbatim>\<open>pgp_writer_set_memory\<close>: every write is an addition to the memory.  Actions that can fail are
  chained by \<open>&&\<close>.
\<close>

type_synonym writing = "pgp_memory \<Rightarrow> pgp_memory \<times> bool"

definition and_write :: "writing \<Rightarrow> writing \<Rightarrow> writing" where
  "and_write f g mem = (case f mem of (mem1, ok) \<Rightarrow> if ok then g mem1 else (mem1, False))"

definition memory_writer :: "alloc \<Rightarrow> bytes \<Rightarrow> writing" where
  "memory_writer al src mem = pgp_memory_add al mem src"

definition pgp_write :: "alloc \<Rightarrow> bytes \<Rightarrow> writing" where
  "pgp_write al src = memory_writer al src"

text \<open>Scalars have 32 bits.\<close>

fun pgp_write_scalar :: "alloc \<Rightarrow> nat \<Rightarrow> nat \<Rightarrow> writing" where
  "pgp_write_scalar al n 0 mem = (mem, True)"
| "pgp_write_scalar al n (Suc len) mem =
     and_write (pgp_write al [to_byte (n mod 2 ^ 32 div 256 ^ len)]) (pgp_write_scalar al n len) mem"

text \<open>A number of at most 65535 bits fits the buffer of \<^verbatim>\<open>RNP_BUFSIZ\<close> bytes.\<close>

definition pgp_write_mpi :: "'n botan_mp \<Rightarrow> alloc \<Rightarrow> 'n \<Rightarrow> writing" where
  "pgp_write_mpi mp al bn mem =
     (case bn_num_bits mp bn of
        None \<Rightarrow> (mem, False)
      | Some bsz \<Rightarrow>
          if 65535 < bsz then (mem, False)
          else
            (case bn_bn2bin mp bn of
               None \<Rightarrow> (mem, False)
             | Some buf \<Rightarrow> and_write (pgp_write_scalar al bsz 2) (pgp_write al (take (BITS_TO_BYTES bsz) buf)) mem))"

definition pgp_write_ptag :: "alloc \<Rightarrow> nat \<Rightarrow> writing" where
  "pgp_write_ptag al tag = pgp_write al [to_byte tag OR PGP_PTAG_ALWAYS_SET OR PGP_PTAG_NEW_FORMAT]"

definition pgp_write_length :: "alloc \<Rightarrow> nat \<Rightarrow> writing" where
  "pgp_write_length al len =
     (if len < 192 then pgp_write al [to_byte len]
      else if len < 8192 + 192 then pgp_write al [to_byte ((len - 192) div 256 + 192), to_byte ((len - 192) mod 256)]
      else and_write (pgp_write_scalar al 0xff 1) (pgp_write_scalar al len 4))"

definition ec_serialize_pubkey :: "'n botan_mp \<Rightarrow> alloc \<Rightarrow> nat \<Rightarrow> 'n \<Rightarrow> writing" where
  "ec_serialize_pubkey mp al curve point mem =
     (case get_curve_desc curve of
        None \<Rightarrow> (mem, False)
      | Some (_, oid, _) \<Rightarrow>
          and_write (pgp_write_scalar al (length oid) 1)
            (and_write (pgp_write al oid) (pgp_write_mpi mp al point)) mem)"

definition write_material :: "'n botan_mp \<Rightarrow> alloc \<Rightarrow> 'n pgp_pubkey \<Rightarrow> writing" where
  "write_material mp al key mem =
     (let alg = pub_alg key in
      case pub_key key of
        Pub_dsa p q g y \<Rightarrow>
          if alg = PGP_PKA_DSA
          then and_write (pgp_write_mpi mp al p)
                 (and_write (pgp_write_mpi mp al q) (and_write (pgp_write_mpi mp al g) (pgp_write_mpi mp al y))) mem
          else (mem, False)
      | Pub_ecc curve point \<Rightarrow>
          if alg = PGP_PKA_ECDSA \<or> alg = PGP_PKA_EDDSA \<or> alg = PGP_PKA_SM2 then ec_serialize_pubkey mp al curve point mem
          else (mem, False)
      | Pub_rsa n e \<Rightarrow>
          if is_rsa_alg alg then and_write (pgp_write_mpi mp al n) (pgp_write_mpi mp al e) mem else (mem, False)
      | Pub_ecdh curve point hash wrap \<Rightarrow>
          if alg = PGP_PKA_ECDH
          then and_write (ec_serialize_pubkey mp al curve point)
                 (and_write (pgp_write_scalar al 3 1)
                   (and_write (pgp_write_scalar al 1 1)
                     (and_write (pgp_write_scalar al (hash mod 256) 1) (pgp_write_scalar al (wrap mod 256) 1)))) mem
          else (mem, False)
      | Pub_elgamal p g y \<Rightarrow>
          if alg = PGP_PKA_ELGAMAL
          then and_write (pgp_write_mpi mp al p) (and_write (pgp_write_mpi mp al g) (pgp_write_mpi mp al y)) mem
          else (mem, False)
      | Pub_none \<Rightarrow> (mem, False))"

definition write_pubkey_body :: "'n botan_mp \<Rightarrow> alloc \<Rightarrow> 'n pgp_pubkey \<Rightarrow> writing" where
  "write_pubkey_body mp al key =
     and_write (pgp_write_scalar al (pub_version key) 1)
       (and_write (pgp_write_scalar al (pub_birthtime key) 4)
         (and_write
           (\<lambda>mem. if pub_version key = PGP_V2 \<or> pub_version key = PGP_V3 then pgp_write_scalar al (pub_days_valid key) 2 mem
                   else (mem, pub_version key = PGP_V4))
           (and_write (pgp_write_scalar al (pub_alg key) 1) (write_material mp al key))))"

text \<open>The structure for the output has 72 bytes.\<close>

definition pgp_build_pubkey :: "'n botan_mp \<Rightarrow> alloc \<Rightarrow> pgp_memory \<Rightarrow> 'n pgp_pubkey \<Rightarrow> bool \<Rightarrow> pgp_memory \<times> bool" where
  "pgp_build_pubkey mp al out key make_packet =
     (if \<not> al 72 then (pgp_memory_release out, False)
      else
        (case write_pubkey_body mp al key (pgp_memory_init al out 128) of
           (out1, False) \<Rightarrow> (pgp_memory_release out1, False)
         | (out1, True) \<Rightarrow> (if make_packet then pgp_memory_make_packet al out1 6 else out1, True)))"

section \<open>Fingerprints\<close>

text \<open>\<^verbatim>\<open>pgp_fingerprint_t\<close>: the digest is stored at the start of the array.\<close>

record pgp_fingerprint_t =
  fp_fingerprint :: bytes
  fp_length :: nat

text \<open>
  The functions mix result codes with truth values; the callers take every value but zero for success.
\<close>

definition c_true :: "rnp_result + bool \<Rightarrow> bool" where
  "c_true r = (case r of Inl e \<Rightarrow> e \<noteq> RNP_SUCCESS | Inr b \<Rightarrow> b)"

definition store_digest :: "pgp_fingerprint_t \<Rightarrow> nat \<times> bytes \<Rightarrow> pgp_fingerprint_t" where
  "store_digest fp r = (case r of (n, digest) \<Rightarrow> \<lparr>fp_fingerprint = mem_write 0 digest (fp_fingerprint fp), fp_length = n\<rparr>)"

definition pgp_fingerprint ::
    "'n botan_mp \<Rightarrow> alloc \<Rightarrow> botan \<Rightarrow> pgp_fingerprint_t \<Rightarrow> 'n pgp_pubkey \<Rightarrow> pgp_fingerprint_t \<times> (rnp_result + bool)" where
  "pgp_fingerprint mp al bo fp key =
     (if pub_version key = 2 \<or> pub_version key = 3 then
        (if \<not> is_rsa_alg (pub_alg key) then (fp, Inl RNP_ERROR_NOT_SUPPORTED)
         else
           (case pgp_hash_create bo zero_hash PGP_HASH_MD5 of
              (hash, ok) \<Rightarrow>
                if \<not> ok then (fp, Inl RNP_ERROR_NOT_SUPPORTED)
                else
                  let hash1 = (case pub_key key of Pub_rsa n e \<Rightarrow> bn_hash mp al e (bn_hash mp al n hash) | _ \<Rightarrow> hash)
                  in (store_digest fp (snd (pgp_hash_finish bo hash1)), Inr True)))
      else if pub_version key = 4 then
        (if \<not> al 32 then (fp, Inl RNP_ERROR_OUT_OF_MEMORY)
         else
           (case pgp_build_pubkey mp al pgp_memory_new key False of
              (mem, False) \<Rightarrow> (fp, Inl RNP_ERROR_GENERIC)
            | (mem, True) \<Rightarrow>
                (case pgp_hash_create bo zero_hash PGP_HASH_SHA1 of
                   (hash, ok) \<Rightarrow>
                     if \<not> ok then (fp, Inl RNP_ERROR_NOT_SUPPORTED)
                     else
                       let len = pgp_mem_len mem;
                           hash1 = pgp_hash_add_int (pgp_hash_add_int hash 0x99 1) (word_of_nat len) 2
                       in (store_digest fp (snd (pgp_hash_finish bo (pgp_hash_add hash1 (take len (mem_data mem))))), Inr True))))
      else (fp, Inr False))"

text \<open>
  \<^verbatim>\<open>pgp_keyid\<close> with a buffer of eight bytes; the fingerprint on the stack starts as \<open>finger\<close>.  A copy from before the start of
  a buffer has no result.
\<close>

definition pgp_keyid :: "'n botan_mp \<Rightarrow> alloc \<Rightarrow> botan \<Rightarrow> pgp_fingerprint_t \<Rightarrow> nat \<Rightarrow> 'n pgp_pubkey \<Rightarrow> (bytes option) option" where
  "pgp_keyid mp al bo finger idlen key =
     (if pub_version key = 2 \<or> pub_version key = 3 then
        (if \<not> is_rsa_alg (pub_alg key) then Some None
         else
           (case pub_key key of
              Pub_rsa m e \<Rightarrow>
                (case bn_num_bytes mp m of
                   None \<Rightarrow> Some None
                 | Some n \<Rightarrow>
                     if 8192 < n then Some None
                     else if n < idlen then None
                     else Some (map_option (\<lambda>bn. drop (n - idlen) (take n bn)) (bn_bn2bin mp m)))
            | _ \<Rightarrow> Some None))
      else
        (case pgp_fingerprint mp al bo finger key of
           (fp, res) \<Rightarrow>
             if \<not> c_true res then Some None
             else if fp_length fp < idlen \<or> length (fp_fingerprint fp) < fp_length fp then None
             else Some (Some (drop (fp_length fp - idlen) (take (fp_length fp) (fp_fingerprint fp))))))"

definition hash_string :: "pgp_hash \<Rightarrow> bytes \<Rightarrow> pgp_hash" where
  "hash_string hash buf = pgp_hash_add (fst (pgp_hash_uint32 hash (word_of_nat (length buf)))) buf"

definition ssh_fingerprint ::
    "'n botan_mp \<Rightarrow> alloc \<Rightarrow> botan \<Rightarrow> pgp_fingerprint_t \<Rightarrow> 'n pgp_pubkey \<Rightarrow> pgp_fingerprint_t \<times> rnp_result" where
  "ssh_fingerprint mp al bo fp key =
     (case pgp_hash_create bo zero_hash PGP_HASH_MD5 of
        (hash, ok) \<Rightarrow>
          if \<not> ok then (fp, RNP_ERROR_NOT_SUPPORTED)
          else
            let hash1 = hash_string hash (str_bytes (if pub_alg key = PGP_PKA_RSA then ''ssh-rsa'' else ''ssh-dss'')) in
            (case (pub_key key, pub_alg key = PGP_PKA_RSA, pub_alg key = PGP_PKA_DSA) of
               (Pub_rsa n e, True, _) \<Rightarrow>
                 (store_digest fp (snd (pgp_hash_finish bo (bn_hash mp al n (bn_hash mp al e hash1)))), RNP_SUCCESS)
             | (Pub_dsa p q g y, _, True) \<Rightarrow>
                 (store_digest fp (snd (pgp_hash_finish bo
                    (bn_hash mp al y (bn_hash mp al g (bn_hash mp al q (bn_hash mp al p hash1)))))), RNP_SUCCESS)
             | _ \<Rightarrow> ((store_digest fp (snd (pgp_hash_finish bo hash1)))\<lparr>fp_length := 0\<rparr>, RNP_ERROR_NOT_SUPPORTED)))"

section \<open>Grips\<close>

text \<open>The bytes are added from the start of the array, also when there is no leading zero.\<close>

definition grip_hash_bignum :: "'n botan_mp \<Rightarrow> alloc \<Rightarrow> pgp_hash \<Rightarrow> 'n \<Rightarrow> pgp_hash option" where
  "grip_hash_bignum mp al hash bignum =
     (if bn_is_zero mp bignum then Some (pgp_hash_add hash [0])
      else
        (case bn_num_bytes mp bignum of
           None \<Rightarrow> None
         | Some len \<Rightarrow>
             if \<not> al (len + 1) then None
             else
               let b = (case bn_bn2bin mp bignum of None \<Rightarrow> replicate len 0 | Some b \<Rightarrow> b)
               in Some (pgp_hash_add hash (take (len + (if high_bit b then 1 else 0)) (0 # b)))))"

fun grip_hash_bignums :: "'n botan_mp \<Rightarrow> alloc \<Rightarrow> pgp_hash \<Rightarrow> 'n list \<Rightarrow> pgp_hash option" where
  "grip_hash_bignums mp al hash [] = Some hash"
| "grip_hash_bignums mp al hash (n # ns) =
     (case grip_hash_bignum mp al hash n of None \<Rightarrow> None | Some hash1 \<Rightarrow> grip_hash_bignums mp al hash1 ns)"

definition grip_numbers :: "'n pgp_pubkey \<Rightarrow> ('n list) option" where
  "grip_numbers key =
     (let alg = pub_alg key in
      case pub_key key of
        Pub_rsa n e \<Rightarrow> if is_rsa_alg alg then Some [n] else None
      | Pub_dsa p q g y \<Rightarrow> if alg = PGP_PKA_DSA then Some [p, q, g, y] else None
      | Pub_elgamal p g y \<Rightarrow> if alg = PGP_PKA_ELGAMAL then Some [p, g, y] else None
      | Pub_ecc curve point \<Rightarrow> if alg = PGP_PKA_ECDSA \<or> alg = PGP_PKA_EDDSA \<or> alg = PGP_PKA_SM2 then Some [point] else None
      | Pub_ecdh curve point hash wrap \<Rightarrow> if alg = PGP_PKA_ECDH then Some [point] else None
      | Pub_none \<Rightarrow> None)"

definition rnp_key_store_get_key_grip :: "'n botan_mp \<Rightarrow> alloc \<Rightarrow> botan \<Rightarrow> 'n pgp_pubkey \<Rightarrow> bytes option" where
  "rnp_key_store_get_key_grip mp al bo key =
     (case pgp_hash_create bo zero_hash PGP_HASH_SHA1 of
        (hash, ok) \<Rightarrow>
          if \<not> ok then None
          else
            (case grip_numbers key of
               None \<Rightarrow> None
             | Some ns \<Rightarrow>
                 (case grip_hash_bignums mp al hash ns of
                    None \<Rightarrow> None
                  | Some hash1 \<Rightarrow>
                      (case pgp_hash_finish bo hash1 of
                         (_, n, digest) \<Rightarrow> if n = PGP_FINGERPRINT_SIZE then Some digest else None))))"

section \<open>What is written of a key\<close>

text \<open>
  The behaviour of the library that the encodings rely on: numbers are converted to bytes without leading zeros and
  back, a leading zero does not change the number, and the count of bits belongs to the bytes.
\<close>

definition mp_ok :: "'n botan_mp \<Rightarrow> bool" where
  "mp_ok mp \<longleftrightarrow>
     (\<forall>n. \<exists>bs bits. mp_to_bin mp n = Some bs \<and> mp_from_bin mp bs = Some n \<and> mp_from_bin mp (0 # bs) = Some n \<and>
        mp_num_bits mp n = Some bits \<and> BITS_TO_BYTES bits = length bs \<and>
        (bs \<noteq> [] \<longrightarrow> bits = 8 * (length bs - 1) + significant_bits (unat (bs ! 0)) \<and> bs ! 0 \<noteq> 0))"

definition mp_bytes :: "'n botan_mp \<Rightarrow> 'n \<Rightarrow> bytes" where
  "mp_bytes mp n = the (mp_to_bin mp n)"

definition mp_bits :: "'n botan_mp \<Rightarrow> 'n \<Rightarrow> nat" where
  "mp_bits mp n = the (mp_num_bits mp n)"

lemma mp_okD:
  assumes "mp_ok mp"
  shows "bn_bn2bin mp n = Some (mp_bytes mp n)" "bn_num_bits mp n = Some (mp_bits mp n)" "bn_num_bytes mp n = Some (length (mp_bytes mp n))"
    "BITS_TO_BYTES (mp_bits mp n) = length (mp_bytes mp n)"
    "bn_bin2bn mp (\<lambda>_. True) (Some (mp_bytes mp n)) = Some n" "bn_bin2bn mp (\<lambda>_. True) (Some (0 # mp_bytes mp n)) = Some n"
  using assms unfolding mp_ok_def
  by (metis (no_types, lifting) bn_bn2bin_def mp_bytes_def option.sel, metis (no_types, lifting) bn_num_bits_def mp_bits_def option.sel,
      metis (no_types, lifting) bn_num_bytes_def bn_num_bits_def mp_bytes_def option.sel option.simps(9),
      metis (no_types, lifting) mp_bytes_def mp_bits_def option.sel, (simp add: bn_bin2bn_def, metis mp_bytes_def option.sel)+)

text \<open>An action that appends \<open>bs\<close> to the memory if there is room.\<close>

definition writes :: "writing \<Rightarrow> bytes \<Rightarrow> bool" where
  "writes f bs \<longleftrightarrow>
     (\<forall>B mem. buf_ok B mem \<longrightarrow> 3 * (m_length mem + length bs) + 2 * B < 2 ^ 64 \<longrightarrow>
        (\<exists>mem'. f mem = (mem', True) \<and> buf_ok B mem' \<and> mem_contents mem' = mem_contents mem @ bs))"

lemma writesD:
  assumes "writes f bs" "buf_ok B mem" "3 * (m_length mem + length bs) + 2 * B < 2 ^ 64"
  obtains mem' where "f mem = (mem', True)" "buf_ok B mem'" "mem_contents mem' = mem_contents mem @ bs" "m_length mem' = m_length mem + length bs"
proof -
  obtain mem' where m: "f mem = (mem', True)" "buf_ok B mem'" "mem_contents mem' = mem_contents mem @ bs"
    using assms unfolding writes_def by blast
  then have "m_length mem' = m_length mem + length bs"
    using length_mem_contents [OF m(2)] length_mem_contents [OF assms(2)] by simp
  with m that show thesis by blast
qed

lemma writes_and [intro]:
  assumes "writes f xs" "writes g ys"
  shows "writes (and_write f g) (xs @ ys)"
  unfolding writes_def
proof (intro allI impI)
  fix B mem assume ok: "buf_ok B mem" and n: "3 * (m_length mem + length (xs @ ys)) + 2 * B < 2 ^ 64"
  obtain mem1 where 1: "f mem = (mem1, True)" "buf_ok B mem1" "mem_contents mem1 = mem_contents mem @ xs"
      "m_length mem1 = m_length mem + length xs"
    by (rule writesD [OF assms(1) ok]) (use n in simp_all)
  obtain mem2 where 2: "g mem1 = (mem2, True)" "buf_ok B mem2" "mem_contents mem2 = mem_contents mem1 @ ys"
    by (rule writesD [OF assms(2) 1(2)]) (use n 1(4) in simp_all)
  show "\<exists>mem'. and_write f g mem = (mem', True) \<and> buf_ok B mem' \<and> mem_contents mem' = mem_contents mem @ xs @ ys"
    using 1 2 by (intro exI [of _ mem2]) (simp add: and_write_def)
qed

lemma writes_write [intro]: "writes (pgp_write (\<lambda>_. True) bs) bs"
  unfolding writes_def pgp_write_def memory_writer_def
proof (intro allI impI)
  fix B mem assume "buf_ok B mem" "3 * (m_length mem + length bs) + 2 * B < 2 ^ 64"
  then show "\<exists>mem'. pgp_memory_add (\<lambda>_. True) mem bs = (mem', True) \<and> buf_ok B mem' \<and> mem_contents mem' = mem_contents mem @ bs"
    by (rule add_ok) blast
qed

definition scalar_enc :: "nat \<Rightarrow> nat \<Rightarrow> bytes" where
  "scalar_enc n len = map (\<lambda>i. to_byte (n mod 2 ^ 32 div 256 ^ i)) (rev [0..<len])"

lemma length_scalar_enc [simp]: "length (scalar_enc n len) = len" by (simp add: scalar_enc_def)

lemma writes_scalar [intro]: "writes (pgp_write_scalar (\<lambda>_. True) n len) (scalar_enc n len)"
proof (induction len)
  case 0
  then show ?case by (simp add: writes_def scalar_enc_def)
next
  case (Suc len)
  have "writes (and_write (pgp_write (\<lambda>_. True) [to_byte (n mod 2 ^ 32 div 256 ^ len)]) (pgp_write_scalar (\<lambda>_. True) n len))
      ([to_byte (n mod 2 ^ 32 div 256 ^ len)] @ scalar_enc n len)"
    by (rule writes_and [OF writes_write Suc])
  then show ?case by (simp add: writes_def scalar_enc_def)
qed

definition bn_enc :: "'n botan_mp \<Rightarrow> 'n \<Rightarrow> bytes" where
  "bn_enc mp n = scalar_enc (mp_bits mp n) 2 @ mp_bytes mp n"

lemma writes_mpi:
  assumes "mp_ok mp" "mp_bits mp n \<le> 65535"
  shows "writes (pgp_write_mpi mp (\<lambda>_. True) n) (bn_enc mp n)"
proof -
  have "pgp_write_mpi mp (\<lambda>_. True) n = and_write (pgp_write_scalar (\<lambda>_. True) (mp_bits mp n) 2) (pgp_write (\<lambda>_. True) (mp_bytes mp n))"
    using assms(2) by (simp add: fun_eq_iff pgp_write_mpi_def mp_okD [OF assms(1)])
  then show ?thesis unfolding bn_enc_def by (simp add: writes_and writes_scalar writes_write)
qed

definition ec_enc :: "'n botan_mp \<Rightarrow> nat \<Rightarrow> 'n \<Rightarrow> bytes" where
  "ec_enc mp curve point = (case ec_curves ! curve of (_, oid, _) \<Rightarrow> scalar_enc (length oid) 1 @ oid @ bn_enc mp point)"

lemma writes_ec:
  assumes "mp_ok mp" "mp_bits mp point \<le> 65535" "0 < curve" "curve < PGP_CURVE_MAX"
  shows "writes (ec_serialize_pubkey mp (\<lambda>_. True) curve point) (ec_enc mp curve point)"
proof -
  obtain b oid nm where c: "ec_curves ! curve = (b, oid, nm)" by (cases "ec_curves ! curve")
  have "ec_serialize_pubkey mp (\<lambda>_. True) curve point =
      and_write (pgp_write_scalar (\<lambda>_. True) (length oid) 1) (and_write (pgp_write (\<lambda>_. True) oid) (pgp_write_mpi mp (\<lambda>_. True) point))"
    using assms(3,4) c by (simp add: fun_eq_iff ec_serialize_pubkey_def get_curve_desc_def)
  then show ?thesis unfolding ec_enc_def c using writes_mpi [OF assms(1,2)] by (simp add: writes_and writes_scalar writes_write)
qed

text \<open>Keys whose material belongs to the algorithm and whose fields fit the packet, and their body.\<close>

definition pub_material_enc :: "'n botan_mp \<Rightarrow> 'n pubkey_material \<Rightarrow> bytes" where
  "pub_material_enc mp m =
     (case m of
        Pub_rsa n e \<Rightarrow> bn_enc mp n @ bn_enc mp e
      | Pub_dsa p q g y \<Rightarrow> bn_enc mp p @ bn_enc mp q @ bn_enc mp g @ bn_enc mp y
      | Pub_elgamal p g y \<Rightarrow> bn_enc mp p @ bn_enc mp g @ bn_enc mp y
      | Pub_ecc curve point \<Rightarrow> ec_enc mp curve point
      | Pub_ecdh curve point hash wrap \<Rightarrow>
          ec_enc mp curve point @ scalar_enc 3 1 @ scalar_enc 1 1 @ scalar_enc (hash mod 256) 1 @ scalar_enc (wrap mod 256) 1
      | Pub_none \<Rightarrow> [])"

definition material_numbers :: "'n pubkey_material \<Rightarrow> 'n list" where
  "material_numbers m =
     (case m of
        Pub_rsa n e \<Rightarrow> [n, e]
      | Pub_dsa p q g y \<Rightarrow> [p, q, g, y]
      | Pub_elgamal p g y \<Rightarrow> [p, g, y]
      | Pub_ecc curve point \<Rightarrow> [point]
      | Pub_ecdh curve point hash wrap \<Rightarrow> [point]
      | Pub_none \<Rightarrow> [])"

definition pub_material_wf :: "nat \<Rightarrow> 'n pubkey_material \<Rightarrow> bool" where
  "pub_material_wf alg m =
     (case m of
        Pub_rsa n e \<Rightarrow> is_rsa_alg alg
      | Pub_dsa p q g y \<Rightarrow> alg = PGP_PKA_DSA
      | Pub_elgamal p g y \<Rightarrow> alg = PGP_PKA_ELGAMAL
      | Pub_ecc curve point \<Rightarrow> (alg = PGP_PKA_ECDSA \<or> alg = PGP_PKA_EDDSA \<or> alg = PGP_PKA_SM2) \<and> 0 < curve \<and> curve < PGP_CURVE_MAX
      | Pub_ecdh curve point hash wrap \<Rightarrow> alg = PGP_PKA_ECDH \<and> 0 < curve \<and> curve < PGP_CURVE_MAX \<and> hash < 256 \<and> wrap < 256
      | Pub_none \<Rightarrow> False)"

definition pubkey_wf :: "'n botan_mp \<Rightarrow> 'n pgp_pubkey \<Rightarrow> bool" where
  "pubkey_wf mp key \<longleftrightarrow>
     pub_version key \<in> {PGP_V2, PGP_V3, PGP_V4} \<and> pub_birthtime key < 2 ^ 32 \<and> pub_days_valid key < 2 ^ 16 \<and>
     (pub_version key = PGP_V4 \<longrightarrow> pub_days_valid key = 0) \<and>
     pub_material_wf (pub_alg key) (pub_key key) \<and>
     (\<forall>n \<in> set (material_numbers (pub_key key)). 0 < mp_bits mp n \<and> mp_bits mp n \<le> 65535)"

definition pubkey_enc :: "'n botan_mp \<Rightarrow> 'n pgp_pubkey \<Rightarrow> bytes" where
  "pubkey_enc mp key =
     scalar_enc (pub_version key) 1 @ scalar_enc (pub_birthtime key) 4 @
     (if pub_version key = PGP_V4 then [] else scalar_enc (pub_days_valid key) 2) @
     scalar_enc (pub_alg key) 1 @ pub_material_enc mp (pub_key key)"

lemma writes_material:
  assumes "mp_ok mp" "pubkey_wf mp key"
  shows "writes (write_material mp (\<lambda>_. True) key) (pub_material_enc mp (pub_key key))"
proof -
  have w: "writes (pgp_write_mpi mp (\<lambda>_. True) n) (bn_enc mp n)" if "n \<in> set (material_numbers (pub_key key))" for n
    using assms(2) that by (intro writes_mpi [OF assms(1)]) (simp add: pubkey_wf_def)
  have m: "pub_material_wf (pub_alg key) (pub_key key)" using assms(2) by (simp add: pubkey_wf_def)
  have ec: "writes (ec_serialize_pubkey mp (\<lambda>_. True) curve point) (ec_enc mp curve point)"
    if "point \<in> set (material_numbers (pub_key key))" "0 < curve" "curve < PGP_CURVE_MAX" for curve point
    using assms(2) that by (intro writes_ec [OF assms(1)]) (simp_all add: pubkey_wf_def)
  show ?thesis
  proof (cases "pub_key key")
    case (Pub_rsa n e)
    then have "write_material mp (\<lambda>_. True) key = and_write (pgp_write_mpi mp (\<lambda>_. True) n) (pgp_write_mpi mp (\<lambda>_. True) e)"
      using m by (simp add: fun_eq_iff write_material_def pub_material_wf_def)
    then show ?thesis using w Pub_rsa by (simp add: pub_material_enc_def material_numbers_def writes_and)
  next
    case (Pub_dsa a b c d)
    then have "write_material mp (\<lambda>_. True) key = and_write (pgp_write_mpi mp (\<lambda>_. True) a) (and_write (pgp_write_mpi mp (\<lambda>_. True) b)
        (and_write (pgp_write_mpi mp (\<lambda>_. True) c) (pgp_write_mpi mp (\<lambda>_. True) d)))"
      using m by (simp add: fun_eq_iff write_material_def pub_material_wf_def)
    then show ?thesis using w Pub_dsa by (simp add: pub_material_enc_def material_numbers_def writes_and)
  next
    case (Pub_elgamal a b c)
    then have "write_material mp (\<lambda>_. True) key = and_write (pgp_write_mpi mp (\<lambda>_. True) a) (and_write (pgp_write_mpi mp (\<lambda>_. True) b)
        (pgp_write_mpi mp (\<lambda>_. True) c))"
      using m by (simp add: fun_eq_iff write_material_def pub_material_wf_def)
    then show ?thesis using w Pub_elgamal by (simp add: pub_material_enc_def material_numbers_def writes_and)
  next
    case (Pub_ecc curve point)
    then have "write_material mp (\<lambda>_. True) key = ec_serialize_pubkey mp (\<lambda>_. True) curve point" "0 < curve" "curve < PGP_CURVE_MAX"
      using m by (auto simp: fun_eq_iff write_material_def pub_material_wf_def Let_def)
    then show ?thesis using ec Pub_ecc by (simp add: pub_material_enc_def material_numbers_def)
  next
    case (Pub_ecdh curve point hash wrap)
    then have "write_material mp (\<lambda>_. True) key = and_write (ec_serialize_pubkey mp (\<lambda>_. True) curve point)
        (and_write (pgp_write_scalar (\<lambda>_. True) 3 1) (and_write (pgp_write_scalar (\<lambda>_. True) 1 1)
          (and_write (pgp_write_scalar (\<lambda>_. True) (hash mod 256) 1) (pgp_write_scalar (\<lambda>_. True) (wrap mod 256) 1))))"
      "0 < curve" "curve < PGP_CURVE_MAX"
      using m by (auto simp: fun_eq_iff write_material_def pub_material_wf_def Let_def)
    then show ?thesis using ec Pub_ecdh by (simp add: pub_material_enc_def material_numbers_def writes_and writes_scalar del: pgp_write_scalar.simps)
  next
    case Pub_none
    then show ?thesis using m by (simp add: pub_material_wf_def)
  qed
qed

lemma writes_pubkey_body:
  assumes "mp_ok mp" "pubkey_wf mp key"
  shows "writes (write_pubkey_body mp (\<lambda>_. True) key) (pubkey_enc mp key)"
proof -
  let ?days = "\<lambda>mem. if pub_version key = PGP_V2 \<or> pub_version key = PGP_V3 then pgp_write_scalar (\<lambda>_. True) (pub_days_valid key) 2 mem
                   else (mem, pub_version key = PGP_V4)"
  have days: "writes ?days (if pub_version key = PGP_V4 then [] else scalar_enc (pub_days_valid key) 2)"
  proof (cases "pub_version key = PGP_V4")
    case True
    then show ?thesis by (simp add: writes_def)
  next
    case False
    then have "?days = pgp_write_scalar (\<lambda>_. True) (pub_days_valid key) 2"
      using assms(2) by (auto simp: fun_eq_iff pubkey_wf_def)
    then show ?thesis using False by (simp add: writes_scalar del: pgp_write_scalar.simps)
  qed
  show ?thesis unfolding write_pubkey_body_def pubkey_enc_def
    by (intro writes_and writes_scalar days writes_material [OF assms])
qed

end
