(* ===== verification/G10_Keys.thy ===== *)
theory G10_Keys
  imports S_Expressions Key_Data Encrypted_Streams
begin

text \<open>
  Secret keys in G10 files, the rest of \<^verbatim>\<open>src/src/librekey/key_store_g10.c\<close>: the key material as S-expressions, and the
  protection by a password.

  What is outside of the source is a record of parameters: the big numbers, hash objects, key derivation and ciphers of
  the Botan library, and the bytes that are on the stack where a function leaves an array uninitialised.  A result
  \<^const>\<open>None\<close> is an access outside of memory, \<open>Some None\<close> a failure.
\<close>

section \<open>Parameters and formats\<close>

record 'n g10_env =
  ge_alloc :: alloc
  ge_mp :: "'n botan_mp"
  ge_botan :: botan
  ge_pbkdf :: pbkdf
  ge_cipher :: "string \<Rightarrow> bool \<Rightarrow> bytes \<Rightarrow> bytes \<Rightarrow> bytes \<Rightarrow> bytes option"
  ge_stack :: bytes
  ge_stack_at :: bytes

text \<open>The sequence of a step that may fail and the next one.\<close>

definition and_then :: "('a option) option \<Rightarrow> ('a \<Rightarrow> ('b option) option) \<Rightarrow> ('b option) option" where
  "and_then r f = (case r of None \<Rightarrow> None | Some None \<Rightarrow> Some None | Some (Some a) \<Rightarrow> f a)"

lemma and_then_simps [simp]: "and_then None f = None" "and_then (Some None) f = Some None" "and_then (Some (Some a)) f = f a"
  by (simp_all add: and_then_def)

record format_info =
  fi_cipher :: nat
  fi_cipher_mode :: nat
  fi_hash_alg :: nat
  fi_botan_cipher_name :: string
  fi_block_size :: nat
  fi_g10_type :: string
  fi_iv_size :: nat

abbreviation (input) PGP_CIPHER_MODE_CBC :: nat where "PGP_CIPHER_MODE_CBC \<equiv> 2"
abbreviation (input) PGP_CIPHER_MODE_OCB :: nat where "PGP_CIPHER_MODE_OCB \<equiv> 3"
abbreviation (input) PGP_S2KU_NONE :: nat where "PGP_S2KU_NONE \<equiv> 0"

definition G10_CBC_IV_SIZE :: nat where "G10_CBC_IV_SIZE = 16"
definition G10_OCB_NONCE_SIZE :: nat where "G10_OCB_NONCE_SIZE = 12"
definition G10_SHA1_HASH_SIZE :: nat where "G10_SHA1_HASH_SIZE = 20"
definition G10_PROTECTED_AT_SIZE :: nat where "G10_PROTECTED_AT_SIZE = 15"
definition RNP_BUFSIZ :: nat where "RNP_BUFSIZ = 8192"

definition formats :: "format_info list" where
  "formats =
     [\<lparr>fi_cipher = PGP_SA_AES_128, fi_cipher_mode = PGP_CIPHER_MODE_CBC, fi_hash_alg = PGP_HASH_SHA1,
       fi_botan_cipher_name = ''AES-128/CBC/NoPadding'', fi_block_size = 16, fi_g10_type = ''openpgp-s2k3-sha1-aes-cbc'',
       fi_iv_size = G10_CBC_IV_SIZE\<rparr>,
      \<lparr>fi_cipher = PGP_SA_AES_256, fi_cipher_mode = PGP_CIPHER_MODE_CBC, fi_hash_alg = PGP_HASH_SHA1,
       fi_botan_cipher_name = ''AES-256/CBC/NoPadding'', fi_block_size = 16, fi_g10_type = ''openpgp-s2k3-sha1-aes256-cbc'',
       fi_iv_size = G10_CBC_IV_SIZE\<rparr>,
      \<lparr>fi_cipher = PGP_SA_AES_128, fi_cipher_mode = PGP_CIPHER_MODE_OCB, fi_hash_alg = PGP_HASH_SHA1,
       fi_botan_cipher_name = ''AES-128/OCB/NoPadding'', fi_block_size = 16, fi_g10_type = ''openpgp-s2k3-ocb-aes'',
       fi_iv_size = G10_OCB_NONCE_SIZE\<rparr>]"

definition find_format :: "nat \<Rightarrow> nat \<Rightarrow> nat \<Rightarrow> format_info option" where
  "find_format cipher mode hash_alg =
     find (\<lambda>f. fi_cipher f = cipher \<and> fi_cipher_mode f = mode \<and> fi_hash_alg f = hash_alg) formats"

definition parse_format :: "bytes \<Rightarrow> format_info option" where
  "parse_format format = find (\<lambda>f. str_bytes (fi_g10_type f) = format) formats"

section \<open>Numbers\<close>

text \<open>\<^const>\<open>lookup_variable\<close> finds only lists of two elements or more.\<close>

definition read_bignum :: "'n g10_env \<Rightarrow> s_exp \<Rightarrow> string \<Rightarrow> 'n option" where
  "read_bignum env s_exp name =
     (case lookup_variable s_exp name of
        Some (_ # Block bs # _) \<Rightarrow> bn_bin2bn (ge_mp env) (ge_alloc env) (Some bs)
      | _ \<Rightarrow> None)"

text \<open>
  A number that does not fit the buffer, which would be written behind its end, is a failure here.
\<close>

definition write_bignum :: "'n g10_env \<Rightarrow> s_exp \<Rightarrow> string \<Rightarrow> 'n \<Rightarrow> s_exp option" where
  "write_bignum env s_exp name bn =
     (case bn_bn2bin (ge_mp env) bn of
        None \<Rightarrow> None
      | Some b \<Rightarrow>
          if RNP_BUFSIZ \<le> length b then None
          else
            do {
              sub \<leftarrow> add_string_block_to_sexp (ge_alloc env) [] name;
              sz \<leftarrow> bn_num_bytes (ge_mp env) bn;
              sub1 \<leftarrow> add_block_to_sexp (ge_alloc env) sub (if high_bit b then take (sz + 1) (0 # b) else take sz b);
              Some (add_sub_sexp_to_sexp s_exp sub1)
            })"

section \<open>Key material\<close>

definition parse_pubkey :: "'n g10_env \<Rightarrow> 'n pgp_pubkey \<Rightarrow> s_exp \<Rightarrow> nat \<Rightarrow> 'n pgp_pubkey option" where
  "parse_pubkey env pubkey s_exp alg =
     (let pub = pubkey\<lparr>pub_version := PGP_V4, pub_alg := alg\<rparr> in
      if alg = PGP_PKA_DSA then
        do {
          p \<leftarrow> read_bignum env s_exp ''p'';
          q \<leftarrow> read_bignum env s_exp ''q'';
          g \<leftarrow> read_bignum env s_exp ''g'';
          y \<leftarrow> read_bignum env s_exp ''y'';
          Some (pub\<lparr>pub_key := Pub_dsa p q g y\<rparr>)
        }
      else if alg = PGP_PKA_RSA then
        do {
          n \<leftarrow> read_bignum env s_exp ''n'';
          e \<leftarrow> read_bignum env s_exp ''e'';
          Some (pub\<lparr>pub_key := Pub_rsa n e\<rparr>)
        }
      else if alg = PGP_PKA_ELGAMAL then
        do {
          p \<leftarrow> read_bignum env s_exp ''p'';
          g \<leftarrow> read_bignum env s_exp ''g'';
          y \<leftarrow> read_bignum env s_exp ''y'';
          Some (pub\<lparr>pub_key := Pub_elgamal p g y\<rparr>)
        }
      else None)"

definition parse_seckey :: "'n g10_env \<Rightarrow> 'n pgp_seckey \<Rightarrow> s_exp \<Rightarrow> nat \<Rightarrow> 'n pgp_seckey option" where
  "parse_seckey env seckey s_exp alg =
     (if alg = PGP_PKA_DSA then
        do {
          x \<leftarrow> read_bignum env s_exp ''x'';
          Some (seckey\<lparr>sec_key := Sec_dsa x\<rparr>)
        }
      else if alg = PGP_PKA_RSA then
        do {
          d \<leftarrow> read_bignum env s_exp ''d'';
          p \<leftarrow> read_bignum env s_exp ''p'';
          q \<leftarrow> read_bignum env s_exp ''q'';
          u \<leftarrow> read_bignum env s_exp ''u'';
          Some (seckey\<lparr>sec_key := Sec_rsa d p q u\<rparr>)
        }
      else if alg = PGP_PKA_ELGAMAL then
        do {
          x \<leftarrow> read_bignum env s_exp ''x'';
          Some (seckey\<lparr>sec_key := Sec_elgamal x\<rparr>)
        }
      else None)"

text \<open>In both functions the case of ElGamal runs into the default case, which returns false.\<close>

definition write_pubkey :: "'n g10_env \<Rightarrow> s_exp \<Rightarrow> 'n pgp_pubkey \<Rightarrow> s_exp option" where
  "write_pubkey env s_exp key =
     (let al = ge_alloc env; alg = pub_alg key in
      case pub_key key of
        Pub_dsa p q g y \<Rightarrow>
          if alg = PGP_PKA_DSA then
            do {
              s \<leftarrow> add_string_block_to_sexp al s_exp ''dsa'';
              s \<leftarrow> write_bignum env s ''p'' p;
              s \<leftarrow> write_bignum env s ''q'' q;
              s \<leftarrow> write_bignum env s ''g'' g;
              write_bignum env s ''y'' y
            }
          else None
      | Pub_rsa n e \<Rightarrow>
          if is_rsa_alg alg then
            do {
              s \<leftarrow> add_string_block_to_sexp al s_exp ''rsa'';
              s \<leftarrow> write_bignum env s ''n'' n;
              write_bignum env s ''e'' e
            }
          else None
      | Pub_elgamal p g y \<Rightarrow>
          if alg = PGP_PKA_ELGAMAL then
            do {
              s \<leftarrow> add_string_block_to_sexp al s_exp ''elg'';
              s \<leftarrow> write_bignum env s ''p'' p;
              s \<leftarrow> write_bignum env s ''g'' g;
              s \<leftarrow> write_bignum env s ''y'' y;
              None
            }
          else None
      | _ \<Rightarrow> None)"

definition write_seckey :: "'n g10_env \<Rightarrow> s_exp \<Rightarrow> 'n pgp_seckey \<Rightarrow> s_exp option" where
  "write_seckey env s_exp key =
     (let alg = pub_alg (sec_pubkey key) in
      case sec_key key of
        Sec_dsa x \<Rightarrow> if alg = PGP_PKA_DSA then write_bignum env s_exp ''x'' x else None
      | Sec_rsa d p q u \<Rightarrow>
          if is_rsa_alg alg then
            do {
              s \<leftarrow> write_bignum env s_exp ''d'' d;
              s \<leftarrow> write_bignum env s ''p'' p;
              s \<leftarrow> write_bignum env s ''q'' q;
              write_bignum env s ''u'' u
            }
          else None
      | Sec_elgamal x \<Rightarrow>
          if alg = PGP_PKA_ELGAMAL then do { s \<leftarrow> write_bignum env s_exp ''x'' x; None } else None
      | _ \<Rightarrow> None)"

section \<open>Protection\<close>

text \<open>The hash of the key and the time of its protection, which are the first bytes of \<open>protected_at\<close>.\<close>

definition g10_calculated_hash :: "'n g10_env \<Rightarrow> 'n pgp_seckey \<Rightarrow> bytes \<Rightarrow> bytes option" where
  "g10_calculated_hash env key protected_at =
     (case pgp_hash_create (ge_botan env) zero_hash PGP_HASH_SHA1 of
        (hash, ok) \<Rightarrow>
          if \<not> ok \<or> h_output_len hash \<noteq> G10_SHA1_HASH_SIZE then None
          else
            do {
              s \<leftarrow> write_pubkey env [] (sec_pubkey key);
              s \<leftarrow> write_seckey env s key;
              sub \<leftarrow> add_string_block_to_sexp (ge_alloc env) [] ''protected-at'';
              sub \<leftarrow> add_block_to_sexp (ge_alloc env) sub (take G10_PROTECTED_AT_SIZE protected_at);
              (case write_sexp (ge_alloc env) (add_sub_sexp_to_sexp s sub) pgp_memory_new of
                 (mem, False) \<Rightarrow> None
               | (mem, True) \<Rightarrow>
                   (case pgp_hash_finish (ge_botan env) (pgp_hash_add hash (mem_contents mem)) of
                      (_, n, digest) \<Rightarrow> if n = 0 then None else Some digest))
            })"

definition decrypt_protected_section ::
    "'n g10_env \<Rightarrow> bytes \<Rightarrow> 'n pgp_seckey \<Rightarrow> string \<Rightarrow> (s_exp option) option" where
  "decrypt_protected_section env encrypted seckey password =
     (let prot = sec_protection seckey; s2k = kp_s2k prot; keysize = pgp_key_size (kp_symm_alg prot) in
      if keysize = 0 then Some None
      else
        (case find_format (kp_symm_alg prot) (kp_cipher_mode prot) (s2k_hash_alg s2k) of
           None \<Rightarrow> Some None
         | Some info \<Rightarrow>
             (case pgp_s2k_iterated (ge_pbkdf env) (s2k_hash_alg s2k) keysize password (Some (s2k_salt s2k)) (s2k_iterations s2k) of
                None \<Rightarrow> Some None
              | Some derived_key \<Rightarrow>
                  if \<not> ge_alloc env (length encrypted) then Some None
                  else
                    (case ge_cipher env (fi_botan_cipher_name info) True derived_key (take (fi_iv_size info) (kp_iv prot)) encrypted of
                       None \<Rightarrow> Some None
                     | Some decrypted \<Rightarrow>
                         and_then (parse_sexp (ge_alloc env) decrypted (length decrypted))
                           (\<lambda>(s_exp, _, _).
                              if s_exp = [] \<or> is_block (s_exp ! 0) then Some None else Some (Some s_exp))))))"

text \<open>The checks of the decrypted expression: the key, and the hash where there is one.\<close>

definition parse_decrypted :: "'n g10_env \<Rightarrow> 'n pgp_seckey \<Rightarrow> s_exp \<Rightarrow> bytes \<Rightarrow> 'n pgp_seckey option" where
  "parse_decrypted env seckey decrypted protected_at =
     (case decrypted of
        Sub key # rest \<Rightarrow>
          do {
            seckey1 \<leftarrow> parse_seckey env seckey key (pub_alg (sec_pubkey seckey));
            (case rest of
               [] \<Rightarrow> Some (seckey1\<lparr>sec_encrypted := False\<rparr>)
             | Sub (Block name # Block alg # Block digest # _) # _ \<Rightarrow>
                 if \<not> strncmp_eq (str_bytes ''hash'') name (length name) then None
                 else if \<not> strncmp_eq (str_bytes ''sha1'') alg (length alg) then None
                 else
                   do {
                     checkhash \<leftarrow> g10_calculated_hash env seckey1 protected_at;
                     (if length digest \<noteq> G10_SHA1_HASH_SIZE \<or> take G10_SHA1_HASH_SIZE checkhash \<noteq> digest then None
                      else Some (seckey1\<lparr>sec_checkhash := checkhash, sec_encrypted := False\<rparr>))
                   }
             | _ \<Rightarrow> None)
          }
      | _ \<Rightarrow> None)"

definition parse_protected_seckey ::
    "'n g10_env \<Rightarrow> 'n pgp_seckey \<Rightarrow> s_exp \<Rightarrow> string option \<Rightarrow> ('n pgp_seckey option) option" where
  "parse_protected_seckey env seckey s_exp password =
     (case lookup_variable s_exp ''protected'' of
        Some [_, Block mode, Sub params, Block encrypted] \<Rightarrow>
          (case parse_format mode of
             None \<Rightarrow> Some None
           | Some format \<Rightarrow>
               (case params of
                  [Sub [Block hash, Block salt, Block count], Block iv] \<Rightarrow>
                    if \<not> strncmp_eq (str_bytes ''sha1'') hash (length hash) then Some None
                    else if length salt \<noteq> PGP_SALT_SIZE then Some None
                    else
                      (case block_to_unsigned (ge_stack env) count of
                         None \<Rightarrow> None
                       | Some iterations \<Rightarrow>
                           if iterations = UINT_MAX then Some None
                           else if length iv \<noteq> fi_iv_size format then Some None
                           else
                             let prot = sec_protection seckey;
                                 seckey1 = seckey\<lparr>sec_protection :=
                                   \<lparr>kp_s2k = \<lparr>s2k_usage = PGP_S2KU_ENCRYPTED_AND_HASHED,
                                             s2k_specifier = PGP_S2KS_ITERATED_AND_SALTED, s2k_hash_alg = PGP_HASH_SHA1,
                                             s2k_salt = salt, s2k_iterations = iterations\<rparr>,
                                    kp_symm_alg = fi_cipher format, kp_cipher_mode = fi_cipher_mode format,
                                    kp_iv = mem_write 0 iv (kp_iv prot)\<rparr>\<rparr> in
                             (case password of
                                None \<Rightarrow> Some (Some (seckey1\<lparr>sec_encrypted := True\<rparr>))
                              | Some pw \<Rightarrow>
                                  and_then (decrypt_protected_section env encrypted seckey1 pw)
                                    (\<lambda>decrypted.
                                       (case lookup_variable s_exp ''protected-at'' of
                                          Some (_ # Block pa # _) \<Rightarrow>
                                            if length pa \<noteq> G10_PROTECTED_AT_SIZE then Some None
                                            else Some (parse_decrypted env seckey1 decrypted pa)
                                        | _ \<Rightarrow> Some (parse_decrypted env seckey1 decrypted (ge_stack_at env))))))
                | _ \<Rightarrow> Some None))
      | _ \<Rightarrow> Some None)"

section \<open>Whole keys\<close>

text \<open>
  The names are compared with \<^verbatim>\<open>strncmp\<close> up to the length of the block.  \<open>pubring\<close> gives the public key of a key ring that has
  the grip of the key; the outer result is that of computing the grip.
\<close>

definition g10_pubkey_alg :: "bytes \<Rightarrow> nat option" where
  "g10_pubkey_alg name =
     (let is = (\<lambda>s. strncmp_eq (str_bytes s) name (length name)) in
      if is ''rsa'' \<or> is ''openpgp-rsa'' \<or> is ''oid.1.2.840.113549.1.1.1'' then Some PGP_PKA_RSA
      else if is ''elg'' \<or> is ''elgamal'' \<or> is ''openpgp-elg'' \<or> is ''openpgp-elg-sig'' then Some PGP_PKA_ELGAMAL
      else if is ''dsa'' \<or> is ''openpgp-dsa'' then Some PGP_PKA_DSA
      else None)"

definition merge_pubring :: "('n pgp_pubkey \<Rightarrow> ('n pgp_pubkey option) option) option \<Rightarrow> 'n pgp_pubkey \<Rightarrow> 'n pgp_pubkey option" where
  "merge_pubring pubring pub =
     (case pubring of
        None \<Rightarrow> Some pub
      | Some find_grip \<Rightarrow>
          (case find_grip pub of
             None \<Rightarrow> None
           | Some None \<Rightarrow> Some pub
           | Some (Some ring) \<Rightarrow> Some (ring\<lparr>pub_key := pub_key pub\<rparr>)))"

definition g10_parse_seckey ::
    "'n g10_env \<Rightarrow> 'n pgp_seckey \<Rightarrow> bytes \<Rightarrow> ('n pgp_pubkey \<Rightarrow> ('n pgp_pubkey option) option) option \<Rightarrow> string option \<Rightarrow>
     ('n pgp_seckey option) option" where
  "g10_parse_seckey env seckey data pubring password =
     and_then (parse_sexp (ge_alloc env) data (length data))
       (\<lambda>(s_exp, _, _).
          case s_exp of
            [Block type, Sub algorithm] \<Rightarrow>
              let private = strncmp_eq (str_bytes ''private-key'') type (length type);
                  protect = strncmp_eq (str_bytes ''protected-private-key'') type (length type) in
              if \<not> private \<and> \<not> protect then Some None
              else
                (case algorithm of
                   Block name # _ # _ \<Rightarrow>
                     (case g10_pubkey_alg name of
                        None \<Rightarrow> Some None
                      | Some alg \<Rightarrow>
                          (case parse_pubkey env (sec_pubkey seckey) algorithm alg of
                             None \<Rightarrow> Some None
                           | Some pub \<Rightarrow>
                               (case merge_pubring pubring pub of
                                  None \<Rightarrow> Some None
                                | Some pub1 \<Rightarrow>
                                    let seckey1 = seckey\<lparr>sec_pubkey := pub1\<rparr> in
                                    if \<not> private then parse_protected_seckey env seckey1 algorithm password
                                    else
                                      let prot = sec_protection seckey1;
                                          seckey2 = seckey1\<lparr>sec_protection := prot\<lparr>
                                            kp_s2k := (kp_s2k prot)\<lparr>s2k_usage := PGP_S2KU_NONE, s2k_hash_alg := PGP_HASH_UNKNOWN\<rparr>,
                                            kp_symm_alg := PGP_SA_PLAINTEXT\<rparr>\<rparr> in
                                      Some (parse_seckey env seckey2 algorithm alg))))
                 | _ \<Rightarrow> Some None)
          | _ \<Rightarrow> Some None)"

definition zero_pubkey :: "'n pgp_pubkey" where
  "zero_pubkey = \<lparr>pub_version = 0, pub_birthtime = 0, pub_duration = 0, pub_days_valid = 0, pub_alg = 0, pub_key = Pub_none\<rparr>"

definition zero_seckey :: "'n pgp_seckey" where
  "zero_seckey = \<lparr>sec_pubkey = zero_pubkey,
     sec_protection = \<lparr>kp_s2k = \<lparr>s2k_usage = 0, s2k_specifier = 0, s2k_hash_alg = 0, s2k_salt = replicate PGP_SALT_SIZE 0, s2k_iterations = 0\<rparr>,
       kp_symm_alg = 0, kp_cipher_mode = 0, kp_iv = replicate PGP_MAX_BLOCK_SIZE 0\<rparr>,
     sec_encrypted = False, sec_key = Sec_none, sec_checksum = 0, sec_checkhash = replicate G10_SHA1_HASH_SIZE 0\<rparr>"

definition g10_decrypt_seckey ::
    "'n g10_env \<Rightarrow> bytes \<Rightarrow> 'n pgp_pubkey option \<Rightarrow> string option \<Rightarrow> ('n pgp_seckey option) option" where
  "g10_decrypt_seckey env data pubkey password =
     (case password of
        None \<Rightarrow> Some None
      | Some _ \<Rightarrow>
          and_then (g10_parse_seckey env zero_seckey data None password)
            (\<lambda>seckey.
               (case pubkey of
                  None \<Rightarrow> Some (Some seckey)
                | Some pub \<Rightarrow> Some (Some (seckey\<lparr>sec_pubkey := pub\<lparr>pub_key := pub_key (sec_pubkey seckey)\<rparr>\<rparr>)))))"

section \<open>Writing\<close>

text \<open>The loop that adds the padding, byte by byte.\<close>

fun add_padding :: "alloc \<Rightarrow> nat \<Rightarrow> pgp_memory \<Rightarrow> pgp_memory \<times> bool" where
  "add_padding al 0 mem = (mem, True)"
| "add_padding al (Suc i) mem =
     (case pgp_memory_add al mem (str_bytes ''X'') of
        (mem1, False) \<Rightarrow> (mem1, False)
      | (mem1, True) \<Rightarrow> add_padding al i mem1)"

text \<open>
  The random vector and salt and the time, as a text of fifteen characters, are arguments.  The result is the expression
  and the key, in which the vector and the salt were replaced.
\<close>

definition write_protected_seckey ::
    "'n g10_env \<Rightarrow> (bytes \<times> bytes) option \<Rightarrow> bytes \<Rightarrow> s_exp \<Rightarrow> 'n pgp_seckey \<Rightarrow> string \<Rightarrow> (s_exp \<times> 'n pgp_seckey) option" where
  "write_protected_seckey env rng now s_exp seckey0 password =
     (let al = ge_alloc env; prot0 = sec_protection seckey0; s2k0 = kp_s2k prot0 in
      if s2k_specifier s2k0 \<noteq> PGP_S2KS_ITERATED_AND_SALTED then None
      else
        do {
          format \<leftarrow> find_format (kp_symm_alg prot0) (kp_cipher_mode prot0) (s2k_hash_alg s2k0);
          (iv, salt) \<leftarrow> rng;
          (let prot = prot0\<lparr>kp_iv := iv, kp_s2k := s2k0\<lparr>s2k_salt := salt\<rparr>\<rparr>;
               seckey = seckey0\<lparr>sec_protection := prot\<rparr> in
           do {
             key \<leftarrow> write_seckey env [] seckey;
             checksum \<leftarrow> g10_calculated_hash env seckey now;
             hash \<leftarrow> add_string_block_to_sexp al [] ''hash'';
             hash \<leftarrow> add_string_block_to_sexp al hash ''sha1'';
             hash \<leftarrow> add_block_to_sexp al hash (take G10_SHA1_HASH_SIZE checksum);
             raw \<leftarrow> (case write_sexp al (add_sub_sexp_to_sexp (add_sub_sexp_to_sexp [] key) hash) pgp_memory_new of
                       (mem, False) \<Rightarrow> None
                     | (mem, True) \<Rightarrow> Some mem);
             (let keysize = pgp_key_size (kp_symm_alg prot) in
              if keysize = 0 then None
              else
                do {
                  derived_key \<leftarrow> pgp_s2k_iterated (ge_pbkdf env) (fi_hash_alg format) keysize password (Some salt) (s2k_iterations s2k0);
                  raw \<leftarrow> (case add_padding al (fi_block_size format - m_length raw mod fi_block_size format) raw of
                            (mem, False) \<Rightarrow> None
                          | (mem, True) \<Rightarrow> Some mem);
                  (if \<not> al (m_length raw) then None
                   else
                     do {
                       encrypted \<leftarrow> ge_cipher env (fi_botan_cipher_name format) False derived_key (take (fi_iv_size format) iv)
                                     (mem_contents raw);
                       sub \<leftarrow> add_string_block_to_sexp al [] ''protected'';
                       sub \<leftarrow> add_string_block_to_sexp al sub (fi_g10_type format);
                       alg \<leftarrow> add_string_block_to_sexp al [] ''sha1'';
                       alg \<leftarrow> add_block_to_sexp al alg (take PGP_SALT_SIZE salt);
                       alg \<leftarrow> add_unsigned_block_to_sexp al alg (s2k_iterations s2k0);
                       params \<leftarrow> add_block_to_sexp al (add_sub_sexp_to_sexp [] alg) (take (fi_iv_size format) iv);
                       sub \<leftarrow> add_block_to_sexp al (add_sub_sexp_to_sexp sub params) encrypted;
                       at \<leftarrow> add_string_block_to_sexp al [] ''protected-at'';
                       at \<leftarrow> add_block_to_sexp al at (take G10_PROTECTED_AT_SIZE now);
                       Some (add_sub_sexp_to_sexp (add_sub_sexp_to_sexp s_exp sub) at, seckey)
                     })
                })
           })
        })"

text \<open>\<^verbatim>\<open>g10_write_seckey\<close>: the bytes that are passed to the output.\<close>

definition g10_write_seckey ::
    "'n g10_env \<Rightarrow> (bytes \<times> bytes) option \<Rightarrow> bytes \<Rightarrow> 'n pgp_seckey \<Rightarrow> string \<Rightarrow> bytes option" where
  "g10_write_seckey env rng now seckey0 password =
     (let al = ge_alloc env; prot0 = sec_protection seckey0; usage = s2k_usage (kp_s2k prot0);
          protect = (usage = PGP_S2KU_ENCRYPTED_AND_HASHED);
          seckey = (if protect
                    then seckey0\<lparr>sec_protection := prot0\<lparr>kp_symm_alg := PGP_SA_AES_128, kp_cipher_mode := PGP_CIPHER_MODE_CBC,
                                   kp_s2k := (kp_s2k prot0)\<lparr>s2k_hash_alg := PGP_HASH_SHA1\<rparr>\<rparr>\<rparr>
                    else seckey0) in
      if usage \<noteq> PGP_S2KU_NONE \<and> \<not> protect then None
      else
        do {
          s \<leftarrow> add_string_block_to_sexp al [] (if protect then ''protected-private-key'' else ''private-key'');
          sub \<leftarrow> write_pubkey env [] (sec_pubkey seckey);
          sub \<leftarrow> (if protect then map_option fst (write_protected_seckey env rng now sub seckey password)
                 else write_seckey env sub seckey);
          (case write_sexp al (add_sub_sexp_to_sexp s sub) pgp_memory_new of
             (mem, False) \<Rightarrow> None
           | (mem, True) \<Rightarrow> Some (mem_contents mem))
        })"

end
