(* ===== verification/G10_Roundtrip.thy ===== *)
theory G10_Roundtrip
  imports G10_Keys Encrypted_Write
begin

text \<open>
  What G10 files contain: the expression of a key, that writing produces it and that parsing gets the key back, with
  and without a password.
\<close>

section \<open>Numbers\<close>

definition num_block :: "'n botan_mp \<Rightarrow> 'n \<Rightarrow> bytes" where
  "num_block mp n = (if high_bit (mp_bytes mp n) then 0 # mp_bytes mp n else mp_bytes mp n)"

definition num_var :: "'n botan_mp \<Rightarrow> string \<Rightarrow> 'n \<Rightarrow> sub_element" where
  "num_var mp name n = Sub [Block (str_bytes name), Block (num_block mp n)]"

text \<open>
  The numbers that can be stored under a name: not zero, small enough for the buffer, and not written with the bytes of the
  name, because a list has no block twice.
\<close>

definition num_ok :: "'n botan_mp \<Rightarrow> string \<Rightarrow> 'n \<Rightarrow> bool" where
  "num_ok mp name n \<longleftrightarrow> mp_bytes mp n \<noteq> [] \<and> length (mp_bytes mp n) < RNP_BUFSIZ \<and> num_block mp n \<noteq> str_bytes name"

definition env_ok :: "'n g10_env \<Rightarrow> bool" where
  "env_ok env \<longleftrightarrow> mp_ok (ge_mp env) \<and> ge_alloc env = (\<lambda>_. True)"

lemma num_block_simps:
  assumes "num_ok mp name n"
  shows "num_block mp n \<noteq> []" "num_block mp n \<noteq> str_bytes name" "int (length (num_block mp n)) < LONG_MAX"
    "length (num_block mp n) \<le> RNP_BUFSIZ"
  using assms by (auto simp: num_ok_def num_block_def RNP_BUFSIZ_def LONG_MAX_def)

lemma write_bignum_ok:
  assumes "env_ok env" "num_ok (ge_mp env) name n"
  shows "write_bignum env s name n = Some (s @ [num_var (ge_mp env) name n])"
proof -
  have mp: "mp_ok (ge_mp env)" "ge_alloc env = (\<lambda>_. True)" using assms(1) by (simp_all add: env_ok_def)
  have "(if high_bit (mp_bytes (ge_mp env) n) then take (length (mp_bytes (ge_mp env) n) + 1) (0 # mp_bytes (ge_mp env) n)
        else take (length (mp_bytes (ge_mp env) n)) (mp_bytes (ge_mp env) n)) = num_block (ge_mp env) n"
    by (simp add: num_block_def)
  then show ?thesis
    using assms(2) mp num_block_simps(2) [OF assms(2)]
    by (simp add: write_bignum_def mp_okD num_ok_def add_string_block_to_sexp_def add_block_to_sexp_def num_var_def add_sub_sexp_to_sexp_def)
qed

lemma read_num_block:
  assumes "env_ok env"
  shows "bn_bin2bn (ge_mp env) (ge_alloc env) (Some (num_block (ge_mp env) n)) = Some n"
  using assms mp_okD(5,6) [of "ge_mp env" n] by (simp add: env_ok_def num_block_def)

lemma read_bignum_Cons [simp]:
  "read_bignum env (Block b # es) name = read_bignum env es name"
  "env_ok env \<Longrightarrow> read_bignum env (num_var (ge_mp env) a n # es) name = (if str_bytes a = str_bytes name then Some n else read_bignum env es name)"
  by (simp_all add: read_bignum_def num_var_def read_num_block)

lemma var_wf: "num_ok mp name n \<Longrightarrow> name \<noteq> [] \<Longrightarrow> length name < 100 \<Longrightarrow> elem_wf (num_var mp name n)"
  using num_block_simps [of mp name n] by (auto simp: num_var_def str_bytes_def LONG_MAX_def)

lemma var_not_block [simp]: "num_var mp name n \<noteq> Block b" "Block b \<noteq> num_var mp name n"
  by (simp_all add: num_var_def)

section \<open>Key material\<close>

text \<open>The keys that can be stored: RSA and DSA.\<close>

definition g10_key_ok :: "'n botan_mp \<Rightarrow> 'n pgp_seckey \<Rightarrow> bool" where
  "g10_key_ok mp key =
     (case (pub_key (sec_pubkey key), sec_key key) of
        (Pub_rsa n e, Sec_rsa d p q u) \<Rightarrow>
          pub_alg (sec_pubkey key) = PGP_PKA_RSA \<and> num_ok mp ''n'' n \<and> num_ok mp ''e'' e \<and>
          num_ok mp ''d'' d \<and> num_ok mp ''p'' p \<and> num_ok mp ''q'' q \<and> num_ok mp ''u'' u
      | (Pub_dsa p q g y, Sec_dsa x) \<Rightarrow>
          pub_alg (sec_pubkey key) = PGP_PKA_DSA \<and> num_ok mp ''p'' p \<and> num_ok mp ''q'' q \<and> num_ok mp ''g'' g \<and>
          num_ok mp ''y'' y \<and> num_ok mp ''x'' x
      | _ \<Rightarrow> False)"

definition pub_vars :: "'n botan_mp \<Rightarrow> 'n pubkey_material \<Rightarrow> sub_element list" where
  "pub_vars mp m =
     (case m of
        Pub_rsa n e \<Rightarrow> [Block (str_bytes ''rsa''), num_var mp ''n'' n, num_var mp ''e'' e]
      | Pub_dsa p q g y \<Rightarrow> [Block (str_bytes ''dsa''), num_var mp ''p'' p, num_var mp ''q'' q, num_var mp ''g'' g, num_var mp ''y'' y]
      | _ \<Rightarrow> [])"

definition sec_vars :: "'n botan_mp \<Rightarrow> 'n seckey_material \<Rightarrow> sub_element list" where
  "sec_vars mp m =
     (case m of
        Sec_rsa d p q u \<Rightarrow> [num_var mp ''d'' d, num_var mp ''p'' p, num_var mp ''q'' q, num_var mp ''u'' u]
      | Sec_dsa x \<Rightarrow> [num_var mp ''x'' x]
      | _ \<Rightarrow> [])"

lemma g10_key_cases:
  assumes "g10_key_ok mp key"
  obtains (RSA) n e d p q u where "pub_key (sec_pubkey key) = Pub_rsa n e" "sec_key key = Sec_rsa d p q u"
      "pub_alg (sec_pubkey key) = PGP_PKA_RSA" "num_ok mp ''n'' n" "num_ok mp ''e'' e"
      "num_ok mp ''d'' d" "num_ok mp ''p'' p" "num_ok mp ''q'' q" "num_ok mp ''u'' u"
  | (DSA) p q g y x where "pub_key (sec_pubkey key) = Pub_dsa p q g y" "sec_key key = Sec_dsa x"
      "pub_alg (sec_pubkey key) = PGP_PKA_DSA" "num_ok mp ''p'' p" "num_ok mp ''q'' q" "num_ok mp ''g'' g"
      "num_ok mp ''y'' y" "num_ok mp ''x'' x"
  using assms by (auto simp: g10_key_ok_def split: pubkey_material.splits seckey_material.splits)

lemma write_material_ok:
  assumes "env_ok env" "g10_key_ok (ge_mp env) key"
  shows "write_pubkey env [] (sec_pubkey key) = Some (pub_vars (ge_mp env) (pub_key (sec_pubkey key)))"
    "write_seckey env s key = Some (s @ sec_vars (ge_mp env) (sec_key key))"
  using assms(2)
  by (cases rule: g10_key_cases;
      use assms(1) in \<open>simp add: write_pubkey_def write_seckey_def write_bignum_ok is_rsa_alg_def add_string_block_to_sexp_def
        add_block_to_sexp_def env_ok_def pub_vars_def sec_vars_def\<close>)+

lemma parse_material_ok:
  assumes "env_ok env" "g10_key_ok (ge_mp env) key"
  defines "alg \<equiv> pub_alg (sec_pubkey key)" and "pv \<equiv> pub_vars (ge_mp env) (pub_key (sec_pubkey key))"
    and "sv \<equiv> sec_vars (ge_mp env) (sec_key key)"
  shows "parse_pubkey env pub (pv @ tail) alg = Some (pub\<lparr>pub_version := PGP_V4, pub_alg := alg, pub_key := pub_key (sec_pubkey key)\<rparr>)"
    "parse_seckey env sk (sv @ tail) alg = Some (sk\<lparr>sec_key := sec_key key\<rparr>)"
    "parse_seckey env sk (pv @ sv) alg = Some (sk\<lparr>sec_key := sec_key key\<rparr>)"
    "\<exists>name e es. pv = Block name # e # es \<and> g10_pubkey_alg name = Some alg"
  using assms(2)
  by (cases rule: g10_key_cases;
      use assms(1) in \<open>simp add: alg_def pv_def sv_def parse_pubkey_def parse_seckey_def pub_vars_def sec_vars_def str_bytes_def
        g10_pubkey_alg_def strncmp_eq_def cstr_def\<close>)+

lemma var_length: "num_ok mp name n \<Longrightarrow> length name < 100 \<Longrightarrow> length (elem_enc (num_var mp name n)) \<le> 8400"
proof -
  assume n: "num_ok mp name n" "length name < 100"
  note l = num_block_simps(4) [OF n(1)]
  have "length (print_unsigned (length (num_block mp n))) \<le> 20" "length (print_unsigned (length name)) \<le> 20"
    by (rule length_print_unsigned, use n(2) l in \<open>simp add: RNP_BUFSIZ_def\<close>)+
  then show ?thesis using l n(2) by (simp add: num_var_def str_bytes_def RNP_BUFSIZ_def)
qed

lemma material_wf_length:
  assumes "g10_key_ok mp key"
  shows "\<forall>e \<in> set (pub_vars mp (pub_key (sec_pubkey key)) @ sec_vars mp (sec_key key)). elem_wf e \<and> length (elem_enc e) \<le> 8400"
    "filter is_block (pub_vars mp (pub_key (sec_pubkey key)) @ sec_vars mp (sec_key key)) = [hd (pub_vars mp (pub_key (sec_pubkey key)))]"
    "filter is_block (sec_vars mp (sec_key key)) = []" "sec_vars mp (sec_key key) \<noteq> []" "pub_vars mp (pub_key (sec_pubkey key)) \<noteq> []"
    "length (pub_vars mp (pub_key (sec_pubkey key)) @ sec_vars mp (sec_key key)) \<le> 10"
  using assms
  by (cases rule: g10_key_cases;
      simp add: pub_vars_def sec_vars_def var_wf var_length; simp add: str_bytes_def LONG_MAX_def print_unsigned.simps)+

lemma length_concat_le:
  assumes "\<forall>e \<in> set es. length (f e) \<le> k" "length es \<le> m"
  shows "length (concat (map f es)) \<le> k * m"
proof -
  have "length (concat (map f es)) \<le> k * length es" using assms(1) by (induction es) auto
  also have "\<dots> \<le> k * m" using assms(2) by simp
  finally show ?thesis .
qed

section \<open>Keys without protection\<close>

definition plain_sexp :: "'n botan_mp \<Rightarrow> 'n pgp_seckey \<Rightarrow> s_exp" where
  "plain_sexp mp key =
     [Block (str_bytes ''private-key''), Sub (pub_vars mp (pub_key (sec_pubkey key)) @ sec_vars mp (sec_key key))]"

lemma plain_sexp_wf:
  assumes "g10_key_ok mp key"
  shows "elem_wf (Sub (plain_sexp mp key))" "length (elem_enc (Sub (plain_sexp mp key))) < 2 ^ 60"
proof -
  note m = material_wf_length [OF assms]
  let ?vs = "pub_vars mp (pub_key (sec_pubkey key)) @ sec_vars mp (sec_key key)"
  have "length (concat (map elem_enc ?vs)) \<le> 8400 * 10"
    by (rule length_concat_le) (use m(1,6) in auto)
  then show "length (elem_enc (Sub (plain_sexp mp key))) < 2 ^ 60"
    by (simp add: plain_sexp_def str_bytes_def print_unsigned.simps)
  show "elem_wf (Sub (plain_sexp mp key))"
    using m(1,2,5) by (simp add: plain_sexp_def) (simp add: str_bytes_def LONG_MAX_def)
qed

lemma write_sexp_contents:
  assumes "length (elem_enc (Sub e)) < 2 ^ 60"
  shows "\<exists>mem. write_sexp (\<lambda>_. True) e pgp_memory_new = (mem, True) \<and> mem_contents mem = elem_enc (Sub e)"
  using write_sexp_ok [of pgp_memory_new e] assms by auto

lemma plain_roundtrip:
  assumes "env_ok env" "g10_key_ok (ge_mp env) key" "s2k_usage (kp_s2k (sec_protection key)) = PGP_S2KU_NONE"
  obtains data key' where "g10_write_seckey env rng now key pw = Some data"
    "g10_parse_seckey env zero_seckey data None pw' = Some (Some key')"
    "sec_pubkey key' = zero_pubkey\<lparr>pub_version := PGP_V4, pub_alg := pub_alg (sec_pubkey key), pub_key := pub_key (sec_pubkey key)\<rparr>"
    "sec_key key' = sec_key key" "\<not> sec_encrypted key'"
proof -
  let ?e = "plain_sexp (ge_mp env) key" and ?al = "\<lambda>_ :: nat. True"
  note wf = plain_sexp_wf [OF assms(2)] and m = parse_material_ok [OF assms(1,2)] and w = write_material_ok [OF assms(1,2)]
  have al: "ge_alloc env = ?al" using assms(1) by (simp add: env_ok_def)
  obtain mem where mem: "write_sexp ?al ?e pgp_memory_new = (mem, True)" "mem_contents mem = elem_enc (Sub ?e)"
    using write_sexp_contents [OF wf(2)] by blast
  have 1: "g10_write_seckey env rng now key pw = Some (elem_enc (Sub ?e))"
    using assms(3) w mem
    by (simp add: g10_write_seckey_def al add_string_block_to_sexp_def add_block_to_sexp_def add_sub_sexp_to_sexp_def plain_sexp_def Let_def)
  have "parse_sexp ?al (elem_enc (Sub ?e) @ []) (length (elem_enc (Sub ?e))) = Some (Some (?e, [], 0))"
    by (rule parse_sexp_enc [OF wf(1)]) (use wf(2) in simp_all)
  then have p: "parse_sexp ?al (elem_enc (Sub ?e)) (length (elem_enc (Sub ?e))) = Some (Some (?e, [], 0))" by simp
  have t: "strncmp_eq (str_bytes ''private-key'') (str_bytes ''private-key'') (length (str_bytes ''private-key''))"
    by (simp add: strncmp_eq_def)
  obtain name x es where n: "pub_vars (ge_mp env) (pub_key (sec_pubkey key)) = Block name # x # es"
    "g10_pubkey_alg name = Some (pub_alg (sec_pubkey key))"
    using m(4) by blast
  have 2: "g10_parse_seckey env zero_seckey (elem_enc (Sub ?e)) None pw' = Some (Some (zero_seckey
      \<lparr>sec_pubkey := zero_pubkey\<lparr>pub_version := PGP_V4, pub_alg := pub_alg (sec_pubkey key), pub_key := pub_key (sec_pubkey key)\<rparr>,
       sec_key := sec_key key\<rparr>))"
    using p t n m(1,3) by (simp add: g10_parse_seckey_def al plain_sexp_def merge_pubring_def zero_seckey_def Let_def)
  show thesis by (rule that [OF 1 2]) (simp_all add: zero_seckey_def)
qed

text \<open>An exponent of one byte that is the letter of its name is dropped.\<close>

lemma exponent_lost:
  assumes "env_ok env" "pub_alg (sec_pubkey key) = PGP_PKA_RSA" "pub_key (sec_pubkey key) = Pub_rsa n e" "sec_key key = Sec_rsa d p q u"
    and "num_ok (ge_mp env) ''n'' n" "num_ok (ge_mp env) ''d'' d" "num_ok (ge_mp env) ''p'' p" "num_ok (ge_mp env) ''q'' q"
      "num_ok (ge_mp env) ''u'' u" "mp_bytes (ge_mp env) e = [101]"
    and "s2k_usage (kp_s2k (sec_protection key)) = PGP_S2KU_NONE"
  shows "\<exists>data. g10_write_seckey env rng now key pw = Some data \<and> g10_parse_seckey env zero_seckey data None pw' = Some None"
proof -
  let ?mp = "ge_mp env" and ?al = "\<lambda>_ :: nat. True"
  define vs where "vs = [num_var ?mp ''d'' d, num_var ?mp ''p'' p, num_var ?mp ''q'' q, num_var ?mp ''u'' u]"
  define es where "es = [Block (str_bytes ''private-key''), Sub ([Block (str_bytes ''rsa''), num_var ?mp ''n'' n, Sub [Block [101]]] @ vs)]"
  have al: "ge_alloc env = ?al" and mp: "mp_ok ?mp" using assms(1) by (simp_all add: env_ok_def)
  have n: "elem_wf (num_var ?mp ''n'' n)" "length (elem_enc (num_var ?mp ''n'' n)) \<le> 8400"
    and v: "\<forall>x \<in> set vs. elem_wf x" "\<forall>x \<in> set vs. length (elem_enc x) \<le> 8400" "length vs \<le> 4" "filter is_block vs = []"
    using assms(5-9) by (simp_all add: vs_def var_wf var_length)
  have wf: "elem_wf (Sub es)" using n(1) v(1,4) by (simp add: es_def) (simp add: str_bytes_def LONG_MAX_def)
  have l: "length (elem_enc (Sub es)) < 2 ^ 60"
    using n(2) length_concat_le [OF v(2,3)] by (simp add: es_def) (simp add: str_bytes_def print_unsigned.simps)
  obtain mem where mem: "write_sexp ?al es pgp_memory_new = (mem, True)" "mem_contents mem = elem_enc (Sub es)"
    using write_sexp_contents [OF l] by blast
  have "write_bignum env s ''e'' e = Some (s @ [Sub [Block [101]]])" for s
    using assms(10) by (simp add: write_bignum_def al mp_okD [OF mp] add_string_block_to_sexp_def add_block_to_sexp_def
        add_sub_sexp_to_sexp_def RNP_BUFSIZ_def high_bit_def str_bytes_def)
  then have "g10_write_seckey env rng now key pw = Some (elem_enc (Sub es))"
    using assms mem by (simp add: g10_write_seckey_def al Let_def write_pubkey_def write_seckey_def is_rsa_alg_def write_bignum_ok
        add_string_block_to_sexp_def add_block_to_sexp_def add_sub_sexp_to_sexp_def es_def vs_def)
  moreover have "parse_sexp ?al (elem_enc (Sub es)) (length (elem_enc (Sub es))) = Some (Some (es, [], 0))"
    using parse_sexp_enc [OF wf, of "length (elem_enc (Sub es))" 0 "[]"] l by simp
  then have "g10_parse_seckey env zero_seckey (elem_enc (Sub es)) None pw' = Some None"
    by (simp add: g10_parse_seckey_def al es_def Let_def g10_pubkey_alg_def strncmp_eq_def cstr_def parse_pubkey_def read_bignum_def num_var_def
        str_bytes_def)
  ultimately show ?thesis by blast
qed

section \<open>The hash of a key\<close>

definition at_elem :: "bytes \<Rightarrow> sub_element" where
  "at_elem now = Sub [Block (str_bytes ''protected-at''), Block now]"

definition hash_sexp :: "'n botan_mp \<Rightarrow> 'n pgp_seckey \<Rightarrow> bytes \<Rightarrow> s_exp" where
  "hash_sexp mp key now = pub_vars mp (pub_key (sec_pubkey key)) @ sec_vars mp (sec_key key) @ [at_elem now]"

definition key_hash :: "'n g10_env \<Rightarrow> 'n pgp_seckey \<Rightarrow> bytes \<Rightarrow> bytes" where
  "key_hash env key now = sha1 (ge_botan env) (elem_enc (Sub (hash_sexp (ge_mp env) key now)))"

lemma at_elem_enc: "length now = 15 \<Longrightarrow> length (elem_enc (at_elem now)) \<le> 100"
  by (simp add: at_elem_def str_bytes_def print_unsigned.simps)

lemma calculated_hash_ok:
  assumes "env_ok env" "sha1_ok (ge_botan env)" "g10_key_ok (ge_mp env) key" "length now = 15"
  shows "g10_calculated_hash env key now = Some (key_hash env key now)"
proof -
  let ?e = "hash_sexp (ge_mp env) key now"
  note m = material_wf_length [OF assms(3)] and w = write_material_ok [OF assms(1,3)]
  have al: "ge_alloc env = (\<lambda>_. True)" using assms(1) by (simp add: env_ok_def)
  have "length (concat (map elem_enc (pub_vars (ge_mp env) (pub_key (sec_pubkey key)) @ sec_vars (ge_mp env) (sec_key key)))) \<le> 8400 * 10"
    by (rule length_concat_le) (use m(1,6) in auto)
  then have "length (elem_enc (Sub ?e)) < 2 ^ 60" using at_elem_enc [OF assms(4)] by (simp add: hash_sexp_def)
  then obtain mem where mem: "write_sexp (\<lambda>_. True) ?e pgp_memory_new = (mem, True)" "mem_contents mem = elem_enc (Sub ?e)"
    using write_sexp_contents by blast
  have "str_bytes ''protected-at'' \<noteq> now" using assms(4) by (auto simp: str_bytes_def)
  moreover obtain d where d: "bo_hash_final (ge_botan env) ''SHA-1'' (elem_enc (Sub ?e)) = Some d"
    using assms(2) unfolding sha1_ok_def by blast
  ultimately show ?thesis
    using w mem assms(4) sha1_create [OF assms(2)]
    by (simp add: g10_calculated_hash_def al add_string_block_to_sexp_def add_block_to_sexp_def add_sub_sexp_to_sexp_def
        hash_sexp_def at_elem_def sha1_ctx_def PGP_SHA1_HASH_SIZE_def G10_SHA1_HASH_SIZE_def G10_PROTECTED_AT_SIZE_def
        pgp_hash_add_def pgp_hash_finish_def key_hash_def sha1_def del: elem_enc.simps)
qed

lemma length_key_hash: "sha1_ok (ge_botan env) \<Longrightarrow> length (key_hash env key now) = 20"
  unfolding key_hash_def sha1_def sha1_ok_def PGP_SHA1_HASH_SIZE_def by (metis option.sel)

lemma calculated_hash_cong:
  assumes "pub_alg (sec_pubkey k) = pub_alg (sec_pubkey key)" "pub_key (sec_pubkey k) = pub_key (sec_pubkey key)" "sec_key k = sec_key key"
  shows "g10_calculated_hash env k now = g10_calculated_hash env key now"
proof -
  have c: "write_pubkey env s (sec_pubkey k) = write_pubkey env s (sec_pubkey key)" "write_seckey env s k = write_seckey env s key" for s
    using assms by (simp_all add: write_pubkey_def write_seckey_def)
  show ?thesis unfolding g10_calculated_hash_def c by (rule refl)
qed

section \<open>Keys with protection\<close>

definition raw_sexp :: "'n g10_env \<Rightarrow> 'n pgp_seckey \<Rightarrow> bytes \<Rightarrow> s_exp" where
  "raw_sexp env key now =
     [Sub (sec_vars (ge_mp env) (sec_key key)),
      Sub [Block (str_bytes ''hash''), Block (str_bytes ''sha1''), Block (key_hash env key now)]]"

definition protected_elem :: "bytes \<Rightarrow> bytes \<Rightarrow> nat \<Rightarrow> bytes \<Rightarrow> sub_element" where
  "protected_elem iv salt iterations encrypted =
     Sub [Block (str_bytes ''protected''), Block (str_bytes ''openpgp-s2k3-sha1-aes-cbc''),
       Sub [Sub [Block (str_bytes ''sha1''), Block salt, Block (print_unsigned iterations)], Block iv], Block encrypted]"

definition protected_sexp :: "'n botan_mp \<Rightarrow> 'n pgp_seckey \<Rightarrow> bytes \<Rightarrow> bytes \<Rightarrow> nat \<Rightarrow> bytes \<Rightarrow> bytes \<Rightarrow> s_exp" where
  "protected_sexp mp key iv salt iterations encrypted now =
     [Block (str_bytes ''protected-private-key''),
      Sub (pub_vars mp (pub_key (sec_pubkey key)) @ [protected_elem iv salt iterations encrypted, at_elem now])]"

lemma raw_sexp_wf:
  assumes "sha1_ok (ge_botan env)" "g10_key_ok (ge_mp env) key"
  shows "elem_wf (Sub (raw_sexp env key now))" "length (elem_enc (Sub (raw_sexp env key now))) < 100000"
proof -
  note m = material_wf_length [OF assms(2)] and h = length_key_hash [OF assms(1), of key now]
  have "length (concat (map elem_enc (sec_vars (ge_mp env) (sec_key key)))) \<le> 8400 * 10"
    by (rule length_concat_le) (use m(1,6) in auto)
  then show "length (elem_enc (Sub (raw_sexp env key now))) < 100000"
    using h by (simp add: raw_sexp_def str_bytes_def print_unsigned.simps)
  have "key_hash env key now \<noteq> str_bytes ''hash''" "key_hash env key now \<noteq> str_bytes ''sha1''" "key_hash env key now \<noteq> []"
    using h by (auto simp: str_bytes_def)
  then show "elem_wf (Sub (raw_sexp env key now))"
    using m(1,3,4) h by (auto simp: raw_sexp_def) (auto simp: str_bytes_def LONG_MAX_def)
qed

lemma blocks_not_names:
  "16 dvd length c \<Longrightarrow> c \<noteq> str_bytes ''protected''"
  "16 dvd length c \<Longrightarrow> c \<noteq> str_bytes ''openpgp-s2k3-sha1-aes-cbc''"
  "n < 2 ^ 32 \<Longrightarrow> print_unsigned n \<noteq> str_bytes ''sha1''"
proof -
  assume d: "16 dvd length c"
  then have "length c \<noteq> 9" "length c \<noteq> 25" by presburger+
  then show "c \<noteq> str_bytes ''protected''" "c \<noteq> str_bytes ''openpgp-s2k3-sha1-aes-cbc''" by (auto simp: str_bytes_def)
next
  show "print_unsigned n \<noteq> str_bytes ''sha1''"
  proof
    assume "print_unsigned n = str_bytes ''sha1''"
    with print_unsigned_digits(1) [of n] show False by (simp add: str_bytes_def is_digit_def)
  qed
qed

lemma protected_sexp_wf:
  assumes "g10_key_ok mp key" "length iv = 16" "length salt = 8" "iterations < 2 ^ 32" "print_unsigned iterations \<noteq> salt"
    and "16 dvd length encrypted" "0 < length encrypted" "length encrypted < 200000" "length now = 15"
  shows "elem_wf (Sub (protected_sexp mp key iv salt iterations encrypted now))"
    "length (elem_enc (Sub (protected_sexp mp key iv salt iterations encrypted now))) < 2 ^ 60"
proof -
  note m = material_wf_length [OF assms(1)]
  let ?pv = "pub_vars mp (pub_key (sec_pubkey key))"
  have pl: "length (print_unsigned iterations) \<le> 20" "length (print_unsigned (length encrypted)) \<le> 20"
    by (rule length_print_unsigned, use assms(4,8) in simp)+
  have pp: "length (print_unsigned (length (print_unsigned iterations))) \<le> 20" by (rule length_print_unsigned) (use pl in simp)
  have "length (concat (map elem_enc ?pv)) \<le> 8400 * 10" by (rule length_concat_le) (use m(1,6) in auto)
  then show "length (elem_enc (Sub (protected_sexp mp key iv salt iterations encrypted now))) < 2 ^ 60"
    using at_elem_enc [OF assms(9)] pl pp assms(2,3,8)
    by (simp add: protected_sexp_def protected_elem_def) (simp add: str_bytes_def print_unsigned.simps)
  have b: "filter is_block ?pv = [hd ?pv]" using m(2,3) by simp
  note d = blocks_not_names(1,2) [OF assms(6)] blocks_not_names(3) [OF assms(4)]
  have "encrypted \<noteq> []" using assms(7) by auto
  moreover have "salt \<noteq> str_bytes ''sha1''" "salt \<noteq> []" "iv \<noteq> []" "now \<noteq> []" "now \<noteq> str_bytes ''protected-at''"
    using assms(2,3,9) by (auto simp: str_bytes_def)
  ultimately have "elem_wf (protected_elem iv salt iterations encrypted)" "elem_wf (at_elem now)"
    using assms print_unsigned_digits(2) [of iterations] pl d
    by (auto simp: protected_elem_def at_elem_def) (auto simp: str_bytes_def LONG_MAX_def)
  then show "elem_wf (Sub (protected_sexp mp key iv salt iterations encrypted now))"
    using m(1,5) b by (auto simp: protected_sexp_def protected_elem_def at_elem_def) (auto simp: str_bytes_def LONG_MAX_def)
qed

text \<open>The padding: as many characters as are missing to a whole block, or a whole block.\<close>

definition pad_block :: "bytes \<Rightarrow> bytes" where
  "pad_block raw = raw @ replicate (16 - length raw mod 16) (of_char (CHR ''X''))"

lemma length_pad_block: "16 dvd length (pad_block raw)" "length raw < length (pad_block raw)" "length (pad_block raw) \<le> length raw + 16"
  by (simp_all add: pad_block_def) presburger

lemma add_padding_ok:
  assumes "buf_ok 78 mem" "m_length mem + n < 2 ^ 60"
  shows "\<exists>mem'. add_padding (\<lambda>_. True) n mem = (mem', True) \<and> buf_ok 78 mem' \<and>
    mem_contents mem' = mem_contents mem @ replicate n (of_char (CHR ''X''))"
  using assms
proof (induction n arbitrary: mem)
  case (Suc n)
  obtain mem1 where "pgp_memory_add (\<lambda>_. True) mem (str_bytes ''X'') = (mem1, True)" "buf_ok 78 mem1"
    "mem_contents mem1 = mem_contents mem @ str_bytes ''X''" "m_length mem1 = m_length mem + length (str_bytes ''X'')"
    by (rule add_ok [OF Suc.prems(1), of "str_bytes ''X''"]) (use Suc.prems(2) in \<open>auto simp: str_bytes_def\<close>)
  then show ?case using Suc.IH [of mem1] Suc.prems(2) by (auto simp: str_bytes_def)
qed simp

text \<open>\<^verbatim>\<open>AES-128/CBC\<close> of Botan with a key and a vector of 16 bytes: whole blocks are encrypted to as many bytes and
  decrypted to what they were.\<close>

definition cbc_ok :: "'n g10_env \<Rightarrow> bool" where
  "cbc_ok env \<longleftrightarrow> (\<forall>k v p. length k = 16 \<longrightarrow> length v = 16 \<longrightarrow> 16 dvd length p \<longrightarrow>
     (\<exists>c. ge_cipher env ''AES-128/CBC/NoPadding'' False k v p = Some c \<and> length c = length p \<and>
        ge_cipher env ''AES-128/CBC/NoPadding'' True k v c = Some p))"

text \<open>What is assumed of a key that is written with a password.\<close>

definition protect_ok :: "'n g10_env \<Rightarrow> 'n pgp_seckey \<Rightarrow> bytes \<Rightarrow> bytes \<Rightarrow> bytes \<Rightarrow> bool" where
  "protect_ok env key iv salt now \<longleftrightarrow>
     (let s2k = kp_s2k (sec_protection key); count = print_unsigned (s2k_iterations s2k) in
      s2k_usage s2k = PGP_S2KU_ENCRYPTED_AND_HASHED \<and> s2k_specifier s2k = PGP_S2KS_ITERATED_AND_SALTED \<and>
      s2k_iterations s2k < UINT_MAX \<and> count \<noteq> salt \<and> length iv = 16 \<and> length salt = 8 \<and> length now = 15 \<and>
      length (ge_stack env) = UINT_BUF_SIZE \<and> \<not> is_digit (ge_stack env ! length count))"

lemma block_to_unsigned_print:
  assumes "n < UINT_MAX" "length stack = UINT_BUF_SIZE" "\<not> is_digit (stack ! length (print_unsigned n))"
  shows "block_to_unsigned stack (print_unsigned n) = Some n"
proof -
  have l: "length (print_unsigned n) < 24" using length_print_unsigned [of n] assms(1) by (simp add: UINT_MAX_def)
  then have "drop (length (print_unsigned n)) stack = stack ! length (print_unsigned n) # drop (Suc (length (print_unsigned n))) stack"
    using assms(2) by (intro Cons_nth_drop_Suc [symmetric]) (simp add: UINT_BUF_SIZE_def)
  then have "strtol10 (print_unsigned n @ drop (length (print_unsigned n)) (take 24 stack)) =
      Some (int n, drop (length (print_unsigned n)) stack)"
    using strtol10_print [of n _ "drop (Suc (length (print_unsigned n))) stack"] assms by (simp add: UINT_BUF_SIZE_def LONG_MAX_def UINT_MAX_def)
  then show ?thesis using l assms(1) by (simp add: block_to_unsigned_def UINT_BUF_SIZE_def UINT_MAX_def nat_mod_as_int)
qed

abbreviation (input) key_iterations :: "'n pgp_seckey \<Rightarrow> nat" where
  "key_iterations key \<equiv> s2k_iterations (kp_s2k (sec_protection key))"

abbreviation (input) raw_text :: "'n g10_env \<Rightarrow> 'n pgp_seckey \<Rightarrow> bytes \<Rightarrow> bytes" where
  "raw_text env key now \<equiv> elem_enc (Sub (raw_sexp env key now))"

lemma cbc_format [simp]:
  "find_format PGP_SA_AES_128 PGP_CIPHER_MODE_CBC PGP_HASH_SHA1 = Some (hd formats)"
  "parse_format (str_bytes ''openpgp-s2k3-sha1-aes-cbc'') = Some (hd formats)"
  "fi_cipher (hd formats) = PGP_SA_AES_128" "fi_cipher_mode (hd formats) = PGP_CIPHER_MODE_CBC" "fi_hash_alg (hd formats) = PGP_HASH_SHA1"
  "fi_botan_cipher_name (hd formats) = ''AES-128/CBC/NoPadding''" "fi_block_size (hd formats) = 16"
  "fi_g10_type (hd formats) = ''openpgp-s2k3-sha1-aes-cbc''" "fi_iv_size (hd formats) = 16"
  by (simp_all add: find_format_def parse_format_def formats_def G10_CBC_IV_SIZE_def)

lemma raw_memory:
  assumes "sha1_ok (ge_botan env)" "g10_key_ok (ge_mp env) key"
  obtains mem mem' where "write_sexp (\<lambda>_. True) (raw_sexp env key now) pgp_memory_new = (mem, True)"
    "add_padding (\<lambda>_. True) (16 - m_length mem mod 16) mem = (mem', True)" "mem_contents mem' = pad_block (raw_text env key now)"
proof -
  note l = raw_sexp_wf(2) [OF assms, of now]
  obtain mem where m: "write_sexp (\<lambda>_. True) (raw_sexp env key now) pgp_memory_new = (mem, True)"
    "mem_contents mem = raw_text env key now" "buf_ok 78 mem"
    by (rule write_sexp_ok [of pgp_memory_new "raw_sexp env key now"]) (use l in auto)
  have ml: "m_length mem = length (raw_text env key now)" using length_mem_contents [OF m(3)] m(2) by simp
  then have "m_length mem + (16 - m_length mem mod 16) < 2 ^ 60" using l by (simp add: algebra_simps)
  then obtain mem' where m': "add_padding (\<lambda>_. True) (16 - m_length mem mod 16) mem = (mem', True)"
    "mem_contents mem' = mem_contents mem @ replicate (16 - m_length mem mod 16) (of_char (CHR ''X''))"
    using add_padding_ok [OF m(3)] by blast
  show thesis by (rule that [OF m(1) m'(1)]) (simp add: pad_block_def m(2) m'(2) ml del: elem_enc.simps)
qed

lemma protected_write:
  assumes "env_ok env" "sha1_ok (ge_botan env)" "g10_key_ok (ge_mp env) key" "protect_ok env key iv salt now"
    and "pgp_s2k_iterated (ge_pbkdf env) PGP_HASH_SHA1 16 pw (Some salt) (key_iterations key) = Some dk"
    and "ge_cipher env ''AES-128/CBC/NoPadding'' False dk iv (pad_block (raw_text env key now)) = Some c"
      "length c = length (pad_block (raw_text env key now))"
  shows "g10_write_seckey env (Some (iv, salt)) now key pw =
    Some (elem_enc (Sub (protected_sexp (ge_mp env) key iv salt (key_iterations key) c now)))"
proof -
  let ?al = "\<lambda>_ :: nat. True" and ?it = "key_iterations key"
  have al: "ge_alloc env = ?al" using assms(1) by (simp add: env_ok_def)
  note po = assms(4) [unfolded protect_ok_def Let_def] and wm = write_material_ok [OF assms(1,3)]
  have wk: "write_seckey env s (key\<lparr>sec_protection := p\<rparr>) = write_seckey env s key" for s p by (simp add: write_seckey_def)
  have ch: "g10_calculated_hash env (key\<lparr>sec_protection := p\<rparr>) now = Some (key_hash env key now)" for p
    using calculated_hash_cong [of "key\<lparr>sec_protection := p\<rparr>" key env now] calculated_hash_ok [OF assms(1-3)] po by simp
  obtain mem mem' where m: "write_sexp ?al (raw_sexp env key now) pgp_memory_new = (mem, True)"
    "add_padding ?al (16 - m_length mem mod 16) mem = (mem', True)" "mem_contents mem' = pad_block (raw_text env key now)"
    by (rule raw_memory [OF assms(2,3), of now])
  have wf: "length (elem_enc (Sub (protected_sexp (ge_mp env) key iv salt ?it c now))) < 2 ^ 60"
    by (rule protected_sexp_wf(2) [OF assms(3)])
       (use po assms(7) length_pad_block [of "raw_text env key now"] raw_sexp_wf(2) [OF assms(2,3), of now] in \<open>auto simp: UINT_MAX_def\<close>)
  obtain mem2 where m2: "write_sexp ?al (protected_sexp (ge_mp env) key iv salt ?it c now) pgp_memory_new = (mem2, True)"
    "mem_contents mem2 = elem_enc (Sub (protected_sexp (ge_mp env) key iv salt ?it c now))"
    using write_sexp_contents [OF wf] by blast
  have "16 dvd length c" "?it < 2 ^ 32" using po assms(7) length_pad_block(1) by (simp_all add: UINT_MAX_def)
  note e = blocks_not_names(1,2) [OF this(1)] blocks_not_names(3) [OF this(2)]
  have n: "key_hash env key now \<noteq> str_bytes ''hash''" "key_hash env key now \<noteq> str_bytes ''sha1''" "salt \<noteq> str_bytes ''sha1''"
    "now \<noteq> str_bytes ''protected-at''" "str_bytes ''sha1'' \<noteq> str_bytes ''hash''"
    "str_bytes ''openpgp-s2k3-sha1-aes-cbc'' \<noteq> str_bytes ''protected''"
    using length_key_hash [OF assms(2), of key now] po by (auto simp: str_bytes_def)
  have p: "write_protected_seckey env (Some (iv, salt)) now s (key\<lparr>sec_protection := pr\<rparr>) pw =
      Some (s @ [protected_elem iv salt ?it c, at_elem now],
        key\<lparr>sec_protection := pr\<lparr>kp_iv := iv, kp_s2k := (kp_s2k pr)\<lparr>s2k_salt := salt\<rparr>\<rparr>\<rparr>)"
    if "kp_symm_alg pr = PGP_SA_AES_128" "kp_cipher_mode pr = PGP_CIPHER_MODE_CBC" "s2k_hash_alg (kp_s2k pr) = PGP_HASH_SHA1"
      "s2k_specifier (kp_s2k pr) = PGP_S2KS_ITERATED_AND_SALTED" "s2k_iterations (kp_s2k pr) = ?it" for s pr
    using that m assms(5,6) po wm(2) [of "[]"] length_key_hash [OF assms(2), of key now] e n
    by (simp add: write_protected_seckey_def al Let_def wk ch add_string_block_to_sexp_def add_block_to_sexp_def
        add_sub_sexp_to_sexp_def add_unsigned_block_to_sexp_def raw_sexp_def protected_elem_def at_elem_def pgp_key_size_def
        G10_SHA1_HASH_SIZE_def G10_PROTECTED_AT_SIZE_def PGP_SALT_SIZE_def del: elem_enc.simps)
  show ?thesis
    using po wm(1) m2
    by (simp add: g10_write_seckey_def al Let_def p add_string_block_to_sexp_def add_block_to_sexp_def
        add_sub_sexp_to_sexp_def protected_sexp_def del: elem_enc.simps)
qed

lemma lookup_pub_vars:
  assumes "g10_key_ok mp key" "length name > 1"
  shows "lookup_variable (pub_vars mp (pub_key (sec_pubkey key)) @ tail) name = lookup_variable tail name"
  using assms(1) by (cases rule: g10_key_cases; use assms(2) in \<open>auto simp: pub_vars_def num_var_def str_bytes_def\<close>)

text \<open>The key that the public part of a file gives.\<close>

definition locked_key :: "'n pgp_seckey \<Rightarrow> bytes \<Rightarrow> bytes \<Rightarrow> 'n pgp_seckey" where
  "locked_key key iv salt = zero_seckey\<lparr>
     sec_pubkey := zero_pubkey\<lparr>pub_version := PGP_V4, pub_alg := pub_alg (sec_pubkey key), pub_key := pub_key (sec_pubkey key)\<rparr>,
     sec_protection :=
       \<lparr>kp_s2k = \<lparr>s2k_usage = PGP_S2KU_ENCRYPTED_AND_HASHED, s2k_specifier = PGP_S2KS_ITERATED_AND_SALTED,
          s2k_hash_alg = PGP_HASH_SHA1, s2k_salt = salt, s2k_iterations = key_iterations key\<rparr>,
        kp_symm_alg = PGP_SA_AES_128, kp_cipher_mode = PGP_CIPHER_MODE_CBC,
        kp_iv = mem_write 0 iv (replicate PGP_MAX_BLOCK_SIZE 0)\<rparr>\<rparr>"

lemma locked_key_simps [simp]:
  "sec_pubkey (locked_key key iv salt) =
     zero_pubkey\<lparr>pub_version := PGP_V4, pub_alg := pub_alg (sec_pubkey key), pub_key := pub_key (sec_pubkey key)\<rparr>"
  "sec_key (locked_key key iv salt) = Sec_none"
  by (simp_all add: locked_key_def zero_seckey_def)

lemma protected_parse_form:
  assumes "env_ok env" "g10_key_ok (ge_mp env) key" "protect_ok env key iv salt now"
    and "16 dvd length c" "0 < length c" "length c < 200000"
  shows "g10_parse_seckey env zero_seckey (elem_enc (Sub (protected_sexp (ge_mp env) key iv salt (key_iterations key) c now))) None password =
    (case password of
       None \<Rightarrow> Some (Some ((locked_key key iv salt)\<lparr>sec_encrypted := True\<rparr>))
     | Some pw \<Rightarrow> and_then (decrypt_protected_section env c (locked_key key iv salt) pw)
         (\<lambda>decrypted. Some (parse_decrypted env (locked_key key iv salt) decrypted now)))"
proof -
  let ?al = "\<lambda>_ :: nat. True" and ?it = "key_iterations key" and ?e = "protected_sexp (ge_mp env) key iv salt (key_iterations key) c now"
  have al: "ge_alloc env = ?al" using assms(1) by (simp add: env_ok_def)
  note po = assms(3) [unfolded protect_ok_def Let_def] and m = parse_material_ok [OF assms(1,2)]
  have wf: "elem_wf (Sub ?e)" "length (elem_enc (Sub ?e)) < 2 ^ 60"
    by (rule protected_sexp_wf [OF assms(2)]; use po assms(4-6) in \<open>auto simp: UINT_MAX_def\<close>)+
  have p: "parse_sexp ?al (elem_enc (Sub ?e)) (length (elem_enc (Sub ?e))) = Some (Some (?e, [], 0))"
    using parse_sexp_enc [OF wf(1), of "length (elem_enc (Sub ?e))" 0 "[]"] wf(2) by simp
  have t: "\<not> strncmp_eq (str_bytes ''private-key'') (str_bytes ''protected-private-key'') (length (str_bytes ''protected-private-key''))"
    "strncmp_eq x x (length x)" for x
    by (simp_all add: strncmp_eq_def cstr_def str_bytes_def)
  obtain name x es where n: "pub_vars (ge_mp env) (pub_key (sec_pubkey key)) = Block name # x # es"
    "g10_pubkey_alg name = Some (pub_alg (sec_pubkey key))"
    using m(4) by blast
  let ?vars = "pub_vars (ge_mp env) (pub_key (sec_pubkey key)) @ [protected_elem iv salt ?it c, at_elem now]"
  have l: "lookup_variable ?vars ''protected'' = Some [Block (str_bytes ''protected''), Block (str_bytes ''openpgp-s2k3-sha1-aes-cbc''),
       Sub [Sub [Block (str_bytes ''sha1''), Block salt, Block (print_unsigned ?it)], Block iv], Block c]"
    "lookup_variable ?vars ''protected-at'' = Some [Block (str_bytes ''protected-at''), Block now]"
    by (simp_all add: lookup_pub_vars [OF assms(2)] protected_elem_def at_elem_def) (simp_all add: str_bytes_def)
  have b: "block_to_unsigned (ge_stack env) (print_unsigned ?it) = Some ?it"
    by (rule block_to_unsigned_print) (use po in auto)
  show ?thesis
    using p t n m(1) [of zero_pubkey] l b po
    by (simp add: g10_parse_seckey_def al protected_sexp_def merge_pubring_def Let_def parse_protected_seckey_def locked_key_def
        zero_seckey_def PGP_SALT_SIZE_def G10_PROTECTED_AT_SIZE_def split: option.splits)
qed

text \<open>With the password the decrypted section is the expression that was encrypted, and its hash is right.\<close>

lemma protected_unlock:
  assumes "env_ok env" "sha1_ok (ge_botan env)" "g10_key_ok (ge_mp env) key" "protect_ok env key iv salt now"
    and "pgp_s2k_iterated (ge_pbkdf env) PGP_HASH_SHA1 16 pw (Some salt) (key_iterations key) = Some dk"
    and "ge_cipher env ''AES-128/CBC/NoPadding'' True dk iv c = Some (pad_block (raw_text env key now))"
  shows "decrypt_protected_section env c (locked_key key iv salt) pw = Some (Some (raw_sexp env key now))"
    "parse_decrypted env (locked_key key iv salt) (raw_sexp env key now) now =
       Some ((locked_key key iv salt)\<lparr>sec_key := sec_key key, sec_checkhash := key_hash env key now, sec_encrypted := False\<rparr>)"
proof -
  let ?raw = "raw_sexp env key now" and ?lk = "locked_key key iv salt" and ?n = "16 - length (raw_text env key now) mod 16"
  have al: "ge_alloc env = (\<lambda>_. True)" using assms(1) by (simp add: env_ok_def)
  note po = assms(4) [unfolded protect_ok_def Let_def]
  note rw = raw_sexp_wf [OF assms(2,3), of now] and pb = length_pad_block [of "raw_text env key now"]
  have p: "parse_sexp (\<lambda>_. True) (pad_block (raw_text env key now)) (length (pad_block (raw_text env key now))) =
      Some (Some (?raw, replicate ?n (of_char (CHR ''X'')), ?n))"
    unfolding pad_block_def by (rule parse_sexp_enc [OF rw(1)]) (use rw(2) pb(3) in \<open>auto simp: pad_block_def\<close>)
  show "decrypt_protected_section env c ?lk pw = Some (Some ?raw)"
    using assms(5,6) p po
    by (simp add: decrypt_protected_section_def locked_key_def Let_def pgp_key_size_def al mem_write_def del: elem_enc.simps)
       (simp add: raw_sexp_def)
  let ?sk = "?lk\<lparr>sec_key := sec_key key\<rparr>"
  have "parse_seckey env ?lk (sec_vars (ge_mp env) (sec_key key)) (pub_alg (sec_pubkey ?lk)) = Some ?sk"
    using parse_material_ok(2) [OF assms(1,3), of ?lk "[]"] by simp
  moreover have "g10_calculated_hash env ?sk now = Some (key_hash env key now)"
    using calculated_hash_cong [of ?sk key env now] calculated_hash_ok [OF assms(1-3)] po by simp
  moreover have "strncmp_eq x x (length x)" for x by (simp add: strncmp_eq_def)
  ultimately show "parse_decrypted env ?lk ?raw now = Some (?sk\<lparr>sec_checkhash := key_hash env key now, sec_encrypted := False\<rparr>)"
    using length_key_hash [OF assms(2), of key now] by (simp add: parse_decrypted_def raw_sexp_def G10_SHA1_HASH_SIZE_def)
qed

lemma protected_roundtrip:
  assumes "env_ok env" "sha1_ok (ge_botan env)" "cbc_ok env" "g10_key_ok (ge_mp env) key" "protect_ok env key iv salt now"
    and "pgp_s2k_iterated (ge_pbkdf env) PGP_HASH_SHA1 16 pw (Some salt) (key_iterations key) = Some dk" "length dk = 16"
  obtains data c key' key'' where "g10_write_seckey env (Some (iv, salt)) now key pw = Some data"
    "data = elem_enc (Sub (protected_sexp (ge_mp env) key iv salt (key_iterations key) c now))"
    "g10_parse_seckey env zero_seckey data None (Some pw) = Some (Some key')"
    "pub_key (sec_pubkey key') = pub_key (sec_pubkey key)" "sec_key key' = sec_key key" "\<not> sec_encrypted key'"
    "g10_parse_seckey env zero_seckey data None None = Some (Some key'')"
    "sec_pubkey key'' = sec_pubkey key'" "sec_key key'' = Sec_none" "sec_encrypted key''"
    "s2k_salt (kp_s2k (sec_protection key'')) = salt" "s2k_iterations (kp_s2k (sec_protection key'')) = key_iterations key"
    "take 16 (kp_iv (sec_protection key'')) = iv"
proof -
  obtain c where c: "ge_cipher env ''AES-128/CBC/NoPadding'' False dk iv (pad_block (raw_text env key now)) = Some c"
    "length c = length (pad_block (raw_text env key now))"
    "ge_cipher env ''AES-128/CBC/NoPadding'' True dk iv c = Some (pad_block (raw_text env key now))"
    using assms(3,5,7) length_pad_block(1) unfolding cbc_ok_def protect_ok_def Let_def by blast
  note pb = length_pad_block [of "raw_text env key now"] and rw = raw_sexp_wf(2) [OF assms(2,4), of now]
  have l: "16 dvd length c" "0 < length c" "length c < 200000" using c(2) pb rw by (simp, linarith+)
  note f = protected_parse_form [OF assms(1,4,5) l] and u = protected_unlock [OF assms(1,2,4-6) c(3)]
  have 1: "g10_parse_seckey env zero_seckey (elem_enc (Sub (protected_sexp (ge_mp env) key iv salt (key_iterations key) c now))) None (Some pw) =
      Some (Some ((locked_key key iv salt)\<lparr>sec_key := sec_key key, sec_checkhash := key_hash env key now, sec_encrypted := False\<rparr>))"
    by (simp add: f u del: elem_enc.simps)
  have 2: "g10_parse_seckey env zero_seckey (elem_enc (Sub (protected_sexp (ge_mp env) key iv salt (key_iterations key) c now))) None None =
      Some (Some ((locked_key key iv salt)\<lparr>sec_encrypted := True\<rparr>))"
    by (simp add: f del: elem_enc.simps)
  show thesis
    by (rule that [OF protected_write [OF assms(1,2,4-6) c(1,2)] refl 1 _ _ _ 2])
       (use assms(5) in \<open>simp_all add: locked_key_def zero_seckey_def protect_ok_def Let_def\<close>)
qed

end
