(* ===== verification/Key_Identity.thy ===== *)
theory Key_Identity
  imports Key_Data Encrypted_Write Packet_Roundtrip
begin

text \<open>
  What identifies a key: the packet of a public key, the fingerprint and the key identifier that are computed of it, and
  the grip.
\<close>

section \<open>The packet of a public key\<close>

lemma length_bn_enc: "mp_ok mp \<Longrightarrow> mp_bits mp n \<le> 65535 \<Longrightarrow> length (bn_enc mp n) \<le> 8194"
  using mp_okD(4) [of mp n] by (simp add: bn_enc_def BITS_TO_BYTES_def)

lemma length_ec_enc:
  assumes "mp_ok mp" "mp_bits mp n \<le> 65535" "curve < PGP_CURVE_MAX"
  shows "length (ec_enc mp curve n) \<le> 8204"
proof -
  have "curve \<in> {0, 1, 2, 3, 4, 5}" using assms(3) by (auto simp: PGP_CURVE_MAX_def)
  then show ?thesis using length_bn_enc [OF assms(1,2)] by (auto simp: ec_enc_def ec_curves_def)
qed

lemma length_pubkey_enc:
  assumes "mp_ok mp" "pubkey_wf mp key"
  shows "length (pubkey_enc mp key) < 40000"
proof -
  have n: "mp_bits mp n \<le> 65535" if "n \<in> set (material_numbers (pub_key key))" for n using assms(2) that by (simp add: pubkey_wf_def)
  have m: "pub_material_wf (pub_alg key) (pub_key key)" using assms(2) by (simp add: pubkey_wf_def)
  note l = length_bn_enc [OF assms(1) n] and e = length_ec_enc [OF assms(1) n]
  have "length (pub_material_enc mp (pub_key key)) \<le> 8204 * 4 + 4"
  proof (cases "pub_key key")
    case (Pub_rsa a b)
    then show ?thesis using l [of a] l [of b] by (simp add: pub_material_enc_def material_numbers_def)
  next
    case (Pub_dsa a b c d)
    then show ?thesis using l [of a] l [of b] l [of c] l [of d] by (simp add: pub_material_enc_def material_numbers_def)
  next
    case (Pub_elgamal a b c)
    then show ?thesis using l [of a] l [of b] l [of c] by (simp add: pub_material_enc_def material_numbers_def)
  qed (use m e in \<open>fastforce simp: pub_material_enc_def material_numbers_def pub_material_wf_def\<close>)+
  then show ?thesis by (simp add: pubkey_enc_def)
qed

lemma build_pubkey_body:
  assumes "mp_ok mp" "pubkey_wf mp key"
  obtains mem where "pgp_build_pubkey mp (\<lambda>_. True) pgp_memory_new key False = (mem, True)" "buf_ok 128 mem"
    "write_pubkey_body mp (\<lambda>_. True) key (pgp_memory_init (\<lambda>_. True) pgp_memory_new 128) = (mem, True)"
    "mem_contents mem = pubkey_enc mp key" "m_length mem = length (pubkey_enc mp key)"
proof -
  let ?i = "pgp_memory_init (\<lambda>_. True) pgp_memory_new 128"
  have "buf_ok 128 ?i" "m_length ?i = 0" "mem_contents ?i = []"
    by (simp_all add: pgp_memory_init_def pgp_memory_new_def buf_ok_def mem_data_def mem_contents_def)
  then obtain mem where m: "write_pubkey_body mp (\<lambda>_. True) key ?i = (mem, True)" "buf_ok 128 mem"
    "mem_contents mem = pubkey_enc mp key" "m_length mem = length (pubkey_enc mp key)"
    using writesD [OF writes_pubkey_body [OF assms], of 128 ?i] length_pubkey_enc [OF assms] by auto
  show thesis by (rule that [OF _ m(2,1,3,4)]) (simp add: pgp_build_pubkey_def m(1))
qed

lemma make_packet_ok:
  assumes "buf_ok 128 mem" "m_length mem < 2 ^ 32"
  shows "mem_contents (pgp_memory_make_packet (\<lambda>_. True) mem tag) = packet_bytes (to_byte tag) (mem_contents mem)"
proof -
  let ?n = "m_length mem"
  define extra :: nat where "extra = (if ?n < 192 then 1 else if ?n < 8192 + 192 then 2 else 5)"
  obtain mem1 where p: "pgp_memory_pad (\<lambda>_. True) mem (extra + 1) = (mem1, True)" "mem_contents mem1 = mem_contents mem"
    "m_length mem1 = ?n" "?n \<le> length (mem_data mem1)"
    by (rule pad_ok [OF assms(1), of "extra + 1" 6]) (use assms(2) in \<open>auto simp: extra_def\<close>)
  have l: "length (write_packet_len ?n) = extra" by (simp add: write_packet_len_def extra_def STORE32BE_def)
  have w: "(if ?n < 192 then [to_byte ?n] else if ?n < 8192 + 192 then [to_byte ((?n - 192) div 256) + 192, to_byte (?n - 192)]
      else 0xff # STORE32BE ?n) = write_packet_len ?n"
    by (simp add: write_packet_len_def drop_bit_eq_div to_byte_def)
  have t: "PGP_PTAG_ALWAYS_SET OR PGP_PTAG_NEW_FORMAT OR to_byte tag = to_byte tag OR PGP_PTAG_ALWAYS_SET OR PGP_PTAG_NEW_FORMAT"
    by (simp add: ac_simps)
  have "take ?n (mem_data mem1) = mem_contents mem" using p(2,3) by (simp add: mem_contents_def)
  moreover have "extra + 1 + ?n < 2 ^ 64" using assms(2) by (simp add: extra_def)
  moreover have "length (mem_contents mem) = ?n" by (rule length_mem_contents [OF assms(1)])
  ultimately show ?thesis
    using p(1,3) l unfolding pgp_memory_make_packet_def Let_def w t extra_def [symmetric]
    by (simp add: mem_contents_def [of "mem1\<lparr>m_buf := _, m_length := _\<rparr>"] mem_data_def [of "mem1\<lparr>m_buf := _, m_length := _\<rparr>"]
        mem_write_def packet_bytes_def)
qed

lemma build_pubkey_packet:
  assumes "mp_ok mp" "pubkey_wf mp key"
  shows "\<exists>mem. pgp_build_pubkey mp (\<lambda>_. True) pgp_memory_new key True = (mem, True) \<and>
    mem_contents mem = packet_bytes 6 (pubkey_enc mp key)"
proof -
  obtain mem where "buf_ok 128 mem" "write_pubkey_body mp (\<lambda>_. True) key (pgp_memory_init (\<lambda>_. True) pgp_memory_new 128) = (mem, True)"
    "mem_contents mem = pubkey_enc mp key" "m_length mem = length (pubkey_enc mp key)"
    by (rule build_pubkey_body [OF assms])
  then show ?thesis
    using make_packet_ok [of mem 6] length_pubkey_enc [OF assms] by (simp add: pgp_build_pubkey_def)
qed

section \<open>Fingerprints and identifiers\<close>

text \<open>The digest of RFC 4880, section 12.2.\<close>

definition v4_digest :: "'n botan_mp \<Rightarrow> botan \<Rightarrow> 'n pgp_pubkey \<Rightarrow> bytes" where
  "v4_digest mp bo key =
     sha1 bo (0x99 # to_byte (length (pubkey_enc mp key) div 256) # to_byte (length (pubkey_enc mp key)) # pubkey_enc mp key)"

lemma sha1_result: "sha1_ok bo \<Longrightarrow> snd (pgp_hash_finish bo (sha1_ctx bs)) = (PGP_SHA1_HASH_SIZE, sha1 bo bs)"
  using sha1 [of bo bs] by (simp add: pgp_hash_finish_def sha1_ctx_def)

lemma add_int_two: "pgp_hash_add_int h n 2 = pgp_hash_add (pgp_hash_add h [ucast (drop_bit 8 n)]) [ucast n]"
  unfolding numeral_2_eq_2 by simp

lemma fingerprint_v4:
  assumes "mp_ok mp" "sha1_ok bo" "pubkey_wf mp key" "pub_version key = PGP_V4"
  shows "pgp_fingerprint mp (\<lambda>_. True) bo fp key =
    (\<lparr>fp_fingerprint = mem_write 0 (v4_digest mp bo key) (fp_fingerprint fp), fp_length = PGP_SHA1_HASH_SIZE\<rparr>, Inr True)"
proof -
  obtain mem where m: "pgp_build_pubkey mp (\<lambda>_. True) pgp_memory_new key False = (mem, True)"
    "mem_contents mem = pubkey_enc mp key" "m_length mem = length (pubkey_enc mp key)"
    by (rule build_pubkey_body [OF assms(1,3)])
  have t: "take (pgp_mem_len mem) (mem_data mem) = pubkey_enc mp key" using m(2,3) by (simp add: mem_contents_def pgp_mem_len_def)
  have l: "length (pubkey_enc mp key) < 40000" by (rule length_pubkey_enc [OF assms(1,3)])
  have b: "ucast (drop_bit 8 (word_of_nat n :: 32 word)) = to_byte (n div 256)" "ucast (word_of_nat n :: 32 word) = to_byte n"
    if "n < 40000" for n
    using that by (simp_all add: to_byte_def word_unat_eq_iff unsigned_ucast_eq take_bit_eq_mod unsigned_drop_bit_eq
        unsigned_of_nat drop_bit_eq_div unat_div)
  show ?thesis
    using m(1,3) t assms(4) sha1_create [OF assms(2)] b [OF l]
    by (simp add: pgp_fingerprint_def Let_def pgp_mem_len_def store_digest_def v4_digest_def add_int_two sha1_result [OF assms(2)])
qed

lemma keyid_v4:
  assumes "mp_ok mp" "sha1_ok bo" "pubkey_wf mp key" "pub_version key = PGP_V4"
  shows "pgp_keyid mp (\<lambda>_. True) bo finger 8 key = Some (Some (drop 12 (v4_digest mp bo key)))"
proof -
  have "length (v4_digest mp bo key) = 20" using sha1 [OF assms(2)] by (simp add: v4_digest_def PGP_SHA1_HASH_SIZE_def)
  then show ?thesis
    using assms(4) by (simp add: pgp_keyid_def fingerprint_v4 [OF assms] c_true_def mem_write_def PGP_SHA1_HASH_SIZE_def)
qed

section \<open>Grips\<close>

text \<open>A number without its highest bit set is hashed without its last byte.\<close>

lemma grip_hash_low:
  assumes "mp_ok mp" "\<not> bn_is_zero mp n" "\<not> high_bit (mp_bytes mp n)" "mp_bytes mp n \<noteq> []"
  shows "grip_hash_bignum mp (\<lambda>_. True) hash n = Some (pgp_hash_add hash (0 # butlast (mp_bytes mp n)))"
  using assms by (cases "length (mp_bytes mp n)") (simp_all add: grip_hash_bignum_def mp_okD [OF assms(1)] butlast_conv_take)

lemma grip_of_point:
  assumes "mp_ok mp" "\<not> bn_is_zero mp n" "\<not> high_bit (mp_bytes mp n)" "mp_bytes mp n \<noteq> []"
    and "sha1_ok bo" "pub_alg key \<in> {PGP_PKA_ECDSA, PGP_PKA_EDDSA, PGP_PKA_SM2}" "pub_key key = Pub_ecc curve n"
  shows "rnp_key_store_get_key_grip mp (\<lambda>_. True) bo key = Some (sha1 bo (0 # butlast (mp_bytes mp n)))"
proof -
  have "grip_numbers key = Some [n]" using assms(6,7) by (auto simp: grip_numbers_def Let_def)
  moreover obtain h where "pgp_hash_finish bo (sha1_ctx (0 # butlast (mp_bytes mp n))) = (h, PGP_SHA1_HASH_SIZE, sha1 bo (0 # butlast (mp_bytes mp n)))"
    using sha1_result [OF assms(5), of "0 # butlast (mp_bytes mp n)"] by (metis surjective_pairing)
  ultimately show ?thesis
    using sha1_create [OF assms(5)] grip_hash_low [OF assms(1-4)]
    by (simp add: rnp_key_store_get_key_grip_def PGP_SHA1_HASH_SIZE_def PGP_FINGERPRINT_SIZE_def)
qed

section \<open>Natural numbers as big numbers\<close>

text \<open>An instance of the parameter that has the assumed behaviour.\<close>

fun be_bytes :: "nat \<Rightarrow> bytes" where
  "be_bytes n = (if n = 0 then [] else be_bytes (n div 256) @ [to_byte n])"

declare be_bytes.simps [simp del]

definition be_value :: "bytes \<Rightarrow> nat" where
  "be_value bs = foldl (\<lambda>a b. 256 * a + unat b) 0 bs"

definition nat_mp :: "nat botan_mp" where
  "nat_mp = \<lparr>mp_init = 0, mp_from_bin = (\<lambda>bs. Some (be_value bs)), mp_to_bin = (\<lambda>n. Some (be_bytes n)),
     mp_num_bits = (\<lambda>n. Some (if n = 0 then 0 else 8 * (length (be_bytes n) - 1) + significant_bits (unat (be_bytes n ! 0)))),
     mp_is_zero = (\<lambda>n. n = 0)\<rparr>"

lemma be_bytes_facts: "be_value (be_bytes n) = n" "be_bytes n = [] \<longleftrightarrow> n = 0" "n \<noteq> 0 \<Longrightarrow> be_bytes n ! 0 \<noteq> 0"
proof (induction n rule: be_bytes.induct)
  case (1 n)
  { case 1 then show ?case using "1.IH" by (subst be_bytes.simps) (auto simp: be_value_def) }
  { case 2 then show ?case by (subst be_bytes.simps) simp }
  { case 3
    show ?case
    proof (cases "n < 256")
      case True
      then have "be_bytes n = [to_byte n]" using 3 by (subst be_bytes.simps, subst be_bytes.simps) simp
      moreover have "unat (to_byte n) = n" using True by simp
      ultimately show ?thesis using 3 by (metis nth_Cons_0 unat_0)
    next
      case False
      with "1.IH" 3 show ?thesis by (subst be_bytes.simps) (auto simp: nth_append)
    qed }
qed

lemma nat_mp_ok: "mp_ok nat_mp"
proof -
  have "be_value (0 # bs) = be_value bs" for bs by (simp add: be_value_def)
  moreover have "BITS_TO_BYTES (8 * (length (be_bytes n) - 1) + significant_bits (unat (be_bytes n ! 0))) = length (be_bytes n)"
    if n: "n \<noteq> 0" for n
  proof -
    let ?h = "unat (be_bytes n ! 0)"
    have "0 < ?h" using be_bytes_facts(3) [OF that] by (simp add: unat_gt_0)
    moreover have "?h < 2 ^ 8" using unsigned_less [of "be_bytes n ! 0"] by simp
    ultimately have "0 < significant_bits ?h" "(2 :: nat) ^ (significant_bits ?h - 1) < 2 ^ 8"
      using significant_bits_bounds [of ?h] by (simp, linarith)
    then have "0 < significant_bits ?h" "significant_bits ?h \<le> 8"
      using power_less_imp_less_exp [of "2 :: nat" "significant_bits ?h - 1" 8] by auto
    moreover obtain m where "length (be_bytes n) = Suc m" using be_bytes_facts(2) [of n] n by (metis length_0_conv not0_implies_Suc)
    ultimately show ?thesis unfolding BITS_TO_BYTES_def by (simp only: diff_Suc_1)
  qed
  ultimately show ?thesis
    unfolding mp_ok_def nat_mp_def using be_bytes_facts by (auto simp: BITS_TO_BYTES_def)
qed

end
