(* ===== verification/Linked_List.thy ===== *)
theory Linked_List
  imports Rnp_Prelude "HOL-Library.Monad_Syntax"
begin

text \<open>
  \<^verbatim>\<open>src/lib/list.c\<close>: doubly linked lists with a head, on an explicit heap.

  The heap has heads and items at addresses.  The caller's data lies behind the item in the
  same block: a data pointer is the item pointer plus one, in units of the item
  structure, and both pointers are in use.  Allocation takes the next address, which was
  never used before, so a pointer to freed memory stays invalid.  An operation that
  dereferences an invalid pointer, or overruns a block, has no result (\<^const>\<open>None\<close>), and so
  has a loop that never ends.
\<close>

type_synonym addr = nat

record list_head =
  lh_first :: "addr option"
  lh_last :: "addr option"
  lh_length :: "64 word"

record list_item =
  li_head :: "addr option"
  li_prev :: "addr option"
  li_next :: "addr option"
  li_data :: bytes

record heap =
  hp_heads :: "addr \<Rightarrow> list_head option"
  hp_items :: "addr \<Rightarrow> list_item option"
  hp_next :: addr

definition set_head :: "heap \<Rightarrow> addr \<Rightarrow> (list_head \<Rightarrow> list_head) \<Rightarrow> heap option" where
  "set_head h a f = map_option (\<lambda>x. h\<lparr>hp_heads := (hp_heads h)(a \<mapsto> f x)\<rparr>) (hp_heads h a)"

definition set_item :: "heap \<Rightarrow> addr \<Rightarrow> (list_item \<Rightarrow> list_item) \<Rightarrow> heap option" where
  "set_item h a f = map_option (\<lambda>x. h\<lparr>hp_items := (hp_items h)(a \<mapsto> f x)\<rparr>) (hp_items h a)"

definition free_head :: "heap \<Rightarrow> addr \<Rightarrow> heap option" where
  "free_head h a = map_option (\<lambda>x. h\<lparr>hp_heads := (hp_heads h)(a := None)\<rparr>) (hp_heads h a)"

definition free_item :: "heap \<Rightarrow> addr \<Rightarrow> heap option" where
  "free_item h a = map_option (\<lambda>x. h\<lparr>hp_items := (hp_items h)(a := None)\<rparr>) (hp_items h a)"

definition new_head :: "heap \<Rightarrow> heap \<times> addr" where
  "new_head h =
     (h\<lparr>hp_heads := (hp_heads h)(hp_next h \<mapsto> \<lparr>lh_first = None, lh_last = None, lh_length = 0\<rparr>),
        hp_next := hp_next h + 1\<rparr>, hp_next h)"

definition new_item :: "heap \<Rightarrow> list_item \<Rightarrow> heap \<times> addr" where
  "new_item h i = (h\<lparr>hp_items := (hp_items h)(hp_next h \<mapsto> i), hp_next := hp_next h + 2\<rparr>, hp_next h)"

section \<open>The operations\<close>

definition get_item_ptr :: "addr option \<Rightarrow> addr option" where
  "get_item_ptr p = map_option (\<lambda>a. a - 1) p"

definition get_data_ptr :: "addr option \<Rightarrow> addr option" where
  "get_data_ptr p = map_option (\<lambda>a. a + 1) p"

definition list_length :: "heap \<Rightarrow> addr option \<Rightarrow> 64 word option" where
  "list_length h head = (case head of None \<Rightarrow> Some 0 | Some a \<Rightarrow> map_option lh_length (hp_heads h a))"

text \<open>The bytes that a new item gets: a copy of the caller's, who must have as many, or zeros.\<close>

definition item_data :: "bytes option \<Rightarrow> nat \<Rightarrow> bytes option" where
  "item_data data data_size =
     (case data of
        None \<Rightarrow> Some (replicate data_size 0)
      | Some bs \<Rightarrow> if data_size \<le> length bs then Some (take data_size bs) else None)"

text \<open>The second half of \<^verbatim>\<open>list_do_insert\<close>: the item \<open>a\<close> is linked into the list.\<close>

definition list_link :: "heap \<Rightarrow> addr \<Rightarrow> addr \<Rightarrow> addr option \<Rightarrow> heap option" where
  "list_link h lh a wh =
     do {
       head \<leftarrow> hp_heads h lh;
       h \<leftarrow> (if lh_first head = None
             then set_head h lh (\<lambda>x. x\<lparr>lh_first := Some a, lh_last := Some a\<rparr>)
             else
               (case wh of
                  Some w \<Rightarrow> do {
                    wi \<leftarrow> hp_items h w;
                    h \<leftarrow> set_item h a (\<lambda>i. i\<lparr>li_next := Some w, li_prev := li_prev wi\<rparr>);
                    h \<leftarrow> (case li_prev wi of
                           None \<Rightarrow> Some h
                         | Some p \<Rightarrow> set_item h p (\<lambda>i. i\<lparr>li_next := Some a\<rparr>));
                    h \<leftarrow> set_item h w (\<lambda>i. i\<lparr>li_prev := Some a\<rparr>);
                    if lh_first head = Some w then set_head h lh (\<lambda>x. x\<lparr>lh_first := Some a\<rparr>) else Some h
                  }
                | None \<Rightarrow> do {
                    l \<leftarrow> lh_last head;
                    h \<leftarrow> set_item h a (\<lambda>i. i\<lparr>li_prev := Some l\<rparr>);
                    h \<leftarrow> set_item h l (\<lambda>i. i\<lparr>li_next := Some a\<rparr>);
                    set_head h lh (\<lambda>x. x\<lparr>lh_last := Some a\<rparr>)
                  }));
       set_head h lh (\<lambda>x. x\<lparr>lh_length := lh_length x + 1\<rparr>)
     }"

text \<open>
  \<^verbatim>\<open>list_do_insert\<close>.  \<open>lst\<close> is the pointer to the list variable: \<^const>\<open>None\<close> for a null pointer,
  otherwise the value of the variable, which is also returned.  A head and an item
  without its data take 24 bytes each.
\<close>

definition list_do_insert ::
    "alloc \<Rightarrow> heap \<Rightarrow> addr option option \<Rightarrow> addr option \<Rightarrow> bytes option \<Rightarrow> nat
     \<Rightarrow> (heap \<times> addr option option \<times> addr option) option" where
  "list_do_insert al h lst wh data data_size =
     (case lst of
        None \<Rightarrow> Some (h, lst, None)
      | Some var \<Rightarrow>
          if data_size = 0 then Some (h, lst, None)
          else if var = None \<and> \<not> al 24 then Some (h, lst, None)
          else
            (case (case var of None \<Rightarrow> new_head h | Some lh \<Rightarrow> (h, lh)) of
               (h1, lh) \<Rightarrow>
                 if \<not> al (u64 (24 + data_size)) then
                   (if var = None then do { h2 \<leftarrow> free_head h1 lh; Some (h2, Some None, None) }
                    else Some (h1, lst, None))
                 else if 2 ^ 64 \<le> 24 + data_size then None
                 else do {
                   bs \<leftarrow> item_data data data_size;
                   (case new_item h1 \<lparr>li_head = Some lh, li_prev = None, li_next = None, li_data = bs\<rparr> of
                      (h2, a) \<Rightarrow> do {
                        h3 \<leftarrow> list_link h2 lh a wh;
                        Some (h3, Some (Some lh), Some a)
                      })
                 }))"

definition list_append ::
    "alloc \<Rightarrow> heap \<Rightarrow> addr option option \<Rightarrow> bytes option \<Rightarrow> nat \<Rightarrow> (heap \<times> addr option option \<times> addr option) option" where
  "list_append al h lst data data_size =
     do {
       (h, lst, item) \<leftarrow> list_do_insert al h lst None data data_size;
       Some (h, lst, get_data_ptr item)
     }"

text \<open>The list variable is here the field of the item, which is written back.\<close>

definition set_list_var :: "heap \<Rightarrow> addr \<Rightarrow> addr option option \<Rightarrow> heap option" where
  "set_list_var h w lst = (case lst of None \<Rightarrow> Some h | Some var \<Rightarrow> set_item h w (\<lambda>i. i\<lparr>li_head := var\<rparr>))"

definition list_insert_after ::
    "alloc \<Rightarrow> heap \<Rightarrow> addr option \<Rightarrow> bytes option \<Rightarrow> nat \<Rightarrow> (heap \<times> addr option) option" where
  "list_insert_after al h wh data data_size =
     (case get_item_ptr wh of
        None \<Rightarrow> Some (h, None)
      | Some w \<Rightarrow> do {
          wi \<leftarrow> hp_items h w;
          (h, lst, item) \<leftarrow> list_do_insert al h (Some (li_head wi)) (li_next wi) data data_size;
          h \<leftarrow> set_list_var h w lst;
          Some (h, get_data_ptr item)
        })"

definition list_insert_before ::
    "alloc \<Rightarrow> heap \<Rightarrow> addr option \<Rightarrow> bytes option \<Rightarrow> nat \<Rightarrow> (heap \<times> addr option) option" where
  "list_insert_before al h wh data data_size =
     (case get_item_ptr wh of
        None \<Rightarrow> Some (h, None)
      | Some w \<Rightarrow> do {
          wi \<leftarrow> hp_items h w;
          (h, lst, item) \<leftarrow> list_do_insert al h (Some (li_head wi)) (Some w) data data_size;
          h \<leftarrow> set_list_var h w lst;
          Some (h, get_data_ptr item)
        })"

definition list_insert ::
    "alloc \<Rightarrow> heap \<Rightarrow> addr option option \<Rightarrow> bytes option \<Rightarrow> nat \<Rightarrow> (heap \<times> addr option option \<times> addr option) option" where
  "list_insert al h lst data data_size =
     (case lst of
        None \<Rightarrow> Some (h, lst, None)
      | Some var \<Rightarrow> do {
          wh \<leftarrow> (case var of None \<Rightarrow> Some None | Some lh \<Rightarrow> map_option lh_first (hp_heads h lh));
          (h, lst, item) \<leftarrow> list_do_insert al h lst wh data data_size;
          Some (h, lst, get_data_ptr item)
        })"

definition list_front :: "heap \<Rightarrow> addr option \<Rightarrow> addr option option" where
  "list_front h head =
     (case head of None \<Rightarrow> Some None | Some a \<Rightarrow> map_option (\<lambda>x. get_data_ptr (lh_first x)) (hp_heads h a))"

definition list_back :: "heap \<Rightarrow> addr option \<Rightarrow> addr option option" where
  "list_back h head =
     (case head of None \<Rightarrow> Some None | Some a \<Rightarrow> map_option (\<lambda>x. get_data_ptr (lh_last x)) (hp_heads h a))"

text \<open>The search loop; comparing with an item that is shorter than the wanted data overruns it.\<close>

partial_function (option) find_loop :: "heap \<Rightarrow> addr option \<Rightarrow> bytes \<Rightarrow> nat \<Rightarrow> addr option option" where
  "find_loop h item data data_size =
     (case item of
        None \<Rightarrow> Some None
      | Some a \<Rightarrow>
          (case hp_items h a of
             None \<Rightarrow> None
           | Some i \<Rightarrow>
               if length (li_data i) < data_size \<or> length data < data_size then None
               else if take data_size (li_data i) = take data_size data then Some item
               else find_loop h (li_next i) data data_size))"

definition list_do_find :: "heap \<Rightarrow> addr option \<Rightarrow> bytes option \<Rightarrow> nat \<Rightarrow> addr option option" where
  "list_do_find h item data data_size =
     (case data of
        None \<Rightarrow> Some None
      | Some bs \<Rightarrow> if item = None \<or> data_size = 0 then Some None else find_loop h item bs data_size)"

definition list_find :: "heap \<Rightarrow> addr option \<Rightarrow> bytes option \<Rightarrow> nat \<Rightarrow> addr option option" where
  "list_find h head data data_size =
     do {
       front \<leftarrow> list_front h head;
       item \<leftarrow> list_do_find h (get_item_ptr front) data data_size;
       Some (get_data_ptr item)
     }"

definition list_next :: "heap \<Rightarrow> addr option \<Rightarrow> addr option option" where
  "list_next h item =
     (case get_item_ptr item of None \<Rightarrow> Some None | Some a \<Rightarrow> map_option (\<lambda>i. get_data_ptr (li_next i)) (hp_items h a))"

definition list_prev :: "heap \<Rightarrow> addr option \<Rightarrow> addr option option" where
  "list_prev h item =
     (case get_item_ptr item of None \<Rightarrow> Some None | Some a \<Rightarrow> map_option (\<lambda>i. get_data_ptr (li_prev i)) (hp_items h a))"

definition list_find_next :: "heap \<Rightarrow> addr option \<Rightarrow> bytes option \<Rightarrow> nat \<Rightarrow> addr option option" where
  "list_find_next h from data data_size =
     do {
       nxt \<leftarrow> list_next h from;
       item \<leftarrow> list_do_find h (get_item_ptr nxt) data data_size;
       Some (get_data_ptr item)
     }"

definition list_remove :: "heap \<Rightarrow> addr option \<Rightarrow> heap option" where
  "list_remove h item =
     (case get_item_ptr item of
        None \<Rightarrow> Some h
      | Some a \<Rightarrow> do {
          i \<leftarrow> hp_items h a;
          lh \<leftarrow> li_head i;
          h \<leftarrow> (case li_next i of None \<Rightarrow> Some h | Some n \<Rightarrow> set_item h n (\<lambda>x. x\<lparr>li_prev := li_prev i\<rparr>));
          h \<leftarrow> (case li_prev i of None \<Rightarrow> Some h | Some p \<Rightarrow> set_item h p (\<lambda>x. x\<lparr>li_next := li_next i\<rparr>));
          h \<leftarrow> set_head h lh (\<lambda>x. if lh_first x = Some a then x\<lparr>lh_first := li_next i\<rparr> else x);
          h \<leftarrow> set_head h lh (\<lambda>x. if lh_last x = Some a then x\<lparr>lh_last := li_prev i\<rparr> else x);
          h \<leftarrow> free_item h a;
          set_head h lh (\<lambda>x. x\<lparr>lh_length := lh_length x - 1\<rparr>)
        })"

partial_function (option) destroy_loop :: "heap \<Rightarrow> addr option \<Rightarrow> heap option" where
  "destroy_loop h item =
     (case item of
        None \<Rightarrow> Some h
      | Some a \<Rightarrow>
          (case hp_items h a of
             None \<Rightarrow> None
           | Some i \<Rightarrow> (case free_item h a of None \<Rightarrow> None | Some h' \<Rightarrow> destroy_loop h' (li_next i))))"

definition list_destroy :: "heap \<Rightarrow> addr option option \<Rightarrow> (heap \<times> addr option option) option" where
  "list_destroy h lst =
     (case lst of
        Some (Some lh) \<Rightarrow> do {
          head \<leftarrow> hp_heads h lh;
          h \<leftarrow> destroy_loop h (lh_first head);
          h \<leftarrow> free_head h lh;
          Some (h, Some None)
        }
      | _ \<Rightarrow> Some (h, lst))"

section \<open>The list at a head\<close>

text \<open>The address of the first item of a piece of a list, and of the last one.\<close>

definition first_of :: "(addr \<times> bytes) list \<Rightarrow> addr option \<Rightarrow> addr option" where
  "first_of xs n = (case xs of [] \<Rightarrow> n | x # _ \<Rightarrow> Some (fst x))"

definition last_of :: "addr option \<Rightarrow> (addr \<times> bytes) list \<Rightarrow> addr option" where
  "last_of p xs = (if xs = [] then p else Some (fst (last xs)))"

lemma ends_simps [simp]:
  "first_of [] n = n" "first_of (x # xs) n = Some (fst x)" "last_of p [] = p" "last_of p (xs @ [x]) = Some (fst x)"
  "first_of (xs @ ys) n = first_of xs (first_of ys n)" "last_of p (xs @ y # ys) = last_of (Some (fst y)) ys"
  by (auto simp: first_of_def last_of_def split: list.splits)

lemma last_of_Cons [simp]: "last_of p (x # xs) = last_of (Some (fst x)) xs"
  by (simp add: last_of_def)

lemma first_of_Some [simp]: "first_of xs (Some l) \<noteq> None" "\<exists>y. first_of xs (Some l) = Some y"
  by (auto simp: first_of_def split: list.splits)

lemma first_of_in: "first_of xs (Some l) = Some w \<Longrightarrow> w \<noteq> l \<Longrightarrow> w \<in> fst ` set xs"
  by (auto simp: first_of_def split: list.splits)

lemma last_of_in: "last_of (Some l) xs = Some w \<Longrightarrow> w \<noteq> l \<Longrightarrow> w \<in> fst ` set xs"
  by (auto simp: last_of_def split: if_splits)

text \<open>A piece of a list, between the pointers \<open>p\<close> before it and \<open>n\<close> behind it.\<close>

fun dll :: "(addr \<Rightarrow> list_item option) \<Rightarrow> addr \<Rightarrow> addr option \<Rightarrow> (addr \<times> bytes) list \<Rightarrow> addr option \<Rightarrow> bool" where
  "dll m lh p [] n = True"
| "dll m lh p ((a, d) # xs) n =
     (m a = Some \<lparr>li_head = Some lh, li_prev = p, li_next = first_of xs n, li_data = d\<rparr> \<and> dll m lh (Some a) xs n)"

lemma dll_append [simp]: "dll m lh p (xs @ ys) n \<longleftrightarrow> dll m lh p xs (first_of ys n) \<and> dll m lh (last_of p xs) ys n"
proof (induction xs arbitrary: p)
  case (Cons x xs)
  then show ?case by (cases x) simp
qed simp

lemma dll_frame [simp]: "a \<notin> fst ` set xs \<Longrightarrow> dll (m(a := v)) lh p xs n = dll m lh p xs n"
  by (induction xs arbitrary: p) auto

lemma dll_dom: "dll m lh p xs n \<Longrightarrow> a \<in> fst ` set xs \<Longrightarrow> m a \<noteq> None"
  by (induction m lh p xs n rule: dll.induct) auto

definition list_at :: "heap \<Rightarrow> addr \<Rightarrow> (addr \<times> bytes) list \<Rightarrow> bool" where
  "list_at h lh xs \<longleftrightarrow>
     hp_heads h lh = Some \<lparr>lh_first = first_of xs None, lh_last = last_of None xs, lh_length = of_nat (length xs)\<rparr> \<and>
     dll (hp_items h) lh None xs None \<and> distinct (map fst xs)"

text \<open>What an operation on a list may change.\<close>

definition heap_frame :: "heap \<Rightarrow> heap \<Rightarrow> addr set \<Rightarrow> addr set \<Rightarrow> bool" where
  "heap_frame h h' heads items \<longleftrightarrow>
     hp_next h' = hp_next h \<and> (\<forall>a. a \<notin> heads \<longrightarrow> hp_heads h' a = hp_heads h a) \<and>
     (\<forall>a. a \<notin> items \<longrightarrow> hp_items h' a = hp_items h a)"

lemmas heap_defs = set_head_def set_item_def free_item_def heap_frame_def

lemma list_link_at:
  assumes "list_at h lh (xs @ ys)" "a \<notin> fst ` set (xs @ ys)"
    and "hp_items h a = Some \<lparr>li_head = Some lh, li_prev = None, li_next = None, li_data = d\<rparr>"
  shows "\<exists>h'. list_link h lh a (first_of ys None) = Some h' \<and> list_at h' lh (xs @ (a, d) # ys) \<and>
    heap_frame h h' {lh} (insert a (fst ` set (xs @ ys)))"
proof (cases ys)
  case Nil
  show ?thesis
  proof (cases xs rule: rev_cases)
    case Nil
    then show ?thesis using assms \<open>ys = []\<close>
      by (auto simp: list_link_def list_at_def heap_defs)
  next
    case (snoc xs' x)
    then obtain l dl where x: "x = (l, dl)" by (cases x)
    show ?thesis using assms \<open>ys = []\<close> unfolding snoc x
      by (auto simp: list_link_def list_at_def heap_defs)
  qed
next
  case (Cons y ys')
  then obtain w dw where y: "y = (w, dw)" by (cases y)
  show ?thesis
  proof (cases xs rule: rev_cases)
    case Nil
    show ?thesis using assms unfolding Nil Cons y
      by (auto simp: list_link_def list_at_def heap_defs)
  next
    case (snoc xs' x)
    then obtain l dl where x: "x = (l, dl)" by (cases x)
    show ?thesis using assms unfolding snoc x Cons y
      by (auto simp: list_link_def list_at_def heap_defs image_Un dest: first_of_in)
  qed
qed

lemma list_remove_at:
  assumes "list_at h lh (xs @ (a, d) # ys)"
  shows "\<exists>h'. list_remove h (Some (a + 1)) = Some h' \<and> list_at h' lh (xs @ ys) \<and> hp_items h' a = None \<and>
    heap_frame h h' {lh} (fst ` set (xs @ (a, d) # ys))"
proof (cases xs rule: rev_cases; cases ys)
  assume "xs = []" "ys = []"
  then show ?thesis using assms
    by (auto simp: list_remove_def get_item_ptr_def list_at_def heap_defs)
next
  fix y ys' assume xs: "xs = []" and ys: "ys = y # ys'"
  obtain n dn where y: "y = (n, dn)" by (cases y)
  show ?thesis using assms unfolding xs ys y
    by (auto simp: list_remove_def get_item_ptr_def list_at_def heap_defs image_Un dest: first_of_in last_of_in)
next
  fix xs' x assume xs: "xs = xs' @ [x]" and ys: "ys = []"
  obtain p dp where x: "x = (p, dp)" by (cases x)
  show ?thesis using assms unfolding xs ys x
    by (auto simp: list_remove_def get_item_ptr_def list_at_def heap_defs image_Un dest: first_of_in last_of_in)
next
  fix xs' x y ys' assume xs: "xs = xs' @ [x]" and ys: "ys = y # ys'"
  obtain p dp n dn where xy: "x = (p, dp)" "y = (n, dn)" by (cases x, cases y)
  show ?thesis using assms unfolding xs ys xy
    by (auto simp: list_remove_def get_item_ptr_def list_at_def heap_defs image_Un dest: first_of_in last_of_in)
qed

lemma find_loop_at:
  assumes "dll (hp_items h) lh p ys None" "\<forall>(a, d) \<in> set ys. n \<le> length d" "n \<le> length bs"
  shows "find_loop h (first_of ys None) bs n = Some (map_option fst (find (\<lambda>(a, d). take n d = take n bs) ys))"
  using assms(1,2)
proof (induction ys arbitrary: p)
  case Nil
  then show ?case by (simp add: find_loop.simps)
next
  case (Cons y ys)
  obtain a d where y: "y = (a, d)" by (cases y)
  show ?case using Cons.IH [of "Some a"] Cons.prems assms(3) by (subst find_loop.simps) (auto simp: y)
qed

lemma destroy_loop_at:
  assumes "dll (hp_items h) lh p ys None" "distinct (map fst ys)"
  shows "\<exists>h'. destroy_loop h (first_of ys None) = Some h' \<and> heap_frame h h' {} (fst ` set ys) \<and>
    (\<forall>a \<in> fst ` set ys. hp_items h' a = None)"
  using assms
proof (induction ys arbitrary: p h)
  case Nil
  then show ?case by (subst destroy_loop.simps) (simp add: heap_frame_def)
next
  case (Cons y ys)
  obtain a d where y: "y = (a, d)" by (cases y)
  define h1 where "h1 = h\<lparr>hp_items := (hp_items h)(a := None)\<rparr>"
  have "dll (hp_items h1) lh (Some a) ys None" using Cons.prems by (auto simp: h1_def y)
  then obtain h' where h': "destroy_loop h1 (first_of ys None) = Some h'" "heap_frame h1 h' {} (fst ` set ys)"
    "\<forall>a \<in> fst ` set ys. hp_items h' a = None"
    using Cons.IH [of h1 "Some a"] Cons.prems(2) by auto
  moreover have "destroy_loop h (first_of (y # ys) None) = destroy_loop h1 (first_of ys None)"
    using Cons.prems(1) by (subst destroy_loop.simps) (simp add: y free_item_def h1_def)
  ultimately show ?case using Cons.prems(2) by (auto simp: y h1_def heap_frame_def)
qed

section \<open>Lists of one owner\<close>

text \<open>
  Nothing is allocated from the next address on; and \<open>h\<close> is the heap \<open>h0\<close> with one more list, the
  variable \<open>var\<close> with the items \<open>xs\<close>, in memory that was allocated since, and with
  nothing else changed.
\<close>

definition heap_ok :: "heap \<Rightarrow> bool" where
  "heap_ok h \<longleftrightarrow> (\<forall>a \<ge> hp_next h. hp_items h a = None \<and> hp_heads h a = None)"

definition owned :: "heap \<Rightarrow> heap \<Rightarrow> addr option \<Rightarrow> (addr \<times> bytes) list \<Rightarrow> bool" where
  "owned h0 h var xs \<longleftrightarrow>
     heap_ok h \<and> hp_next h0 \<le> hp_next h \<and> (\<forall>a \<in> fst ` set xs. hp_next h0 \<le> a) \<and> (\<forall>lh. var = Some lh \<longrightarrow> hp_next h0 \<le> lh) \<and>
     (\<forall>a. a \<notin> fst ` set xs \<longrightarrow> hp_items h a = hp_items h0 a) \<and> (\<forall>a. Some a \<noteq> var \<longrightarrow> hp_heads h a = hp_heads h0 a) \<and>
     (case var of None \<Rightarrow> xs = [] | Some lh \<Rightarrow> list_at h lh xs)"

lemma list_at_below:
  assumes "list_at h lh xs" "heap_ok h"
  shows "lh < hp_next h" "a \<in> fst ` set xs \<Longrightarrow> a < hp_next h"
proof -
  show "lh < hp_next h" using assms by (auto simp: list_at_def heap_ok_def intro!: not_le_imp_less)
  show "a < hp_next h" if "a \<in> fst ` set xs"
    using dll_dom [of "hp_items h" lh None xs None a] assms that by (auto simp: list_at_def heap_ok_def intro!: not_le_imp_less)
qed

lemma owned_start: "heap_ok h \<Longrightarrow> owned h h None []"
  by (simp add: owned_def)

lemma do_insert_head:
  assumes "owned h0 h var xs" "heap_ok h0"
  obtains h1 lh where "(case var of None \<Rightarrow> new_head h | Some lh \<Rightarrow> (h, lh)) = (h1, lh)" "owned h0 h1 (Some lh) xs"
    "var = None \<or> var = Some lh \<and> h1 = h"
proof (cases var)
  case None
  have "owned h0 (fst (new_head h)) (Some (hp_next h)) xs"
    using assms None by (auto simp: owned_def new_head_def list_at_def heap_ok_def)
  then show thesis using that None by (simp add: new_head_def)
next
  case (Some lh)
  then show thesis using that assms by simp
qed

lemma do_insert_owned:
  assumes "owned h0 h var (xs @ ys)" "heap_ok h0" "item_data data n = Some d" "0 < n" "24 + n < 2 ^ 64" "al 24" "al (24 + n)"
  obtains h' lh a where "list_do_insert al h (Some var) (first_of ys None) data n = Some (h', Some (Some lh), Some a)"
    "owned h0 h' (Some lh) (xs @ (a, d) # ys)" "var = None \<or> var = Some lh"
proof -
  obtain h1 lh where h1: "(case var of None \<Rightarrow> new_head h | Some lh \<Rightarrow> (h, lh)) = (h1, lh)" "owned h0 h1 (Some lh) (xs @ ys)"
    "var = None \<or> var = Some lh \<and> h1 = h" by (rule do_insert_head [OF assms(1,2)])
  define i where "i = \<lparr>li_head = Some lh, li_prev = None, li_next = None, li_data = d\<rparr>"
  define a where "a = hp_next h1"
  define h2 where "h2 = h1\<lparr>hp_items := (hp_items h1)(a \<mapsto> i), hp_next := hp_next h1 + 2\<rparr>"
  have at: "list_at h1 lh (xs @ ys)" and ok: "heap_ok h1" using h1(2) by (auto simp: owned_def)
  note below = list_at_below [OF at ok]
  have fresh: "a \<notin> fst ` set (xs @ ys)" using below(2) [of a] by (auto simp: a_def)
  have "list_at h2 lh (xs @ ys)" using at fresh by (auto simp: list_at_def h2_def image_Un)
  then obtain h3 where h3: "list_link h2 lh a (first_of ys None) = Some h3" "list_at h3 lh (xs @ (a, d) # ys)"
    "heap_frame h2 h3 {lh} (insert a (fst ` set (xs @ ys)))"
    using list_link_at [of h2 lh xs ys a d] fresh by (auto simp: h2_def i_def)
  have "list_do_insert al h (Some var) (first_of ys None) data n = Some (h3, Some (Some lh), Some a)"
    using h1(1) h3(1) assms(3-7) by (simp add: list_do_insert_def u64_def new_item_def h2_def i_def a_def)
  moreover have "owned h0 h3 (Some lh) (xs @ (a, d) # ys)"
  proof -
    have "heap_ok h3" unfolding heap_ok_def
    proof (intro allI impI)
      fix b assume "hp_next h3 \<le> b"
      then have b: "hp_next h1 + 2 \<le> b" using h3(3) by (simp add: heap_frame_def h2_def)
      then have "b \<noteq> lh" "b \<notin> insert a (fst ` set (xs @ ys))" using below(1) below(2) [of b] by (auto simp: a_def)
      then have "hp_items h3 b = hp_items h2 b" "hp_heads h3 b = hp_heads h2 b" using h3(3) by (simp_all add: heap_frame_def)
      then show "hp_items h3 b = None \<and> hp_heads h3 b = None"
        using ok b \<open>b \<notin> insert a _\<close> by (simp add: h2_def heap_ok_def)
    qed
    then show ?thesis using h3(2,3) h1(2) by (auto simp: owned_def heap_frame_def h2_def a_def)
  qed
  ultimately show thesis using that h1(3) by blast
qed

text \<open>When the item cannot be allocated the list is as before, and a new head is freed again.\<close>

lemma do_insert_no_memory:
  assumes "owned h0 h var xs" "heap_ok h0" "24 + n < 2 ^ 64" "\<not> al (24 + n)"
  obtains h' where "list_do_insert al h (Some var) wh data n = Some (h', Some var, None)" "owned h0 h' var xs"
proof (cases var)
  case None
  show thesis
  proof (cases "n = 0 \<or> \<not> al 24")
    case True
    then have "list_do_insert al h (Some var) wh data n = Some (h, Some var, None)"
      using None by (auto simp: list_do_insert_def)
    then show thesis using assms(1) by (rule that)
  next
    case False
    define h1 where "h1 = h\<lparr>hp_heads := (hp_heads h)(hp_next h := None), hp_next := hp_next h + 1\<rparr>"
    have "list_do_insert al h (Some var) wh data n = Some (h1, Some var, None)"
      using False assms(3,4) None by (simp add: list_do_insert_def new_head_def free_head_def u64_def h1_def)
    moreover have "owned h0 h1 var xs" using assms(1,2) None by (auto simp: owned_def h1_def heap_ok_def)
    ultimately show thesis by (rule that)
  qed
next
  case (Some lh)
  then have "list_do_insert al h (Some var) wh data n = Some (h, Some var, None)"
    using assms(3,4) by (simp add: list_do_insert_def u64_def)
  then show thesis using assms(1) by (rule that)
qed

lemma list_at_item:
  assumes "list_at h lh (xs @ (a, d) # ys)"
  shows "hp_items h a = Some \<lparr>li_head = Some lh, li_prev = last_of None xs, li_next = first_of ys None, li_data = d\<rparr>"
  using assms by (simp add: list_at_def)

lemma owned_item:
  assumes "owned h0 h (Some lh) (xs @ (a, d) # ys)"
  shows "hp_items h a = Some \<lparr>li_head = Some lh, li_prev = last_of None xs, li_next = first_of ys None, li_data = d\<rparr>"
    and "set_list_var h a (Some (Some lh)) = Some h"
proof -
  show i: "hp_items h a = Some \<lparr>li_head = Some lh, li_prev = last_of None xs, li_next = first_of ys None, li_data = d\<rparr>"
    using assms list_at_item by (simp add: owned_def)
  have "(hp_items h)(a \<mapsto> \<lparr>li_head = Some lh, li_prev = last_of None xs, li_next = first_of ys None, li_data = d\<rparr>) = hp_items h"
    using i by (rule map_upd_triv)
  then show "set_list_var h a (Some (Some lh)) = Some h" using i by (simp add: set_list_var_def set_item_def)
qed

lemma data_item_ptr [simp]: "get_item_ptr (get_data_ptr p) = p"
  by (cases p) (simp_all add: get_item_ptr_def get_data_ptr_def)

lemma owned_front:
  assumes "owned h0 h var xs"
  shows "list_front h var = Some (get_data_ptr (first_of xs None))" "list_back h var = Some (get_data_ptr (last_of None xs))"
    "list_length h var = Some (of_nat (length xs))"
  using assms by (auto simp: owned_def list_front_def list_back_def list_length_def list_at_def get_data_ptr_def split: option.splits)

lemma owned_next:
  assumes "owned h0 h var (xs @ (a, d) # ys)"
  shows "list_next h (get_data_ptr (Some a)) = Some (get_data_ptr (first_of ys None))"
    "list_prev h (get_data_ptr (Some a)) = Some (get_data_ptr (last_of None xs))"
proof -
  obtain lh where "var = Some lh" using assms by (auto simp: owned_def split: option.splits)
  then show "list_next h (get_data_ptr (Some a)) = Some (get_data_ptr (first_of ys None))"
    "list_prev h (get_data_ptr (Some a)) = Some (get_data_ptr (last_of None xs))"
    using owned_item(1) [of h0 h lh xs a d ys] assms by (simp_all add: list_next_def list_prev_def)
qed

lemma append_owned:
  assumes "owned h0 h var xs" "heap_ok h0" "item_data data n = Some d" "0 < n" "24 + n < 2 ^ 64" "al 24" "al (24 + n)"
  obtains h' lh a where "list_append al h (Some var) data n = Some (h', Some (Some lh), get_data_ptr (Some a))"
    "owned h0 h' (Some lh) (xs @ [(a, d)])"
proof -
  obtain h' lh a where "list_do_insert al h (Some var) (first_of [] None) data n = Some (h', Some (Some lh), Some a)"
    "owned h0 h' (Some lh) (xs @ [(a, d)])"
    by (rule do_insert_owned [of h0 h var xs "[]", OF _ assms(2-7)]) (use assms(1) in auto)
  then show thesis by (intro that) (simp_all add: list_append_def)
qed

lemma insert_owned:
  assumes "owned h0 h var xs" "heap_ok h0" "item_data data n = Some d" "0 < n" "24 + n < 2 ^ 64" "al 24" "al (24 + n)"
  obtains h' lh a where "list_insert al h (Some var) data n = Some (h', Some (Some lh), get_data_ptr (Some a))"
    "owned h0 h' (Some lh) ((a, d) # xs)"
proof -
  obtain h' lh a where i: "list_do_insert al h (Some var) (first_of xs None) data n = Some (h', Some (Some lh), Some a)"
    "owned h0 h' (Some lh) ([] @ (a, d) # xs)"
    by (rule do_insert_owned [of h0 h var "[]" xs, OF _ assms(2-7)]) (use assms(1) in auto)
  have "(case var of None \<Rightarrow> Some None | Some lh \<Rightarrow> map_option lh_first (hp_heads h lh)) = Some (first_of xs None)"
    using assms(1) by (auto simp: owned_def list_at_def split: option.splits)
  then show thesis using i by (intro that) (simp_all add: list_insert_def)
qed

lemma insert_before_owned:
  assumes "owned h0 h (Some lh) (xs @ (w, dw) # ys)" "heap_ok h0" "item_data data n = Some d" "0 < n" "24 + n < 2 ^ 64"
    "al 24" "al (24 + n)"
  obtains h' a where "list_insert_before al h (get_data_ptr (Some w)) data n = Some (h', get_data_ptr (Some a))"
    "owned h0 h' (Some lh) (xs @ (a, d) # (w, dw) # ys)"
proof -
  obtain h' lh' a where i: "list_do_insert al h (Some (Some lh)) (first_of ((w, dw) # ys) None) data n = Some (h', Some (Some lh'), Some a)"
    "owned h0 h' (Some lh') (xs @ (a, d) # (w, dw) # ys)" "Some lh = None \<or> Some lh = Some lh'"
    by (rule do_insert_owned [OF assms])
  have "owned h0 h' (Some lh) ((xs @ [(a, d)]) @ (w, dw) # ys)" using i(2,3) by simp
  then have "set_list_var h' w (Some (Some lh)) = Some h'" by (rule owned_item(2))
  then show thesis using i owned_item(1) [OF assms(1)] by (intro that) (simp_all add: list_insert_before_def)
qed

lemma insert_after_owned:
  assumes "owned h0 h (Some lh) (xs @ (w, dw) # ys)" "heap_ok h0" "item_data data n = Some d" "0 < n" "24 + n < 2 ^ 64"
    "al 24" "al (24 + n)"
  obtains h' a where "list_insert_after al h (get_data_ptr (Some w)) data n = Some (h', get_data_ptr (Some a))"
    "owned h0 h' (Some lh) (xs @ (w, dw) # (a, d) # ys)"
proof -
  have o: "owned h0 h (Some lh) ((xs @ [(w, dw)]) @ ys)" using assms(1) by simp
  obtain h' lh' a where i: "list_do_insert al h (Some (Some lh)) (first_of ys None) data n = Some (h', Some (Some lh'), Some a)"
    "owned h0 h' (Some lh') ((xs @ [(w, dw)]) @ (a, d) # ys)" "Some lh = None \<or> Some lh = Some lh'"
    by (rule do_insert_owned [OF o assms(2-7)])
  have "owned h0 h' (Some lh) (xs @ (w, dw) # (a, d) # ys)" using i(2,3) by simp
  then have "set_list_var h' w (Some (Some lh)) = Some h'" by (rule owned_item(2))
  then show thesis using i owned_item(1) [OF assms(1)] by (intro that) (simp_all add: list_insert_after_def)
qed

lemma remove_owned:
  assumes "owned h0 h (Some lh) (xs @ (a, d) # ys)" "heap_ok h0"
  obtains h' where "list_remove h (get_data_ptr (Some a)) = Some h'" "owned h0 h' (Some lh) (xs @ ys)"
proof -
  have at: "list_at h lh (xs @ (a, d) # ys)" and ok: "heap_ok h" using assms by (auto simp: owned_def)
  obtain h' where h': "list_remove h (Some (a + 1)) = Some h'" "list_at h' lh (xs @ ys)" "hp_items h' a = None"
    "heap_frame h h' {lh} (fst ` set (xs @ (a, d) # ys))" using list_remove_at [OF at] by blast
  have a: "hp_next h0 \<le> a" using assms(1) by (auto simp: owned_def)
  then have "hp_items h0 a = None" using assms(2) by (simp add: heap_ok_def)
  moreover have "heap_ok h'" unfolding heap_ok_def
  proof (intro allI impI)
    fix b assume "hp_next h' \<le> b"
    then have b: "hp_next h \<le> b" using h'(4) by (simp add: heap_frame_def)
    then have "b \<noteq> lh" "b \<notin> fst ` set (xs @ (a, d) # ys)" using list_at_below [OF at ok] by fastforce+
    then show "hp_items h' b = None \<and> hp_heads h' b = None" using h'(4) ok b by (simp add: heap_frame_def heap_ok_def)
  qed
  moreover have "hp_items h' b = hp_items h0 b" if "b \<notin> fst ` set (xs @ ys)" for b
    using assms(1) h'(3,4) that \<open>hp_items h0 a = None\<close> by (cases "b = a") (auto simp: owned_def heap_frame_def)
  ultimately have "owned h0 h' (Some lh) (xs @ ys)" using assms(1) h'(2-4) by (auto simp: owned_def heap_frame_def)
  then show thesis using h'(1) by (intro that) (simp_all add: get_data_ptr_def)
qed

text \<open>Destroying the list gives back all its memory: the heap is as it was before.\<close>

lemma destroy_owned:
  assumes "owned h0 h var xs" "heap_ok h0"
  shows "\<exists>h'. list_destroy h (Some var) = Some (h', Some None) \<and> hp_items h' = hp_items h0 \<and> hp_heads h' = hp_heads h0"
proof (cases var)
  case None
  then show ?thesis using assms(1) by (auto simp: owned_def list_destroy_def)
next
  case (Some lh)
  then have at: "dll (hp_items h) lh None xs None" "distinct (map fst xs)"
    "hp_heads h lh = Some \<lparr>lh_first = first_of xs None, lh_last = last_of None xs, lh_length = of_nat (length xs)\<rparr>"
    using assms(1) by (auto simp: owned_def list_at_def)
  obtain h1 where h1: "destroy_loop h (first_of xs None) = Some h1" "heap_frame h h1 {} (fst ` set xs)"
    "\<forall>a \<in> fst ` set xs. hp_items h1 a = None" using destroy_loop_at [OF at(1,2)] by blast
  have "hp_items h1 a = hp_items h0 a" for a
  proof (cases "a \<in> fst ` set xs")
    case True
    then have "hp_next h0 \<le> a" using assms(1) by (auto simp: owned_def)
    moreover have "hp_items h1 a = None" by (rule bspec [OF h1(3) True])
    ultimately show ?thesis using assms(2) by (simp add: heap_ok_def)
  next
    case False
    then show ?thesis using assms(1) h1(2) by (auto simp: owned_def heap_frame_def)
  qed
  moreover have "((hp_heads h1)(lh := None)) a = hp_heads h0 a" for a
    using assms h1(2) Some by (auto simp: owned_def heap_frame_def heap_ok_def)
  ultimately show ?thesis using h1(1,2) at(3) Some by (auto simp: list_destroy_def free_head_def heap_frame_def)
qed

section \<open>Sequences of operations\<close>

text \<open>
  What a client does with a list: an item is reached from the front by \<open>k\<close> steps with
  \<^verbatim>\<open>list_next\<close>, as in the loops over a list.
\<close>

datatype lst_op =
    Op_append bytes
  | Op_insert bytes
  | Op_insert_before nat bytes
  | Op_insert_after nat bytes
  | Op_remove nat

fun list_walk :: "heap \<Rightarrow> addr option \<Rightarrow> nat \<Rightarrow> addr option option" where
  "list_walk h p 0 = Some p"
| "list_walk h p (Suc k) = do { q \<leftarrow> list_next h p; list_walk h q k }"

definition list_item_at :: "heap \<Rightarrow> addr option \<Rightarrow> nat \<Rightarrow> addr option option" where
  "list_item_at h var k = do { p \<leftarrow> list_front h var; list_walk h p k }"

fun run_lst_op :: "alloc \<Rightarrow> heap \<times> addr option \<Rightarrow> lst_op \<Rightarrow> (heap \<times> addr option) option" where
  "run_lst_op al (h, var) (Op_append d) =
     do { (h, lst, p) \<leftarrow> list_append al h (Some var) (Some d) (length d); map_option (Pair h) lst }"
| "run_lst_op al (h, var) (Op_insert d) =
     do { (h, lst, p) \<leftarrow> list_insert al h (Some var) (Some d) (length d); map_option (Pair h) lst }"
| "run_lst_op al (h, var) (Op_insert_before k d) =
     do { p \<leftarrow> list_item_at h var k; (h, q) \<leftarrow> list_insert_before al h p (Some d) (length d); Some (h, var) }"
| "run_lst_op al (h, var) (Op_insert_after k d) =
     do { p \<leftarrow> list_item_at h var k; (h, q) \<leftarrow> list_insert_after al h p (Some d) (length d); Some (h, var) }"
| "run_lst_op al (h, var) (Op_remove k) =
     do { p \<leftarrow> list_item_at h var k; h \<leftarrow> list_remove h p; Some (h, var) }"

fun run_lst_ops :: "alloc \<Rightarrow> heap \<times> addr option \<Rightarrow> lst_op list \<Rightarrow> (heap \<times> addr option) option" where
  "run_lst_ops al s [] = Some s"
| "run_lst_ops al s (op # ops) = do { s \<leftarrow> run_lst_op al s op; run_lst_ops al s ops }"

text \<open>The same on a list of the items' data.\<close>

fun abs_lst_op :: "lst_op \<Rightarrow> bytes list \<Rightarrow> bytes list" where
  "abs_lst_op (Op_append d) xs = xs @ [d]"
| "abs_lst_op (Op_insert d) xs = d # xs"
| "abs_lst_op (Op_insert_before k d) xs = (if k < length xs then take k xs @ d # drop k xs else xs)"
| "abs_lst_op (Op_insert_after k d) xs = (if k < length xs then take (Suc k) xs @ d # drop (Suc k) xs else xs)"
| "abs_lst_op (Op_remove k) xs = take k xs @ drop (Suc k) xs"

definition abs_lst_ops :: "lst_op list \<Rightarrow> bytes list" where
  "abs_lst_ops ops = fold abs_lst_op ops []"

text \<open>An operation whose data can be allocated; empty data is not inserted.\<close>

fun lst_op_ok :: "lst_op \<Rightarrow> bool" where
  "lst_op_ok (Op_append d) = (0 < length d \<and> 24 + length d < 2 ^ 64)"
| "lst_op_ok (Op_insert d) = (0 < length d \<and> 24 + length d < 2 ^ 64)"
| "lst_op_ok (Op_insert_before k d) = (0 < length d \<and> 24 + length d < 2 ^ 64)"
| "lst_op_ok (Op_insert_after k d) = (0 < length d \<and> 24 + length d < 2 ^ 64)"
| "lst_op_ok (Op_remove k) = True"

lemma list_walk_owned:
  assumes "owned h0 h var (xs @ ys)"
  shows "list_walk h (get_data_ptr (first_of ys None)) k = Some (get_data_ptr (first_of (drop k ys) None))"
  using assms
proof (induction ys arbitrary: xs k)
  case Nil
  have "list_next h None = Some None" by (simp add: list_next_def get_item_ptr_def)
  then show ?case by (induction k) (simp_all add: get_data_ptr_def)
next
  case (Cons y ys)
  obtain a d where y: "y = (a, d)" by (cases y)
  show ?case
  proof (cases k)
    case (Suc j)
    then show ?thesis using Cons.IH [of "xs @ [y]" j] Cons.prems owned_next(1) [of h0 h var xs a d ys] by (simp add: y)
  qed simp
qed

lemma list_item_at_owned:
  assumes "owned h0 h var xs"
  shows "list_item_at h var k = Some (get_data_ptr (first_of (drop k xs) None))"
  using list_walk_owned [of h0 h var "[]" xs k] owned_front(1) [OF assms] assms by (simp add: list_item_at_def)

lemma owned_nth:
  assumes "owned h0 h var xs" "k < length xs"
  obtains lh ys a e zs where "var = Some lh" "xs = ys @ (a, e) # zs" "k = length ys"
    "list_item_at h var k = Some (get_data_ptr (Some a))"
proof -
  obtain a e where x: "xs ! k = (a, e)" by (cases "xs ! k")
  obtain lh where "var = Some lh" using assms by (cases var) (auto simp: owned_def)
  moreover have xs: "xs = take k xs @ (a, e) # drop (Suc k) xs" using id_take_nth_drop [OF assms(2)] x by simp
  moreover have "drop k xs = (a, e) # drop (Suc k) xs" using Cons_nth_drop_Suc [OF assms(2)] x by simp
  then have "list_item_at h var k = Some (get_data_ptr (Some a))" using list_item_at_owned [OF assms(1), of k] by simp
  ultimately show thesis using that [of lh "take k xs" a e "drop (Suc k) xs"] assms(2) by simp
qed

lemma run_lst_op_owned:
  assumes "owned h0 h var xs" "heap_ok h0" "lst_op_ok op"
  shows "\<exists>h' var' xs'. run_lst_op (\<lambda>_. True) (h, var) op = Some (h', var') \<and> owned h0 h' var' xs' \<and>
    map snd xs' = abs_lst_op op (map snd xs)"
proof -
  have data: "item_data (Some d) (length d) = Some d" for d by (simp add: item_data_def)
  have past: "list_item_at h var k = Some None" if "\<not> k < length xs" for k
    using that list_item_at_owned [OF assms(1)] by (simp add: get_data_ptr_def)
  show ?thesis
  proof (cases op)
    case (Op_append d)
    then obtain h' lh a where "list_append (\<lambda>_. True) h (Some var) (Some d) (length d) = Some (h', Some (Some lh), get_data_ptr (Some a))"
      "owned h0 h' (Some lh) (xs @ [(a, d)])"
      using assms append_owned [OF assms(1,2) data, of d "\<lambda>_. True"] by auto
    then show ?thesis by (auto simp: Op_append)
  next
    case (Op_insert d)
    then obtain h' lh a where "list_insert (\<lambda>_. True) h (Some var) (Some d) (length d) = Some (h', Some (Some lh), get_data_ptr (Some a))"
      "owned h0 h' (Some lh) ((a, d) # xs)"
      using assms insert_owned [OF assms(1,2) data, of d "\<lambda>_. True"] by auto
    then show ?thesis by (intro exI [of _ h'] exI [of _ "Some lh"] exI [of _ "(a, d) # xs"]) (simp add: Op_insert)
  next
    case (Op_insert_before k d)
    show ?thesis
    proof (cases "k < length xs")
      case True
      obtain lh ys w e zs where s: "var = Some lh" "xs = ys @ (w, e) # zs" "k = length ys"
        "list_item_at h var k = Some (get_data_ptr (Some w))" by (rule owned_nth [OF assms(1) True])
      obtain h' a where "list_insert_before (\<lambda>_. True) h (get_data_ptr (Some w)) (Some d) (length d) = Some (h', get_data_ptr (Some a))"
        "owned h0 h' (Some lh) (ys @ (a, d) # (w, e) # zs)"
        by (rule insert_before_owned [OF assms(1) [unfolded s(1,2)] assms(2) data]) (use assms(3) Op_insert_before in auto)
      then show ?thesis using s by (intro exI [of _ h'] exI [of _ var] exI [of _ "ys @ (a, d) # (w, e) # zs"]) (simp add: Op_insert_before)
    next
      case False
      then show ?thesis using past assms(1) by (auto simp: Op_insert_before list_insert_before_def get_item_ptr_def)
    qed
  next
    case (Op_insert_after k d)
    show ?thesis
    proof (cases "k < length xs")
      case True
      obtain lh ys w e zs where s: "var = Some lh" "xs = ys @ (w, e) # zs" "k = length ys"
        "list_item_at h var k = Some (get_data_ptr (Some w))" by (rule owned_nth [OF assms(1) True])
      obtain h' a where "list_insert_after (\<lambda>_. True) h (get_data_ptr (Some w)) (Some d) (length d) = Some (h', get_data_ptr (Some a))"
        "owned h0 h' (Some lh) (ys @ (w, e) # (a, d) # zs)"
        by (rule insert_after_owned [OF assms(1) [unfolded s(1,2)] assms(2) data]) (use assms(3) Op_insert_after in auto)
      then show ?thesis using s by (intro exI [of _ h'] exI [of _ var] exI [of _ "ys @ (w, e) # (a, d) # zs"]) (simp add: Op_insert_after)
    next
      case False
      then show ?thesis using past assms(1) by (auto simp: Op_insert_after list_insert_after_def get_item_ptr_def)
    qed
  next
    case (Op_remove k)
    show ?thesis
    proof (cases "k < length xs")
      case True
      obtain lh ys w e zs where s: "var = Some lh" "xs = ys @ (w, e) # zs" "k = length ys"
        "list_item_at h var k = Some (get_data_ptr (Some w))" by (rule owned_nth [OF assms(1) True])
      obtain h' where "list_remove h (get_data_ptr (Some w)) = Some h'" "owned h0 h' (Some lh) (ys @ zs)"
        by (rule remove_owned [OF assms(1) [unfolded s(1,2)] assms(2)])
      then show ?thesis using s by (intro exI [of _ h'] exI [of _ var] exI [of _ "ys @ zs"]) (simp add: Op_remove)
    next
      case False
      then show ?thesis using past assms(1) by (auto simp: Op_remove list_remove_def get_item_ptr_def)
    qed
  qed
qed

lemma run_lst_ops_owned:
  assumes "owned h0 h var xs" "heap_ok h0" "list_all lst_op_ok ops"
  shows "\<exists>h' var' xs'. run_lst_ops (\<lambda>_. True) (h, var) ops = Some (h', var') \<and> owned h0 h' var' xs' \<and>
    map snd xs' = fold abs_lst_op ops (map snd xs)"
  using assms(1,3)
proof (induction ops arbitrary: h var xs)
  case (Cons op ops)
  obtain h1 var1 xs1 where 1: "run_lst_op (\<lambda>_. True) (h, var) op = Some (h1, var1)" "owned h0 h1 var1 xs1"
    "map snd xs1 = abs_lst_op op (map snd xs)"
    using run_lst_op_owned [OF Cons.prems(1) assms(2), of op] Cons.prems(2) by auto
  from Cons.IH [OF 1(2)] Cons.prems(2) 1 show ?case by simp
qed auto

text \<open>Reading a list from the front to its end.\<close>

partial_function (option) list_contents :: "heap \<Rightarrow> addr option \<Rightarrow> bytes list option" where
  "list_contents h p =
     (case get_item_ptr p of
        None \<Rightarrow> Some []
      | Some a \<Rightarrow>
          do { i \<leftarrow> hp_items h a; q \<leftarrow> list_next h p; r \<leftarrow> list_contents h q; Some (li_data i # r) })"

lemma list_contents_owned:
  assumes "owned h0 h var (xs @ ys)"
  shows "list_contents h (get_data_ptr (first_of ys None)) = Some (map snd ys)"
  using assms
proof (induction ys arbitrary: xs)
  case Nil
  then show ?case by (subst list_contents.simps) simp
next
  case (Cons y ys)
  obtain a d where y: "y = (a, d)" by (cases y)
  obtain lh where v: "var = Some lh" using Cons.prems by (cases var) (auto simp: owned_def)
  have "list_contents h (get_data_ptr (first_of ys None)) = Some (map snd ys)"
    using Cons.IH [of "xs @ [y]"] Cons.prems by simp
  then show ?case
    using owned_item(1) [of h0 h lh xs a d ys] owned_next(1) [of h0 h var xs a d ys] Cons.prems v
    by (subst list_contents.simps) (simp add: y)
qed

lemma find_first: "map_option fst (find P ys) = first_of (drop (length (takeWhile (\<lambda>y. \<not> P y) ys)) ys) None"
  by (induction ys) auto

lemma list_find_owned:
  assumes "owned h0 h var xs" "\<forall>d \<in> set (map snd xs). n \<le> length d" "0 < n" "n \<le> length bs"
  shows "list_find h var (Some bs) n =
    list_item_at h var (length (takeWhile (\<lambda>d. take n d \<noteq> take n bs) (map snd xs)))"
proof -
  have k: "length (takeWhile (\<lambda>d. take n d \<noteq> take n bs) (map snd xs)) =
      length (takeWhile (\<lambda>y. \<not> (case y of (a, d) \<Rightarrow> take n d = take n bs)) xs)"
    by (simp add: takeWhile_map comp_def case_prod_beta)
  have "list_do_find h (first_of xs None) (Some bs) n =
      Some (map_option fst (find (\<lambda>(a, d). take n d = take n bs) xs))"
  proof (cases "xs = []")
    case False
    then obtain lh where "var = Some lh" using assms(1) by (cases var) (auto simp: owned_def)
    then have "dll (hp_items h) lh None xs None" using assms(1) by (simp add: owned_def list_at_def)
    moreover have "\<forall>(a, d) \<in> set xs. n \<le> length d" using assms(2) by auto
    ultimately have "find_loop h (first_of xs None) bs n = Some (map_option fst (find (\<lambda>(a, d). take n d = take n bs) xs))"
      using assms(4) by (rule find_loop_at)
    then show ?thesis using False assms(3) by (cases xs) (auto simp: list_do_find_def)
  qed (use assms(3) in \<open>simp add: list_do_find_def\<close>)
  then show ?thesis unfolding list_item_at_owned [OF assms(1)] k find_first [symmetric]
    using owned_front(1) [OF assms(1)] by (simp add: list_find_def)
qed

end
