(* ===== verification/Spec2Isabelle.thy ===== *)
theory Spec2Isabelle
  imports Stream_Cursor S2k Armor_Limits Literal_Packets Detached_Signatures Encrypted_Roundtrip G10_Roundtrip Key_Identity Linked_List
begin

text \<open>
  A model of the stream layer and of the keys of the OpenPGP library rnp and the theorems that make it correct.

  \<^bold>\<open>The program.\<close>  Messages are processed by stacks of sources and destinations
  (\<^verbatim>\<open>src/src/librepgp/stream-common.c\<close>): a source is a structure with a read callback,
  private data and a read-ahead cache, a destination one with a write callback and an output
  cache.  On top of them \<^verbatim>\<open>stream-packet.c\<close> reads and writes packet headers,
  multiprecision integers, session key packets, one-pass signatures and signatures, and
  \<^verbatim>\<open>stream-parse.c\<close> and \<^verbatim>\<open>stream-write.c\<close> stack packets of partial length, literal
  packets, signed data that is attached, detached or in clear text, and encrypted data, whose
  cipher feedback is in \<^verbatim>\<open>src/src/lib/symmetric.c\<close>.
  \<^verbatim>\<open>stream-armor.c\<close> stacks ASCII armor, with a checksum that a hash context of
  \<^verbatim>\<open>src/src/lib/hash.c\<close> computes.  \<^verbatim>\<open>src/src/lib/crypto/s2k.c\<close> derives keys from passwords.
  Keys are structures of \<^verbatim>\<open>src/src/lib/types.h\<close> that are identified by fingerprints (\<^verbatim>\<open>fingerprint.c\<close>) of the packet that
  \<^verbatim>\<open>packet-create.c\<close> builds and by grips (\<^verbatim>\<open>src/src/librekey/rnp_key_store.c\<close>); secret keys are stored as S-expressions,
  with or without a password, by \<^verbatim>\<open>src/src/librekey/key_store_g10.c\<close>, in the growing buffers of \<^verbatim>\<open>src/src/lib/misc.c\<close>.

  \<^bold>\<open>The theories.\<close>
  \<^item> \<open>Rnp_Prelude\<close>: bytes, result codes, the arithmetic of \<^verbatim>\<open>size_t\<close>, shared lemmas.
  \<^item> \<open>Stream_Common\<close>: \<^verbatim>\<open>stream-common.c\<close>.  Sources and destinations are records
    that are polymorphic in the private data; the contracts of the callbacks are the
    locales \<open>byte_source\<close> (what is delivered is a prefix of what is there),
    \<open>reliable_source\<close> (reads also succeed) and those of destinations, in which the
    caching operations are proved to refine reads and writes of lists, and which are
    interpreted for the memory streams.
  \<^item> \<open>Stream_Cursor\<close>: any sequence of source operations against the same sequence on a list, with
    the line peeks that the code answers as documented.
  \<^item> \<open>Stream_Packet\<close>, \<open>Packet_Roundtrip\<close>: headers, integers, packet bodies, session
    keys and one-pass signatures; encodings as lists of bytes, and that the writers
    produce and the parsers accept them.
  \<^item> \<open>Signature\<close>: the signature parser, its subpackets and accessors; the values of subpackets are
    judged by an inductive relation with their encodings (\<^const>\<open>field_coding\<close>).
  \<^item> \<open>S2k\<close>: iteration counts and key derivation, the hash algorithm table.
  \<^item> \<open>Hash_Context\<close>: \<^verbatim>\<open>hash.c\<close>, contexts and lists of contexts, and what they have been fed.
  \<^item> \<open>Stream_Receiver\<close>: what a stacked destination relies on in the one below it, the locales
    \<open>receiver\<close> and \<open>acceptor\<close>.
  \<^item> \<open>Partial_Packets\<close>: partial length sources and destinations, stacked on any source
    or destination that satisfies the contracts (sublocales for the stacked streams).
  \<^item> \<open>Literal_Packets\<close>: the literal source and destination, and the parameters of packets of
    definite, partial and indeterminate length that all packet streams share.
  \<^item> \<open>Signed_Source\<close>: the signed and cleartext sources with the validation of signatures, the
    operations.  \<open>Cleartext\<close> has the line format and that the source delivers the text and
    feeds its canonical form to the hashes, \<open>Detached_Signatures\<close> that a detached signature file is
    read whole, what is reported of each signature, and the digest that is verified.
  \<^item> \<open>Symmetric\<close>: \<^verbatim>\<open>symmetric.c\<close>, the algorithms and cipher feedback on words of 64 bits, against a
    reference that works byte by byte.
  \<^item> \<open>Encrypted_Streams\<close>: the encrypted source and destination, the operations, with the session keys and
    the modification detection code.  \<open>Encrypted_Write\<close> has what is written, \<open>Encrypted_Read\<close> how a
    password is found and the text is delivered, \<open>Encrypted_Roundtrip\<close> both together on memory and what
    the code protects, for any packet.
  \<^item> \<open>Stream_Armor\<close>: \<^verbatim>\<open>stream-armor.c\<close>, the operations.  \<open>Armor_Base64\<close> has the code,
    \<open>Armor_Write\<close> that the armored destination is a receiver and what arrives below it,
    \<open>Stream_Copy\<close> the copying loop against the locale \<open>block_reader\<close>, \<open>Armor_Read\<close> that
    the armored source delivers the decoded text when it is read in blocks (locale
    \<open>block_source\<close>), \<open>Armor_Roundtrip\<close> both together on memory, and \<open>Armor_Limits\<close> bounds and failures.
  \<^item> \<open>Memory_Buffers\<close>: the buffers of \<^verbatim>\<open>misc.c\<close> and what they hold after additions.
  \<^item> \<open>Key_Data\<close>: big numbers, key structures, curves, the functions that write public keys to memory,
    fingerprints, identifiers and grips, and the bytes that are written of a key (\<^const>\<open>pubkey_enc\<close>).  \<open>Key_Identity\<close> has
    the packet, the fingerprint and the grip of a key, and natural numbers as an instance of big numbers.
  \<^item> \<open>S_Expressions\<close>: the parser and the writer of S-expressions, the parser as a nested recursion whose
    termination is proved, and that the parser inverts the writer.  \<open>G10_Keys\<close> has the secret keys as
    expressions and their protection, \<open>G10_Roundtrip\<close> that a key that is stored is the key that is loaded.
  \<^item> \<open>Linked_List\<close>: \<^verbatim>\<open>src/src/lib/list.c\<close> on an explicit heap, where an invalid access has no
    result.  The representation of a list at a head (\<open>list_at\<close>) and the ownership of its memory
    (\<open>owned\<close>) are kept by every operation.

  \<^bold>\<open>Conventions.\<close>  A C function that changes its argument returns the changed structure.
  A negative \<^verbatim>\<open>ssize_t\<close> is \<^const>\<open>None\<close>, an \<^verbatim>\<open>rnp_result_t\<close> with an output is a sum.
  Allocation is a parameter (\<^typ>\<open>alloc\<close>) that says which sizes can be allocated, so every
  out-of-memory branch is in the model.  Counters of 64 bits wrap by \<^const>\<open>u64\<close> and
  \<^const>\<open>sub64\<close>, 8, 16 and 32 bit values are words.  Loops are total functions with a
  termination proof, or, where the code may run for ever (reading armored text and its
  headers, copying a source), partial functions whose value is \<^const>\<open>None\<close> then; there is no fuel.
  Botan is a parameter (\<open>pbkdf\<close> for key derivation, a \<^typ>\<open>botan\<close> for hash objects, a
  \<^typ>\<open>block_cipher\<close>), and so is \<^verbatim>\<open>PACKAGE_STRING\<close>.  What is assumed of the library is that it knows
  CRC-24 and SHA-1 with three and twenty bytes of output (\<^const>\<open>crc24_ok\<close>, \<^const>\<open>sha1_ok\<close>), that a block
  cipher maps blocks to blocks (\<^const>\<open>cipher_ok\<close>; no more is needed of it, since feedback only encrypts) and
  accepts keys of its size (\<^const>\<open>cipher_usable\<close>), and that a longer derived key begins with the shorter one
  (\<^const>\<open>pbkdf_ok\<close>, which the source relies on in a comment).  An access outside the feedback register is
  \<^const>\<open>None\<close> in \<^const>\<open>cfb_crypt\<close>.  Of big numbers it is assumed that conversions to and from bytes agree (\<^const>\<open>mp_ok\<close>), and of
  the cipher of key files that it decrypts what it encrypted with a key and a vector of 16 bytes (\<^const>\<open>cbc_ok\<close>).  The parser of key files has two levels of failure, an
  access outside of memory and an error; bytes of the stack that the code reads uninitialised are a parameter.  Encryption and decryption for recipients take an \<^verbatim>\<open>encryptor\<close> and a
  \<^verbatim>\<open>decryptor\<close>: the key and password providers and the public-key operations.  Signature validation takes a \<^verbatim>\<open>verifier\<close>: the key provider, the public-key
  verification and the clock.  An access through a null pointer is \<^const>\<open>None\<close> in
  \<^const>\<open>signed_read_signatures\<close>.

  \<^bold>\<open>Not modelled.\<close>  File, stdin and stdout streams (system calls); the compressed
  source and destination, which drive zlib and bzip2, the signed destination, which drives Botan, and
  \<^verbatim>\<open>process_pgp_source\<close>, which composes the sources; the
  legacy parser and writer (\<^verbatim>\<open>packet-parse.c\<close>, \<^verbatim>\<open>reader.c\<close>, \<^verbatim>\<open>writer.c\<close>) but for what writes public keys to memory; key rings and
  the other formats of key stores; the command line tools; logging and deallocation.
\<close>

section \<open>Streams\<close>

text \<open>C1. A memory source is a cursor on its bytes: any sequence of reads, peeks, skips,
  end-of-file tests, end-of-line skips and line peeks gives the answers that the same
  sequence gives on the list of bytes, so caching is invisible.  A line peek has a buffer, and
  answers as \<^verbatim>\<open>stream-common.h\<close> says when no line feed is within the buffer or one is among the next
  64 bytes; a line whose line feed is behind these is not found by the code, whatever the buffer,
  and such a request is left out here.\<close>

theorem mem_source_refines_cursor:
  assumes "length mem < 2 ^ 63" "src_ops_ok mem xs"
  shows "snd (run_src_ops (\<lambda>_. True) (fst (init_mem_src (\<lambda>_. True) mem)) xs) = snd (run_list_ops mem xs)"
proof -
  obtain s where s: "init_mem_src (\<lambda>_. True) mem = (s, RNP_SUCCESS)"
    "src_inv mem_src_read mem_rest mem_ok s" "src_avail mem_rest s = mem"
    using init_mem_src_inv [of "\<lambda>_. True" mem] assms(1) by auto
  with mem_source.run_src_ops_refines [of s mem xs "\<lambda>_. True"] assms(2)
  show ?thesis by (auto simp: src_holds_def)
qed

theorem mem_source_refines_cursor_witness:
  "snd (run_src_ops (\<lambda>_. True) (fst (init_mem_src (\<lambda>_. True) [72, 105, 13, 10, 33]))
      [Op_peek 1, Op_peek_line 16, Op_read 2, Op_skip_eol, Op_eof, Op_skip 4, Op_eof]) =
   [Ans_bytes (Some [72]), Ans_bytes (Some [72, 105]), Ans_bytes (Some [72, 105]), Ans_flag True,
    Ans_flag False, Ans_count (Some 1), Ans_flag True]"
proof -
  have "src_ops_ok [72, 105, 13, 10, 33]
      [Op_peek 1, Op_peek_line 16, Op_read 2, Op_skip_eol, Op_eof, Op_skip 4, Op_eof]"
    by (simp add: PGP_INPUT_CACHE_SIZE_def run_list_op_def CH_LF_def)
  then show ?thesis
    by (subst mem_source_refines_cursor)
      (simp_all add: run_list_op_def eol_len_def list_line_def strip_cr_def CH_LF_def CH_CR_def)
qed

text \<open>C2. What is written to a memory destination in any number of pieces is, after a flush,
  appended in order to the memory, with and without the output cache, as long as the limit
  of the destination is not exceeded.\<close>

theorem mem_dest_collects_writes:
  assumes "dst_inv (mem_dst_write (\<lambda>_. True)) mem_dst_ok d"
    and "length (dst_out mem_out d) + length (concat bss) \<le> mem_cap (dst_param d)"
  shows "mem_dest_get_memory (dst_flush (fold (\<lambda>bs d. dst_write d bs) bss d)) =
         Some (dst_out mem_out d @ concat bss)"
proof -
  define d' where "d' = fold (\<lambda>bs d. dst_write d bs) bss d"
  have "dst_inv (mem_dst_write (\<lambda>_. True)) mem_dst_ok d'"
    "length (dst_out mem_out d') \<le> mem_cap (dst_param d')"
    using mem_bounded.dst_writes_eq [OF assms] assms(2) by (auto simp: d'_def)
  then have "dst_inv (mem_dst_write (\<lambda>_. True)) mem_dst_ok (dst_flush d')" "dst_cache (dst_flush d') = []"
    using mem_bounded.dst_flush_eq by auto
  moreover have "mem_out (dst_param (dst_flush d')) = dst_out mem_out d @ concat bss"
    unfolding d'_def by (rule mem_bounded.dst_writes_flush_eq [OF assms])
  ultimately show ?thesis
    by (auto simp: d'_def mem_dest_get_memory_def dst_inv_def mem_dst_ok_def mem_out_def)
qed

theorem mem_dest_collects_writes_witness:
  "mem_dest_get_memory (dst_flush (fold (\<lambda>bs d. dst_write d bs) [[1, 2], [], [3]]
     ((fst (init_mem_dest (\<lambda>_. True) 100))\<lparr>dst_no_cache := False\<rparr>))) = Some [1, 2, 3]"
  by (subst mem_dest_collects_writes)
    (simp_all add: init_mem_dest_def init_dst_common_def dst_inv_def dst_out_def mem_dst_ok_def
      mem_out_def mem_cap_def)

text \<open>C34. \<^verbatim>\<open>src_peek_line\<close> never finds a line of 64 bytes or more: every round peeks from the same position, so the
  call fails for a buffer in which the line and its end fit, for which \<^verbatim>\<open>stream-common.h\<close> promises the line.\<close>

theorem peek_line_limit:
  assumes "length (line @ CH_LF # r) < 2 ^ 63" "CH_LF \<notin> set line" "64 \<le> length line" "length line + 2 \<le> len"
  shows "snd (src_peek_line (fst (init_mem_src (\<lambda>_. True) (line @ CH_LF # r))) len) = None \<and>
    list_line len (line @ CH_LF # r) = Some (strip_cr line)"
proof
  let ?mem = "line @ CH_LF # r"
  obtain s where s: "init_mem_src (\<lambda>_. True) ?mem = (s, RNP_SUCCESS)"
    "src_inv mem_src_read mem_rest mem_ok s" "src_avail mem_rest s = ?mem" "src_readb s = 0"
    using init_mem_src_inv [of "\<lambda>_. True" ?mem] assms(1) by auto
  have "take (min 64 (len - 1)) ?mem = take (min 64 (len - 1)) line" using assms(3) by simp
  then have none: "CH_LF \<notin> set (take (min 64 (len - 1)) ?mem)" using assms(2) by (metis in_set_takeD)
  have "src_readb s + 64 < 2 ^ 64" "0 < len" using s(4) assms(4) by simp_all
  with s(2) show "snd (src_peek_line (fst (init_mem_src (\<lambda>_. True) ?mem)) len) = None"
    by (rule mem_source.src_peek_line_eq [where len = len]) (simp only: s(1,3) none if_False snd_conv fst_conv)
  obtain k where "len - 1 = Suc (length line + k)" using assms(4) nat_le_iff_add [of "length line + 2" len] by auto
  then have "CH_LF \<in> set (take (len - 1) ?mem)" by simp
  moreover have "takeWhile (\<lambda>b. b \<noteq> CH_LF) ?mem = line" using assms(2) by (subst takeWhile_append2) auto
  ultimately show "list_line len ?mem = Some (strip_cr line)" by (simp add: list_line_def)
qed

theorem peek_line_limit_witness:
  "snd (src_peek_line (fst (init_mem_src (\<lambda>_. True) (replicate 64 65 @ CH_LF # [66]))) 100) = None \<and>
   list_line 100 (replicate 64 65 @ CH_LF # [66]) = Some (strip_cr (replicate 64 65))"
  by (rule peek_line_limit) (simp_all add: CH_LF_def)

section \<open>Packets\<close>

text \<open>C17. Symmetric-key session key packets survive being written and parsed.\<close>

theorem sk_sesskey_roundtrip:
  assumes "sk_wf k" "length rest < 2 ^ 62"
  shows "\<exists>d bytes s.
    stream_write_sk_sesskey (\<lambda>_. True) k (fst (init_mem_dest (\<lambda>_. True) 8192)) = (d, True) \<and>
    mem_dest_get_memory d = Some bytes \<and>
    stream_parse_sk_sesskey (fst (init_mem_src (\<lambda>_. True) (bytes @ rest))) k0 = (s, Inr (sk_filled k0 k)) \<and>
    src_avail mem_rest s = rest"
proof -
  have len: "length (sk_body k) \<le> 8000"
    using assms(1) by (auto simp: sk_wf_def s2k_wf_def sk_body_def sk_head_def sk_tail_def
        PGP_SALT_SIZE_def PGP_MAX_KEY_SIZE_def)
  obtain s where s: "mem_dest_get_memory (put_packet 3 (sk_body k) (fst (init_mem_dest (\<lambda>_. True) 8192))) =
      Some (packet_bytes (word_of_int 3) (sk_body k))"
    "fst (init_mem_src (\<lambda>_. True) (packet_bytes (word_of_int 3) (sk_body k) @ rest)) = s"
    "src_holds mem_src_read mem_rest mem_ok s (packet_bytes (word_of_int 3) (sk_body k) @ rest)"
    by (rule packet_through_memory [OF len assms(2)])
  obtain s' where "stream_parse_sk_sesskey s k0 = (s', Inr (sk_filled k0 k))"
    "src_holds mem_src_read mem_rest mem_ok s' rest"
    by (rule mem_source.parse_sk_sesskey_holds [OF s(3) assms(1)])
  with s show ?thesis by (simp add: write_sk_sesskey_eq src_holds_def)
qed


theorem sk_sesskey_roundtrip_witness:
  "\<exists>d bytes s.
    stream_write_sk_sesskey (\<lambda>_. True)
      \<lparr>sk_version = 4, sk_alg = 9, sk_s2k = \<lparr>s2k_usage = 0, s2k_specifier = 3, s2k_hash_alg = 8,
        s2k_salt = [1, 2, 3, 4, 5, 6, 7, 8], s2k_iterations = 96\<rparr>, sk_enckey = [9, 10]\<rparr>
      (fst (init_mem_dest (\<lambda>_. True) 8192)) = (d, True) \<and>
    mem_dest_get_memory d = Some bytes \<and>
    stream_parse_sk_sesskey (fst (init_mem_src (\<lambda>_. True) (bytes @ [7])))
      \<lparr>sk_version = 0, sk_alg = 0, sk_s2k = \<lparr>s2k_usage = 0, s2k_specifier = 0, s2k_hash_alg = 0,
        s2k_salt = [], s2k_iterations = 0\<rparr>, sk_enckey = []\<rparr> =
    (s, Inr \<lparr>sk_version = 4, sk_alg = 9, sk_s2k = \<lparr>s2k_usage = 0, s2k_specifier = 3, s2k_hash_alg = 8,
        s2k_salt = [1, 2, 3, 4, 5, 6, 7, 8], s2k_iterations = 96\<rparr>, sk_enckey = [9, 10]\<rparr>) \<and>
    src_avail mem_rest s = [7]"
  using sk_sesskey_roundtrip [of "\<lparr>sk_version = 4, sk_alg = 9, sk_s2k = \<lparr>s2k_usage = 0, s2k_specifier = 3,
        s2k_hash_alg = 8, s2k_salt = [1, 2, 3, 4, 5, 6, 7, 8], s2k_iterations = 96\<rparr>, sk_enckey = [9, 10]\<rparr>"
      "[7]" "\<lparr>sk_version = 0, sk_alg = 0, sk_s2k = \<lparr>s2k_usage = 0, s2k_specifier = 0, s2k_hash_alg = 0,
        s2k_salt = [], s2k_iterations = 0\<rparr>, sk_enckey = []\<rparr>"]
  by (simp add: sk_wf_def s2k_wf_def sk_filled_def PGP_SALT_SIZE_def PGP_MAX_KEY_SIZE_def)

text \<open>C18. Public-key session key packets (RSA, ElGamal, SM2, ECDH) survive being written to a
  memory destination and parsed from a memory source, which is left at the byte after the
  packet.\<close>

theorem pk_sesskey_roundtrip:
  assumes "pk_wf k" "length rest < 2 ^ 62"
  shows "\<exists>d bytes s.
    stream_write_pk_sesskey (\<lambda>_. True) k (fst (init_mem_dest (\<lambda>_. True) 8192)) = (d, True) \<and>
    mem_dest_get_memory d = Some bytes \<and>
    stream_parse_pk_sesskey (fst (init_mem_src (\<lambda>_. True) (bytes @ rest))) k0 = (s, Inr (pk_filled k0 k)) \<and>
    src_avail mem_rest s = rest"
proof -
  have len: "length (pk_body k) \<le> 8000" and wr: "pk_writable k"
    using assms(1) by (auto simp: pk_wf_def pk_writable_def pk_body_def pk_material_def mpi_wf_skip_zeros
        PGP_KEY_ID_SIZE_def ECDH_WRAPPED_KEY_SIZE_def mpi_wf_def PGP_MPINT_SIZE_def skip_zeros_wf)
  obtain s where s: "mem_dest_get_memory (put_packet 1 (pk_body k) (fst (init_mem_dest (\<lambda>_. True) 8192))) =
      Some (packet_bytes (word_of_int 1) (pk_body k))"
    "fst (init_mem_src (\<lambda>_. True) (packet_bytes (word_of_int 1) (pk_body k) @ rest)) = s"
    "src_holds mem_src_read mem_rest mem_ok s (packet_bytes (word_of_int 1) (pk_body k) @ rest)"
    by (rule packet_through_memory [OF len assms(2)])
  obtain s' where "stream_parse_pk_sesskey s k0 = (s', Inr (pk_filled k0 k))"
    "src_holds mem_src_read mem_rest mem_ok s' rest"
    by (rule mem_source.parse_pk_sesskey_holds [OF s(3) assms(1)])
  with s show ?thesis by (simp add: write_pk_sesskey_eq wr src_holds_def)
qed

theorem pk_sesskey_roundtrip_witness:
  "\<exists>d bytes s k.
    stream_write_pk_sesskey (\<lambda>_. True)
      \<lparr>pk_version = 3, pk_key_id = [1, 2, 3, 4, 5, 6, 7, 8], pk_alg = 18, pk_rsa_m = [], pk_eg_g = [],
       pk_eg_m = [], pk_sm2_m = [], pk_ecdh_p = [4, 5, 6], pk_ecdh_m = [7, 8]\<rparr>
      (fst (init_mem_dest (\<lambda>_. True) 8192)) = (d, True) \<and>
    mem_dest_get_memory d = Some bytes \<and>
    stream_parse_pk_sesskey (fst (init_mem_src (\<lambda>_. True) (bytes @ [0, 1])))
      \<lparr>pk_version = 0, pk_key_id = [], pk_alg = 0, pk_rsa_m = [], pk_eg_g = [],
       pk_eg_m = [], pk_sm2_m = [], pk_ecdh_p = [], pk_ecdh_m = []\<rparr> = (s, Inr k) \<and>
    pk_ecdh_p k = [4, 5, 6] \<and> pk_ecdh_m k = [7, 8] \<and> src_avail mem_rest s = [0, 1]"
  using pk_sesskey_roundtrip [of "\<lparr>pk_version = 3, pk_key_id = [1, 2, 3, 4, 5, 6, 7, 8], pk_alg = 18,
       pk_rsa_m = [], pk_eg_g = [], pk_eg_m = [], pk_sm2_m = [], pk_ecdh_p = [4, 5, 6], pk_ecdh_m = [7, 8]\<rparr>"
     "[0, 1]" "\<lparr>pk_version = 0, pk_key_id = [], pk_alg = 0, pk_rsa_m = [], pk_eg_g = [],
       pk_eg_m = [], pk_sm2_m = [], pk_ecdh_p = [], pk_ecdh_m = []\<rparr>"]
  by (auto simp: pk_wf_def pk_filled_def mpi_wf_def PGP_KEY_ID_SIZE_def ECDH_WRAPPED_KEY_SIZE_def
      PGP_MPINT_SIZE_def Let_def)

text \<open>C21. One-pass signature packets survive being written and parsed.\<close>

theorem one_pass_roundtrip:
  assumes "op_wf k" "length rest < 2 ^ 62"
  shows "\<exists>d bytes s.
    stream_write_one_pass (\<lambda>_. True) k (fst (init_mem_dest (\<lambda>_. True) 8192)) = (d, True) \<and>
    mem_dest_get_memory d = Some bytes \<and>
    stream_parse_one_pass al (fst (init_mem_src (\<lambda>_. True) (bytes @ rest))) k0 = (s, Inr k) \<and>
    src_avail mem_rest s = rest"
proof -
  have len: "length (op_body k) \<le> 8000"
    using assms(1) by (auto simp: op_wf_def op_body_def PGP_KEY_ID_SIZE_def)
  obtain s where s: "mem_dest_get_memory (put_packet 4 (op_body k) (fst (init_mem_dest (\<lambda>_. True) 8192))) =
      Some (packet_bytes (word_of_int 4) (op_body k))"
    "fst (init_mem_src (\<lambda>_. True) (packet_bytes (word_of_int 4) (op_body k) @ rest)) = s"
    "src_holds mem_src_read mem_rest mem_ok s (packet_bytes (word_of_int 4) (op_body k) @ rest)"
    by (rule packet_through_memory [OF len assms(2)])
  obtain s' where "stream_parse_one_pass al s k0 = (s', Inr k)"
    "src_holds mem_src_read mem_rest mem_ok s' rest"
    by (rule mem_source.parse_one_pass_holds [OF s(3) assms(1)])
  with s show ?thesis by (simp add: write_one_pass_eq src_holds_def)
qed

theorem one_pass_roundtrip_witness:
  "\<exists>d bytes s.
    stream_write_one_pass (\<lambda>_. True) \<lparr>op_version = 3, op_type = 1, op_halg = 8, op_palg = 1,
      op_keyid = [1, 2, 3, 4, 5, 6, 7, 8], op_nested = 1\<rparr> (fst (init_mem_dest (\<lambda>_. True) 8192)) = (d, True) \<and>
    mem_dest_get_memory d = Some bytes \<and>
    stream_parse_one_pass (\<lambda>_. False) (fst (init_mem_src (\<lambda>_. True) (bytes @ [])))
      \<lparr>op_version = 0, op_type = 0, op_halg = 0, op_palg = 0, op_keyid = [], op_nested = 0\<rparr> =
      (s, Inr \<lparr>op_version = 3, op_type = 1, op_halg = 8, op_palg = 1,
      op_keyid = [1, 2, 3, 4, 5, 6, 7, 8], op_nested = 1\<rparr>) \<and>
    src_avail mem_rest s = []"
  by (rule one_pass_roundtrip) (simp_all add: op_wf_def PGP_KEY_ID_SIZE_def)

text \<open>C22. A packet length survives: what \<^verbatim>\<open>write_packet_len\<close> puts after a new-format tag,
  \<^verbatim>\<open>stream_read_pkt_len\<close> reads back, and the source is left at the packet body.\<close>

theorem packet_len_roundtrip:
  assumes "len < 2 ^ 32" "length rest < 2 ^ 62"
    and "t AND PGP_PTAG_ALWAYS_SET \<noteq> 0" "t AND PGP_PTAG_NEW_FORMAT \<noteq> 0"
  shows "\<exists>s. stream_read_pkt_len (fst (init_mem_src (\<lambda>_. True) (t # write_packet_len len @ rest))) = (s, Some len) \<and>
             src_avail mem_rest s = rest"
proof -
  have "length (t # write_packet_len len @ rest) < 2 ^ 63"
    using assms(2) by (simp add: write_packet_len_def STORE32BE_def)
  then obtain s where s: "init_mem_src (\<lambda>_. True) (t # write_packet_len len @ rest) = (s, RNP_SUCCESS)"
    "src_holds mem_src_read mem_rest mem_ok s (t # write_packet_len len @ rest)" by (rule init_mem_src_holds)
  from mem_source.read_pkt_len_holds [OF s(2)] hdr_len_write_packet_len [OF assms(1,3,4), of rest]
  show ?thesis by (auto simp: s(1) src_holds_def)
qed

theorem packet_len_roundtrip_witness:
  "\<exists>s. stream_read_pkt_len (fst (init_mem_src (\<lambda>_. True) (0xC2 # write_packet_len 9000 @ [1, 2]))) = (s, Some 9000) \<and>
       src_avail mem_rest s = [1, 2]"
  by (rule packet_len_roundtrip) simp_all

text \<open>\<^verbatim>\<open>stream_read_pkt_len\<close> implements the packet headers of RFC 4880 on every input, old
  and new format, truncated and malformed headers included; when it succeeds the source is
  at the packet body.\<close>

theorem read_pkt_len_is_hdr_len:
  assumes "length mem < 2 ^ 63"
  defines "res \<equiv> stream_read_pkt_len (fst (init_mem_src (\<lambda>_. True) mem))"
  shows "snd res = map_option fst (hdr_len mem) \<and>
         (\<forall>len r. hdr_len mem = Some (len, r) \<longrightarrow> src_avail mem_rest (fst res) = r)"
proof -
  obtain s where s: "init_mem_src (\<lambda>_. True) mem = (s, RNP_SUCCESS)"
    "src_holds mem_src_read mem_rest mem_ok s mem" using assms(1) by (rule init_mem_src_holds)
  from mem_source.read_pkt_len_holds [OF s(2)] show ?thesis by (auto simp: res_def s(1) src_holds_def)
qed

theorem read_pkt_len_is_hdr_len_witness:
  "snd (stream_read_pkt_len (fst (init_mem_src (\<lambda>_. True) [0x99, 1, 2, 7]))) = Some 258 \<and>
   src_avail mem_rest (fst (stream_read_pkt_len (fst (init_mem_src (\<lambda>_. True) [0x99, 1, 2, 7])))) = [7]"
  using read_pkt_len_is_hdr_len [of "[0x99, 1, 2, 7]"] by simp

text \<open>\<^verbatim>\<open>stream_pkt_hdr_len\<close> announces the number of bytes that
  \<^verbatim>\<open>stream_read_pkt_len\<close> then consumes.\<close>

theorem pkt_hdr_len_matches_read:
  assumes "length mem < 2 ^ 63" "hdr_len mem = Some (len, r)"
  shows "snd (stream_pkt_hdr_len (fst (init_mem_src (\<lambda>_. True) mem))) = Some (length mem - length r)"
proof -
  obtain s where s: "init_mem_src (\<lambda>_. True) mem = (s, RNP_SUCCESS)"
    "src_holds mem_src_read mem_rest mem_ok s mem" "src_readb s = 0"
    using assms(1) by (rule init_mem_src_holds)
  then have inv: "src_inv mem_src_read mem_rest mem_ok s" "src_avail mem_rest s = mem"
    by (auto simp: src_holds_def)
  obtain s' where peek: "src_peek s 2 = (s', Some (take 2 mem))"
    by (rule mem_source.src_peek_eq [OF inv(1), of 2]) (simp_all add: s(3) inv(2) PGP_INPUT_CACHE_SIZE_def)
  from assms(2) obtain t b x where mem: "mem = t # b # x" by (cases mem rule: hdr_len.cases) auto
  have "snd (stream_pkt_hdr_len s) = Some (length mem - length r)"
    using assms(2) unfolding stream_pkt_hdr_len_def peek
    by (auto simp: mem Let_def split: if_splits list.splits)
  then show ?thesis by (simp add: s(1))
qed

theorem pkt_hdr_len_matches_read_witness:
  "snd (stream_pkt_hdr_len (fst (init_mem_src (\<lambda>_. True) [0xC1, 0xC0, 5, 9]))) = Some 3"
  using pkt_hdr_len_matches_read [of "[0xC1, 0xC0, 5, 9]" 197 "[9]"] by simp

text \<open>C24. \<^verbatim>\<open>stream_read_mpi\<close> accepts exactly the encodings of normalised integers that fit
  the limit, and returns the integer.\<close>

theorem read_mpi_accepts_exactly:
  assumes "length mem < 2 ^ 63"
  shows "snd (stream_read_mpi (fst (init_mem_src (\<lambda>_. True) mem)) maxlen) = Some m \<longleftrightarrow>
         mpi_wf m \<and> (\<exists>r. mem = mpi_enc m @ r) \<and> (maxlen = 0 \<or> length m + 2 \<le> maxlen)"
proof -
  obtain s where s: "init_mem_src (\<lambda>_. True) mem = (s, RNP_SUCCESS)"
    "src_holds mem_src_read mem_rest mem_ok s mem" using assms(1) by (rule init_mem_src_holds)
  have "mpi_wf m \<and> (\<exists>r. mem = mpi_enc m @ r) \<and> (maxlen = 0 \<or> length m + 2 \<le> maxlen)"
    if "stream_read_mpi s maxlen = (s', Some m)" for s'
    by (rule mem_source.read_mpi_inv [OF s(2) that]) auto
  moreover have "\<exists>s'. stream_read_mpi s maxlen = (s', Some m)"
    if "mpi_wf m" "mem = mpi_enc m @ r" "maxlen = 0 \<or> length m + 2 \<le> maxlen" for r
    using s(2) unfolding that(2) by (rule mem_source.read_mpi_holds [OF _ that(1,3)]) blast
  ultimately show ?thesis by (cases "stream_read_mpi s maxlen") (auto simp: s(1))
qed

theorem read_mpi_accepts_exactly_witness:
  "snd (stream_read_mpi (fst (init_mem_src (\<lambda>_. True) [0, 9, 1, 255, 7])) 4) = Some [1, 255]"
proof -
  have "mpi_enc [1, 255] = [0, 9, 1, 255]"
    by (simp add: mpi_enc_def mpi_bits_def significant_bits.simps)
  then show ?thesis
    by (subst read_mpi_accepts_exactly) (simp_all add: mpi_wf_def PGP_MPINT_SIZE_def)
qed

text \<open>\<^verbatim>\<open>stream_parse_sk_sesskey\<close> accepts nothing but encodings: whatever it returns, the
  input is a packet whose announced length and body are those of the returned structure,
  the structure is well-formed, and exactly that packet was consumed.\<close>

theorem sk_sesskey_accepts_only_encodings:
  assumes "length mem < 2 ^ 63"
    and "stream_parse_sk_sesskey (fst (init_mem_src (\<lambda>_. True) mem)) k0 = (s, Inr k)"
  shows "sk_wf k \<and> hdr_len mem = Some (length (sk_body k), sk_body k @ src_avail mem_rest s)"
proof -
  obtain s0 where s0: "init_mem_src (\<lambda>_. True) mem = (s0, RNP_SUCCESS)"
    "src_holds mem_src_read mem_rest mem_ok s0 mem" using assms(1) by (rule init_mem_src_holds)
  with assms(2) have "stream_parse_sk_sesskey s0 k0 = (s, Inr k)" by simp
  then show ?thesis
    by (rule mem_source.parse_sk_sesskey_inv [OF s0(2)]) (simp add: src_holds_def)
qed

theorem sk_sesskey_accepts_only_encodings_witness:
  "\<exists>s k. stream_parse_sk_sesskey (fst (init_mem_src (\<lambda>_. True) [0xC3, 4, 4, 9, 0, 8, 77]))
      \<lparr>sk_version = 0, sk_alg = 0, sk_s2k = \<lparr>s2k_usage = 0, s2k_specifier = 0, s2k_hash_alg = 0,
        s2k_salt = [], s2k_iterations = 0\<rparr>, sk_enckey = []\<rparr> = (s, Inr k) \<and>
    sk_wf k \<and> Some (length (sk_body k), sk_body k @ src_avail mem_rest s) = Some (4, [4, 9, 0, 8, 77])"
proof -
  define k0 where "k0 = \<lparr>sk_version = 0, sk_alg = 0, sk_s2k = \<lparr>s2k_usage = 0, s2k_specifier = 0, s2k_hash_alg = 0,
        s2k_salt = [], s2k_iterations = 0\<rparr>, sk_enckey = []\<rparr>"
  define k where "k = k0\<lparr>sk_version := 4, sk_alg := 9, sk_s2k := (sk_s2k k0)\<lparr>s2k_hash_alg := 8\<rparr>\<rparr>"
  let ?mem = "[0xC3, 4, 4, 9, 0, 8, 77] :: bytes"
  have mem: "?mem = packet_bytes 3 (sk_body k) @ [77]" and wf: "sk_wf k"
    by (simp_all add: k_def k0_def packet_bytes_def sk_body_def sk_head_def sk_tail_def write_packet_len_def
        sk_wf_def s2k_wf_def to_byte_def)
  obtain s0 where "init_mem_src (\<lambda>_. True) ?mem = (s0, RNP_SUCCESS)"
    "src_holds mem_src_read mem_rest mem_ok s0 (packet_bytes 3 (sk_body k) @ [77])"
    unfolding mem [symmetric] by (rule init_mem_src_holds [of ?mem]) simp_all
  then obtain s where sk: "stream_parse_sk_sesskey (fst (init_mem_src (\<lambda>_. True) ?mem)) k0 = (s, Inr (sk_filled k0 k))"
    using wf by (metis fst_conv mem_source.parse_sk_sesskey_holds)
  have "hdr_len ?mem = Some (4, [4, 9, 0, 8, 77])" by simp
  with sk_sesskey_accepts_only_encodings [OF _ sk] sk show ?thesis unfolding k0_def by fastforce
qed

text \<open>\<^verbatim>\<open>stream_parse_one_pass\<close> accepts nothing but one-pass signature packets: the body
  has 13 bytes, of which the first twelve are those that the writer would emit for the
  returned structure, and the last one says whether the signature is nested.\<close>

theorem one_pass_accepts_only_encodings:
  assumes "length mem < 2 ^ 63"
    and "stream_parse_one_pass al (fst (init_mem_src (\<lambda>_. True) mem)) k0 = (s, Inr k)"
  shows "op_wf k \<and>
    (\<exists>n. hdr_len mem = Some (13, butlast (op_body k) @ n # src_avail mem_rest s) \<and> op_nested k = of_bool (n \<noteq> 0))"
proof -
  obtain s0 where s0: "init_mem_src (\<lambda>_. True) mem = (s0, RNP_SUCCESS)"
    "src_holds mem_src_read mem_rest mem_ok s0 mem" using assms(1) by (rule init_mem_src_holds)
  with assms(2) have "stream_parse_one_pass al s0 k0 = (s, Inr k)" by simp
  then obtain b r where b: "hdr_len mem = Some (13, b @ r)" "b = butlast (op_body k) @ [last b]"
    "src_holds mem_src_read mem_rest mem_ok s r" "op_wf k" "op_nested k = (if last b = 0 then 0 else 1)"
    by (rule mem_source.parse_one_pass_inv [OF s0(2)])
  then have "b @ r = butlast (op_body k) @ last b # src_avail mem_rest s"
    by (metis append.assoc append_Cons append_Nil src_holds_def)
  with b(1,4,5) show ?thesis by auto
qed

theorem one_pass_accepts_only_encodings_witness:
  "\<exists>s k n. stream_parse_one_pass (\<lambda>_. True) (fst (init_mem_src (\<lambda>_. True) [0xC4, 13, 3, 0, 8, 1, 1, 2, 3, 4, 5, 6, 7, 8, 1]))
      \<lparr>op_version = 0, op_type = 0, op_halg = 0, op_palg = 0, op_keyid = [], op_nested = 0\<rparr> = (s, Inr k) \<and>
    op_wf k \<and> Some (13, [3, 0, 8, 1, 1, 2, 3, 4, 5, 6, 7, 8, 1]) =
      Some (13 :: nat, butlast (op_body k) @ n # src_avail mem_rest s) \<and> op_nested k = of_bool (n \<noteq> 0)"
proof -
  define k0 where "k0 = \<lparr>op_version = 0, op_type = 0, op_halg = 0, op_palg = 0, op_keyid = [], op_nested = 0\<rparr>"
  define k where "k = \<lparr>op_version = 3, op_type = 0, op_halg = 8, op_palg = 1,
    op_keyid = [1, 2, 3, 4, 5, 6, 7, 8], op_nested = 1\<rparr>"
  let ?mem = "[0xC4, 13, 3, 0, 8, 1, 1, 2, 3, 4, 5, 6, 7, 8, 1] :: bytes"
  have mem: "?mem = packet_bytes 4 (op_body k) @ []" and wf: "op_wf k"
    by (simp_all add: k_def k0_def packet_bytes_def op_body_def write_packet_len_def op_wf_def PGP_KEY_ID_SIZE_def
        to_byte_def)
  obtain s0 where "init_mem_src (\<lambda>_. True) ?mem = (s0, RNP_SUCCESS)"
    "src_holds mem_src_read mem_rest mem_ok s0 (packet_bytes 4 (op_body k) @ [])"
    unfolding mem [symmetric] by (rule init_mem_src_holds [of ?mem]) simp_all
  then obtain s where sk: "stream_parse_one_pass (\<lambda>_. True) (fst (init_mem_src (\<lambda>_. True) ?mem)) k0 = (s, Inr k)"
    using wf by (metis fst_conv mem_source.parse_one_pass_holds)
  have "hdr_len ?mem = Some (13, [3, 0, 8, 1, 1, 2, 3, 4, 5, 6, 7, 8, 1])" by simp
  with one_pass_accepts_only_encodings [OF _ sk] sk show ?thesis unfolding k0_def by fastforce
qed

text \<open>C35. A public-key session key packet that ends before its encrypted key is not rejected:
  the parser takes the integer that follows the packet, because a limit of zero bytes means
  no limit to \<^verbatim>\<open>stream_read_mpi\<close>.\<close>

theorem pk_sesskey_reads_past_packet:
  assumes "length kid = 8" "mpi_wf m" "length rest < 2 ^ 62"
  shows "\<exists>s. stream_parse_pk_sesskey
      (fst (init_mem_src (\<lambda>_. True) (packet_bytes 1 (3 # kid @ [1]) @ mpi_enc m @ rest))) k0 =
      (s, Inr (k0\<lparr>pk_version := 3, pk_key_id := kid, pk_alg := PGP_PKA_RSA, pk_rsa_m := m\<rparr>)) \<and>
    src_avail mem_rest s = rest"
proof -
  have "length (packet_bytes 1 (3 # kid @ [1]) @ mpi_enc m @ rest) < 2 ^ 63"
    using length_packet_bytes [of 1 "3 # kid @ [1]"] mpi_wf_length [OF assms(2)] assms(1,3) by simp
  then obtain s where s: "init_mem_src (\<lambda>_. True) (packet_bytes 1 (3 # kid @ [1]) @ mpi_enc m @ rest) = (s, RNP_SUCCESS)"
    "src_holds mem_src_read mem_rest mem_ok s (packet_bytes 1 (3 # kid @ [1]) @ mpi_enc m @ rest)"
    by (rule init_mem_src_holds)
  obtain s' where "src_holds mem_src_read mem_rest mem_ok s' rest" "stream_parse_pk_sesskey s k0 =
    (s', Inr (k0\<lparr>pk_version := 3, pk_key_id := kid, pk_alg := PGP_PKA_RSA, pk_rsa_m := m\<rparr>))"
    by (rule mem_source.parse_pk_short_holds [OF s(2) assms(1,2)])
  then show ?thesis by (simp add: s(1) src_holds_def)
qed

theorem pk_sesskey_reads_past_packet_witness:
  "\<exists>s. stream_parse_pk_sesskey
      (fst (init_mem_src (\<lambda>_. True) (packet_bytes 1 [3, 1, 2, 3, 4, 5, 6, 7, 8, 1] @ mpi_enc [5] @ [0])))
      \<lparr>pk_version = 0, pk_key_id = [], pk_alg = 0, pk_rsa_m = [], pk_eg_g = [],
       pk_eg_m = [], pk_sm2_m = [], pk_ecdh_p = [], pk_ecdh_m = []\<rparr> =
      (s, Inr \<lparr>pk_version = 3, pk_key_id = [1, 2, 3, 4, 5, 6, 7, 8], pk_alg = 1, pk_rsa_m = [5], pk_eg_g = [],
       pk_eg_m = [], pk_sm2_m = [], pk_ecdh_p = [], pk_ecdh_m = []\<rparr>) \<and>
    src_avail mem_rest s = [0]"
  using pk_sesskey_reads_past_packet [of "[1, 2, 3, 4, 5, 6, 7, 8]" "[5]" "[0]"
      "\<lparr>pk_version = 0, pk_key_id = [], pk_alg = 0, pk_rsa_m = [], pk_eg_g = [],
       pk_eg_m = [], pk_sm2_m = [], pk_ecdh_p = [], pk_ecdh_m = []\<rparr>"]
  by (simp add: mpi_wf_def PGP_MPINT_SIZE_def)

text \<open>C32. \<^verbatim>\<open>stream_read_packet_body\<close> rejects every packet whose body is longer than one byte:
  it asks for as many bytes as the peek of the tag returned, and fails when that is less
  than the announced length.\<close>

theorem read_packet_body_rejects_bodies:
  assumes "length mem < 2 ^ 63" "hdr_len mem = Some (len, r)" "1 < len"
  shows "isl (snd (stream_read_packet_body al (fst (init_mem_src (\<lambda>_. True) mem))))"
proof -
  obtain s0 where s0: "init_mem_src (\<lambda>_. True) mem = (s0, RNP_SUCCESS)"
    "src_holds mem_src_read mem_rest mem_ok s0 mem" "src_readb s0 = 0"
    using assms(1) by (rule init_mem_src_holds)
  have inv: "src_inv mem_src_read mem_rest mem_ok s0" and av: "src_avail mem_rest s0 = mem"
    using s0(2) by (auto simp: src_holds_def)
  obtain s1 where peek: "src_peek s0 1 = (s1, Some (take 1 mem))"
    and s1: "src_holds mem_src_read mem_rest mem_ok s1 mem"
    by (rule mem_source.src_peek_eq [OF inv, of 1]) (simp_all add: s0(3) av PGP_INPUT_CACHE_SIZE_def src_holds_def)
  obtain s2 where s2: "stream_read_pkt_len s1 = (s2, Some len)" "src_holds mem_src_read mem_rest mem_ok s2 r"
    using mem_source.read_pkt_len_holds [OF s1] assms(2) by auto
  have one: "length (take 1 mem) = 1" using assms(2) by (cases mem rule: hdr_len.cases) auto
  have "src_readb s2 + 1 < 2 ^ 64" using src_holds_readb [OF s2(2)] by simp
  then obtain s3 where s3: "src_read s2 1 = (s3, Some (take 1 r))"
    using s2(2) by (metis mem_source.src_read_eq src_holds_def)
  have "length (take 1 r) < len" using assms(3) by simp
  then show ?thesis
    using assms(3) by (simp add: stream_read_packet_body_def s0(1) peek s2(1) one s3 del: One_nat_def length_take)
qed

theorem read_packet_body_rejects_bodies_witness:
  "isl (snd (stream_read_packet_body (\<lambda>_. True) (fst (init_mem_src (\<lambda>_. True) [0xC3, 2, 8, 9]))))"
  by (rule read_packet_body_rejects_bodies [of _ 2 "[8, 9]"]) simp_all

section \<open>Signatures\<close>

text \<open>A version 4 RSA signature with a hashed creation time and an unhashed issuer.\<close>

definition sample_signature :: pgp_signature where
  "sample_signature =
     \<lparr>sig_version = 4, sig_type = 0, sig_palg = 1, sig_halg = 8, sig_lbits = [0xab, 0xcd],
      sig_hashed_data = [4, 0, 1, 8, 0, 6, 5, 2, 0x5a, 0, 0, 1],
      sig_material = Mat_rsa [1, 2, 3], sig_creation_time = 0, sig_signer = replicate PGP_KEY_ID_SIZE 0,
      sig_subpkts =
        [\<lparr>sp_type = 2, sp_data = [0x5a, 0, 0, 1], sp_critical = False, sp_hashed = True, sp_parsed = True,
          sp_fields = F_create 0x5a000001\<rparr>,
         \<lparr>sp_type = 16, sp_data = [1, 2, 3, 4, 5, 6, 7, 8], sp_critical = False, sp_hashed = False,
          sp_parsed = True, sp_fields = F_issuer [1, 2, 3, 4, 5, 6, 7, 8]\<rparr>],
      sig_hashed_subpkts = 1\<rparr>"

lemma sample_signature_wf: "sig_wf sample_signature"
  by (simp add: sig_wf_def sig_v4_wf_def sample_signature_def sig_v4_head_def sig_hashed_enc_def
      sig_unhashed_enc_def subpkt_enc_def write_packet_len_def be16_def subpkt_wf_def
      signature_parse_subpacket_def subpkt_switch_def unat_read_uint32 mpi_wf_def PGP_MPINT_SIZE_def
      to_byte_def)

text \<open>C12. Version 3 and version 4 signature packets survive being encoded and parsed: the parser
  returns the signature with its hashed data, subpackets and material, and consumes exactly
  the packet.\<close>

theorem signature_roundtrip:
  assumes "sig_wf sig" "length rest < 2 ^ 62"
  shows "\<exists>s. stream_parse_signature (\<lambda>_. True)
           (fst (init_mem_src (\<lambda>_. True) (packet_bytes 2 (sig_body sig) @ rest))) = (s, Inr sig) \<and>
         src_avail mem_rest s = rest"
proof -
  have "length (sig_body sig) < 2 ^ 31"
    using assms(1) length_material_enc [of "sig_palg sig" "sig_material sig"] mem_source.length_sig_fields [of sig]
    by (auto simp: sig_body_def sig_wf_def)
  then have "length (packet_bytes 2 (sig_body sig) @ rest) < 2 ^ 63"
    using assms(2) length_packet_bytes [of 2 "sig_body sig"] by simp
  then obtain s where s: "init_mem_src (\<lambda>_. True) (packet_bytes 2 (sig_body sig) @ rest) = (s, RNP_SUCCESS)"
    "src_holds mem_src_read mem_rest mem_ok s (packet_bytes 2 (sig_body sig) @ rest)"
    by (rule init_mem_src_holds)
  obtain s' where "stream_parse_signature (\<lambda>_. True) s = (s', Inr sig)"
    "src_holds mem_src_read mem_rest mem_ok s' rest"
    by (rule mem_source.parse_signature_holds [OF s(2) assms(1)])
  then show ?thesis by (simp add: s(1) src_holds_def)
qed

theorem signature_roundtrip_witness:
  "\<exists>s. stream_parse_signature (\<lambda>_. True)
     (fst (init_mem_src (\<lambda>_. True) (packet_bytes 2 (sig_body sample_signature) @ [1, 2]))) = (s, Inr sample_signature) \<and>
   src_avail mem_rest s = [1, 2]"
  by (rule signature_roundtrip [OF sample_signature_wf]) simp

text \<open>C23. Whatever the source delivers, a signature that the parser returns satisfies its
  invariant: every subpacket marked as parsed holds the value that its data encodes under the rules for
  its type, creation times only among the hashed ones; every other subpacket has an unknown type and
  is not critical; the count of hashed subpackets is right, and the key id that the accessor returns has
  eight bytes.\<close>

theorem parsed_signature_invariant:
  fixes src :: "'q pgp_source"
  assumes "stream_parse_signature al src = (src', Inr sig)"
  shows "sig_inv sig \<and> (\<forall>kid. signature_get_keyid sig = Some kid \<longrightarrow> length kid = PGP_KEY_ID_SIZE)"
  using parse_signature_ok [OF assms] get_keyid_length by blast

theorem parsed_signature_invariant_witness:
  "\<exists>s. stream_parse_signature (\<lambda>_. True)
     (fst (init_mem_src (\<lambda>_. True) (packet_bytes 2 (sig_body sample_signature)))) = (s, Inr sample_signature) \<and>
   sig_inv sample_signature \<and> length (the (signature_get_keyid sample_signature)) = 8"
proof -
  have "length (packet_bytes 2 (sig_body sample_signature) @ []) < 2 ^ 63"
    using length_packet_bytes [of 2 "sig_body sample_signature"]
    by (simp add: sig_body_def sample_signature_def sig_fields_def sig_v4_fields_def sig_v4_head_def
        sig_hashed_enc_def sig_unhashed_enc_def subpkt_enc_def write_packet_len_def)
  then obtain s0 where "init_mem_src (\<lambda>_. True) (packet_bytes 2 (sig_body sample_signature) @ []) = (s0, RNP_SUCCESS)"
    "src_holds mem_src_read mem_rest mem_ok s0 (packet_bytes 2 (sig_body sample_signature) @ [])"
    by (rule init_mem_src_holds)
  then obtain s where s: "stream_parse_signature (\<lambda>_. True)
     (fst (init_mem_src (\<lambda>_. True) (packet_bytes 2 (sig_body sample_signature)))) = (s, Inr sample_signature)"
    using mem_source.parse_signature_holds [OF _ sample_signature_wf] by (metis append_Nil2 fst_conv)
  have "signature_get_keyid sample_signature = Some [1, 2, 3, 4, 5, 6, 7, 8]"
    by (simp add: signature_get_keyid_def signature_get_subpkt_def sample_signature_def)
  with parsed_signature_invariant [OF s] s show ?thesis by simp
qed

text \<open>C33. A signature packet that stops after the version specific fields is accepted: with
  fewer than two bytes left for the hash bits the parser returns success, with zero hash bits
  and no signature material.\<close>

theorem truncated_signature_accepted:
  assumes "sig_v3_wf sig \<or> sig_v4_wf sig" "length x < 2" "length rest < 2 ^ 62"
  shows "\<exists>s. stream_parse_signature (\<lambda>_. True)
           (fst (init_mem_src (\<lambda>_. True) (packet_bytes 2 (to_byte (sig_version sig) # sig_fields sig @ x) @ rest))) =
           (s, Inr (sig\<lparr>sig_lbits := [0, 0], sig_material := Mat_none\<rparr>)) \<and>
         src_avail mem_rest s = x @ rest"
proof -
  let ?p = "packet_bytes 2 (to_byte (sig_version sig) # sig_fields sig @ x) @ rest"
  have "length ?p < 2 ^ 63"
    using assms length_packet_bytes [of 2 "to_byte (sig_version sig) # sig_fields sig @ x"]
      mem_source.length_sig_fields [OF assms(1)] by simp
  then obtain s where s: "init_mem_src (\<lambda>_. True) ?p = (s, RNP_SUCCESS)"
    "src_holds mem_src_read mem_rest mem_ok s ?p"
    by (rule init_mem_src_holds)
  obtain s' where "stream_parse_signature (\<lambda>_. True) s = (s', Inr (sig_partial sig))"
    "src_holds mem_src_read mem_rest mem_ok s' (x @ rest)"
    by (rule mem_source.parse_signature_truncated [OF s(2) assms(1,2)])
  then show ?thesis by (simp add: s(1) src_holds_def sig_partial_def)
qed

theorem truncated_signature_accepted_witness:
  "\<exists>s. stream_parse_signature (\<lambda>_. True)
      (fst (init_mem_src (\<lambda>_. True) (packet_bytes 2 (to_byte (sig_version sample_signature) #
        sig_fields sample_signature @ []) @ []))) =
      (s, Inr (sample_signature\<lparr>sig_lbits := [0, 0], sig_material := Mat_none\<rparr>)) \<and>
    src_avail mem_rest s = [] @ []"
  by (rule truncated_signature_accepted) (use sample_signature_wf in
      \<open>auto simp: sig_wf_def sig_v3_wf_def sample_signature_def\<close>)

section \<open>String-to-key\<close>

text \<open>C26. The encoder of iteration counts is optimal: it returns the least octet whose decoded
  count is not below the requested one, and the largest octet when the request exceeds every
  representable count.\<close>

theorem s2k_encode_least:
  "(LEAST c. c = 255 \<or> n \<le> pgp_s2k_decode_iterations c) = pgp_s2k_encode_iterations n"
proof (rule Least_equality)
  show "pgp_s2k_encode_iterations n = 255 \<or> n \<le> pgp_s2k_decode_iterations (pgp_s2k_encode_iterations n)"
  proof (cases "n \<le> 65011712")
    case False
    then show ?thesis by (simp add: encode_large)
  qed (simp add: encode_iterations_spec(3))
next
  fix c
  assume "c = 255 \<or> n \<le> pgp_s2k_decode_iterations c"
  then show "pgp_s2k_encode_iterations n \<le> c"
    using encode_iterations_spec(1) [of n] encode_iterations_spec(2) [of c n] by fastforce
qed

text \<open>Encoding undoes decoding on every octet, and rounding is idempotent and never
  rounds a representable request down.\<close>

theorem s2k_iterations_roundtrip:
  assumes "c \<le> 255" "n \<le> 65011712"
  shows "pgp_s2k_encode_iterations (pgp_s2k_decode_iterations c) = c \<and>
         pgp_s2k_round_iterations (pgp_s2k_round_iterations n) = pgp_s2k_round_iterations n \<and>
         n \<le> pgp_s2k_round_iterations n"
  using assms encode_decode_iterations encode_iterations_spec(1,3) by (simp add: pgp_s2k_round_iterations_def)

theorem s2k_iterations_roundtrip_witness:
  "pgp_s2k_encode_iterations (pgp_s2k_decode_iterations 96) = 96 \<and>
   pgp_s2k_round_iterations (pgp_s2k_round_iterations 100000) = pgp_s2k_round_iterations 100000 \<and>
   100000 \<le> pgp_s2k_round_iterations 100000"
  by (rule s2k_iterations_roundtrip) simp_all

text \<open>Key derivation accepts the iteration count in its encoded and in its decoded form:
  both give the same key, whatever the key derivation function is.\<close>

theorem s2k_derive_key_encoded_count:
  assumes "s2k_iterations s2k \<le> 255"
  shows "pgp_s2k_derive_key pbkdf s2k password keysize =
         pgp_s2k_derive_key pbkdf (s2k\<lparr>s2k_iterations := pgp_s2k_decode_iterations (s2k_iterations s2k)\<rparr>)
           password keysize"
proof -
  have "1024 \<le> pgp_s2k_decode_iterations (s2k_iterations s2k)"
    using decode_iterations_less_iff [of "s2k_iterations s2k" 0] by (simp add: decode_iterations_eq [of 0])
  then show ?thesis using assms by (simp add: pgp_s2k_derive_key_def)
qed

theorem s2k_derive_key_encoded_count_witness:
  "pgp_s2k_derive_key (\<lambda>name n pw salt it. Some (replicate n (to_byte it)))
     \<lparr>s2k_usage = 0, s2k_specifier = 3, s2k_hash_alg = 8, s2k_salt = replicate 8 0, s2k_iterations = 96\<rparr> ''pw'' 16 =
   pgp_s2k_derive_key (\<lambda>name n pw salt it. Some (replicate n (to_byte it)))
     \<lparr>s2k_usage = 0, s2k_specifier = 3, s2k_hash_alg = 8, s2k_salt = replicate 8 0, s2k_iterations = 65536\<rparr> ''pw'' 16"
  using s2k_derive_key_encoded_count [of "\<lparr>s2k_usage = 0, s2k_specifier = 3, s2k_hash_alg = 8,
    s2k_salt = replicate 8 0, s2k_iterations = 96\<rparr>"] by (simp add: decode_iterations_eq)

section \<open>Packets of partial length\<close>

text \<open>C10. Data written in pieces into a streamed packet of partial length, through the output
  cache and the splitting into parts, is what the partial length source reads back from
  the memory, and then it is at its end.\<close>

theorem partial_packet_roundtrip:
  assumes "PARTIAL_PKT_BLOCK_SIZE < length (concat bss)" "length (concat bss) < 2 ^ 61"
    and "2 * length (concat bss) + 6 \<le> c"
  shows "\<exists>pd pd' p mem src s.
    init_streamed_packet (\<lambda>_. True) \<lparr>pkt_partial = True, pkt_indeterminate = False, pkt_tag = tag\<rparr>
      (fst (init_mem_dest (\<lambda>_. True) c)) = Inr (Partial_dst pd) \<and>
    finish_streamed_packet (Partial_dst (fold (\<lambda>bs d. dst_write d bs) bss pd)) = (Partial_dst pd', RNP_SUCCESS) \<and>
    dst_param pd' = Some p \<and> mem_dest_get_memory (pd_writedst p) = Some mem \<and>
    init_partial_pkt_src (\<lambda>_. True) (fst (init_mem_src (\<lambda>_. True) mem)) = Inr src \<and>
    src_read src (length (concat bss)) = (s, Some (concat bss)) \<and> snd (src_eof s)"
proof -
  define t where "t = to_byte tag OR PGP_PTAG_ALWAYS_SET OR PGP_PTAG_NEW_FORMAT"
  obtain pd pd' p parts y where w:
    "init_streamed_packet (\<lambda>_. True) \<lparr>pkt_partial = True, pkt_indeterminate = False, pkt_tag = tag\<rparr>
       (fst (init_mem_dest (\<lambda>_. True) c)) = Inr (Partial_dst pd)"
    "finish_streamed_packet (Partial_dst (fold (\<lambda>bs d. dst_write d bs) bss pd)) = (Partial_dst pd', RNP_SUCCESS)"
    "dst_param pd' = Some p"
    "mem_dest_get_memory (pd_writedst p) = Some (t # parts_enc 0xED parts @ write_packet_len (length y) @ y)"
    "\<forall>x \<in> set parts. length x = PARTIAL_PKT_BLOCK_SIZE" "length y \<le> PARTIAL_PKT_BLOCK_SIZE"
    "concat parts @ y = concat bss"
    unfolding t_def by (rule streamed_packet_memory [OF assms(3), where tag = tag and ind = False])
  obtain x xs where parts: "parts = x # xs" using w(6,7) assms(1) by (cases parts) auto
  define a where "a = x @ parts_enc 0xED xs @ write_packet_len (length y) @ y"
  have mem: "t # parts_enc 0xED parts @ write_packet_len (length y) @ y = t # 0xED # a"
    by (simp add: a_def parts parts_enc_def)
  have x: "length x = PARTIAL_PKT_BLOCK_SIZE" and xs: "\<forall>z \<in> set xs. length z = PARTIAL_PKT_BLOCK_SIZE"
    using w(5) parts by auto
  have data: "partial_data (get_part_len 0xED) False a = concat bss" "partial_readable (get_part_len 0xED) False a"
    using partial_data_parts [OF xs w(6), of "[]"] partial_full_part [OF x] w(7) parts
    by (simp_all add: a_def get_part_len_def block_size push_bit_eq_mult)
  have lens: "length (concat parts) + length y = length (concat bss)" using w(7) by (metis length_append)
  have "length (parts_enc 0xED parts) \<le> 2 * length (concat parts)" by (rule length_parts_enc [OF w(5)])
  then have "length (t # parts_enc 0xED parts @ write_packet_len (length y) @ y) < 2 ^ 63"
    using lens length_write_packet_len [of "length y"] assms(2) by simp
  then obtain s0 where s0: "init_mem_src (\<lambda>_. True) (t # 0xED # a) = (s0, RNP_SUCCESS)"
    "src_holds mem_src_read mem_rest mem_ok s0 (t # 0xED # a)" unfolding mem by (rule init_mem_src_holds)
  have t: "t AND PGP_PTAG_NEW_FORMAT \<noteq> 0" by (simp add: t_def bit.conj_disj_distrib2)
  obtain src where src: "init_partial_pkt_src (\<lambda>_. True) s0 = Inr src"
    "src_holds partial_pkt_src_read (partial_rest mem_rest)
       (\<lambda>p. partial_ok mem_src_read mem_rest mem_ok p \<and> partial_whole mem_rest p) src (concat bss)"
    by (rule mem_source.init_partial_src_holds [OF s0(2) t]) (use data in auto)
  then have inv: "src_inv partial_pkt_src_read (partial_rest mem_rest)
       (\<lambda>p. partial_ok mem_src_read mem_rest mem_ok p \<and> partial_whole mem_rest p) src"
    and av: "src_avail (partial_rest mem_rest) src = concat bss" by (auto simp: src_holds_def)
  have "src_readb src + length (concat bss) < 2 ^ 64" using src_holds_readb [OF src(2)] by simp
  then obtain s where s: "src_read src (length (concat bss)) = (s, Some (concat bss))"
    "src_avail (partial_rest mem_rest) s = []" "src_inv partial_pkt_src_read (partial_rest mem_rest)
       (\<lambda>p. partial_ok mem_src_read mem_rest mem_ok p \<and> partial_whole mem_rest p) s"
    by (rule mem_partial_whole.src_read_eq [OF inv]) (simp_all add: av)
  have "src_readb s + 1 < 2 ^ 64" using s(3) by (simp add: src_inv_def)
  then have "snd (src_eof s)" by (rule mem_partial_whole.src_eof_eq [OF s(3)]) (simp add: s(2))
  with w(1-4) mem s0(1) src(1) s(1) show ?thesis by (intro exI conjI) (assumption | simp)+
qed

theorem partial_packet_roundtrip_witness:
  "\<exists>pd pd' p mem src s.
    init_streamed_packet (\<lambda>_. True) \<lparr>pkt_partial = True, pkt_indeterminate = False, pkt_tag = 11\<rparr>
      (fst (init_mem_dest (\<lambda>_. True) 20000)) = Inr (Partial_dst pd) \<and>
    finish_streamed_packet (Partial_dst (fold (\<lambda>bs d. dst_write d bs) [replicate 8193 7] pd)) =
      (Partial_dst pd', RNP_SUCCESS) \<and>
    dst_param pd' = Some p \<and> mem_dest_get_memory (pd_writedst p) = Some mem \<and>
    init_partial_pkt_src (\<lambda>_. True) (fst (init_mem_src (\<lambda>_. True) mem)) = Inr src \<and>
    src_read src 8193 = (s, Some (replicate 8193 7)) \<and> snd (src_eof s)"
  using partial_packet_roundtrip [of "[replicate 8193 7]" 20000 11]
  by (simp add: block_size)

section \<open>Literal packets\<close>

text \<open>C9. A literal packet written in pieces of any size to memory is read back: the source has the
  file name, cut to 255 bytes, and the time, delivers the data and then is at its end.
  When the fields and the data take less than the 8192 bytes of a part, the memory holds one packet of
  definite length with them; when they take more, it holds parts of exactly that size, at least one, and
  a last part of at most that size with a definite length.\<close>

theorem literal_roundtrip:
  assumes "length (concat bss) < 2 ^ 60" "tm < 2 ^ 32" "2 * length (concat bss) + 600 \<le> c"
  shows "\<exists>dst dst' sd d mem src q s.
    init_literal_dst (\<lambda>_. True) fn tm (fst (init_mem_dest (\<lambda>_. True) c)) = Inr dst \<and>
    dst_finish (fold (\<lambda>bs d. dst_write d bs) bss dst) = (dst', RNP_SUCCESS) \<and> dst_param dst' = Some sd \<and>
    close_streamed_packet sd False = Some d \<and> mem_dest_get_memory d = Some mem \<and>
    init_literal_src (\<lambda>_. True) (fst (init_mem_src (\<lambda>_. True) mem)) = Inr src \<and> src_param src = Some q \<and>
    \<not> ls_text q \<and> ls_filename q = take 255 (case fn of None \<Rightarrow> [] | Some f \<Rightarrow> f) \<and> unat (ls_timestamp q) = tm \<and>
    src_read src (length (concat bss)) = (s, Some (concat bss)) \<and> snd (src_eof s) \<and>
    (length (literal_header fn tm @ concat bss) < PARTIAL_PKT_BLOCK_SIZE \<longrightarrow>
       mem = packet_bytes 11 (literal_header fn tm @ concat bss)) \<and>
    (PARTIAL_PKT_BLOCK_SIZE < length (literal_header fn tm @ concat bss) \<longrightarrow>
       (\<exists>parts y. parts \<noteq> [] \<and> (\<forall>x \<in> set parts. length x = PARTIAL_PKT_BLOCK_SIZE) \<and> length y \<le> PARTIAL_PKT_BLOCK_SIZE \<and>
          concat parts @ y = literal_header fn tm @ concat bss \<and>
          mem = 0xCB # parts_enc 0xED parts @ write_packet_len (length y) @ y))"
proof -
  have hl: "length (literal_header fn tm) \<le> 261" by (simp add: literal_header_def Let_def)
  then have c: "2 * (length (literal_header fn tm) + length (concat bss)) + 6 \<le> c" using assms(3) by simp
  obtain dst dst' sd d parts y where w:
    "init_literal_dst (\<lambda>_. True) fn tm (fst (init_mem_dest (\<lambda>_. True) c)) = Inr dst"
    "dst_finish (fold (\<lambda>bs d. dst_write d bs) bss dst) = (dst', RNP_SUCCESS)" "dst_param dst' = Some sd"
    "close_streamed_packet sd False = Some d"
    "mem_dest_get_memory d = Some (0xCB # parts_enc 0xED parts @ write_packet_len (length y) @ y)"
    "\<forall>x \<in> set parts. length x = PARTIAL_PKT_BLOCK_SIZE" "length y \<le> PARTIAL_PKT_BLOCK_SIZE"
    "concat parts @ y = literal_header fn tm @ concat bss"
    by (rule literal_packet_memory [OF c])
  have "length (concat parts) + length y = length (literal_header fn tm) + length (concat bss)"
    using w(8) by (metis length_append)
  then have len: "length (0xCB # parts_enc 0xED parts @ write_packet_len (length y) @ y) < 2 ^ 63"
    using length_parts_enc [OF w(6), of "0xED"] length_write_packet_len [of "length y"] assms(1) hl by simp
  obtain src q where r: "init_literal_src (\<lambda>_. True) (fst (init_mem_src (\<lambda>_. True)
      (0xCB # parts_enc 0xED parts @ write_packet_len (length y) @ y))) = Inr src" "src_param src = Some q" "\<not> ls_text q"
    "ls_filename q = take 255 (case fn of None \<Rightarrow> [] | Some s \<Rightarrow> s)" "ls_timestamp q = read_uint32 (STORE32BE tm)"
    "src_holds literal_src_read (literal_rest mem_rest) (literal_ok mem_src_read mem_rest mem_ok) src (concat bss)"
    by (rule literal_packet_source [OF len w(6-8)])
  have tm: "unat (ls_timestamp q) = tm" using read_uint32_STORE32BE [OF assms(2), of "[]"] by (simp add: r(5))
  obtain s where s: "src_read src (length (concat bss)) = (s, Some (concat bss))" "snd (src_eof s)"
    by (rule mem_literal.read_whole [OF r(6)])
  define mem where "mem = 0xCB # parts_enc 0xED parts @ write_packet_len (length y) @ y"
  have "length (literal_header fn tm @ concat bss) < PARTIAL_PKT_BLOCK_SIZE \<longrightarrow> mem = packet_bytes 11 (literal_header fn tm @ concat bss)"
    using parts_short [OF w(6), of y] unfolding w(8) [symmetric] by (auto simp: mem_def packet_bytes_def parts_enc_def)
  moreover have "PARTIAL_PKT_BLOCK_SIZE < length (literal_header fn tm @ concat bss) \<longrightarrow> parts \<noteq> []"
    using w(7) unfolding w(8) [symmetric] by auto
  then have "PARTIAL_PKT_BLOCK_SIZE < length (literal_header fn tm @ concat bss) \<longrightarrow>
      (\<exists>parts y. parts \<noteq> [] \<and> (\<forall>x \<in> set parts. length x = PARTIAL_PKT_BLOCK_SIZE) \<and> length y \<le> PARTIAL_PKT_BLOCK_SIZE \<and>
         concat parts @ y = literal_header fn tm @ concat bss \<and>
         mem = 0xCB # parts_enc 0xED parts @ write_packet_len (length y) @ y)"
    using w(6-8) mem_def by blast
  moreover note w(1-4) w(5) [folded mem_def] r(1) [folded mem_def] r(2-4) tm s
  ultimately show ?thesis by (intro exI conjI)
qed

theorem literal_roundtrip_witness:
  "\<exists>dst dst' sd d mem src q s.
    init_literal_dst (\<lambda>_. True) (Some (str_bytes ''a.txt'')) 77 (fst (init_mem_dest (\<lambda>_. True) 20700)) = Inr dst \<and>
    dst_finish (fold (\<lambda>bs d. dst_write d bs) [replicate 50 1, replicate 10000 2] dst) = (dst', RNP_SUCCESS) \<and>
    dst_param dst' = Some sd \<and>
    close_streamed_packet sd False = Some d \<and> mem_dest_get_memory d = Some mem \<and>
    init_literal_src (\<lambda>_. True) (fst (init_mem_src (\<lambda>_. True) mem)) = Inr src \<and> src_param src = Some q \<and>
    \<not> ls_text q \<and> ls_filename q = str_bytes ''a.txt'' \<and> unat (ls_timestamp q) = 77 \<and>
    src_read src 10050 = (s, Some (replicate 50 1 @ replicate 10000 2)) \<and> snd (src_eof s) \<and>
    (\<exists>parts y. parts \<noteq> [] \<and> mem = 0xCB # parts_enc 0xED parts @ write_packet_len (length y) @ y)"
  using literal_roundtrip [of "[replicate 50 1, replicate 10000 2]" 77 20700 "Some (str_bytes ''a.txt'')"]
  by (simp add: str_bytes_def literal_header_def block_size) blast

text \<open>A literal packet whose length is smaller than its fields is accepted when enough bytes
  follow it, and the size of its data wraps to almost two to the power of 64.\<close>

theorem literal_size_wraps:
  assumes "length (packet_bytes 11 body @ r) < 2 ^ 63" "length name < 256" "length body < 6 + length name"
    and "body @ r = 98 # to_byte (length name) # name @ STORE32BE tm @ data"
  shows "\<exists>src. init_literal_src (\<lambda>_. True) (fst (init_mem_src (\<lambda>_. True) (packet_bytes 11 body @ r))) = Inr src \<and>
    src_knownsize src \<and> src_size src = 2 ^ 64 + length body - (6 + length name)"
proof -
  obtain s0 where s0: "init_mem_src (\<lambda>_. True) (packet_bytes 11 body @ r) = (s0, RNP_SUCCESS)"
    "src_holds mem_src_read mem_rest mem_ok s0 (packet_bytes 11 body @ r)"
    by (rule init_mem_src_holds [OF assms(1)])
  have b: "length body < 2 ^ 32" using assms(2,3) by simp
  obtain pkt where pkt: "init_packet_params (\<lambda>_. True) s0 = (pkt, RNP_SUCCESS)" "\<not> ps_partial pkt" "\<not> ps_indeterminate pkt"
    "ps_len pkt = length body" "packet_ok mem_src_read mem_rest mem_ok (ps_readsrc pkt)"
    "packet_rest mem_rest (ps_readsrc pkt) = body @ r"
    by (rule mem_source.init_params_whole [OF s0(2) b])
  have "length (body @ r) < 2 ^ 63" using assms(1) by (simp add: packet_bytes_def)
  then have d: "length data < 2 ^ 63" unfolding assms(4) by simp
  have fmt: "98 \<in> (of_char ` {CHR ''b'', CHR ''t'', CHR ''u'', CHR ''l'', CHR ''1''} :: byte set)" by simp
  show ?thesis
    by (rule mem_source.init_literal_src_fields [OF pkt(1,5) pkt(6) [unfolded assms(4)] assms(2) fmt d])
      (use s0(1) pkt(2-4) assms(3) in \<open>auto simp: sub64_def\<close>)
qed

theorem literal_size_wraps_witness:
  "\<exists>src. init_literal_src (\<lambda>_. True) (fst (init_mem_src (\<lambda>_. True) [0xCB, 2, 98, 0, 0, 0, 0, 0, 7, 8])) = Inr src \<and>
    src_knownsize src \<and> src_size src = 2 ^ 64 - 4"
  using literal_size_wraps [of "[98, 0]" "[0, 0, 0, 0, 7, 8]" "[]" 0 "[7, 8]"]
  by (simp add: packet_bytes_def write_packet_len_def STORE32BE_def flip: numeral_2_eq_2)

text \<open>Reading from a literal source of known size fills the cache from the source underneath,
  beyond the end of the packet: what follows the packet is taken out of that source.\<close>

theorem literal_readahead:
  assumes "length (packet_bytes 11 (literal_header fn tm @ data) @ r) < 2 ^ 63"
    and "0 < n" "n \<le> length data" "length data \<le> PGP_INPUT_CACHE_SIZE"
  shows "\<exists>src s q. init_literal_src (\<lambda>_. True) (fst (init_mem_src (\<lambda>_. True)
        (packet_bytes 11 (literal_header fn tm @ data) @ r))) = Inr src \<and>
    src_read src n = (s, Some (take n data)) \<and> src_param s = Some q \<and>
    packet_rest mem_rest (ps_readsrc (ls_pkt q)) = drop (PGP_INPUT_CACHE_SIZE - length data) r"
proof -
  define name where "name = take 255 (case fn of None \<Rightarrow> [] | Some s \<Rightarrow> s)"
  have hdr: "literal_header fn tm = 98 # to_byte (length name) # name @ STORE32BE tm" and nm: "length name < 256"
    by (simp_all add: literal_header_def name_def Let_def)
  obtain s0 where s0: "init_mem_src (\<lambda>_. True) (packet_bytes 11 (literal_header fn tm @ data) @ r) = (s0, RNP_SUCCESS)"
    "src_holds mem_src_read mem_rest mem_ok s0 (packet_bytes 11 (literal_header fn tm @ data) @ r)"
    by (rule init_mem_src_holds [OF assms(1)])
  have b: "length (literal_header fn tm @ data) < 2 ^ 32" using nm assms(4) by (simp add: hdr PGP_INPUT_CACHE_SIZE_def)
  obtain pkt where pkt: "init_packet_params (\<lambda>_. True) s0 = (pkt, RNP_SUCCESS)" "\<not> ps_partial pkt" "\<not> ps_indeterminate pkt"
    "ps_len pkt = length (literal_header fn tm @ data)" "packet_ok mem_src_read mem_rest mem_ok (ps_readsrc pkt)"
    "packet_rest mem_rest (ps_readsrc pkt) = (literal_header fn tm @ data) @ r"
    by (rule mem_source.init_params_whole [OF s0(2) b])
  have fmt: "98 \<in> (of_char ` {CHR ''b'', CHR ''t'', CHR ''u'', CHR ''l'', CHR ''1''} :: byte set)" by simp
  have rest: "packet_rest mem_rest (ps_readsrc pkt) = 98 # to_byte (length name) # name @ STORE32BE tm @ data @ r"
    using pkt(6) by (simp add: hdr)
  have d: "length (data @ r) < 2 ^ 63" using assms(1) by (simp add: packet_bytes_def)
  obtain src q where src: "init_literal_src (\<lambda>_. True) s0 = Inr src" "src_param src = Some q"
    "src_knownsize src" "src_size src = length data" "packet_ok mem_src_read mem_rest mem_ok (ps_readsrc (ls_pkt q))"
    "packet_rest mem_rest (ps_readsrc (ls_pkt q)) = data @ r" "src_rdf src = literal_src_read" "src_readb src = 0"
    "src_cache src = Some \<lparr>cbuf = [], cpos = 0, clen = 0, readahead = True\<rparr>" "\<not> src_eofb src"
    by (rule mem_source.init_literal_src_fields [OF pkt(1,5) rest nm fmt d])
      (use pkt(2-4) in \<open>auto simp: hdr sub64_def literal_ok_def literal_rest_def\<close>)
  obtain ps' where ps': "packet_read (ps_readsrc (ls_pkt q)) PGP_INPUT_CACHE_SIZE =
      (ps', Some (take PGP_INPUT_CACHE_SIZE (data @ r)))" "packet_rest mem_rest ps' = drop PGP_INPUT_CACHE_SIZE (data @ r)"
    by (rule mem_source.packet_read_holds [OF src(5), of PGP_INPUT_CACHE_SIZE]) (simp add: src(6))
  define q' where "q' = q\<lparr>ls_pkt := (ls_pkt q)\<lparr>ps_readsrc := ps'\<rparr>\<rparr>"
  define chunk where "chunk = take PGP_INPUT_CACHE_SIZE (data @ r)"
  have rd: "literal_src_read (Some q) PGP_INPUT_CACHE_SIZE = (Some q', Some chunk)"
    by (simp add: literal_src_read_def ps'(1) q'_def chunk_def)
  have chunk: "n \<le> length chunk" "chunk \<noteq> []" "take n chunk = take n data" using assms(2-4) by (auto simp: chunk_def)
  have n: "0 < n" "n \<le> PGP_INPUT_CACHE_SIZE" "u64 n = n" using assms(2-4) by (simp_all add: PGP_INPUT_CACHE_SIZE_def u64_def)
  have loop: "\<exists>c'. src_read_loop literal_src_read (Some q) c [] n True = (Some q', c', take n data, Finished)" for c
    using n(1,2) chunk by (simp add: src_read_loop.simps rd Let_def)
  have "\<exists>s. src_read src n = (s, Some (take n data)) \<and> src_param s = Some q'"
    using loop [of "\<lparr>cbuf = [], cpos = 0, clen = 0, readahead = True\<rparr>"] n assms(3)
    by (auto simp: src_read_def src cached_def src_read_finish_def Let_def)
  with src(1) s0(1) show ?thesis using ps'(2) assms(4) by (auto simp: q'_def)
qed


theorem literal_readahead_witness:
  "\<exists>src s q. init_literal_src (\<lambda>_. True) (fst (init_mem_src (\<lambda>_. True)
        (packet_bytes 11 (literal_header None 0 @ [65, 66]) @ [0xC2, 0]))) = Inr src \<and>
    src_read src 1 = (s, Some [65]) \<and> src_param s = Some q \<and> packet_rest mem_rest (ps_readsrc (ls_pkt q)) = []"
  using literal_readahead [of None 0 "[65, 66]" "[0xC2, 0]" 1]
  by (simp add: packet_bytes_def write_packet_len_def literal_header_def PGP_INPUT_CACHE_SIZE_def)

section \<open>ASCII armor\<close>

text \<open>C6. What \<^verbatim>\<open>rnp_armor_source\<close> writes to memory, \<^verbatim>\<open>rnp_dearmor_source\<close> reads back: both
  succeed, for every kind of message but cleartext, and the data is the same.\<close>

theorem armor_roundtrip:
  assumes "length data < 2 ^ 60" "crc24_ok bo" "t \<noteq> PGP_ARMORED_UNKNOWN" "t \<noteq> PGP_ARMORED_CLEARTEXT"
    "CH_LF \<notin> set ps" "4 * length data + 200 \<le> c"
  shows "\<exists>s d tx d' asrc.
    rnp_armor_source bo (\<lambda>_. True) ps (fst (init_mem_src (\<lambda>_. True) data)) (fst (init_mem_dest (\<lambda>_. True) c)) t =
      Some (s, d, RNP_SUCCESS) \<and>
    mem_dest_get_memory d = Some tx \<and>
    rnp_dearmor_source bo (\<lambda>_. True) (fst (init_mem_src (\<lambda>_. True) tx)) (fst (init_mem_dest (\<lambda>_. True) c)) =
      Some (Dearmored RNP_SUCCESS d' asrc) \<and>
    mem_dest_get_memory d' = Some data"
proof -
  let ?tx = "armor_head ps t @ armor_body data @ armor_foot t (crc24 bo data)"
  have len: "length data < 2 ^ 63" "length ?tx < 2 ^ 63" "length data \<le> c"
    using length_armor_text [OF assms(3), of "crc24 bo data" ps data] crc24 [OF assms(2), of data] assms(1,6) by simp_all
  obtain s d where w: "rnp_armor_source bo (\<lambda>_. True) ps (fst (init_mem_src (\<lambda>_. True) data))
      (fst (init_mem_dest (\<lambda>_. True) c)) t = Some (s, d, RNP_SUCCESS)" "mem_dest_get_memory d = Some ?tx"
    by (rule armor_source_mem [OF len(1) assms(2,3,6)])
  obtain d' asrc where r: "rnp_dearmor_source bo (\<lambda>_. True) (fst (init_mem_src (\<lambda>_. True) ?tx))
      (fst (init_mem_dest (\<lambda>_. True) c)) = Some (Dearmored RNP_SUCCESS d' asrc)" "mem_dest_get_memory d' = Some data"
    by (rule dearmor_source_mem [OF len(2) assms(2-5) len(3)])
  from w r show ?thesis by blast
qed

text \<open>A library whose checksums are the length of the data.\<close>

definition length_crc :: botan where
  "length_crc = \<lparr>bo_hash_init = (\<lambda>_. True), bo_hash_output_length = (\<lambda>_. Some 3),
     bo_hash_final = (\<lambda>name bs. Some [to_byte (length bs div 65536), to_byte (length bs div 256), to_byte (length bs)])\<rparr>"

lemma length_crc_ok: "crc24_ok length_crc"
  by (simp add: crc24_ok_def length_crc_def)

theorem armor_roundtrip_witness:
  "\<exists>s d tx d' asrc.
    rnp_armor_source length_crc (\<lambda>_. True) (str_bytes ''rnp 0'') (fst (init_mem_src (\<lambda>_. True) (replicate 100000 7)))
      (fst (init_mem_dest (\<lambda>_. True) 500000)) PGP_ARMORED_MESSAGE = Some (s, d, RNP_SUCCESS) \<and>
    mem_dest_get_memory d = Some tx \<and>
    rnp_dearmor_source length_crc (\<lambda>_. True) (fst (init_mem_src (\<lambda>_. True) tx)) (fst (init_mem_dest (\<lambda>_. True) 500000)) =
      Some (Dearmored RNP_SUCCESS d' asrc) \<and>
    mem_dest_get_memory d' = Some (replicate 100000 7)"
  by (rule armor_roundtrip) (simp_all add: length_crc_ok str_bytes_def CH_LF_def)

text \<open>C16. The armored text is, whatever the way the data went through the caches, the header
  line, a version header, an empty line, the base 64 text of the data, the checksum
  and the trailer line, and no line of the base 64 text has more than 76 characters.\<close>

theorem armored_text:
  assumes "length data < 2 ^ 63" "crc24_ok bo" "t \<noteq> PGP_ARMORED_UNKNOWN" "4 * length data + 200 \<le> c"
  shows "\<exists>s d. rnp_armor_source bo (\<lambda>_. True) ps (fst (init_mem_src (\<lambda>_. True) data))
      (fst (init_mem_dest (\<lambda>_. True) c)) t = Some (s, d, RNP_SUCCESS) \<and>
    mem_dest_get_memory d = Some (armor_head ps t @ armor_body data @ armor_foot t (crc24 bo data)) \<and>
    lines_ok 0 (armor_body data)"
proof -
  obtain s d where "rnp_armor_source bo (\<lambda>_. True) ps (fst (init_mem_src (\<lambda>_. True) data))
      (fst (init_mem_dest (\<lambda>_. True) c)) t = Some (s, d, RNP_SUCCESS)"
    "mem_dest_get_memory d = Some (armor_head ps t @ armor_body data @ armor_foot t (crc24 bo data))"
    by (rule armor_source_mem [OF assms])
  then show ?thesis using armor_body_lines [of data] by blast
qed

theorem armored_text_witness:
  "\<exists>s d. rnp_armor_source length_crc (\<lambda>_. True) (str_bytes ''rnp 0'') (fst (init_mem_src (\<lambda>_. True) [1, 2, 3, 4]))
      (fst (init_mem_dest (\<lambda>_. True) 300)) PGP_ARMORED_MESSAGE = Some (s, d, RNP_SUCCESS) \<and>
    mem_dest_get_memory d = Some (str_bytes (
      ''-----BEGIN PGP MESSAGE-----'' @ [CHR 0x0D, CHR 0x0A] @ ''Version: rnp 0'' @ [CHR 0x0D, CHR 0x0A] @
      [CHR 0x0D, CHR 0x0A] @ ''AQIDBA=='' @ [CHR 0x0D, CHR 0x0A] @ ''=AAAE'' @ [CHR 0x0D, CHR 0x0A] @
      ''-----END PGP MESSAGE-----'' @ [CHR 0x0D, CHR 0x0A]))"
proof -
  have b64: "B64ENC ! 0 = 65" "B64ENC ! 4 = 69" "B64ENC ! 16 = 81" "B64ENC ! 32 = 103" "B64ENC ! Suc 0 = 66"
    "B64ENC ! 131 = 68" "B64ENC ! 64 = 65" "B64ENC ! 8 = 73" "B64ENC ! 3 = 68"
    by (simp_all add: B64ENC_codes numeral_eq_Suc)
  have "armor_body [1, 2, 3, 4] = str_bytes (''AQIDBA=='' @ [CHR 0x0D, CHR 0x0A])"
    by (simp add: armor_body_def b64_rem_def armor_tail_text_def b64 str_bytes_def CH_EQ_def CH_CR_def CH_LF_def Let_def)
  moreover have "crc24 length_crc [1, 2, 3, 4] = [0, 0, 4]" by (simp add: crc24_def length_crc_def to_byte_def)
  moreover have "armored_encode3 [0, 0, 4] = str_bytes ''AAAE''"
    by (simp add: armored_encode3_def b64 str_bytes_def)
  ultimately have "armor_head (str_bytes ''rnp 0'') PGP_ARMORED_MESSAGE @ armor_body [1, 2, 3, 4] @
      armor_foot PGP_ARMORED_MESSAGE (crc24 length_crc [1, 2, 3, 4]) =
    str_bytes (
      ''-----BEGIN PGP MESSAGE-----'' @ [CHR 0x0D, CHR 0x0A] @ ''Version: rnp 0'' @ [CHR 0x0D, CHR 0x0A] @
      [CHR 0x0D, CHR 0x0A] @ ''AQIDBA=='' @ [CHR 0x0D, CHR 0x0A] @ ''=AAAE'' @ [CHR 0x0D, CHR 0x0A] @
      ''-----END PGP MESSAGE-----'' @ [CHR 0x0D, CHR 0x0A])"
    by (simp add: armor_head_def armor_foot_def armor_message_header_def ST_ARMOR_BEGIN_def ST_ARMOR_END_def ST_DASHES_def
        ST_HEADER_VERSION_def str_bytes_def cstr_def CH_EQ_def CH_CR_def CH_LF_def)
  then show ?thesis
    using armored_text [of "[1, 2, 3, 4]" length_crc PGP_ARMORED_MESSAGE 300 "str_bytes ''rnp 0''"] length_crc_ok by auto
qed

text \<open>While the lines are encoded, the buffer of the encoder never holds more than its 16384 bytes.\<close>

theorem armor_encbuf_bound:
  assumes "armor_layout p" "length encbuf \<le> 16384"
  shows "length (fst (snd (armored_lines p encbuf buf))) \<le> 16384"
  using armored_lines_bound [OF assms] by (metis prod.collapse)

theorem armor_encbuf_bound_witness:
  "length (fst (snd (armored_lines \<lparr>ad_writedst = zero_dest :: nat option pgp_dest, ad_type = PGP_ARMORED_MESSAGE,
     ad_usecrlf = True, ad_lout = 0, ad_llen = 76, ad_tail = [], ad_crc_ctx = zero_hash\<rparr> [] (replicate 60000 9)))) \<le> 16384"
  by (rule armor_encbuf_bound) (simp_all add: armor_layout_def)

text \<open>C36. Armored text that stops before its checksum is never read to its end: the reading loop
  asks the exhausted source again and again, without returning.\<close>

theorem armor_read_without_end:
  assumes "length T < 2 ^ 63" "b64_text T" "length T div 4 * 3 + 3 \<le> len"
  shows "armored_read_loop (\<lambda>_. True) hdr crc (fst (init_mem_src (\<lambda>_. True) T)) [] [] len = None"
proof (cases "armored_read_loop (\<lambda>_. True) hdr crc (fst (init_mem_src (\<lambda>_. True) T)) [] [] len")
  case (Some l)
  obtain s where s: "init_mem_src (\<lambda>_. True) T = (s, RNP_SUCCESS)" "src_holds mem_src_read mem_rest mem_ok s T"
    by (rule init_mem_src_holds [OF assms(1)])
  from Some have "armored_read_loop (\<lambda>_. True) hdr crc s [] [] len = Some l" by (simp add: s(1))
  from mem_source.read_loop_returns [OF this s(2) assms(2)] show ?thesis using assms(3) by simp
qed

theorem armor_read_without_end_witness:
  "armored_read_loop (\<lambda>_. True) [] [0, 0, 0] (fst (init_mem_src (\<lambda>_. True) (str_bytes ''AQIDBA''))) [] [] 32768 = None"
proof -
  have "b64_text (str_bytes ''AQIDBA'')" unfolding b64_text_def by code_simp
  then show ?thesis by (intro armor_read_without_end) (simp_all add: str_bytes_def)
qed

text \<open>C37. When the armor headers are wrong, \<^verbatim>\<open>rnp_dearmor_source\<close> frees the parameters of the
  armored source twice, once in \<^verbatim>\<open>init_armored_src\<close> and once when it closes the source.\<close>

theorem dearmor_frees_twice:
  assumes "rnp_dearmor_source bo al src dst = Some (Dearmored RNP_ERROR_BAD_FORMAT d (Some s))"
  shows "\<exists>q. src_param s = Some q \<and> as_frees q = 2"
  using assms by (rule dearmor_close_twice)

theorem dearmor_frees_twice_witness:
  "\<exists>d s q. rnp_dearmor_source length_crc (\<lambda>_. True) (fst (init_mem_src (\<lambda>_. True) (str_bytes ''-----BEGIN PGP NOTHING-----'')))
      (fst (init_mem_dest (\<lambda>_. True) 100)) = Some (Dearmored RNP_ERROR_BAD_FORMAT d (Some s)) \<and>
    src_param s = Some q \<and> as_frees q = 2"
proof -
  define a where "a = str_bytes ''-----BEGIN PGP NOTHING-----''"
  have len: "length a = 27" by (simp add: a_def str_bytes_def)
  then have "length a < 2 ^ 63" by simp
  then obtain s0 where s0: "init_mem_src (\<lambda>_. True) a = (s0, RNP_SUCCESS)" "src_holds mem_src_read mem_rest mem_ok s0 a"
    by (rule init_mem_src_holds)
  obtain s1 where s1: "src_peek s0 35 = (s1, Some a)" "src_holds mem_src_read mem_rest mem_ok s1 a"
    by (rule mem_source.peek_has [OF s0(2), of 35]) (auto simp: PGP_INPUT_CACHE_SIZE_def len)
  obtain s2 where s2: "src_peek s1 128 = (s2, Some a)"
    by (rule mem_source.peek_has [OF s1(2), of 128]) (auto simp: PGP_INPUT_CACHE_SIZE_def len)
  have tx: "strstr (cstr (butlast a)) ST_ARMOR_BEGIN" "\<not> strstr (cstr (butlast a)) ST_CLEAR_BEGIN"
    "length ST_ARMOR_BEGIN = 15" "length ST_CLEAR_BEGIN = 34"
    by (simp_all add: a_def ST_ARMOR_BEGIN_def ST_CLEAR_BEGIN_def str_bytes_def cstr_def)
  have "a = ST_DASHES @ str_bytes ''BEGIN PGP NOTHING'' @ ST_DASHES @ []"
    by (simp add: a_def ST_DASHES_def str_bytes_def)
  then have hdr: "find_armor_header a = Some (0, 27)"
    using find_armor_header_eq [of "str_bytes ''BEGIN PGP NOTHING''" "[]"] by (simp add: str_bytes_def CH_DASH_def)
  have t: "armor_str_to_data_type (Some (take 17 (drop 5 a))) 17 = PGP_ARMORED_UNKNOWN"
    by (simp add: armor_str_to_data_type_def strncmp_eq_def a_def str_bytes_def cstr_def)
  have "\<exists>s. init_armored_src length_crc (\<lambda>_. True) s1 = Some (s, RNP_ERROR_BAD_FORMAT)"
    using crc24_create [OF length_crc_ok] s2 hdr t len
    by (simp add: init_armored_src_def init_src_common_def armor_parse_header_def armored_zero_param_def Let_def)
  then obtain s where "rnp_dearmor_source length_crc (\<lambda>_. True) s0 (fst (init_mem_dest (\<lambda>_. True) 100)) =
      Some (Dearmored RNP_ERROR_BAD_FORMAT (fst (init_mem_dest (\<lambda>_. True) 100)) (Some s))"
    using s1(1) tx len by (auto simp: rnp_dearmor_source_def Let_def)
  moreover from dearmor_frees_twice [OF this] obtain q where "src_param s = Some q" "as_frees q = 2" by blast
  ultimately show ?thesis using s0(1) unfolding a_def by auto
qed

text \<open>C38. Errors of the destination are lost: with a limit below the length of the text the
  memory destination has failed, and \<^verbatim>\<open>rnp_armor_source\<close> still reports success.\<close>

theorem armor_hides_write_errors:
  assumes "length data < 2 ^ 63" "crc24_ok bo" "t \<noteq> PGP_ARMORED_UNKNOWN"
    "c < length (armor_head ps t @ armor_body data @ armor_foot t (crc24 bo data))"
  shows "\<exists>s d. rnp_armor_source bo (\<lambda>_. True) ps (fst (init_mem_src (\<lambda>_. True) data))
      (fst (init_mem_dest (\<lambda>_. True) c)) t = Some (s, d, RNP_SUCCESS) \<and> dst_werr d \<noteq> RNP_SUCCESS"
  by (rule armor_source_overflow [OF assms]) blast

theorem armor_hides_write_errors_witness:
  "\<exists>s d. rnp_armor_source length_crc (\<lambda>_. True) [] (fst (init_mem_src (\<lambda>_. True) [1, 2, 3]))
      (fst (init_mem_dest (\<lambda>_. True) 20)) PGP_ARMORED_MESSAGE = Some (s, d, RNP_SUCCESS) \<and> dst_werr d \<noteq> RNP_SUCCESS"
  by (rule armor_hides_write_errors)
    (simp_all add: length_crc_ok armor_head_def armor_message_header_def ST_ARMOR_BEGIN_def str_bytes_def)

text \<open>The kind of a message is decided by a prefix only: every beginning of a header line, the
  empty one too, counts as the header of a message.\<close>

theorem armor_header_prefix:
  assumes "n \<le> 17"
  shows "armor_str_to_data_type (Some (take n (str_bytes ''BEGIN PGP MESSAGE''))) n = PGP_ARMORED_MESSAGE"
proof -
  have "\<forall>n \<in> set [0..<18]. armor_str_to_data_type (Some (take n (str_bytes ''BEGIN PGP MESSAGE''))) n = PGP_ARMORED_MESSAGE"
    by code_simp
  then show ?thesis using assms by auto
qed

theorem armor_header_prefix_witness:
  "armor_str_to_data_type (Some []) 0 = PGP_ARMORED_MESSAGE"
  using armor_header_prefix [of 0] by simp

section \<open>Hash contexts\<close>

text \<open>C27. A list of hash contexts holds one context for each algorithm that was added, whatever is
  added twice, and after any number of updates finishing the context of an algorithm
  gives its digest of all the data, with the length that the library states.\<close>

theorem hash_list_digests:
  assumes "fold (\<lambda>alg r. if snd r then pgp_hash_list_add bo al (fst r) alg else r) algs ([], True) = (hs, True)"
    and "alg \<in> set algs"
  shows "\<exists>h name. pgp_hash_list_get (fold (\<lambda>bs hs. pgp_hash_list_update hs bs) bss hs) alg = Some h \<and>
    length hs = card (set algs) \<and> pgp_hash_name_botan alg = Some name \<and>
    (\<forall>out. bo_hash_final bo name (concat bss) = Some out \<longrightarrow>
       snd (pgp_hash_finish bo h) = (the (bo_hash_output_length bo name), out))"
proof -
  obtain gs where gs: "hashes_fed bo hs gs []" "set gs = set algs"
    using list_adds_fed [OF assms(1), of "[]"] by (auto simp: hashes_fed_def)
  then have "hashes_fed bo (fold (\<lambda>bs hs. pgp_hash_list_update hs bs) bss hs) gs (concat bss)"
    using list_updates_fed [OF gs(1), of bss] by simp
  from list_get_fed [OF this, of alg] obtain h where
    h: "pgp_hash_list_get (fold (\<lambda>bs hs. pgp_hash_list_update hs bs) bss hs) alg = Some h" "hash_fed bo h alg (concat bss)"
    using assms(2) gs(2) by (auto split: option.splits)
  moreover have "length hs = card (set algs)"
    using gs distinct_card [of gs] by (auto simp: hashes_fed_def dest: list_all2_lengthD)
  ultimately show ?thesis by (auto simp: hash_fed_def pgp_hash_finish_def)
qed

theorem hash_list_digests_witness:
  "\<exists>h name. pgp_hash_list_get (fold (\<lambda>bs hs. pgp_hash_list_update hs bs) [[1], [2, 3]]
      (fst (fold (\<lambda>alg r. if snd r then pgp_hash_list_add length_crc (\<lambda>_. True) (fst r) alg else r) [8, 2, 8] ([], True)))) 2 = Some h \<and>
    pgp_hash_name_botan 2 = Some name \<and> snd (pgp_hash_finish length_crc h) = (3, [0, 0, 3])"
proof -
  define hs where "hs = map (\<lambda>(name, alg). \<lparr>h_handle = Some (name, [] :: bytes), h_output_len = 3, h_alg = alg\<rparr>)
      [(''SHA-256'', 8), (''SHA-1'', 2)]"
  have hs: "fold (\<lambda>alg r. if snd r then pgp_hash_list_add length_crc (\<lambda>_. True) (fst r) alg else r) [8, 2, 8] ([], True) = (hs, True)"
    by (simp add: hs_def pgp_hash_list_add_def pgp_hash_create_def length_crc_def pgp_hash_name_botan_def hash_alg_map_def
        pgp_hash_alg_type_def)
  from hash_list_digests [OF hs, of 2 "[[1], [2, 3]]"] show ?thesis
    unfolding hs by (auto simp: length_crc_def to_byte_def pgp_hash_name_botan_def hash_alg_map_def)
qed

text \<open>The table of names is inverted by the lookup, and the lookup ignores case.\<close>

theorem hash_names_roundtrip:
  assumes "pgp_show_hash_alg alg = Some name" "c_string s" "map tolower s = map tolower name"
  shows "pgp_str_to_hash_alg (Some s) = alg"
proof -
  have names: "c_string name" using assms(1) by (auto simp: pgp_show_hash_alg_def hash_alg_map_def c_string_def split: if_splits)
  have cmp: "rnp_strcasecmp s n = 0 \<longleftrightarrow> map tolower name = map tolower n" if "c_string n" for n
    using strcasecmp_eq [OF assms(2) that] assms(3) by simp
  show ?thesis using assms(1)
    by (auto simp: pgp_show_hash_alg_def pgp_str_to_hash_alg_def hash_alg_map_def cmp c_string_def tolower_def split: if_splits)
qed

theorem hash_names_roundtrip_witness: "pgp_str_to_hash_alg (Some ''Sha256'') = 8"
  by (rule hash_names_roundtrip [of 8 "''SHA256''"]) (simp_all add: pgp_show_hash_alg_def hash_alg_map_def c_string_def tolower_def)

section \<open>Signed data\<close>

text \<open>A verifier that accepts every digest of three bytes for every key.\<close>

definition sample_verifier :: "bytes verifier" where
  "sample_verifier =
     \<lparr>vf_dsa = (\<lambda>h r s k. False), vf_eddsa = (\<lambda>h r s k. False), vf_sm2 = (\<lambda>h r s k. False),
      vf_rsa = (\<lambda>h s a k. length h = 3), vf_ecdsa = (\<lambda>h r s k. False), vf_request_key = Some, vf_time = 0x5b000000\<rparr>"

text \<open>C7. A detached signature file, given the signed data in any pieces, is verified as a whole: for
  every signature the report has the key that the provider knows for its key id and the answer
  of the public-key algorithm for the digest of the data and the signature's hashed part, and the
  result is success exactly when all signatures are valid and not expired.\<close>

theorem detached_verification:
  fixes vf :: "'k verifier"
  assumes "sigs \<noteq> []" "\<forall>x \<in> set sigs. sig_wf x \<and> hash_known bo (sig_halg x)" "length (sigs_bytes sigs) < 2 ^ 63"
    and "\<not> strstr (cstr (butlast (take 128 (sigs_bytes sigs)))) ST_CLEAR_BEGIN"
  shows "\<exists>(src :: (mem_src_param option, 'k) signed_param option pgp_source) src' infos.
    init_signed_src bo (\<lambda>_. True) True (fst (init_mem_src (\<lambda>_. True) (sigs_bytes sigs))) = Some (Inr src) \<and>
    signed_src_finish bo (\<lambda>_. True) vf (fold (\<lambda>bs s. signed_src_update s bs) bss src) =
      Some (src', if \<forall>i \<in> set infos. si_valid i \<and> \<not> si_expired i then RNP_SUCCESS else RNP_ERROR_SIGNATURE_INVALID, Some infos) \<and>
    infos = map (sig_report bo vf (concat bss)) sigs"
proof -
  obtain s where s: "init_mem_src (\<lambda>_. True) (sigs_bytes sigs) = (s, RNP_SUCCESS)"
    "src_holds mem_src_read mem_rest mem_ok s (sigs_bytes sigs)"
    by (rule init_mem_src_holds [OF assms(3)])
  obtain src :: "(mem_src_param option, 'k) signed_param option pgp_source" and q where
    src: "init_signed_src bo (\<lambda>_. True) True s = Some (Inr src)" "src_param src = Some q" "sigs_read bo q sigs"
    "src_holds signed_src_read (sg_rest mem_rest) (sg_ok mem_src_read mem_rest mem_ok q) src []"
    by (rule mem_source.init_detached [OF assms(1,2) s(2) assms(4)])
  let ?infos = "map (sig_report bo vf (concat bss)) sigs"
  obtain src' where "signed_src_finish bo (\<lambda>_. True) vf (fold (\<lambda>bs s. signed_src_update s bs) bss src) =
      Some (src', signed_verdict ?infos, Some ?infos)"
    by (rule mem_source.finish_detached [OF src(4,2,3), where vf = vf and bss = bss])
  moreover have "signed_verdict ?infos =
      (if \<forall>i \<in> set ?infos. si_valid i \<and> \<not> si_expired i then RNP_SUCCESS else RNP_ERROR_SIGNATURE_INVALID)"
    by (auto simp: signed_verdict_def list_ex_iff)
  ultimately show ?thesis using s(1) src(1) by (auto simp del: set_map)
qed

theorem detached_verification_witness:
  "\<exists>(src :: (mem_src_param option, bytes) signed_param option pgp_source) src' infos.
    init_signed_src length_crc (\<lambda>_. True) True (fst (init_mem_src (\<lambda>_. True) (sigs_bytes [sample_signature]))) = Some (Inr src) \<and>
    signed_src_finish length_crc (\<lambda>_. True) sample_verifier (fold (\<lambda>bs s. signed_src_update s bs) [[1, 2], [3]] src) =
      Some (src', RNP_SUCCESS, Some infos) \<and> length infos = 1"
proof -
  have bits1: "significant_bits (Suc 0) = 1" by (simp add: significant_bits.simps)
  have bytes: "sigs_bytes [sample_signature] = [0xC2, 31, 4, 0, 1, 8, 0, 6, 5, 2, 0x5a, 0, 0, 1, 0, 10, 9, 16, 1, 2, 3, 4, 5, 6, 7, 8,
      0xab, 0xcd, 0, 17, 1, 2, 3]"
    by (simp add: sigs_bytes_def packet_bytes_def sig_body_def sample_signature_def sig_fields_def sig_v4_fields_def sig_v4_head_def
        sig_hashed_enc_def sig_unhashed_enc_def subpkt_enc_def write_packet_len_def be16_def to_byte_def mpi_enc_def mpi_bits_def bits1)
  have ok: "\<forall>x \<in> set [sample_signature]. sig_wf x \<and> hash_known length_crc (sig_halg x)"
    using sample_signature_wf by (simp add: sample_signature_def hash_known_def pgp_hash_name_botan_def hash_alg_map_def length_crc_def)
  have len: "length (sigs_bytes [sample_signature]) < 2 ^ 63" unfolding bytes by simp
  have clr: "\<not> strstr (cstr (butlast (take 128 (sigs_bytes [sample_signature])))) ST_CLEAR_BEGIN"
    unfolding bytes by (simp add: cstr_def ST_CLEAR_BEGIN_def str_bytes_def)
  have rep: "si_valid (sig_report length_crc sample_verifier [1, 2, 3] sample_signature)"
    "\<not> si_expired (sig_report length_crc sample_verifier [1, 2, 3] sample_signature)"
    by (simp_all add: sig_report_def sample_signature_def sample_verifier_def signature_get_keyid_def signature_get_subpkt_def
        verify_switch_def sig_digest_def pgp_hash_name_botan_def hash_alg_map_def length_crc_def sig_expired_def
        signature_get_creation_def signature_get_expiration_def zero_siginfo_def)
  from detached_verification [OF _ ok len clr, of sample_verifier "[[1, 2], [3]]"] rep show ?thesis by auto
qed

text \<open>C8. A cleartext message of lines with dash escapes, short enough for the buffer, is delivered
  as its lines without the escapes and without spaces at their ends, whatever the pieces in which it is
  read, and what a signature over it is then checked against is the digest of these lines joined by
  carriage return and line feed.\<close>

theorem cleartext_message:
  fixes vf :: "'k verifier"
  assumes "pgp_show_hash_alg alg = Some name" "hash_known bo alg" "\<forall>l \<in> set ls. ct_line_ok l"
    and "sig_marker m" "CH_LF \<notin> set m" "length m + 2 \<le> CT_BUF_LEN"
    and "length (ct_encode ls @ m @ ST_CRLF @ r) < 2 ^ 62" "sig_halg sig = alg" "length (ct_shown ls) \<le> sum_list ns"
  shows "\<exists>(src :: (mem_src_param option, 'k) signed_param option pgp_source) s bss q.
    init_signed_src bo (\<lambda>_. True) True
      (fst (init_mem_src (\<lambda>_. True) (clear_head (str_bytes name) @ ct_encode ls @ m @ ST_CRLF @ r))) = Some (Inr src) \<and>
    src_reads src ns = (s, map Some bss) \<and> concat bss = ct_shown ls \<and> snd (src_eof s) \<and> src_param s = Some q \<and>
    signed_validate_signature bo vf (sg_hashes q) sig key =
      verify_switch vf sig (sig_digest bo sig (crlf_join (map strip_spaces ls))) key"
proof -
  let ?z = "ct_encode ls @ m @ ST_CRLF @ r"
  note e = ct_encoded [OF assms(3-6), of r True]
  obtain bname n where b: "pgp_hash_name_botan alg = Some bname" "bo_hash_init bo bname" "bo_hash_output_length bo bname = Some n"
    using assms(2) by (auto simp: hash_known_def split: option.splits)
  have "length (clear_head (str_bytes name)) < 100"
    using hash_name_chars(2) [OF assms(1)] by (simp add: clear_head_def ST_CLEAR_BEGIN_def ST_HEADER_HASH_def ST_CRLF_def str_bytes_def)
  then have "length (clear_head (str_bytes name) @ ?z) < 2 ^ 63" using assms(7) by simp
  then obtain s0 where s0: "init_mem_src (\<lambda>_. True) (clear_head (str_bytes name) @ ?z) = (s0, RNP_SUCCESS)"
    "src_holds mem_src_read mem_rest mem_ok s0 (clear_head (str_bytes name) @ ?z)"
    by (rule init_mem_src_holds)
  obtain src :: "(mem_src_param option, 'k) signed_param option pgp_source" where
    src: "init_signed_src bo (\<lambda>_. True) True s0 = Some (Inr src)"
    "src_holds (cleartext_src_read (\<lambda>_. True)) (ct_rest mem_rest)
       (ct_ok mem_src_read mem_rest mem_ok bo [alg] (ct_hashed True ?z)) src (ct_text ?z)"
    by (rule mem_source.init_cleartext_has [OF s0(2) assms(1) b]) (use e in auto)
  let ?ok = "ct_ok mem_src_read mem_rest mem_ok bo [alg] (ct_hashed True ?z)"
  have inv: "src_inv (cleartext_src_read (\<lambda>_. True)) (ct_rest mem_rest) ?ok src"
    and av: "src_avail (ct_rest mem_rest) src = ct_shown ls" using src(2) e by (auto simp: src_holds_def)
  obtain s bss where s: "src_reads src ns = (s, map Some bss)"
    "src_avail (ct_rest mem_rest) s = []" "src_inv (cleartext_src_read (\<lambda>_. True)) (ct_rest mem_rest) ?ok s"
    and all: "concat bss = ct_shown ls"
    by (rule mem_cleartext.src_reads_any [OF inv, of ns]) (use assms(9) in \<open>simp add: av\<close>)
  have "src_readb s + 1 < 2 ^ 64" using s(3) by (simp add: src_inv_def)
  then have eof: "snd (src_eof s)" by (rule mem_cleartext.src_eof_eq [OF s(3)]) (simp add: s(2))
  have "?ok (src_param s)" "ct_rest mem_rest (src_param s) = []"
    using s(2,3) by (auto simp: src_inv_def src_avail_def split: option.splits)
  then obtain q where q: "src_param s = Some q" "hashes_fed bo (sg_hashes q) [alg] (ct_hashed True ?z)"
    by (rule mem_source.ct_done)
  have "signed_validate_signature bo vf (sg_hashes q) sig key =
      verify_switch vf sig (sig_digest bo sig (crlf_join (map strip_spaces ls))) key"
    using validate_digest [OF q(2), of sig vf key] e assms(8) by simp
  with s0(1) src(1) s(1) all eof q(1) show ?thesis by auto
qed

theorem cleartext_message_witness:
  "\<exists>(src :: (mem_src_param option, bytes) signed_param option pgp_source) s bss q.
    init_signed_src length_crc (\<lambda>_. True) True
      (fst (init_mem_src (\<lambda>_. True) (clear_head (str_bytes ''SHA256'') @
         ct_encode [str_bytes ''-a '', str_bytes ''b''] @ str_bytes ''-----BEGIN PGP SIGNATURE-----'' @ ST_CRLF @ [7]))) = Some (Inr src) \<and>
    src_reads src [3, 0, 1, 5] = (s, map Some bss) \<and> concat bss = [45, 97, 13, 10, 98, 13, 10] \<and> snd (src_eof s) \<and> src_param s = Some q \<and>
    signed_validate_signature length_crc sample_verifier (sg_hashes q) sample_signature [] =
      verify_switch sample_verifier sample_signature (sig_digest length_crc sample_signature [45, 97, 13, 10, 98]) []"
proof -
  let ?ls = "[str_bytes ''-a '', str_bytes ''b'']"
  have shown: "ct_shown ?ls = [45, 97, 13, 10, 98, 13, 10]" "crlf_join (map strip_spaces ?ls) = [45, 97, 13, 10, 98]"
    by (simp_all add: ct_shown_def strip_spaces_def str_bytes_def ST_CRLF_def CH_CR_def CH_LF_def)
  have l7: "length [45, 97, 13, 10, 98, 13, 10 :: byte] = 7" by simp
  have "pgp_show_hash_alg 8 = Some ''SHA256''" by (simp add: pgp_show_hash_alg_def hash_alg_map_def)
  moreover have "hash_known length_crc 8" by (simp add: hash_known_def pgp_hash_name_botan_def hash_alg_map_def length_crc_def)
  moreover have "\<forall>l \<in> set ?ls. ct_line_ok l" by (simp add: ct_line_ok_def str_bytes_def CH_LF_def CT_BUF_LEN_def)
  moreover have "sig_marker (str_bytes ''-----BEGIN PGP SIGNATURE-----'')" "CH_LF \<notin> set (str_bytes ''-----BEGIN PGP SIGNATURE-----'')"
    "length (str_bytes ''-----BEGIN PGP SIGNATURE-----'') + 2 \<le> CT_BUF_LEN"
    by (simp_all add: sig_marker_def str_bytes_def ST_DASHES_def CH_LF_def CT_BUF_LEN_def)
  moreover have "length (ct_encode ?ls @ str_bytes ''-----BEGIN PGP SIGNATURE-----'' @ ST_CRLF @ [7]) < 2 ^ 62"
    by (simp add: ct_encode_def dash_escape_def str_bytes_def ST_CRLF_def CH_DASH_def)
  moreover have "sig_halg sample_signature = 8" by (simp add: sample_signature_def)
  moreover have "length (ct_shown ?ls) \<le> sum_list [3, 0, 1, 5]" unfolding shown l7 by simp
  ultimately show ?thesis
    using cleartext_message [of 8 "''SHA256''" length_crc ?ls "str_bytes ''-----BEGIN PGP SIGNATURE-----''" "[7]" sample_signature
        "[3, 0, 1, 5]" sample_verifier "[]"]
    unfolding shown by blast
qed

text \<open>C40. When all that is left of a cleartext message is a carriage return, reading it never returns.\<close>

theorem cleartext_lone_cr:
  assumes "sg_readsrc q = fst (init_mem_src (\<lambda>_. True) [CH_CR])" "sg_out q = []" "\<not> sg_clr_eod q" "0 < len"
  shows "ct_read_loop (\<lambda>_. True) q buf len = None"
proof (cases "ct_read_loop (\<lambda>_. True) q buf len")
  case (Some r)
  obtain s where s: "init_mem_src (\<lambda>_. True) [CH_CR] = (s, RNP_SUCCESS)" "src_holds mem_src_read mem_rest mem_ok s [CH_CR]"
    by (rule init_mem_src_holds [of "[CH_CR]"]) simp
  from mem_source.ct_loop_cr [OF Some _ assms(2-4)] s assms(1) show ?thesis by simp
qed

theorem cleartext_lone_cr_witness:
  "ct_read_loop (\<lambda>_. True) (signed_zero_param (fst (init_mem_src (\<lambda>_. True) [CH_CR])) True :: (mem_src_param option, nat) signed_param) [] 32768 = None"
  by (rule cleartext_lone_cr) (simp_all add: signed_zero_param_def)

text \<open>C39. A signature of an unknown version behind one-pass signed data leads to a null pointer access: the
  reader goes on without a signature and compares it with the one-pass signature.\<close>

theorem unparsed_signature_crash:
  assumes "v \<notin> {2, 3, 4}" "length x < 2 ^ 31" "length r < 2 ^ 62"
  shows "signed_read_signatures (\<lambda>_. True) (op # ops) (fst (init_mem_src (\<lambda>_. True) (packet_bytes 2 (v # x) @ r))) infos sigs sig = None"
proof -
  have "length (packet_bytes 2 (v # x) @ r) < 2 ^ 63"
    using assms(2,3) length_packet_bytes [of 2 "v # x"] by simp
  then obtain s where s: "init_mem_src (\<lambda>_. True) (packet_bytes 2 (v # x) @ r) = (s, RNP_SUCCESS)"
    "src_holds mem_src_read mem_rest mem_ok s (packet_bytes 2 (v # x) @ r)" by (rule init_mem_src_holds)
  obtain s1 where s1: "src_peek s 1 = (s1, Some (take 1 (packet_bytes 2 (v # x) @ r)))"
    "src_holds mem_src_read mem_rest mem_ok s1 (packet_bytes 2 (v # x) @ r)"
    by (rule mem_source.peek_has [OF s(2), of 1]) (auto simp: PGP_INPUT_CACHE_SIZE_def)
  have len: "length (v # x) < 2 ^ 32" using assms(2) by simp
  obtain s2 where s2: "stream_read_pkt_len s1 = (s2, Some (length (v # x)))" "src_holds mem_src_read mem_rest mem_ok s2 ((v # x) @ r)"
    by (rule mem_source.packet_len_holds [OF s1(2) len])
  obtain s3 where s3: "src_get s2 1 = (s3, Some [v])"
    by (rule mem_source.get_exact [of s2 "[v]" "x @ r" 1]) (use s2(2) in auto)
  have "unat v \<noteq> unat (2 :: byte) \<and> unat v \<noteq> unat (3 :: byte) \<and> unat v \<noteq> unat (4 :: byte)"
    using assms(1) by (simp only: word_eq_iff_unsigned [symmetric]) simp
  then have "unat v \<noteq> 2 \<and> unat v \<noteq> 3 \<and> unat v \<noteq> 4" by simp
  then have "\<exists>s4. stream_parse_signature (\<lambda>_. True) s1 = (s4, Inl RNP_ERROR_BAD_FORMAT)"
    using s2(1) s3 by (simp add: stream_parse_signature_def sig_fail_def Let_def)
  moreover have "take 1 (packet_bytes 2 (v # x) @ r) = [0xC2]" "get_packet_type 0xC2 = 2"
    by (simp_all add: packet_bytes_def get_packet_type_def)
  ultimately show ?thesis using s(1) s1(1) by (auto simp: signed_read_single_signature_def append_ok_def)
qed

theorem unparsed_signature_crash_witness:
  "signed_read_signatures (\<lambda>_. True) [zero_onepass] (fst (init_mem_src (\<lambda>_. True) (packet_bytes 2 [5, 0]))) ([] :: nat siginfo list) [] None = None"
  using unparsed_signature_crash [of 5 "[0]" "[]" zero_onepass "[]" "[] :: nat siginfo list" "[]" None] by simp

text \<open>The end of the validity of a signature is computed in 32 bits: a signature whose end is beyond
  them counts as expired although it is not.\<close>

theorem expiry_wraps:
  assumes "signature_get_creation sig = c" "signature_get_expiration sig = e" "c < 2 ^ 32" "e < 2 ^ 32"
    and "2 ^ 32 \<le> c + e" "0 < c" "c + e - 2 ^ 32 < now" "now < 2 ^ 32"
  shows "sig_expired now sig \<and> now < c + e"
  using assms by (simp add: sig_expired_def Let_def mod_if)

theorem expiry_wraps_witness:
  "sig_expired 0x5b000000 (sample_signature\<lparr>sig_subpkts := sig_subpkts sample_signature @
      [\<lparr>sp_type = 3, sp_data = [0xff, 0, 0, 0], sp_critical = False, sp_hashed = True, sp_parsed = True,
        sp_fields = F_expiry 0xff000000\<rparr>]\<rparr>) \<and> (0x5b000000 :: nat) < 0x5a000001 + 0xff000000"
  by (rule expiry_wraps)
    (simp_all add: signature_get_creation_def signature_get_expiration_def signature_get_subpkt_def sample_signature_def)

section \<open>Encrypted data\<close>

text \<open>A block cipher, a hash function, a key derivation and a decrypting party to evaluate the theorems on.\<close>

definition sample_cipher :: block_cipher where
  "sample_cipher = \<lparr>bc_has = \<lambda>_. True, bc_init = \<lambda>_. True, bc_set_key = \<lambda>_ _. True,
     bc_encrypt = \<lambda>_ key block. map (\<lambda>b. b XOR (key ! 0)) block\<rparr>"

definition sample_sha1 :: botan where
  "sample_sha1 = \<lparr>bo_hash_init = \<lambda>_. True, bo_hash_output_length = \<lambda>_. Some 20,
     bo_hash_final = \<lambda>_ bs. Some (replicate 20 (sum_list bs))\<rparr>"

definition sample_pbkdf :: pbkdf where
  "sample_pbkdf = (\<lambda>_ n password salt iterations. Some (replicate n (of_char (hd password))))"

definition sample_decryptor :: "unit decryptor" where
  "sample_decryptor = \<lparr>de_request_key = None, de_passwords = Some (\<lambda>_. Some ''secret''), de_unlock = \<lambda>_. None, de_rsa = \<lambda>_ _. None,
     de_sm2 = \<lambda>_ _. None, de_elgamal = \<lambda>_ _ _. None, de_ecdh = \<lambda>_ _ _. None\<rparr>"

lemma sample_ok: "cipher_ok sample_cipher" "sha1_ok sample_sha1" "pbkdf_ok sample_pbkdf"
  "cipher_usable sample_cipher PGP_SA_AES_256" "cipher_usable sample_cipher PGP_SA_CAST5"
  "de_passwords sample_decryptor = Some (\<lambda>_. Some ''secret'')"
  by (simp_all add: cipher_ok_def sample_cipher_def sha1_ok_def sample_sha1_def PGP_SHA1_HASH_SIZE_def pbkdf_ok_def sample_pbkdf_def
      cipher_usable_def pgp_sa_to_botan_string_def sa_names_def sample_decryptor_def)

text \<open>The information that is made of a password.\<close>

definition sample_pass :: rnp_symmetric_pass_info where
  "sample_pass = \<lparr>pi_s2k = \<lparr>s2k_usage = 254, s2k_specifier = 3, s2k_hash_alg = 8, s2k_salt = replicate 8 1, s2k_iterations = 0\<rparr>,
     pi_s2k_cipher = PGP_SA_CAST5, pi_key = replicate 32 115\<rparr>"

lemma sample_pass_info:
  "rnp_encrypt_set_pass_info sample_pbkdf (Some (replicate 8 1)) ''secret'' 8 1024 PGP_SA_CAST5 = Inr sample_pass"
proof -
  have "pgp_s2k_encode_iterations 1024 = 0"
    by (simp add: pgp_s2k_encode_iterations_def encode_iterations_from.simps [of 0] decode_iterations_eq)
  then show ?thesis
    by (simp add: rnp_encrypt_set_pass_info_def sample_pass_def pgp_s2k_derive_key_def pgp_s2k_iterated_def sample_pbkdf_def PGP_MAX_KEY_SIZE_def)
qed

text \<open>A source of an encrypted packet in memory whose key packets have been read.\<close>

definition sample_enc_param :: "bytes \<Rightarrow> mem_src_param option encrypted_src_param" where
  "sample_enc_param cph =
     \<lparr>es_pkt = \<lparr>ps_readsrc = Whole_src (fst (init_mem_src (\<lambda>_. True) cph)), ps_partial = False, ps_indeterminate = False,
               ps_hdrlen = 2, ps_len = length cph\<rparr>,
      es_symencs = [], es_pubencs = [], es_has_mdc = True, es_mdc_validated = False, es_decrypt = zero_crypt, es_mdc = sha1_ctx []\<rparr>"

lemma sample_enc_param_ok:
  assumes "length cph < 2 ^ 63"
  shows "es_has_mdc (sample_enc_param cph)" "\<not> es_mdc_validated (sample_enc_param cph)"
    "packet_ok mem_src_read mem_rest mem_ok (es_src (sample_enc_param cph))" "packet_rest mem_rest (es_src (sample_enc_param cph)) = cph"
proof -
  obtain s where "init_mem_src (\<lambda>_. True) cph = (s, RNP_SUCCESS)" "src_inv mem_src_read mem_rest mem_ok s" "src_avail mem_rest s = cph"
    using init_mem_src_inv [of "\<lambda>_. True" cph] assms by metis
  then show "es_has_mdc (sample_enc_param cph)" "\<not> es_mdc_validated (sample_enc_param cph)"
    "packet_ok mem_src_read mem_rest mem_ok (es_src (sample_enc_param cph))" "packet_rest mem_rest (es_src (sample_enc_param cph)) = cph"
    by (simp_all add: sample_enc_param_def es_src_def packet_ok_def packet_rest_def)
qed

text \<open>C3. Encrypted data round trip: data that is written in any pieces to an encrypted destination for
  one or more passwords is read back, whole and with its modification detection code found valid, by an encrypted
  source that is given the first of the passwords.  The keys of the passwords are derived by
  \<^const>\<open>rnp_encrypt_set_pass_info\<close>, the other passwords only have to be well formed.\<close>

theorem encrypted_roundtrip:
  assumes "cipher_ok bc" "sha1_ok bo" "pbkdf_ok pbkdf" "cipher_usable bc ealg"
    and "rnp_encrypt_set_pass_info pbkdf (Some salt) password halg iterations s2k_cipher = Inr pass"
      "length salt = PGP_SALT_SIZE" "halg < 256" "cipher_usable bc s2k_cipher"
    and "\<forall>p \<in> set passes. pass_ok bc p"
    and "length rk = pgp_key_size ealg" "length block = pgp_block_size ealg"
    and "de_passwords de = Some pws" "pws 0 = Some password"
    and "2 * length (concat bss) + 64 * length passes + 200 \<le> c" "c < 2 ^ 63"
    and "length (concat bss) + 22 \<le> n" "length (concat bss) < 2 ^ 32" "n < 2 ^ 64"
  shows "\<exists>dst dst' dparam d mem src src'.
    init_encrypted_dst (\<lambda>_. True) bo bc en
      \<lparr>ec_ealg = ealg, ec_recipients = [], ec_passwords = pass # passes, ec_rng_key = \<lambda>_. Some rk, ec_rng_hdr = \<lambda>_. Some block\<rparr>
      (fst (init_mem_dest (\<lambda>_. True) c)) = Inr dst \<and>
    dst_finish (fold (\<lambda>bs d. dst_write d bs) bss dst) = (dst', RNP_SUCCESS) \<and> dst_param dst' = Some dparam \<and>
    close_streamed_packet (ed_pkt dparam) False = Some d \<and> mem_dest_get_memory d = Some mem \<and>
    init_encrypted_src (\<lambda>_. True) bo bc pbkdf de (fst (init_mem_src (\<lambda>_. True) mem)) = Some (Inr src) \<and>
    src_read src n = (src', Some (concat bss)) \<and> src_eofb src' \<and> snd (src_finish src') = RNP_SUCCESS"
proof -
  note p = set_pass_info_ok [OF assms(5,3,6,7,8)]
  have ps: "\<forall>q \<in> set (pass # passes). pass_ok bc q" using p(1) assms(9) by simp
  obtain dst dst' dparam d mem src param key where m:
    "init_encrypted_dst (\<lambda>_. True) bo bc en
      \<lparr>ec_ealg = ealg, ec_recipients = [], ec_passwords = pass # passes, ec_rng_key = \<lambda>_. Some rk, ec_rng_hdr = \<lambda>_. Some block\<rparr>
      (fst (init_mem_dest (\<lambda>_. True) c)) = Inr dst"
    "dst_finish (fold (\<lambda>bs d. dst_write d bs) bss dst) = (dst', RNP_SUCCESS)" "dst_param dst' = Some dparam"
    "close_streamed_packet (ed_pkt dparam) False = Some d" "mem_dest_get_memory d = Some mem"
    "init_encrypted_src (\<lambda>_. True) bo bc pbkdf de (fst (init_mem_src (\<lambda>_. True) mem)) = Some (Inr src)"
    "src_param src = Some param" "pgp_key_size ealg \<le> length key"
    "enc_pending mem_src_read mem_rest mem_ok bc ealg key param (check_bytes block) (concat bss @ mdc_of bo (check_bytes block @ concat bss))"
    "fresh_src src" "src_rdf src = encrypted_src_read bo bc" "src_finishf src = Some encrypted_src_finish"
    "src_knownsize src \<Longrightarrow> length (concat bss) \<le> PARTIAL_PKT_BLOCK_SIZE"
    "src_knownsize src \<Longrightarrow> src_size src = length (concat bss) + 22"
    by (rule encrypted_message [OF assms(4,1,2) ps p(2) assms(10-15), where en = en]) (rule that; assumption)
  define Q where "Q p \<longleftrightarrow> (\<exists>q. p = Some q \<and> enc_checked mem_src_read mem_rest mem_ok q 0)" for p
  have first: "\<exists>p1. src_rdf src (src_param src) k = (p1, Some (concat bss)) \<and> Q p1" if k: "length (concat bss) + 22 \<le> k" for k
  proof -
    have "length (concat bss) < k" using k by simp
    from mem_source.enc_read_last [OF assms(4) m(8) assms(1,2,17) m(9) this] m(7,11) k
    show ?thesis by (metis Q_def diff_is_0_eq)
  qed
  have after: "\<exists>p'. src_rdf src q k = (p', Some []) \<and> Q p'" if "Q q" for q k
    using mem_source.enc_read_after that m(11) by (metis Q_def)
  obtain src' where r: "src_read src n = (src', Some (concat bss))" "src_eofb src'" "Q (src_param src')" "src_finishf src' = src_finishf src"
    by (rule src_read_all [where s = src and N = "length (concat bss) + 22" and Q = Q, OF m(10,14) first after _ assms(16,18)]) simp_all
  then have "snd (src_finish src') = RNP_SUCCESS"
    using m(12) by (auto simp: src_finish_def encrypted_src_finish_def Q_def enc_checked_def)
  with m(1-6) r show ?thesis by blast
qed

theorem encrypted_roundtrip_witness:
  "\<exists>dst dst' dparam d mem src src'.
    init_encrypted_dst (\<lambda>_. True) sample_sha1 sample_cipher (undefined :: unit encryptor)
      \<lparr>ec_ealg = PGP_SA_AES_256, ec_recipients = [], ec_passwords = [sample_pass, sample_pass],
       ec_rng_key = \<lambda>_. Some (replicate 32 9), ec_rng_hdr = \<lambda>_. Some (replicate 16 3)\<rparr>
      (fst (init_mem_dest (\<lambda>_. True) 1000)) = Inr dst \<and>
    dst_finish (fold (\<lambda>bs d. dst_write d bs) [[104, 101], [108, 108, 111]] dst) = (dst', RNP_SUCCESS) \<and> dst_param dst' = Some dparam \<and>
    close_streamed_packet (ed_pkt dparam) False = Some d \<and> mem_dest_get_memory d = Some mem \<and>
    init_encrypted_src (\<lambda>_. True) sample_sha1 sample_cipher sample_pbkdf sample_decryptor (fst (init_mem_src (\<lambda>_. True) mem)) = Some (Inr src) \<and>
    src_read src 100 = (src', Some [104, 101, 108, 108, 111]) \<and> src_eofb src' \<and> snd (src_finish src') = RNP_SUCCESS"
proof -
  have pass: "pass_ok sample_cipher sample_pass"
    using sample_ok(5) by (simp add: pass_ok_def sample_pass_def s2k_wf_def PGP_SALT_SIZE_def PGP_MAX_KEY_SIZE_def)
  show ?thesis
    using encrypted_roundtrip [OF sample_ok(1-4) sample_pass_info _ _ sample_ok(5), of "[sample_pass]" "replicate 32 9" "replicate 16 3"
        sample_decryptor "\<lambda>_. Some ''secret''" "[[104, 101], [108, 108, 111]]" 1000 100 undefined]
      pass sample_ok(6) by (simp add: PGP_SALT_SIZE_def pgp_key_size_def pgp_block_size_def)
qed

text \<open>C4. The modification detection code: whatever the packet contains, when all reads of the source succeed and
  finishing it reports success, the decrypted packet is the check bytes, exactly the data that was delivered, and the
  code that belongs to both.\<close>

theorem mdc_protects:
  assumes "cipher_ok bc" "sha1_ok bo" "es_has_mdc param0" "\<not> es_mdc_validated param0" "packet_ok mem_src_read mem_rest mem_ok (es_src param0)"
    and "encrypted_decrypt_header (\<lambda>_. True) bo bc param0 alg key = (param, True)"
    and "read_calls (encrypted_src_read bo bc) (Some param) ns = Some (p', data)" "snd (encrypted_src_finish p') = RNP_SUCCESS"
  shows "\<exists>hdr. length hdr = pgp_block_size alg + 2 \<and>
    cfb_plain bc alg key (packet_rest mem_rest (es_src param0)) = hdr @ data @ mdc_of bo (hdr @ data)"
proof -
  note h = mem_source.decrypt_header_accepted [OF assms(1-6)]
  from mem_source.enc_calls_protected [OF h(1) assms(1,2) h(2) assms(7,8)] h(3) show ?thesis
    by (intro exI [of _ "cfb_plain bc alg key (take (pgp_block_size alg + 2) (packet_rest mem_rest (es_src param0)))"])
      (simp add: cfb_plain_def)
qed

theorem mdc_protects_witness:
  "\<exists>cph param p' hdr. encrypted_decrypt_header (\<lambda>_. True) sample_sha1 sample_cipher (sample_enc_param cph) PGP_SA_CAST5 (replicate 16 7) = (param, True) \<and>
     read_calls (encrypted_src_read sample_sha1 sample_cipher) (Some param) [25] = Some (p', [1, 2, 3]) \<and> snd (encrypted_src_finish p') = RNP_SUCCESS \<and>
     length hdr = 10 \<and> cfb_plain sample_cipher PGP_SA_CAST5 (replicate 16 7) cph = hdr @ [1, 2, 3] @ mdc_of sample_sha1 (hdr @ [1, 2, 3])"
proof -
  let ?k = "replicate 16 7" and ?hdr = "check_bytes (replicate 8 4)" and ?mdc = "mdc_of sample_sha1 (check_bytes (replicate 8 4) @ [1, 2, 3])"
  define cph where "cph = cfb_cipher sample_cipher PGP_SA_CAST5 ?k (?hdr @ [1, 2, 3] @ ?mdc)"
  have len: "length cph < 2 ^ 63" using length_mdc_of [OF sample_ok(2)] by (simp add: cph_def check_bytes_def)
  note ok = sample_enc_param_ok [OF len]
  have k: "pgp_key_size PGP_SA_CAST5 \<le> length (?k :: bytes)" "length (replicate 8 4 :: bytes) = pgp_block_size PGP_SA_CAST5"
    by (simp_all add: pgp_key_size_def pgp_block_size_def)
  obtain param where h: "encrypted_decrypt_header (\<lambda>_. True) sample_sha1 sample_cipher (sample_enc_param cph) PGP_SA_CAST5 ?k = (param, True)"
    "enc_pending mem_src_read mem_rest mem_ok sample_cipher PGP_SA_CAST5 ?k param ?hdr ([1, 2, 3] @ ?mdc)"
    by (rule mem_source.decrypt_header_pending [OF sample_ok(5) k(1) sample_ok(1,2) k(2) ok(1,3) trans [OF ok(4) cph_def]])
      (rule that; assumption)
  obtain param' where r: "encrypted_src_read sample_sha1 sample_cipher (Some param) 25 = (Some param', Some [1, 2, 3])"
    "enc_checked mem_src_read mem_rest mem_ok param' (length [1, 2, 3 :: byte] + 22 - 25)"
    by (rule mem_source.enc_read_last [OF sample_ok(5) k(1) sample_ok(1,2) _ h(2), of 25]) simp_all
  have c: "read_calls (encrypted_src_read sample_sha1 sample_cipher) (Some param) [25] = Some (Some param', [1, 2, 3])"
    "snd (encrypted_src_finish (Some param')) = RNP_SUCCESS"
    using r by (simp_all add: enc_checked_def encrypted_src_finish_def)
  from mdc_protects [OF sample_ok(1,2) ok(1-3) h(1) c] ok(4) obtain hdr where "length hdr = 10"
    "cfb_plain sample_cipher PGP_SA_CAST5 ?k cph = hdr @ [1, 2, 3] @ mdc_of sample_sha1 (hdr @ [1, 2, 3])"
    by (auto simp: pgp_block_size_def)
  with h(1) c show ?thesis by blast
qed

text \<open>C31. A message of between 32747 and 32767 bytes is written correctly, but a read of one block of it fails: the
  end of the code is only looked at by the first call, and the second call takes what is left of it for a packet
  that is too short.\<close>

theorem encrypted_block_read_fails:
  assumes "cipher_ok bc" "sha1_ok bo" "pbkdf_ok pbkdf" "cipher_usable bc ealg"
    and "rnp_encrypt_set_pass_info pbkdf (Some salt) password halg iterations s2k_cipher = Inr pass"
      "length salt = PGP_SALT_SIZE" "halg < 256" "cipher_usable bc s2k_cipher"
    and "length rk = pgp_key_size ealg" "length block = pgp_block_size ealg"
    and "de_passwords de = Some pws" "pws 0 = Some password"
    and "2 * length data + 200 \<le> c" "c < 2 ^ 63"
    and "PGP_INPUT_CACHE_SIZE \<le> length data + 21" "length data < PGP_INPUT_CACHE_SIZE"
  shows "\<exists>dst dst' dparam d mem src.
    init_encrypted_dst (\<lambda>_. True) bo bc en
      \<lparr>ec_ealg = ealg, ec_recipients = [], ec_passwords = [pass], ec_rng_key = \<lambda>_. Some rk, ec_rng_hdr = \<lambda>_. Some block\<rparr>
      (fst (init_mem_dest (\<lambda>_. True) c)) = Inr dst \<and>
    dst_finish (dst_write dst data) = (dst', RNP_SUCCESS) \<and> dst_param dst' = Some dparam \<and>
    close_streamed_packet (ed_pkt dparam) False = Some d \<and> mem_dest_get_memory d = Some mem \<and>
    init_encrypted_src (\<lambda>_. True) bo bc pbkdf de (fst (init_mem_src (\<lambda>_. True) mem)) = Some (Inr src) \<and>
    snd (src_read src PGP_INPUT_CACHE_SIZE) = None"
proof -
  note p = set_pass_info_ok [OF assms(5,3,6,7,8)]
  have ps: "\<forall>q \<in> set [pass]. pass_ok bc q" using p(1) by simp
  have size: "2 * length (concat [data]) + 64 * length ([] :: rnp_symmetric_pass_info list) + 200 \<le> c" using assms(13) by simp
  obtain dst dst' dparam d mem src param key where m:
    "init_encrypted_dst (\<lambda>_. True) bo bc en
      \<lparr>ec_ealg = ealg, ec_recipients = [], ec_passwords = [pass], ec_rng_key = \<lambda>_. Some rk, ec_rng_hdr = \<lambda>_. Some block\<rparr>
      (fst (init_mem_dest (\<lambda>_. True) c)) = Inr dst"
    "dst_finish (dst_write dst data) = (dst', RNP_SUCCESS)" "dst_param dst' = Some dparam"
    "close_streamed_packet (ed_pkt dparam) False = Some d" "mem_dest_get_memory d = Some mem"
    "init_encrypted_src (\<lambda>_. True) bo bc pbkdf de (fst (init_mem_src (\<lambda>_. True) mem)) = Some (Inr src)"
    "src_param src = Some param" "pgp_key_size ealg \<le> length key"
    "enc_pending mem_src_read mem_rest mem_ok bc ealg key param (check_bytes block) (data @ mdc_of bo (check_bytes block @ data))"
    "fresh_src src" "src_rdf src = encrypted_src_read bo bc" "src_knownsize src \<Longrightarrow> length data \<le> PARTIAL_PKT_BLOCK_SIZE"
    by (rule encrypted_message [OF assms(4,1,2) ps p(2) assms(9-12) size assms(14), where en = en, simplified]) (rule that; simp)
  let ?n = PGP_INPUT_CACHE_SIZE
  have "length data < 2 ^ 32" using assms(16) by (simp add: PGP_INPUT_CACHE_SIZE_def)
  from mem_source.enc_read_last [OF assms(4) m(8) assms(1,2) this m(9) assms(16)]
  obtain param' where r: "encrypted_src_read bo bc (Some param) ?n = (Some param', Some data)"
    "enc_checked mem_src_read mem_rest mem_ok param' (length data + 22 - ?n)" .
  have "snd (src_read src ?n) = None"
  proof (rule src_read_fails [OF m(10)])
    show "\<not> src_knownsize src" using m(12) assms(15) by (auto simp: PGP_INPUT_CACHE_SIZE_def PARTIAL_PKT_BLOCK_SIZE_def PARTIAL_PKT_SIZE_BITS_def)
    show "src_rdf src (src_param src) ?n = (Some param', Some data)" using m(7,11) r(1) by simp
    show "data \<noteq> []" "length data < ?n" using assms(15,16) by (auto simp: PGP_INPUT_CACHE_SIZE_def)
    show "snd (src_rdf src (Some param') ?n) = None"
      unfolding m(11) by (rule mem_source.enc_read_after_error [OF r(2)]) (use assms(15,16) in \<open>simp_all add: PGP_INPUT_CACHE_SIZE_def\<close>)
  qed
  with m(1-6) show ?thesis by blast
qed

theorem encrypted_block_read_fails_witness:
  "\<exists>dst dst' dparam d mem src.
    init_encrypted_dst (\<lambda>_. True) sample_sha1 sample_cipher (undefined :: unit encryptor)
      \<lparr>ec_ealg = PGP_SA_AES_256, ec_recipients = [], ec_passwords = [sample_pass],
       ec_rng_key = \<lambda>_. Some (replicate 32 9), ec_rng_hdr = \<lambda>_. Some (replicate 16 3)\<rparr>
      (fst (init_mem_dest (\<lambda>_. True) 100000)) = Inr dst \<and>
    dst_finish (dst_write dst (replicate 32760 65)) = (dst', RNP_SUCCESS) \<and> dst_param dst' = Some dparam \<and>
    close_streamed_packet (ed_pkt dparam) False = Some d \<and> mem_dest_get_memory d = Some mem \<and>
    init_encrypted_src (\<lambda>_. True) sample_sha1 sample_cipher sample_pbkdf sample_decryptor (fst (init_mem_src (\<lambda>_. True) mem)) = Some (Inr src) \<and>
    snd (src_read src PGP_INPUT_CACHE_SIZE) = None"
  by (rule encrypted_block_read_fails [OF sample_ok(1-4) sample_pass_info _ _ sample_ok(5) _ _ sample_ok(6)])
    (simp_all add: PGP_SALT_SIZE_def pgp_key_size_def pgp_block_size_def PGP_INPUT_CACHE_SIZE_def)

text \<open>C15. Cipher feedback of streams: encrypting data in pieces of any lengths below 4 GiB, with the optimised routine
  that works on words of 64 bits, gives the bytes of the byte-wise reference \<^const>\<open>cfb_run\<close> on the whole data, and
  decrypting those in any other pieces gives the data and leaves the same state.\<close>

theorem cfb_streaming:
  assumes "cipher_ok bc" "pgp_cipher_start bc alg key iv = (c, True)" "list_all (\<lambda>x. length x < 2 ^ 32) pss"
    and "case iv of None \<Rightarrow> True | Some v \<Rightarrow> pgp_block_size alg \<le> length v"
  shows "\<exists>c' cs. cfb_pieces (pgp_cipher_cfb_encrypt bc) c pss = Some (c', cs) \<and>
    cs = snd (cfb_run False (encrypt_block bc (cr_obj c)) (cfb_state c) (concat pss)) \<and>
    (\<forall>css. concat css = cs \<and> list_all (\<lambda>x. length x < 2 ^ 32) css \<longrightarrow>
       cfb_pieces (pgp_cipher_cfb_decrypt bc) c css = Some (c', concat pss))"
proof -
  have ok: "crypt_ok c" by (rule start_crypt_ok [OF assms(2,4)])
  have enc: "pgp_cipher_cfb_encrypt bc = cfb_crypt False bc" "pgp_cipher_cfb_decrypt bc = cfb_crypt True bc"
    by (simp_all add: fun_eq_iff pgp_cipher_cfb_encrypt_def pgp_cipher_cfb_decrypt_def)
  obtain st cs where r: "cfb_run False (encrypt_block bc (cr_obj c)) (cfb_state c) (concat pss) = (st, cs)"
    by (cases "cfb_run False (encrypt_block bc (cr_obj c)) (cfb_state c) (concat pss)")
  have "cfb_pieces (pgp_cipher_cfb_encrypt bc) c pss = Some (with_state c st, cs)"
    unfolding enc using cfb_pieces_run [OF ok assms(1,3), of False] r by simp
  moreover have "cfb_pieces (pgp_cipher_cfb_decrypt bc) c css = Some (with_state c st, concat pss)"
    if "concat css = cs" "list_all (\<lambda>x. length x < 2 ^ 32) css" for css
    unfolding enc using cfb_pieces_run [OF ok assms(1) that(2), of True] that(1) r
      cfb_run_inverse [of "encrypt_block bc (cr_obj c)" "cfb_state c" "concat pss"] by simp
  ultimately show ?thesis using r by auto
qed

theorem cfb_streaming_witness:
  "\<exists>c' cs. cfb_pieces (pgp_cipher_cfb_encrypt sample_cipher) (fst (pgp_cipher_start sample_cipher PGP_SA_CAST5 (replicate 16 7) None))
     [[1, 2, 3], [], [4, 5, 6, 7, 8, 9, 10]] = Some (c', cs) \<and>
   cfb_pieces (pgp_cipher_cfb_decrypt sample_cipher) (fst (pgp_cipher_start sample_cipher PGP_SA_CAST5 (replicate 16 7) None)) [cs] =
     Some (c', [1, 2, 3, 4, 5, 6, 7, 8, 9, 10])"
proof -
  define c where "c = fst (pgp_cipher_start sample_cipher PGP_SA_CAST5 (replicate 16 7) None)"
  have c: "pgp_cipher_start sample_cipher PGP_SA_CAST5 (replicate 16 7) None = (c, True)"
    by (simp add: c_def pgp_cipher_start_def sample_cipher_def pgp_sa_to_botan_string_def sa_names_def Let_def)
  obtain c' cs where s: "cfb_pieces (pgp_cipher_cfb_encrypt sample_cipher) c [[1, 2, 3], [], [4, 5, 6, 7, 8, 9, 10]] = Some (c', cs)"
    "length cs < 2 ^ 32"
    "concat [cs] = cs \<and> list_all (\<lambda>x. length x < 2 ^ 32) [cs] \<longrightarrow>
       cfb_pieces (pgp_cipher_cfb_decrypt sample_cipher) c [cs] = Some (c', concat [[1, 2, 3], [], [4, 5, 6, 7, 8, 9, 10]])"
    using cfb_streaming [OF sample_ok(1) c, of "[[1, 2, 3], [], [4, 5, 6, 7, 8, 9, 10]]"]
    by (auto simp del: cfb_run.simps cfb_pieces.simps)
  then show ?thesis unfolding c_def [symmetric] by (auto simp del: cfb_pieces.simps)
qed

text \<open>Cipher feedback of a fresh state runs out of the register exactly for inputs of 4 GiB or more: the mask that
  rounds the length to whole blocks has only 32 bits.\<close>

theorem cfb_size_limit:
  assumes "cipher_ok bc" "pgp_cipher_start bc alg key None = (c, True)"
  shows "pgp_cipher_cfb_encrypt bc c xs = None \<longleftrightarrow> 2 ^ 32 \<le> length xs"
proof -
  have ok: "crypt_ok c" by (rule start_crypt_ok [OF assms(2)]) simp
  have rem: "cr_remaining c = 0" using assms(2) by (auto simp: pgp_cipher_start_def Let_def zero_crypt_def split: option.splits if_splits)
  note E = cipher_ok_block_map [OF assms(1), of "cr_blocksize c" "cr_obj c"]
  show ?thesis
    using cfb_crypt_run [OF ok E, of xs False] cfb_crypt_overrun [OF ok E, of xs False] rem
    by (cases "length xs < 2 ^ 32") (auto simp: pgp_cipher_cfb_encrypt_def split_def)
qed

theorem cfb_size_limit_witness:
  "pgp_cipher_cfb_encrypt sample_cipher (fst (pgp_cipher_start sample_cipher PGP_SA_CAST5 (replicate 16 7) None)) (replicate (2 ^ 32) 0) = None"
proof -
  have "pgp_cipher_start sample_cipher PGP_SA_CAST5 (replicate 16 7) None =
      (fst (pgp_cipher_start sample_cipher PGP_SA_CAST5 (replicate 16 7) None), True)"
    by (simp add: pgp_cipher_start_def sample_cipher_def pgp_sa_to_botan_string_def sa_names_def Let_def)
  from cfb_size_limit [OF sample_ok(1) this, of "replicate (2 ^ 32) 0"] show ?thesis by (simp only: length_replicate)
qed

section \<open>Keys\<close>

text \<open>A number library, a cipher and keys to evaluate the theorems on.\<close>

definition sample_env :: "nat g10_env" where
  "sample_env = \<lparr>ge_alloc = \<lambda>_. True, ge_mp = nat_mp, ge_botan = sample_sha1, ge_pbkdf = sample_pbkdf,
     ge_cipher = \<lambda>_ _ key _ p. Some (map (\<lambda>b. b XOR (key ! 0)) p), ge_stack = replicate 24 0, ge_stack_at = replicate 15 0\<rparr>"

definition sample_key :: "nat \<Rightarrow> nat \<Rightarrow> nat pgp_seckey" where
  "sample_key usage e = \<lparr>sec_pubkey = zero_pubkey\<lparr>pub_version := 4, pub_alg := PGP_PKA_RSA, pub_key := Pub_rsa 3233 e\<rparr>,
     sec_protection = \<lparr>kp_s2k = \<lparr>s2k_usage = usage, s2k_specifier = 3, s2k_hash_alg = 8, s2k_salt = [], s2k_iterations = 1024\<rparr>,
       kp_symm_alg = 0, kp_cipher_mode = 0, kp_iv = []\<rparr>,
     sec_encrypted = False, sec_key = Sec_rsa 2753 61 53 38, sec_checksum = 0, sec_checkhash = []\<rparr>"

lemma nat_bytes [simp]: "mp_bytes nat_mp n = be_bytes n"
  by (simp add: mp_bytes_def nat_mp_def)

lemma be_bytes_numerals [simp]:
  "be_bytes 3233 = [12, 161]" "be_bytes 2753 = [10, 193]" "be_bytes 61 = [61]" "be_bytes 53 = [53]" "be_bytes 38 = [38]" "be_bytes 17 = [17]"
  "be_bytes 101 = [101]"
  by (simp_all add: be_bytes.simps)

lemma to_byte_Suc: "to_byte (Suc n) = 1 + to_byte n"
  by (simp add: to_byte_def)

lemma be_bytes_3234: "be_bytes 3234 = [12, 162]" by (simp add: be_bytes.simps)

lemma nat_mp_zero: "mp_is_zero nat_mp n \<longleftrightarrow> n = 0" by (simp add: nat_mp_def)

lemma sample_env_ok: "env_ok sample_env" "sha1_ok (ge_botan sample_env)" "cbc_ok sample_env" "ge_mp sample_env = nat_mp"
  using sample_ok(2) by (simp_all add: env_ok_def nat_mp_ok sample_env_def cbc_ok_def comp_def xor.assoc)

lemma sample_key_ok: "g10_key_ok nat_mp (sample_key usage 17)"
  by (simp add: g10_key_ok_def sample_key_def num_ok_def num_block_def high_bit_def RNP_BUFSIZ_def str_bytes_def zero_pubkey_def)

lemma sample_pubkey:
  "pubkey_wf nat_mp (sec_pubkey (sample_key usage 17))"
  "pubkey_enc nat_mp (sec_pubkey (sample_key usage 17)) = [4, 0, 0, 0, 0, 1, 0, 12, 12, 161, 0, 5, 17]"
  "pub_version (sec_pubkey (sample_key usage 17)) = PGP_V4"
proof -
  have b: "mp_bits nat_mp 3233 = 12" "mp_bits nat_mp 17 = 5" by (simp_all add: mp_bits_def nat_mp_def significant_bits.simps)
  then show "pubkey_wf nat_mp (sec_pubkey (sample_key usage 17))"
    by (simp add: pubkey_wf_def sample_key_def zero_pubkey_def pub_material_wf_def is_rsa_alg_def material_numbers_def)
  have "scalar_enc 4 1 = [4]" "scalar_enc 0 4 = [0, 0, 0, 0]" "scalar_enc 1 1 = [1]" "scalar_enc 12 2 = [0, 12]" "scalar_enc 5 2 = [0, 5]"
    by (simp_all add: scalar_enc_def upt_rec)
  with b show "pubkey_enc nat_mp (sec_pubkey (sample_key usage 17)) = [4, 0, 0, 0, 0, 1, 0, 12, 12, 161, 0, 5, 17]"
    by (simp add: sample_key_def zero_pubkey_def pubkey_enc_def pub_material_enc_def bn_enc_def)
qed (simp add: sample_key_def)

text \<open>C13. An S-expression that is written to memory is what the parser makes of the text, and the parser stops behind
  it: for expressions whose lists are not empty and have no block twice and whose blocks are not empty.\<close>

theorem sexp_roundtrip:
  assumes "elem_wf (Sub e)" "length (elem_enc (Sub e)) + length rest < 2 ^ 60"
  shows "\<exists>mem. write_sexp (\<lambda>_. True) e pgp_memory_new = (mem, True) \<and>
    parse_sexp (\<lambda>_. True) (mem_contents mem @ rest) (m_length mem + length rest) = Some (Some (e, rest, length rest))"
proof -
  obtain mem where m: "write_sexp (\<lambda>_. True) e pgp_memory_new = (mem, True)" "mem_contents mem = elem_enc (Sub e)" "buf_ok 78 mem"
    by (rule write_sexp_ok [of pgp_memory_new e]) (use assms(2) in auto)
  have "m_length mem = length (elem_enc (Sub e))" using length_mem_contents [OF m(3)] m(2) by simp
  then show ?thesis using m parse_sexp_enc [OF assms(1), of _ "length rest" rest] assms(2) by (auto simp del: elem_enc.simps)
qed

theorem sexp_roundtrip_witness:
  "\<exists>mem. write_sexp (\<lambda>_. True) [Block [97], Sub [Block [98, 40], Block [41]]] pgp_memory_new = (mem, True) \<and>
    parse_sexp (\<lambda>_. True) (mem_contents mem @ [88, 88]) (m_length mem + 2) =
      Some (Some ([Block [97], Sub [Block [98, 40], Block [41]]], [88, 88], 2))"
  using sexp_roundtrip [of "[Block [97], Sub [Block [98, 40], Block [41]]]" "[88, 88]", unfolded list.size numeral_2_eq_2 [symmetric]]
  by (simp add: LONG_MAX_def print_unsigned.simps numeral_2_eq_2 [symmetric])

text \<open>C19. A secret key that is stored without protection is the key that is loaded: algorithm, public and secret numbers.
  For RSA and DSA keys, none of whose numbers is written with the byte of its own name.\<close>

theorem g10_plain_roundtrip:
  assumes "env_ok env" "g10_key_ok (ge_mp env) key" "s2k_usage (kp_s2k (sec_protection key)) = PGP_S2KU_NONE"
  shows "\<exists>data key'. g10_write_seckey env rng now key pw = Some data \<and>
    g10_parse_seckey env zero_seckey data None pw' = Some (Some key') \<and>
    pub_alg (sec_pubkey key') = pub_alg (sec_pubkey key) \<and> pub_key (sec_pubkey key') = pub_key (sec_pubkey key) \<and>
    sec_key key' = sec_key key \<and> \<not> sec_encrypted key'"
  by (rule plain_roundtrip [OF assms, of rng now pw pw']) (intro exI conjI, assumption+, simp_all)

theorem g10_plain_roundtrip_witness:
  "\<exists>data key'. g10_write_seckey sample_env None [] (sample_key 0 17) ''pw'' = Some data \<and>
    g10_parse_seckey sample_env zero_seckey data None None = Some (Some key') \<and>
    pub_key (sec_pubkey key') = Pub_rsa 3233 17 \<and> sec_key key' = Sec_rsa 2753 61 53 38"
proof -
  have "s2k_usage (kp_s2k (sec_protection (sample_key 0 17))) = 0" by (simp add: sample_key_def)
  from g10_plain_roundtrip [OF sample_env_ok(1) _ this, unfolded sample_env_ok(4), OF sample_key_ok, of None "[]" "''pw''" None]
  show ?thesis by (auto simp: sample_key_def)
qed

text \<open>C5. A secret key that is stored with a password is loaded with the password, and without it only its public
  part, the salt, the iteration count and the initialisation vector are; the file is the nested expression with these in clear
  and the encrypted numbers.  It holds for the RSA and DSA keys none of whose numbers is written with the byte of its own name
  (such a number is lost) and for an iteration count whose digits are not the salt (the same loss); the count is read with the
  bytes of the stack behind it, so the byte there must not be a digit.\<close>

theorem g10_protected_roundtrip:
  assumes "env_ok env" "sha1_ok (ge_botan env)" "cbc_ok env" "g10_key_ok (ge_mp env) key" "protect_ok env key iv salt now"
    and "pgp_s2k_iterated (ge_pbkdf env) PGP_HASH_SHA1 16 pw (Some salt) (s2k_iterations (kp_s2k (sec_protection key))) = Some dk"
      "length dk = 16"
  shows "\<exists>data c key' key''. g10_write_seckey env (Some (iv, salt)) now key pw = Some data \<and>
    data = elem_enc (Sub (protected_sexp (ge_mp env) key iv salt (s2k_iterations (kp_s2k (sec_protection key))) c now)) \<and>
    g10_parse_seckey env zero_seckey data None (Some pw) = Some (Some key') \<and>
    pub_key (sec_pubkey key') = pub_key (sec_pubkey key) \<and> sec_key key' = sec_key key \<and> \<not> sec_encrypted key' \<and>
    g10_parse_seckey env zero_seckey data None None = Some (Some key'') \<and>
    sec_pubkey key'' = sec_pubkey key' \<and> sec_key key'' = Sec_none \<and> sec_encrypted key'' \<and>
    s2k_salt (kp_s2k (sec_protection key'')) = salt \<and>
    s2k_iterations (kp_s2k (sec_protection key'')) = s2k_iterations (kp_s2k (sec_protection key)) \<and>
    take 16 (kp_iv (sec_protection key'')) = iv"
  by (rule protected_roundtrip [OF assms]) (intro exI conjI; assumption)

theorem g10_protected_roundtrip_witness:
  "\<exists>data c key' key''. g10_write_seckey sample_env (Some (replicate 16 2, replicate 8 1)) (replicate 15 48) (sample_key 254 17) ''pw'' = Some data \<and>
    data = elem_enc (Sub (protected_sexp nat_mp (sample_key 254 17) (replicate 16 2) (replicate 8 1) 1024 c (replicate 15 48))) \<and>
    g10_parse_seckey sample_env zero_seckey data None (Some ''pw'') = Some (Some key') \<and> sec_key key' = Sec_rsa 2753 61 53 38 \<and>
    g10_parse_seckey sample_env zero_seckey data None None = Some (Some key'') \<and> sec_encrypted key'' \<and> s2k_salt (kp_s2k (sec_protection key'')) = replicate 8 1"
proof -
  have p: "print_unsigned 1024 = [49, 48, 50, 52]" "[49, 48, 50, 52] \<noteq> replicate 8 (1 :: byte)"
    by (simp add: print_unsigned.simps) (auto dest: arg_cong [where f = length])
  have 1: "protect_ok sample_env (sample_key 254 17) (replicate 16 2) (replicate 8 1) (replicate 15 48)"
    using p(2) by (simp add: protect_ok_def sample_key_def sample_env_def p(1) UINT_MAX_def UINT_BUF_SIZE_def is_digit_def)
  have 2: "pgp_s2k_iterated (ge_pbkdf sample_env) PGP_HASH_SHA1 16 ''pw'' (Some (replicate 8 1))
      (s2k_iterations (kp_s2k (sec_protection (sample_key 254 17)))) = Some (replicate 16 112)"
    by (simp add: pgp_s2k_iterated_def sample_env_def sample_pbkdf_def)
  have it: "s2k_iterations (kp_s2k (sec_protection (sample_key 254 17))) = 1024" by (simp add: sample_key_def)
  from g10_protected_roundtrip [OF sample_env_ok(1-3) _ 1 2, unfolded sample_env_ok(4), OF sample_key_ok]
  have "\<exists>data c key' key''. g10_write_seckey sample_env (Some (replicate 16 2, replicate 8 1)) (replicate 15 48) (sample_key 254 17) ''pw'' = Some data \<and>
    data = elem_enc (Sub (protected_sexp nat_mp (sample_key 254 17) (replicate 16 2) (replicate 8 1) 1024 c (replicate 15 48))) \<and>
    g10_parse_seckey sample_env zero_seckey data None (Some ''pw'') = Some (Some key') \<and> sec_key key' = sec_key (sample_key 254 17) \<and>
    g10_parse_seckey sample_env zero_seckey data None None = Some (Some key'') \<and> sec_encrypted key'' \<and> s2k_salt (kp_s2k (sec_protection key'')) = replicate 8 1"
    unfolding it by (auto simp del: elem_enc.simps)
  then show ?thesis by (simp add: sample_key_def del: elem_enc.simps)
qed

text \<open>C28. A key with a number that is written with the byte of its own name is stored without a complaint and cannot be loaded
  again: the exponent 101 of an RSA key is the letter e, and a block that is already in a list is not added to it.\<close>

theorem g10_exponent_lost:
  assumes "env_ok env" "pub_alg (sec_pubkey key) = PGP_PKA_RSA" "pub_key (sec_pubkey key) = Pub_rsa n e" "sec_key key = Sec_rsa d p q u"
    and "num_ok (ge_mp env) ''n'' n" "num_ok (ge_mp env) ''d'' d" "num_ok (ge_mp env) ''p'' p" "num_ok (ge_mp env) ''q'' q"
      "num_ok (ge_mp env) ''u'' u" "mp_bytes (ge_mp env) e = [101]"
    and "s2k_usage (kp_s2k (sec_protection key)) = PGP_S2KU_NONE"
  shows "\<exists>data. g10_write_seckey env rng now key pw = Some data \<and> g10_parse_seckey env zero_seckey data None pw' = Some None"
  using exponent_lost [OF assms] by blast

theorem g10_exponent_lost_witness:
  "\<exists>data. g10_write_seckey sample_env None [] (sample_key 0 101) ''pw'' = Some data \<and>
    g10_parse_seckey sample_env zero_seckey data None None = Some None"
  by (rule g10_exponent_lost [OF sample_env_ok(1), of "sample_key 0 101" 3233 101 2753 61 53 38])
     (simp_all add: sample_key_def sample_env_ok(4) num_ok_def num_block_def high_bit_def RNP_BUFSIZ_def str_bytes_def)

text \<open>C29. A text that ends behind a nested expression makes the parser read behind the end of the memory, whatever the expression
  is: the length that is left is not looked at there.\<close>

theorem sexp_reads_past_end:
  assumes "elem_wf (Sub e)" "length (elem_enc (Sub e)) < 2 ^ 60"
  shows "parse_sexp (\<lambda>_. True) (40 # elem_enc (Sub e)) (1 + length (elem_enc (Sub e))) = None"
proof -
  let ?es = "concat (map elem_enc e) @ [41]"
  have "parse_sexp (\<lambda>_. True) (elem_enc (Sub e) @ []) (length (elem_enc (Sub e))) = Some (Some (e, [], 0))"
    by (rule parse_sexp_enc [OF assms(1)]) (use assms(2) in auto)
  then have "parse_loop (\<lambda>_. True) [] ?es (length ?es) = Some (Some (e, [], 0))" by (simp add: parse_sexp_def)
  then show ?thesis by (simp add: parse_sexp_def parse_loop.simps [of _ _ "40 # _"])
qed

theorem sexp_reads_past_end_witness: "parse_sexp (\<lambda>_. True) [40, 40, 49, 58, 98, 41] (length [40 :: byte, 40, 49, 58, 98, 41]) = None"
  using sexp_reads_past_end [of "[Block [98]]"] by (simp add: LONG_MAX_def print_unsigned.simps)

text \<open>C20. The packet of a public key: a header with tag 6 and the length, and the version, the time of creation, the days of
  validity before version 4, the algorithm and the numbers of the key; for every algorithm of the library.\<close>

theorem pubkey_packet:
  assumes "mp_ok mp" "pubkey_wf mp key"
  shows "\<exists>mem. pgp_build_pubkey mp (\<lambda>_. True) pgp_memory_new key True = (mem, True) \<and>
    mem_contents mem = packet_bytes 6 (pubkey_enc mp key)"
  by (rule build_pubkey_packet [OF assms])

theorem pubkey_packet_witness:
  "\<exists>mem. pgp_build_pubkey nat_mp (\<lambda>_. True) pgp_memory_new (sec_pubkey (sample_key 0 17)) True = (mem, True) \<and>
    mem_contents mem = [198, 13, 4, 0, 0, 0, 0, 1, 0, 12, 12, 161, 0, 5, 17]"
  using pubkey_packet [OF nat_mp_ok sample_pubkey(1)] by (simp add: sample_pubkey(2) packet_bytes_def write_packet_len_def to_byte_Suc)

text \<open>C14. The fingerprint of a key of version 4 is the SHA-1 digest of a byte 0x99, the length of the body in two bytes and the body
  of the packet of the public key, and the identifier is the last eight bytes of the fingerprint.\<close>

theorem v4_fingerprint:
  assumes "mp_ok mp" "sha1_ok bo" "pubkey_wf mp key" "pub_version key = PGP_V4" "length (fp_fingerprint fp) = PGP_FINGERPRINT_SIZE"
  defines "body \<equiv> pubkey_enc mp key"
  defines "digest \<equiv> sha1 bo (0x99 # to_byte (length body div 256) # to_byte (length body) # body)"
  shows "pgp_fingerprint mp (\<lambda>_. True) bo fp key = (\<lparr>fp_fingerprint = digest, fp_length = 20\<rparr>, Inr True) \<and>
    pgp_keyid mp (\<lambda>_. True) bo finger 8 key = Some (Some (drop 12 digest))"
proof -
  have "digest = v4_digest mp bo key" by (simp add: digest_def body_def v4_digest_def)
  moreover have "length digest = 20" using sha1 [OF assms(2)] by (simp add: digest_def PGP_SHA1_HASH_SIZE_def)
  ultimately show ?thesis
    using fingerprint_v4 [OF assms(1-4), of fp] keyid_v4 [OF assms(1-4), of finger] assms(5)
    by (simp add: mem_write_def PGP_SHA1_HASH_SIZE_def PGP_FINGERPRINT_SIZE_def)
qed

theorem v4_fingerprint_witness:
  "fst (pgp_fingerprint nat_mp (\<lambda>_. True) sample_sha1 \<lparr>fp_fingerprint = replicate 20 0, fp_length = 0\<rparr> (sec_pubkey (sample_key 0 17))) =
     \<lparr>fp_fingerprint = replicate 20 122, fp_length = 20\<rparr>"
  using v4_fingerprint [OF nat_mp_ok sample_ok(2) sample_pubkey(1), of 0 "\<lparr>fp_fingerprint = replicate 20 0, fp_length = 0\<rparr>"]
  by (simp add: sample_pubkey(2,3) sha1_def sample_sha1_def to_byte_Suc PGP_FINGERPRINT_SIZE_def)

text \<open>C30. Keys of elliptic curves have grips that do not tell them apart: the grip depends on all bytes of the point but the last
  one, when the first byte has no high bit, as in every encoding of a point that the library writes.\<close>

theorem grip_ignores_last_byte:
  assumes "mp_ok mp" "sha1_ok bo" "pub_alg key \<in> {PGP_PKA_ECDSA, PGP_PKA_EDDSA, PGP_PKA_SM2}" "pub_key key = Pub_ecc curve x"
    and "mp_bytes mp x = a # point @ [b]" "mp_bytes mp y = a # point @ [c]" "\<not> bit a 7" "\<not> mp_is_zero mp x" "\<not> mp_is_zero mp y"
  shows "rnp_key_store_get_key_grip mp (\<lambda>_. True) bo key = Some (sha1 bo (0 # a # point)) \<and>
    rnp_key_store_get_key_grip mp (\<lambda>_. True) bo (key\<lparr>pub_key := Pub_ecc curve y\<rparr>) = rnp_key_store_get_key_grip mp (\<lambda>_. True) bo key"
proof -
  have "\<not> high_bit (mp_bytes mp x)" "\<not> high_bit (mp_bytes mp y)" using assms(5-7) by (simp_all add: high_bit_def)
  moreover have "\<not> bn_is_zero mp x" "\<not> bn_is_zero mp y" using assms(8,9) by (simp_all add: bn_is_zero_def)
  ultimately show ?thesis
    using grip_of_point [OF assms(1) _ _ _ assms(2), of x key curve] grip_of_point [OF assms(1) _ _ _ assms(2), of y "key\<lparr>pub_key := Pub_ecc curve y\<rparr>" curve]
      assms(3-6) by (simp add: butlast_append)
qed

theorem grip_ignores_last_byte_witness:
  "rnp_key_store_get_key_grip nat_mp (\<lambda>_. True) sample_sha1 (zero_pubkey\<lparr>pub_alg := PGP_PKA_ECDSA, pub_key := Pub_ecc 1 3233\<rparr>) =
   rnp_key_store_get_key_grip nat_mp (\<lambda>_. True) sample_sha1 (zero_pubkey\<lparr>pub_alg := PGP_PKA_ECDSA, pub_key := Pub_ecc 1 3234\<rparr>)"
  using grip_ignores_last_byte [OF nat_mp_ok sample_ok(2), of "zero_pubkey\<lparr>pub_alg := PGP_PKA_ECDSA, pub_key := Pub_ecc 1 3233\<rparr>" 1 3233 12 "[]" 161 3234 162]
  by (simp add: be_bytes_3234 nat_mp_zero)

section \<open>Linked lists\<close>

text \<open>C11. A linked list is a list: any sequence of operations that append, insert, insert before or
  behind an item and remove an item never goes wrong, and leaves what the same operations
  on a list of data leave, read from the front to the back, with its length in 64 bits.\<close>

theorem linked_list_refines:
  assumes "heap_ok h0" "list_all lst_op_ok ops"
  shows "\<exists>h var p. run_lst_ops (\<lambda>_. True) (h0, None) ops = Some (h, var) \<and> list_front h var = Some p \<and>
    list_contents h p = Some (abs_lst_ops ops) \<and> list_length h var = Some (of_nat (length (abs_lst_ops ops)))"
proof -
  obtain h var xs where r: "run_lst_ops (\<lambda>_. True) (h0, None) ops = Some (h, var)" "owned h0 h var xs"
    "map snd xs = abs_lst_ops ops"
    using run_lst_ops_owned [OF owned_start [OF assms(1)] assms] by (auto simp: abs_lst_ops_def)
  moreover have "list_contents h (get_data_ptr (first_of xs None)) = Some (map snd xs)"
    using list_contents_owned [of h0 h var "[]" xs] r(2) by simp
  moreover have "length xs = length (abs_lst_ops ops)" using r(3) by (metis length_map)
  ultimately show ?thesis using owned_front(1,3) [OF r(2)] by simp
qed

text \<open>An empty heap.\<close>

definition empty_heap :: heap where
  "empty_heap = \<lparr>hp_heads = (\<lambda>_. None), hp_items = (\<lambda>_. None), hp_next = 0\<rparr>"

lemma empty_heap_ok: "heap_ok empty_heap"
  by (simp add: heap_ok_def empty_heap_def)

theorem linked_list_refines_witness:
  "\<exists>h var p. run_lst_ops (\<lambda>_. True) (empty_heap, None)
      [Op_append [1], Op_insert [2], Op_insert_after 0 [3], Op_remove 2, Op_insert_before 1 [4]] = Some (h, var) \<and>
    list_front h var = Some p \<and> list_contents h p = Some [[2], [4], [3]] \<and> list_length h var = Some 3"
  using linked_list_refines [OF empty_heap_ok, of "[Op_append [1], Op_insert [2], Op_insert_after 0 [3], Op_remove 2, Op_insert_before 1 [4]]"]
  by (simp add: abs_lst_ops_def)

text \<open>C25. Destroying a list after any such sequence gives back exactly the memory that was
  allocated for it: the heap has the heads and items that it had before the list was made.\<close>

theorem linked_list_no_leak:
  assumes "heap_ok h0" "list_all lst_op_ok ops" "run_lst_ops (\<lambda>_. True) (h0, None) ops = Some (h, var)"
  shows "\<exists>h'. list_destroy h (Some var) = Some (h', Some None) \<and> hp_items h' = hp_items h0 \<and> hp_heads h' = hp_heads h0"
proof -
  obtain xs where "owned h0 h var xs"
    using run_lst_ops_owned [OF owned_start [OF assms(1)] assms(1,2)] assms(3) by auto
  then show ?thesis using assms(1) by (rule destroy_owned)
qed

theorem linked_list_no_leak_witness:
  "\<exists>h var h'. run_lst_ops (\<lambda>_. True) (empty_heap, None) [Op_append [1], Op_insert [2]] = Some (h, var) \<and>
    list_destroy h (Some var) = Some (h', Some None) \<and> hp_items h' = (\<lambda>_. None)"
proof -
  have "list_all lst_op_ok [Op_append [1], Op_insert [2]]" by simp
  moreover from this obtain h var where "run_lst_ops (\<lambda>_. True) (empty_heap, None) [Op_append [1], Op_insert [2]] = Some (h, var)"
    using run_lst_ops_owned [OF owned_start [OF empty_heap_ok] empty_heap_ok] by blast
  ultimately show ?thesis using linked_list_no_leak [OF empty_heap_ok] by (fastforce simp: empty_heap_def)
qed

text \<open>Searching finds the first item that begins with the given bytes, and nothing if there is
  none, as long as no item is shorter than the bytes that are compared.\<close>

theorem linked_list_find:
  assumes "heap_ok h0" "list_all lst_op_ok ops" "run_lst_ops (\<lambda>_. True) (h0, None) ops = Some (h, var)"
    and "\<forall>d \<in> set (abs_lst_ops ops). n \<le> length d" "0 < n" "n \<le> length bs"
  shows "list_find h var (Some bs) n =
    list_item_at h var (length (takeWhile (\<lambda>d. take n d \<noteq> take n bs) (abs_lst_ops ops)))"
proof -
  obtain xs where xs: "owned h0 h var xs" "map snd xs = abs_lst_ops ops"
    using run_lst_ops_owned [OF owned_start [OF assms(1)] assms(1,2)] assms(3) by (auto simp: abs_lst_ops_def)
  show ?thesis using list_find_owned [OF xs(1) _ assms(5,6)] assms(4) unfolding xs(2) by blast
qed

theorem linked_list_find_witness:
  "\<exists>h var. run_lst_ops (\<lambda>_. True) (empty_heap, None) [Op_append [1, 5], Op_append [2, 6], Op_append [2, 7]] = Some (h, var) \<and>
    list_find h var (Some [2]) 1 = list_item_at h var 1"
proof -
  let ?ops = "[Op_append [1, 5], Op_append [2, 6], Op_append [2, 7]]"
  have ok: "list_all lst_op_ok ?ops" by simp
  then obtain h var where r: "run_lst_ops (\<lambda>_. True) (empty_heap, None) ?ops = Some (h, var)"
    using run_lst_ops_owned [OF owned_start [OF empty_heap_ok] empty_heap_ok] by blast
  have "list_find h var (Some [2]) 1 = list_item_at h var 1"
    using linked_list_find [OF empty_heap_ok ok r, of 1 "[2]"] by (simp add: abs_lst_ops_def)
  with r show ?thesis by blast
qed

text \<open>When an item cannot be allocated, appending returns the null pointer and the list is as
  before; a head that was made for it is freed again.\<close>

theorem linked_list_no_memory:
  assumes "heap_ok h0" "list_all lst_op_ok ops" "run_lst_ops (\<lambda>_. True) (h0, None) ops = Some (h, var)"
    and "\<not> al (24 + n)" "24 + n < 2 ^ 64"
  shows "\<exists>h' p. list_append al h (Some var) data n = Some (h', Some var, None) \<and>
    list_front h' var = Some p \<and> list_contents h' p = Some (abs_lst_ops ops)"
proof -
  obtain xs where xs: "owned h0 h var xs" "map snd xs = abs_lst_ops ops"
    using run_lst_ops_owned [OF owned_start [OF assms(1)] assms(1,2)] assms(3) by (auto simp: abs_lst_ops_def)
  obtain h' where h': "list_do_insert al h (Some var) None data n = Some (h', Some var, None)" "owned h0 h' var xs"
    by (rule do_insert_no_memory [where al = al and n = n, OF xs(1) assms(1,5,4)])
  then show ?thesis
    using owned_front(1) [OF h'(2)] list_contents_owned [of h0 h' var "[]" xs] xs(2)
    by (simp add: list_append_def get_data_ptr_def)
qed

theorem linked_list_no_memory_witness:
  "\<exists>h'. list_append (\<lambda>n. n < 30) empty_heap (Some None) None 100 = Some (h', Some None, None)"
  using linked_list_no_memory [OF empty_heap_ok, of "[]" empty_heap None "\<lambda>n. n < 30" 100 None] by auto

end
